(* ===== verification/Anolis_Prelude.thy ===== *)
theory Anolis_Prelude
  imports Main "HOL-Library.Word" "HOL-Library.AList" "HOL-Library.Sublist"
    "HOL-Library.List_Lexorder" "HOL-Library.Char_ord"
begin

text \<open>
  Shared vocabulary of the development: names for the machine integers and clocks of the
  C++ sources, decimal printing (\<open>std::to_string\<close>), the two string searches the code
  uses (\<open>find\<close>, \<open>rfind\<close>), and the two dictionary representations.

  A \<open>std::unordered_map\<close> is an association list with distinct keys whose order is the
  (unspecified but fixed) iteration order: \<open>operator[]\<close> assignment is \<open>AList.update\<close>,
  \<open>erase\<close> is \<open>AList.delete\<close>, \<open>find\<close> is \<open>map_of\<close>. A \<open>std::map\<close> is an association
  list sorted by key, with \<open>omap_put\<close> as assignment. Both satisfy the interface
  \<open>dictionary\<close>, in which the lemmas about folds of insertions are proved once.
\<close>

section \<open>Names\<close>

type_synonym u8 = "8 word"
type_synonym u32 = "32 word"
type_synonym u64 = "64 word"

text \<open>Clock readings and durations are integers counting nanoseconds, as in
  \<open>std::chrono\<close> on the supported platforms; \<open>time_point{}\<close> is \<open>0\<close>.\<close>

type_synonym time_ns = int
type_synonym duration_ms = int

named_theorems op_defs \<open>unfolding of the operations of a component\<close>
named_theorems inv_intros \<open>invariant preservation, one fact per operation\<close>

section \<open>Chrono conversions\<close>

text \<open>\<open>duration_cast<milliseconds>\<close> truncates towards zero.\<close>

definition ns_to_ms :: "time_ns \<Rightarrow> duration_ms" where
  "ns_to_ms d = (if 0 \<le> d then d div 1000000 else - ((- d) div 1000000))"

definition ns_to_s :: "time_ns \<Rightarrow> int" where
  "ns_to_s d = (if 0 \<le> d then d div 1000000000 else - ((- d) div 1000000000))"

definition ms_to_ns :: "duration_ms \<Rightarrow> time_ns" where
  "ms_to_ns m = m * 1000000"

section \<open>Strings\<close>

fun nat_to_string :: "nat \<Rightarrow> string" where
  "nat_to_string n =
     (if n < 10 then [char_of (48 + n)]
      else nat_to_string (n div 10) @ [char_of (48 + n mod 10)])"

definition int_to_string :: "int \<Rightarrow> string" where
  "int_to_string i = (if i < 0 then CHR ''-'' # nat_to_string (nat (- i)) else nat_to_string (nat i))"

text \<open>\<open>haystack.find(pat) != npos\<close>.\<close>

fun contains_str :: "string \<Rightarrow> string \<Rightarrow> bool" where
  "contains_str pat [] = (pat = [])"
| "contains_str pat (c # cs) = (prefix pat (c # cs) \<or> contains_str pat cs)"

text \<open>\<open>find(sep)\<close> and the two \<open>substr\<close> calls around it; \<open>None\<close> for \<open>npos\<close>.\<close>

fun split_first :: "char \<Rightarrow> string \<Rightarrow> (string \<times> string) option" where
  "split_first sep [] = None"
| "split_first sep (c # cs) =
     (if c = sep then Some ([], cs)
      else map_option (\<lambda>(a, b). (c # a, b)) (split_first sep cs))"

text \<open>The same around \<open>rfind(sep)\<close>.\<close>

definition split_last :: "char \<Rightarrow> string \<Rightarrow> (string \<times> string) option" where
  "split_last sep s = map_option (\<lambda>(a, b). (rev b, rev a)) (split_first sep (rev s))"

text \<open>Comma separated listing, as the error messages print it.\<close>

fun join_comma :: "string list \<Rightarrow> string" where
  "join_comma [] = []"
| "join_comma [s] = s"
| "join_comma (s # t # ss) = s @ '', '' @ join_comma (t # ss)"

section \<open>Ordered dictionaries\<close>

fun omap_put :: "'k::linorder \<Rightarrow> 'v \<Rightarrow> ('k \<times> 'v) list \<Rightarrow> ('k \<times> 'v) list" where
  "omap_put k v [] = [(k, v)]"
| "omap_put k v ((k', v') # r) =
     (if k < k' then (k, v) # (k', v') # r
      else if k = k' then (k, v) # r
      else (k', v') # omap_put k v r)"

fun oset_put :: "'k::linorder \<Rightarrow> 'k list \<Rightarrow> 'k list" where
  "oset_put k [] = [k]"
| "oset_put k (k' # r) =
     (if k < k' then k # k' # r else if k = k' then k' # r else k' # oset_put k r)"

text \<open>Keys strictly increasing: the shape of a \<open>std::map\<close>.\<close>

definition omap_ok :: "('k::linorder \<times> 'v) list \<Rightarrow> bool" where
  "omap_ok m = sorted_wrt (<) (map fst m)"

definition umap_ok :: "('k \<times> 'v) list \<Rightarrow> bool" where
  "umap_ok m = distinct (map fst m)"

section \<open>Chrono lemmas\<close>

lemma ns_to_ms_mono: "a \<le> b \<Longrightarrow> ns_to_ms a \<le> ns_to_ms b"
proof (cases "0 \<le> a")
  case True
  assume "a \<le> b"
  with True show ?thesis by (simp add: ns_to_ms_def zdiv_mono1)
next
  case False
  assume ab: "a \<le> b"
  show ?thesis
  proof (cases "0 \<le> b")
    case True
    have "0 \<le> (- a) div 1000000" using False by (simp add: pos_imp_zdiv_nonneg_iff)
    moreover have "0 \<le> b div 1000000" using True by (simp add: pos_imp_zdiv_nonneg_iff)
    ultimately show ?thesis using False True by (simp add: ns_to_ms_def)
  next
    case False
    with \<open>\<not> 0 \<le> a\<close> ab show ?thesis by (simp add: ns_to_ms_def zdiv_mono1)
  qed
qed

lemma ns_to_ms_to_ns [simp]: "ns_to_ms (ms_to_ns m) = m"
proof -
  have "- (m * 1000000) div 1000000 = - m"
    by (metis mult_minus_left nonzero_mult_div_cancel_right zero_neq_numeral)
  then show ?thesis by (simp add: ns_to_ms_def ms_to_ns_def)
qed

text \<open>A whole number of milliseconds has elapsed exactly when the nanosecond bound is met.\<close>

lemma ms_le_ns_to_ms: "0 < m \<Longrightarrow> m \<le> ns_to_ms d \<longleftrightarrow> ms_to_ns m \<le> d"
proof
  assume m: "0 < m" and le: "m \<le> ns_to_ms d"
  then have d: "0 \<le> d"
    by (cases "0 \<le> d") (auto simp: ns_to_ms_def pos_imp_zdiv_nonneg_iff dest: order_trans)
  with le have "m \<le> d div 1000000" by (simp add: ns_to_ms_def)
  then have "m * 1000000 \<le> d" by linarith
  then show "ms_to_ns m \<le> d" by (simp add: ms_to_ns_def)
next
  assume "0 < m" and "ms_to_ns m \<le> d"
  then have "ns_to_ms (ms_to_ns m) \<le> ns_to_ms d" by (intro ns_to_ms_mono)
  then show "m \<le> ns_to_ms d" by simp
qed

section \<open>String lemmas\<close>

declare nat_to_string.simps [simp del]

lemma contains_str_iff: "contains_str pat s \<longleftrightarrow> sublist pat s"
  by (induction s) (auto simp: sublist_Cons_right)

lemma split_first_Some:
  "split_first sep s = Some (a, b) \<longleftrightarrow> s = a @ sep # b \<and> sep \<notin> set a"
proof (induction s arbitrary: a)
  case Nil
  then show ?case by simp
next
  case (Cons c s)
  then show ?case by (cases a) auto
qed

lemma split_first_None: "split_first sep s = None \<longleftrightarrow> sep \<notin> set s"
  by (induction s) auto

lemma split_first_join [simp]: "sep \<notin> set a \<Longrightarrow> split_first sep (a @ sep # b) = Some (a, b)"
  by (simp add: split_first_Some)

lemma split_last_Some:
  "split_last sep s = Some (a, b) \<longleftrightarrow> s = a @ sep # b \<and> sep \<notin> set b"
proof -
  have "split_last sep s = Some (a, b) \<longleftrightarrow> split_first sep (rev s) = Some (rev b, rev a)"
    by (auto simp: split_last_def)
  also have "\<dots> \<longleftrightarrow> rev s = rev b @ sep # rev a \<and> sep \<notin> set b"
    by (simp add: split_first_Some)
  also have "rev s = rev b @ sep # rev a \<longleftrightarrow> s = a @ sep # b"
    by (metis append.assoc append_Cons append_Nil rev.simps(2) rev_append rev_rev_ident)
  finally show ?thesis .
qed

section \<open>The dictionary interface\<close>

locale dictionary =
  fixes put :: "'k \<Rightarrow> 'v \<Rightarrow> ('k \<times> 'v) list \<Rightarrow> ('k \<times> 'v) list"
    and ok :: "('k \<times> 'v) list \<Rightarrow> bool"
  assumes ok_empty: "ok []"
    and ok_put: "ok m \<Longrightarrow> ok (put k v m)"
    and get_put: "map_of (put k v m) k' = (if k' = k then Some v else map_of m k')"
    and ok_distinct: "ok m \<Longrightarrow> distinct (map fst m)"
begin

text \<open>Keys never disappear by an insertion, and a fold of insertions over a source list
  answers like the last entry the list has for a key.\<close>

lemma keys_put: "fst ` set (put k v m) = insert k (fst ` set m)"
proof -
  have "dom (map_of (put k v m)) = insert k (dom (map_of m))"
    by (auto simp: get_put dom_def split: if_splits)
  then show ?thesis by (simp add: dom_map_of_conv_image_fst)
qed

lemma ok_fold: "ok m \<Longrightarrow> ok (fold (\<lambda>x. put (f x) (g x)) xs m)"
  by (induction xs arbitrary: m) (auto intro: ok_put)

lemma get_fold_notin:
  "k \<notin> f ` set xs \<Longrightarrow> map_of (fold (\<lambda>x. put (f x) (g x)) xs m) k = map_of m k"
  by (induction xs arbitrary: m) (auto simp: get_put)

lemma keys_fold:
  "fst ` set (fold (\<lambda>x. put (f x) (g x)) xs m) = f ` set xs \<union> fst ` set m"
  by (induction xs arbitrary: m) (auto simp: keys_put)

lemma get_fold_SomeD:
  "map_of (fold (\<lambda>x. put (f x) (g x)) xs m) k = Some v \<Longrightarrow>
     (\<exists>x \<in> set xs. f x = k \<and> g x = v) \<or> (k \<notin> f ` set xs \<and> map_of m k = Some v)"
proof (induction xs arbitrary: m)
  case Nil
  then show ?case by simp
next
  case (Cons x xs)
  then show ?case by (fastforce simp: get_put split: if_splits)
qed

lemma get_fold_distinct:
  assumes "distinct (map f xs)" and "x \<in> set xs"
  shows "map_of (fold (\<lambda>x. put (f x) (g x)) xs m) (f x) = Some (g x)"
  using assms
proof (induction xs arbitrary: m)
  case Nil
  then show ?case by simp
next
  case (Cons y ys)
  show ?case
  proof (cases "x = y")
    case True
    with Cons.prems have "f x \<notin> f ` set ys" by (simp add: image_def)
    then show ?thesis using True by (simp add: get_fold_notin get_put)
  next
    case False
    with Cons show ?thesis by simp
  qed
qed

end

lemma omap_get_put: "map_of (omap_put k v m) k' = (if k' = k then Some v else map_of m k')"
  by (induction m) auto

lemma omap_keys_put: "fst ` set (omap_put k v m) = insert k (fst ` set m)"
  by (induction k v m rule: omap_put.induct) (auto simp: insert_commute)

lemma set_omap_put: "set (omap_put k v m) \<subseteq> insert (k, v) (set m)"
  by (induction k v m rule: omap_put.induct) auto

lemma omap_put_nonempty [simp]: "omap_put k v m \<noteq> []"
  by (cases m) (auto split: if_splits)

lemma omap_ok_put: "omap_ok m \<Longrightarrow> omap_ok (omap_put k v m)"
proof (induction m)
  case Nil
  then show ?case by (simp add: omap_ok_def)
next
  case (Cons e m)
  obtain k' v' where e: "e = (k', v')" by (cases e)
  from Cons have IH: "omap_ok (omap_put k v m)" and lt: "\<forall>x \<in> fst ` set m. k' < x"
    by (auto simp: omap_ok_def e)
  show ?case
  proof (cases "k < k'")
    case True
    with Cons.prems lt show ?thesis by (force simp: omap_ok_def e)
  next
    case False
    then consider "k = k'" | "k' < k" by fastforce
    then show ?thesis
    proof cases
      case 1
      with Cons.prems show ?thesis by (simp add: omap_ok_def e)
    next
      case 2
      have "\<forall>x \<in> fst ` set (omap_put k v m). k' < x" using lt 2 by (simp add: omap_keys_put)
      with IH 2 show ?thesis by (auto simp: omap_ok_def e)
    qed
  qed
qed

lemma set_oset_put [simp]: "set (oset_put k xs) = insert k (set xs)"
  by (induction xs) auto

interpretation omap: dictionary "omap_put :: 'k::linorder \<Rightarrow> 'v \<Rightarrow> _" omap_ok
proof
  show "omap_ok []" by (simp add: omap_ok_def)
next
  fix m :: "('k \<times> 'v) list" and k v
  show "omap_ok m \<Longrightarrow> omap_ok (omap_put k v m)" by (rule omap_ok_put)
next
  fix m :: "('k \<times> 'v) list" and k k' v
  show "map_of (omap_put k v m) k' = (if k' = k then Some v else map_of m k')"
    by (rule omap_get_put)
next
  fix m :: "('k \<times> 'v) list"
  show "omap_ok m \<Longrightarrow> distinct (map fst m)"
    by (simp add: omap_ok_def strict_sorted_iff)
qed

interpretation umap: dictionary "AList.update :: 'k \<Rightarrow> 'v \<Rightarrow> _" umap_ok
  by unfold_locales (auto simp: umap_ok_def distinct_update update_conv' fun_upd_apply)

section \<open>List lemmas\<close>

lemma filter_keys_distinct: "distinct (map f xs) \<Longrightarrow> distinct (map f (filter P xs))"
  by (simp add: distinct_map_filter)

lemma last_take_nth: "n < length xs \<Longrightarrow> last (take (Suc n) xs) = xs ! n"
  by (simp add: take_Suc_conv_app_nth)

section \<open>Counters\<close>

lemma word_less_succ: "n + 1 \<noteq> 0 \<Longrightarrow> n < n + (1 :: 'a::len word)"
  using unatSuc [of n] by (simp add: word_less_nat_alt add.commute)

lemma word_less_succ_trans: "x < n \<Longrightarrow> n + 1 \<noteq> 0 \<Longrightarrow> x < n + (1 :: 'a::len word)"
  using word_less_succ less_trans by blast

end
