(* ===== verification/Provider_Supervisor.thy ===== *)
theory Provider_Supervisor
  imports Anolis_Prelude
begin

text \<open>
  \<open>core/provider/provider_supervisor.cpp\<close> and the restart policy of
  \<open>provider_config.hpp\<close>: crash streaks, restart backoff, the circuit breaker with its
  half-open probes, and the recovery window. Every method of the class locks its mutex for
  its whole body, so each is one atomic operation here; the clock reading
  \<open>steady_clock::now()\<close> is an argument.

  \<open>record_crash\<close> and \<open>get_backoff_ms\<close> read \<open>backoff_ms[attempt_index]\<close>; on an
  empty schedule the clamped index is \<open>-1\<close> and the read is undefined behaviour, which the
  model returns as \<open>None\<close>.
\<close>

section \<open>State\<close>

record RestartPolicyConfig =
  rp_enabled :: bool
  rp_max_attempts :: int
  rp_backoff_ms :: "int list"
  rp_timeout_ms :: int
  rp_success_reset_ms :: int

definition default_restart_policy :: RestartPolicyConfig where
  "default_restart_policy =
     \<lparr>rp_enabled = False, rp_max_attempts = 3, rp_backoff_ms = [100, 1000, 5000],
      rp_timeout_ms = 30000, rp_success_reset_ms = 1000\<rparr>"

record RestartState =
  rs_attempt_count :: int
  rs_circuit_open :: bool
  rs_crash_detected :: bool
  rs_next_restart_time :: time_ns
  rs_process_start_time :: time_ns
  rs_last_healthy_time :: time_ns

definition initial_restart_state :: RestartState where
  "initial_restart_state =
     \<lparr>rs_attempt_count = 0, rs_circuit_open = False, rs_crash_detected = False,
      rs_next_restart_time = 0, rs_process_start_time = 0, rs_last_healthy_time = 0\<rparr>"

record ProviderSupervisor =
  ps_probe_interval :: duration_ms
  ps_policies :: "string \<rightharpoonup> RestartPolicyConfig"
  ps_states :: "string \<rightharpoonup> RestartState"

record ProviderSupervisionSnapshot =
  sn_supervision_enabled :: bool
  sn_attempt_count :: int
  sn_max_attempts :: int
  sn_crash_detected :: bool
  sn_circuit_open :: bool
  sn_next_restart_in_ms :: "int option"
  sn_last_seen_ago_ms :: "int option"
  sn_uptime_seconds :: int

definition kCircuitProbeInterval :: duration_ms where
  "kCircuitProbeInterval = 60000"

definition new_supervisor :: "duration_ms \<Rightarrow> ProviderSupervisor" where
  "new_supervisor probe_interval =
     \<lparr>ps_probe_interval = probe_interval, ps_policies = Map.empty, ps_states = Map.empty\<rparr>"

section \<open>Operations\<close>

definition register_provider ::
    "ProviderSupervisor \<Rightarrow> string \<Rightarrow> RestartPolicyConfig \<Rightarrow> ProviderSupervisor" where
  "register_provider sv pid policy =
     sv\<lparr>ps_policies := (ps_policies sv)(pid \<mapsto> policy),
        ps_states := (ps_states sv)(pid \<mapsto> initial_restart_state)\<rparr>"

definition put_state :: "ProviderSupervisor \<Rightarrow> string \<Rightarrow> RestartState \<Rightarrow> ProviderSupervisor" where
  "put_state sv pid st = sv\<lparr>ps_states := (ps_states sv)(pid \<mapsto> st)\<rparr>"

definition should_restart :: "ProviderSupervisor \<Rightarrow> string \<Rightarrow> time_ns \<Rightarrow> bool" where
  "should_restart sv pid now =
     (case (ps_policies sv pid, ps_states sv pid) of
        (Some policy, Some st) \<Rightarrow>
          if \<not> rp_enabled policy then False
          else if rs_circuit_open st then False
          else if now < rs_next_restart_time st then False
          else True
      | _ \<Rightarrow> False)"

text \<open>The clamped schedule read shared by \<open>get_backoff_ms\<close> and \<open>record_crash\<close>: past the
  end it is the last entry; an empty schedule is read at index \<open>-1\<close> (undefined).\<close>

definition backoff_at :: "int list \<Rightarrow> int \<Rightarrow> int option" where
  "backoff_at bs attempt_index =
     (let i = (if int (length bs) \<le> attempt_index then int (length bs) - 1 else attempt_index)
      in if 0 \<le> i \<and> i < int (length bs) then Some (bs ! nat i) else None)"

definition get_backoff_ms :: "ProviderSupervisor \<Rightarrow> string \<Rightarrow> int option" where
  "get_backoff_ms sv pid =
     (case (ps_policies sv pid, ps_states sv pid) of
        (Some policy, Some st) \<Rightarrow>
          if rs_attempt_count st = 0 \<or> rs_circuit_open st then Some 0
          else if rs_attempt_count st - 1 < 0 then Some 0
          else backoff_at (rp_backoff_ms policy) (rs_attempt_count st - 1)
      | _ \<Rightarrow> Some 0)"

definition record_crash ::
    "ProviderSupervisor \<Rightarrow> string \<Rightarrow> time_ns \<Rightarrow> (bool \<times> ProviderSupervisor) option" where
  "record_crash sv pid now =
     (case (ps_policies sv pid, ps_states sv pid) of
        (Some policy, Some st) \<Rightarrow>
          if \<not> rp_enabled policy
          then Some (False, put_state sv pid (st\<lparr>rs_circuit_open := True\<rparr>))
          else
            let st = st\<lparr>rs_attempt_count := rs_attempt_count st + 1, rs_process_start_time := 0\<rparr>
            in if rp_max_attempts policy < rs_attempt_count st
               then Some (False, put_state sv pid
                      (st\<lparr>rs_circuit_open := True,
                          rs_next_restart_time := now + ms_to_ns (ps_probe_interval sv)\<rparr>))
               else (case backoff_at (rp_backoff_ms policy) (rs_attempt_count st - 1) of
                       None \<Rightarrow> None
                     | Some backoff_ms \<Rightarrow>
                         Some (True, put_state sv pid
                           (st\<lparr>rs_next_restart_time := now + ms_to_ns backoff_ms\<rparr>)))
      | _ \<Rightarrow> Some (False, sv))"

definition is_circuit_open :: "ProviderSupervisor \<Rightarrow> string \<Rightarrow> bool" where
  "is_circuit_open sv pid = (case ps_states sv pid of None \<Rightarrow> False | Some st \<Rightarrow> rs_circuit_open st)"

definition should_probe :: "ProviderSupervisor \<Rightarrow> string \<Rightarrow> time_ns \<Rightarrow> bool" where
  "should_probe sv pid now =
     (case (ps_policies sv pid, ps_states sv pid) of
        (Some policy, Some st) \<Rightarrow>
          if \<not> rp_enabled policy \<or> \<not> rs_circuit_open st then False
          else rs_next_restart_time st \<le> now
      | _ \<Rightarrow> False)"

definition record_probe_result ::
    "ProviderSupervisor \<Rightarrow> string \<Rightarrow> bool \<Rightarrow> time_ns \<Rightarrow> ProviderSupervisor" where
  "record_probe_result sv pid restarted now =
     (case ps_states sv pid of
        None \<Rightarrow> sv
      | Some st \<Rightarrow>
          if restarted
          then put_state sv pid (st\<lparr>rs_circuit_open := False, rs_crash_detected := False\<rparr>)
          else put_state sv pid
                 (st\<lparr>rs_next_restart_time := now + ms_to_ns (ps_probe_interval sv)\<rparr>))"

definition get_attempt_count :: "ProviderSupervisor \<Rightarrow> string \<Rightarrow> int" where
  "get_attempt_count sv pid = (case ps_states sv pid of None \<Rightarrow> 0 | Some st \<Rightarrow> rs_attempt_count st)"

definition record_success :: "ProviderSupervisor \<Rightarrow> string \<Rightarrow> ProviderSupervisor" where
  "record_success sv pid =
     (case ps_states sv pid of
        None \<Rightarrow> sv
      | Some st \<Rightarrow> put_state sv pid
          (st\<lparr>rs_attempt_count := 0, rs_circuit_open := False, rs_crash_detected := False,
              rs_next_restart_time := 0\<rparr>))"

definition should_mark_recovered :: "ProviderSupervisor \<Rightarrow> string \<Rightarrow> time_ns \<Rightarrow> bool" where
  "should_mark_recovered sv pid now =
     (case (ps_policies sv pid, ps_states sv pid) of
        (Some policy, Some st) \<Rightarrow>
          if \<not> rp_enabled policy \<or> rs_circuit_open st \<or> rs_attempt_count st = 0 then False
          else if rs_process_start_time st = 0 then False
          else rp_success_reset_ms policy \<le> ns_to_ms (now - rs_process_start_time st)
      | _ \<Rightarrow> False)"

definition mark_crash_detected ::
    "ProviderSupervisor \<Rightarrow> string \<Rightarrow> bool \<times> ProviderSupervisor" where
  "mark_crash_detected sv pid =
     (case ps_states sv pid of
        None \<Rightarrow> (False, sv)
      | Some st \<Rightarrow>
          if rs_crash_detected st then (False, sv)
          else (True, put_state sv pid (st\<lparr>rs_crash_detected := True\<rparr>)))"

definition clear_crash_detected :: "ProviderSupervisor \<Rightarrow> string \<Rightarrow> ProviderSupervisor" where
  "clear_crash_detected sv pid =
     (case ps_states sv pid of
        None \<Rightarrow> sv
      | Some st \<Rightarrow> put_state sv pid (st\<lparr>rs_crash_detected := False\<rparr>))"

definition record_heartbeat ::
    "ProviderSupervisor \<Rightarrow> string \<Rightarrow> time_ns \<Rightarrow> ProviderSupervisor" where
  "record_heartbeat sv pid now =
     (case ps_states sv pid of
        None \<Rightarrow> sv
      | Some st \<Rightarrow>
          let st = (if rs_process_start_time st = 0 then st\<lparr>rs_process_start_time := now\<rparr> else st)
          in put_state sv pid (st\<lparr>rs_last_healthy_time := now\<rparr>))"

definition get_snapshot ::
    "ProviderSupervisor \<Rightarrow> string \<Rightarrow> time_ns \<Rightarrow> ProviderSupervisionSnapshot option" where
  "get_snapshot sv pid now =
     (case (ps_policies sv pid, ps_states sv pid) of
        (Some policy, Some st) \<Rightarrow> Some
          \<lparr>sn_supervision_enabled = rp_enabled policy,
           sn_attempt_count = rs_attempt_count st,
           sn_max_attempts = rp_max_attempts policy,
           sn_crash_detected = rs_crash_detected st,
           sn_circuit_open = rs_circuit_open st,
           sn_next_restart_in_ms =
             (if rs_circuit_open st \<or> rs_attempt_count st = 0 then None
              else if rs_next_restart_time st \<le> now then Some 0
              else Some (ns_to_ms (rs_next_restart_time st - now))),
           sn_last_seen_ago_ms =
             (if rs_last_healthy_time st = 0 then None
              else Some (ns_to_ms (now - rs_last_healthy_time st))),
           sn_uptime_seconds =
             (if rs_process_start_time st = 0 then 0
              else ns_to_s (now - rs_process_start_time st))\<rparr>
      | _ \<Rightarrow> None)"

text \<open>\<open>get_all_snapshots\<close> collects the ids, in iteration order, then reads each one under
  its own lock; \<open>ids\<close> is that order and \<open>now_of\<close> the clock reading of each read.\<close>

definition get_all_snapshots ::
    "ProviderSupervisor \<Rightarrow> string list \<Rightarrow> (string \<Rightarrow> time_ns) \<Rightarrow>
     (string \<times> ProviderSupervisionSnapshot) list" where
  "get_all_snapshots sv ids now_of =
     List.map_filter (\<lambda>id. map_option (Pair id) (get_snapshot sv id (now_of id))) ids"


text \<open>A streak of crashes at the given clock readings; \<open>None\<close> if one of them reads the
  schedule out of range.\<close>

fun crash_streak :: "ProviderSupervisor \<Rightarrow> string \<Rightarrow> time_ns list \<Rightarrow> ProviderSupervisor option" where
  "crash_streak sv pid [] = Some sv"
| "crash_streak sv pid (t # ts) =
     (case record_crash sv pid t of None \<Rightarrow> None | Some (_, sv') \<Rightarrow> crash_streak sv' pid ts)"

text \<open>What \<open>validate_config\<close> accepts for an enabled policy.\<close>

definition policy_ok :: "RestartPolicyConfig \<Rightarrow> bool" where
  "policy_ok p \<longleftrightarrow> 1 \<le> rp_max_attempts p \<and> rp_backoff_ms p \<noteq> [] \<and>
     int (length (rp_backoff_ms p)) = rp_max_attempts p \<and> (\<forall>b \<in> set (rp_backoff_ms p). 0 \<le> b)"

section \<open>Lemmas\<close>

lemmas [op_defs] = register_provider_def should_restart_def get_backoff_ms_def record_crash_def
  is_circuit_open_def should_probe_def record_probe_result_def get_attempt_count_def
  record_success_def should_mark_recovered_def mark_crash_detected_def clear_crash_detected_def
  record_heartbeat_def get_snapshot_def

lemma put_state_simps [simp]:
  "ps_policies (put_state sv pid st) = ps_policies sv"
  "ps_probe_interval (put_state sv pid st) = ps_probe_interval sv"
  "ps_states (put_state sv pid st) = (ps_states sv)(pid \<mapsto> st)"
  by (simp_all add: put_state_def)

lemma backoff_at_nonempty: "bs \<noteq> [] \<Longrightarrow> 0 \<le> i \<Longrightarrow> backoff_at bs i = Some (bs ! min (nat i) (length bs - 1))"
proof -
  have "nat (int (length bs) - 1) = length bs - 1" by arith
  moreover assume "bs \<noteq> []" and "0 \<le> i"
  ultimately show ?thesis by (auto simp: backoff_at_def Let_def min_def)
qed

lemma backoff_at_empty: "backoff_at [] i = None"
  by (simp add: backoff_at_def Let_def)

text \<open>One crash of an enabled, validly configured provider.\<close>

lemma record_crash_within_budget:
  assumes "ps_policies sv pid = Some p" and "ps_states sv pid = Some st" and "rp_enabled p"
    and "rp_backoff_ms p \<noteq> []" and "0 \<le> rs_attempt_count st"
    and "rs_attempt_count st + 1 \<le> rp_max_attempts p"
  shows "record_crash sv pid now = Some (True, put_state sv pid
     (st\<lparr>rs_attempt_count := rs_attempt_count st + 1, rs_process_start_time := 0,
         rs_next_restart_time := now + ms_to_ns
           (rp_backoff_ms p ! min (nat (rs_attempt_count st)) (length (rp_backoff_ms p) - 1))\<rparr>))"
  using assms by (simp add: record_crash_def Let_def backoff_at_nonempty)

lemma record_crash_over_budget:
  assumes "ps_policies sv pid = Some p" and "ps_states sv pid = Some st" and "rp_enabled p"
    and "rp_max_attempts p < rs_attempt_count st + 1"
  shows "record_crash sv pid now = Some (False, put_state sv pid
     (st\<lparr>rs_attempt_count := rs_attempt_count st + 1, rs_process_start_time := 0,
         rs_circuit_open := True, rs_next_restart_time := now + ms_to_ns (ps_probe_interval sv)\<rparr>))"
  using assms by (simp add: record_crash_def Let_def)

lemma record_crash_policies:
  "record_crash sv pid now = Some (b, sv') \<Longrightarrow>
     ps_policies sv' = ps_policies sv \<and> ps_probe_interval sv' = ps_probe_interval sv"
  by (auto simp: record_crash_def Let_def split: option.splits if_splits)

text \<open>Every operation on one provider leaves the others alone.\<close>

lemma record_crash_frame:
  "record_crash sv pid now = Some (b, sv') \<Longrightarrow> q \<noteq> pid \<Longrightarrow> ps_states sv' q = ps_states sv q"
  by (auto simp: record_crash_def Let_def split: option.splits if_splits)

lemma supervisor_frame:
  assumes "q \<noteq> pid"
  shows "ps_states (record_probe_result sv pid r now) q = ps_states sv q"
    and "ps_states (record_success sv pid) q = ps_states sv q"
    and "ps_states (snd (mark_crash_detected sv pid)) q = ps_states sv q"
    and "ps_states (clear_crash_detected sv pid) q = ps_states sv q"
    and "ps_states (record_heartbeat sv pid now) q = ps_states sv q"
  using assms by (auto simp: op_defs Let_def split: option.splits)

lemma supervisor_policies [simp]:
  "ps_policies (record_probe_result sv pid r now) = ps_policies sv"
  "ps_policies (record_success sv pid) = ps_policies sv"
  "ps_policies (snd (mark_crash_detected sv pid)) = ps_policies sv"
  "ps_policies (clear_crash_detected sv pid) = ps_policies sv"
  "ps_policies (record_heartbeat sv pid now) = ps_policies sv"
  by (auto simp: op_defs Let_def split: option.splits)

text \<open>The state after a streak, from the state before it: the counter advances by the length
  of the streak and the last crash decides the next permitted restart.\<close>

text \<open>The schedule entry, or the probe interval once the budget is spent, that the crash
  numbered \<open>n\<close> of a streak waits for.\<close>

definition crash_delay :: "RestartPolicyConfig \<Rightarrow> duration_ms \<Rightarrow> int \<Rightarrow> duration_ms" where
  "crash_delay p probe n =
     (if rp_max_attempts p < n then probe
      else rp_backoff_ms p ! min (nat n - 1) (length (rp_backoff_ms p) - 1))"

lemma record_crash_state:
  assumes "ps_policies sv pid = Some p" and "ps_states sv pid = Some st" and "rp_enabled p"
    and "rp_backoff_ms p \<noteq> []" and "0 \<le> rs_attempt_count st"
  obtains b sv' st' where "record_crash sv pid t = Some (b, sv')"
    and "ps_policies sv' = ps_policies sv" and "ps_probe_interval sv' = ps_probe_interval sv"
    and "ps_states sv' pid = Some st'"
    and "rs_attempt_count st' = rs_attempt_count st + 1"
    and "rs_circuit_open st' \<longleftrightarrow> rs_circuit_open st \<or> rp_max_attempts p < rs_attempt_count st + 1"
    and "rs_next_restart_time st' =
           t + ms_to_ns (crash_delay p (ps_probe_interval sv) (rs_attempt_count st + 1))"
proof (cases "rp_max_attempts p < rs_attempt_count st + 1")
  case True
  with assms record_crash_over_budget [of sv pid p st t] that show ?thesis
    by (auto simp: crash_delay_def)
next
  case False
  with assms record_crash_within_budget [of sv pid p st t] that show ?thesis
    by (auto simp: crash_delay_def nat_add_distrib)
qed

lemma crash_streak_state:
  assumes "ps_policies sv pid = Some p" and "ps_states sv pid = Some st" and "rp_enabled p"
    and "rp_backoff_ms p \<noteq> []" and "0 \<le> rs_attempt_count st" and "ts \<noteq> []"
  shows "\<exists>sv' st'. crash_streak sv pid ts = Some sv' \<and> ps_policies sv' = ps_policies sv \<and>
     ps_states sv' pid = Some st' \<and>
     rs_attempt_count st' = rs_attempt_count st + int (length ts) \<and>
     (rs_circuit_open st' \<longleftrightarrow>
        rs_circuit_open st \<or> rp_max_attempts p < rs_attempt_count st + int (length ts)) \<and>
     rs_next_restart_time st' = last ts + ms_to_ns
       (crash_delay p (ps_probe_interval sv) (rs_attempt_count st + int (length ts)))"
  using assms
proof (induction ts arbitrary: sv st)
  case Nil
  then show ?case by simp
next
  case (Cons t ts)
  from record_crash_state [OF Cons.prems(1-5), of t] obtain b sv1 st1
    where step: "record_crash sv pid t = Some (b, sv1)"
      and pol: "ps_policies sv1 = ps_policies sv" "ps_probe_interval sv1 = ps_probe_interval sv"
      and st1: "ps_states sv1 pid = Some st1"
        "rs_attempt_count st1 = rs_attempt_count st + 1"
        "rs_circuit_open st1 \<longleftrightarrow> rs_circuit_open st \<or> rp_max_attempts p < rs_attempt_count st + 1"
        "rs_next_restart_time st1 =
           t + ms_to_ns (crash_delay p (ps_probe_interval sv) (rs_attempt_count st + 1))"
    by blast
  show ?case
  proof (cases "ts = []")
    case True
    with step st1 pol show ?thesis by simp
  next
    case False
    have p1: "ps_policies sv1 pid = Some p" and ge: "0 \<le> rs_attempt_count st1"
      using pol st1 Cons.prems by auto
    from Cons.IH [OF p1 st1(1) Cons.prems(3,4) ge False] show ?thesis
      using step st1(2,3) pol False by (force simp: algebra_simps)
  qed
qed

section \<open>Properties\<close>

text \<open>The restart budget. A provider registered with an enabled, valid policy that crashes
  \<open>k\<close> times in a row has attempt count \<open>k\<close>. Up to \<open>max_attempts\<close> crashes the circuit is
  closed and a restart is permitted exactly from the last crash plus that attempt's backoff on;
  beyond, the circuit is open, no restart is permitted at any time, and the half-open probe
  becomes due exactly one probe interval after the last crash.\<close>

lemma restart_budget:
  assumes "rp_enabled p" and "policy_ok p" and "ts \<noteq> []"
    and "crash_streak (register_provider sv pid p) pid ts = r"
  shows "\<exists>sv'. r = Some sv' \<and> get_attempt_count sv' pid = int (length ts) \<and>
    (is_circuit_open sv' pid \<longleftrightarrow> rp_max_attempts p < int (length ts)) \<and>
    (int (length ts) \<le> rp_max_attempts p \<longrightarrow>
       (\<forall>now. should_restart sv' pid now \<longleftrightarrow>
          last ts + ms_to_ns (rp_backoff_ms p ! (length ts - 1)) \<le> now)) \<and>
    (rp_max_attempts p < int (length ts) \<longrightarrow>
       (\<forall>now. \<not> should_restart sv' pid now \<and>
          (should_probe sv' pid now \<longleftrightarrow> last ts + ms_to_ns (ps_probe_interval sv) \<le> now)))"
proof -
  let ?sv = "register_provider sv pid p"
  have "ps_policies ?sv pid = Some p" "ps_states ?sv pid = Some initial_restart_state"
    "ps_probe_interval ?sv = ps_probe_interval sv"
    by (simp_all add: register_provider_def)
  with crash_streak_state [of ?sv pid p initial_restart_state ts] assms
  obtain sv' st' where sv': "r = Some sv'" "ps_policies sv' pid = Some p" "ps_states sv' pid = Some st'"
    and st': "rs_attempt_count st' = int (length ts)"
      "rs_circuit_open st' \<longleftrightarrow> rp_max_attempts p < int (length ts)"
      "rs_next_restart_time st' =
         last ts + ms_to_ns (crash_delay p (ps_probe_interval sv) (int (length ts)))"
    by (auto simp: initial_restart_state_def policy_ok_def)
  moreover have "int (length ts) \<le> rp_max_attempts p \<Longrightarrow>
      crash_delay p (ps_probe_interval sv) (int (length ts)) = rp_backoff_ms p ! (length ts - 1)"
    using assms(2) by (auto simp: crash_delay_def policy_ok_def min_def)
  ultimately show ?thesis using assms(1)
    by (auto simp: op_defs crash_delay_def)
qed

theorem restart_budget_witness:
  "\<exists>sv'. crash_streak (register_provider (new_supervisor kCircuitProbeInterval) ''sim0''
       (default_restart_policy\<lparr>rp_enabled := True\<rparr>)) ''sim0'' [10, 20, 30, 40] = Some sv' \<and>
     is_circuit_open sv' ''sim0'' \<and> get_attempt_count sv' ''sim0'' = 4"
  using restart_budget [of "default_restart_policy\<lparr>rp_enabled := True\<rparr>" "[10, 20, 30, 40]"
      "new_supervisor kCircuitProbeInterval" "''sim0''", OF _ _ _ refl]
  by (auto simp: policy_ok_def default_restart_policy_def)

text \<open>A budgeted restart and a half-open probe are never both permitted for a provider,
  whatever the two clock readings, and a provider whose policy is disabled is neither restarted
  nor probed in any supervisor state.\<close>

lemma restart_probe_exclusive:
  "\<not> (should_restart sv pid t \<and> should_probe sv pid t') \<and>
   (ps_policies sv pid = Some p \<and> \<not> rp_enabled p \<longrightarrow>
      \<not> should_restart sv pid t \<and> \<not> should_probe sv pid t)"
  by (auto simp: op_defs split: option.splits)

theorem restart_probe_exclusive_witness:
  "\<not> should_restart (register_provider (new_supervisor 1) ''a'' default_restart_policy) ''a'' 5"
  using restart_probe_exclusive
    [of "register_provider (new_supervisor 1) ''a'' default_restart_policy" "''a''" 5 5
        default_restart_policy]
  by (simp add: register_provider_def default_restart_policy_def)

end
