(* ===== verification/Supervision_Loop.thy ===== *)
theory Supervision_Loop
  imports Provider_Supervisor
begin

text \<open>
  The supervision part of \<open>Runtime::run\<close> (\<open>core/runtime/runtime.cpp\<close>): each iteration of
  the main loop collects a finished restart, then visits every configured provider and decides
  between a heartbeat, a crash record, a budgeted restart and a half-open probe. The restart
  itself runs on a worker thread; what the loop sees of it is whether one is in flight, for
  which provider, and its result once ready. Provider availability, readiness of the result and
  the clock are inputs of an iteration.

  The loop returns what it did as a list of actions, so that a whole run has a trace.
\<close>

section \<open>The loop\<close>

text \<open>\<open>restart\<close> is the future together with \<open>restarting_id\<close> and \<open>restart_is_probe\<close>:
  \<open>restart.valid()\<close> holds exactly from \<open>start_restart\<close> to \<open>restart.get()\<close>.\<close>

record SupLoop =
  sl_supervisor :: ProviderSupervisor
  sl_restart :: "(string \<times> bool) option"

datatype action = Restart_Started string bool | Recovered string

definition start_restart :: "SupLoop \<Rightarrow> string \<Rightarrow> bool \<Rightarrow> SupLoop" where
  "start_restart l prov probe = l\<lparr>sl_restart := Some (prov, probe)\<rparr>"

definition collect_restart :: "SupLoop \<Rightarrow> bool option \<Rightarrow> time_ns \<Rightarrow> SupLoop" where
  "collect_restart l ready now =
     (case (sl_restart l, ready) of
        (Some (prov, probe), Some restarted) \<Rightarrow>
          l\<lparr>sl_supervisor :=
               (if probe then record_probe_result (sl_supervisor l) prov restarted now
                else sl_supervisor l),
             sl_restart := None\<rparr>
      | _ \<Rightarrow> l)"

text \<open>One provider in one iteration. \<open>avail\<close> is \<open>None\<close> when the provider registry has no
  handle for it, else its \<open>is_available()\<close>. \<open>t1\<close> and \<open>t2\<close> are the clock readings of the
  first and the second supervisor call that reads the clock.\<close>

definition supervise_provider ::
    "SupLoop \<Rightarrow> string \<Rightarrow> bool option \<Rightarrow> time_ns \<Rightarrow> time_ns \<Rightarrow> (SupLoop \<times> action list) option" where
  "supervise_provider l prov avail t1 t2 =
     (let sv = sl_supervisor l in
      case avail of
        None \<Rightarrow> Some (l, [])
      | Some available \<Rightarrow>
          if map_option fst (sl_restart l) = Some prov then Some (l, [])
          else if \<not> available then
            if is_circuit_open sv prov then
              if sl_restart l = None \<and> should_probe sv prov t1
              then Some (start_restart l prov True, [Restart_Started prov True])
              else Some (l, [])
            else
              (let (newly, sv1) = mark_crash_detected sv prov in
               case (if newly then record_crash sv1 prov t1 else Some (True, sv1)) of
                 None \<Rightarrow> None
               | Some (False, sv2) \<Rightarrow> Some (l\<lparr>sl_supervisor := sv2\<rparr>, [])
               | Some (True, sv2) \<Rightarrow>
                   if sl_restart l = None \<and> should_restart sv2 prov t2
                   then Some (start_restart (l\<lparr>sl_supervisor := clear_crash_detected sv2 prov\<rparr>) prov False,
                              [Restart_Started prov False])
                   else Some (l\<lparr>sl_supervisor := sv2\<rparr>, []))
          else
            (let sv1 = record_heartbeat sv prov t1 in
             if should_mark_recovered sv1 prov t2
             then Some (l\<lparr>sl_supervisor := record_success sv1 prov\<rparr>, [Recovered prov])
             else Some (l\<lparr>sl_supervisor := sv1\<rparr>, [])))"

text \<open>The inputs of one visit: provider, availability and the two clock readings.\<close>

type_synonym visit = "string \<times> bool option \<times> time_ns \<times> time_ns"

fun supervise_all :: "SupLoop \<Rightarrow> visit list \<Rightarrow> (SupLoop \<times> action list) option" where
  "supervise_all l [] = Some (l, [])"
| "supervise_all l ((prov, avail, t1, t2) # vs) =
     (case supervise_provider l prov avail t1 t2 of
        None \<Rightarrow> None
      | Some (l', as) \<Rightarrow>
          (case supervise_all l' vs of None \<Rightarrow> None | Some (l'', bs) \<Rightarrow> Some (l'', as @ bs)))"

text \<open>The loop over iterations. Each brings the restart result if it is ready, the clock reading
  of its collection, and the visits of the providers.\<close>

type_synonym iteration = "bool option \<times> time_ns \<times> visit list"

fun run_loop :: "SupLoop \<Rightarrow> iteration list \<Rightarrow> (SupLoop \<times> action list) option" where
  "run_loop l [] = Some (l, [])"
| "run_loop l ((ready, now, vs) # its) =
     (case supervise_all (collect_restart l ready now) vs of
        None \<Rightarrow> None
      | Some (l', as) \<Rightarrow>
          (case run_loop l' its of None \<Rightarrow> None | Some (l'', bs) \<Rightarrow> Some (l'', as @ bs)))"

text \<open>Budgeted restarts of a provider since it last recovered, read off a trace.\<close>

fun budget_used_from :: "string \<Rightarrow> int \<Rightarrow> action list \<Rightarrow> int" where
  "budget_used_from pid u [] = u"
| "budget_used_from pid u (Restart_Started prov probe # as) =
     budget_used_from pid (if prov = pid \<and> \<not> probe then u + 1 else u) as"
| "budget_used_from pid u (Recovered prov # as) =
     budget_used_from pid (if prov = pid then 0 else u) as"

section \<open>Invariant\<close>

text \<open>What ties the restarts already spent to the supervisor's counters. The strengthening over
  \<open>u \<le> max_attempts\<close> is the last conjunct: a crash that has been recorded but not yet
  answered by a restart is a budget entry that has not been spent.\<close>

definition budget_inv :: "RestartPolicyConfig \<Rightarrow> int \<Rightarrow> RestartState \<Rightarrow> bool" where
  "budget_inv p u st \<longleftrightarrow>
     0 \<le> u \<and> u \<le> rp_max_attempts p \<and> u \<le> rs_attempt_count st \<and>
     (rs_circuit_open st \<longrightarrow> rp_max_attempts p < rs_attempt_count st) \<and>
     (rs_crash_detected st \<and> \<not> rs_circuit_open st \<longrightarrow>
        rs_attempt_count st \<le> rp_max_attempts p \<and> u < rs_attempt_count st)"

definition loop_inv :: "string \<Rightarrow> RestartPolicyConfig \<Rightarrow> int \<Rightarrow> SupLoop \<Rightarrow> bool" where
  "loop_inv pid p u l \<longleftrightarrow>
     ps_policies (sl_supervisor l) pid = Some p \<and>
     (\<exists>st. ps_states (sl_supervisor l) pid = Some st \<and> budget_inv p u st)"

lemma budget_used_append:
  "budget_used_from pid u (as @ bs) = budget_used_from pid (budget_used_from pid u as) bs"
  by (induction pid u as rule: budget_used_from.induct) auto

lemma budget_inv_register: "policy_ok p \<Longrightarrow> budget_inv p 0 initial_restart_state"
  by (simp add: budget_inv_def initial_restart_state_def policy_ok_def)

lemma loop_inv_collect [inv_intros]: "loop_inv pid p u l \<Longrightarrow> loop_inv pid p u (collect_restart l ready now)"
  by (auto simp: loop_inv_def collect_restart_def record_probe_result_def budget_inv_def
        split: option.splits prod.splits)

text \<open>The five branches of a visit, as equations.\<close>

lemma visit_skip:
  "avail = None \<or> map_option fst (sl_restart l) = Some prov \<Longrightarrow>
     supervise_provider l prov avail t1 t2 = Some (l, [])"
  by (auto simp: supervise_provider_def Let_def split: option.splits)

lemma visit_open:
  "map_option fst (sl_restart l) \<noteq> Some prov \<Longrightarrow> is_circuit_open (sl_supervisor l) prov \<Longrightarrow>
   supervise_provider l prov (Some False) t1 t2 =
     (if sl_restart l = None \<and> should_probe (sl_supervisor l) prov t1
      then Some (start_restart l prov True, [Restart_Started prov True]) else Some (l, []))"
  by (simp add: supervise_provider_def Let_def)

lemma visit_crash:
  assumes "map_option fst (sl_restart l) \<noteq> Some prov" and "\<not> is_circuit_open (sl_supervisor l) prov"
    and "mark_crash_detected (sl_supervisor l) prov = (newly, sv1)"
    and "(if newly then record_crash sv1 prov t1 else Some (True, sv1)) = Some (ok, sv2)"
  shows "supervise_provider l prov (Some False) t1 t2 =
     (if ok \<and> sl_restart l = None \<and> should_restart sv2 prov t2
      then Some (start_restart (l\<lparr>sl_supervisor := clear_crash_detected sv2 prov\<rparr>) prov False,
                 [Restart_Started prov False])
      else Some (l\<lparr>sl_supervisor := sv2\<rparr>, []))"
  using assms by (cases ok) (simp_all add: supervise_provider_def Let_def)

lemma visit_healthy:
  "map_option fst (sl_restart l) \<noteq> Some prov \<Longrightarrow>
   supervise_provider l prov (Some True) t1 t2 =
     (let sv1 = record_heartbeat (sl_supervisor l) prov t1 in
      if should_mark_recovered sv1 prov t2
      then Some (l\<lparr>sl_supervisor := record_success sv1 prov\<rparr>, [Recovered prov])
      else Some (l\<lparr>sl_supervisor := sv1\<rparr>, []))"
  by (simp add: supervise_provider_def Let_def)

lemma visit_cases [consumes 0, case_names skip probing crash healthy]:
  obtains "avail = None \<or> map_option fst (sl_restart l) = Some prov"
  | "avail = Some False" "map_option fst (sl_restart l) \<noteq> Some prov"
    "is_circuit_open (sl_supervisor l) prov"
  | "avail = Some False" "map_option fst (sl_restart l) \<noteq> Some prov"
    "\<not> is_circuit_open (sl_supervisor l) prov"
  | "avail = Some True" "map_option fst (sl_restart l) \<noteq> Some prov"
  by (cases avail) blast+

text \<open>A visit to another provider changes nothing of this one.\<close>

lemma supervise_other:
  assumes "supervise_provider l prov avail t1 t2 = Some (l', as)" and "prov \<noteq> pid"
  shows "ps_policies (sl_supervisor l') pid = ps_policies (sl_supervisor l) pid \<and>
    ps_states (sl_supervisor l') pid = ps_states (sl_supervisor l) pid \<and>
    budget_used_from pid u as = u"
  using assms record_crash_policies record_crash_frame
  by (auto simp: supervise_provider_def Let_def start_restart_def mark_crash_detected_def
      clear_crash_detected_def record_success_def record_heartbeat_def
      split: option.splits if_splits prod.splits bool.splits)

text \<open>The three branches of a visit to this provider that touch the counters.\<close>

lemma crash_visit_inv:
  assumes "loop_inv pid p u l" and "rp_enabled p" and "rp_backoff_ms p \<noteq> []"
    and "\<not> is_circuit_open (sl_supervisor l) pid"
  shows "\<exists>newly sv1 ok sv2 st2. mark_crash_detected (sl_supervisor l) pid = (newly, sv1) \<and>
    (if newly then record_crash sv1 pid t1 else Some (True, sv1)) = Some (ok, sv2) \<and>
    ps_policies sv2 pid = Some p \<and> ps_states sv2 pid = Some st2 \<and> budget_inv p u st2 \<and>
    (ok \<longrightarrow> rs_crash_detected st2 \<and> \<not> rs_circuit_open st2)"
proof -
  from assms(1) obtain st where st: "ps_policies (sl_supervisor l) pid = Some p"
      "ps_states (sl_supervisor l) pid = Some st" and inv: "budget_inv p u st"
    by (auto simp: loop_inv_def)
  have closed: "\<not> rs_circuit_open st" using assms(4) st by (simp add: is_circuit_open_def)
  show ?thesis
  proof (cases "rs_crash_detected st")
    case True
    with st inv closed show ?thesis by (auto simp: mark_crash_detected_def)
  next
    case False
    let ?st1 = "st\<lparr>rs_crash_detected := True\<rparr>"
    let ?sv1 = "put_state (sl_supervisor l) pid ?st1"
    have mark: "mark_crash_detected (sl_supervisor l) pid = (True, ?sv1)"
      using st False by (simp add: mark_crash_detected_def)
    have sv1: "ps_policies ?sv1 pid = Some p" "ps_states ?sv1 pid = Some ?st1"
      "0 \<le> rs_attempt_count ?st1"
      using st inv by (simp_all add: budget_inv_def)
    show ?thesis
    proof (cases "rp_max_attempts p < rs_attempt_count ?st1 + 1")
      case True
      from record_crash_over_budget [OF sv1(1,2) assms(2) True, of t1] sv1 inv True
      show ?thesis unfolding mark by (auto simp: budget_inv_def)
    next
      case False
      then have le: "rs_attempt_count ?st1 + 1 \<le> rp_max_attempts p" by simp
      from record_crash_within_budget [OF sv1(1,2) assms(2,3) sv1(3) le, of t1] sv1 inv closed le
      show ?thesis unfolding mark by (auto simp: budget_inv_def)
    qed
  qed
qed

lemma supervise_self:
  assumes inv: "loop_inv pid p u l" and "rp_enabled p" and "rp_backoff_ms p \<noteq> []"
    and run: "supervise_provider l pid avail t1 t2 = Some (l', as)"
  shows "loop_inv pid p (budget_used_from pid u as) l'"
proof (cases avail l pid rule: visit_cases)
  case skip
  with inv run show ?thesis by (auto simp: visit_skip)
next
  case probing
  with inv run show ?thesis by (auto simp: visit_open start_restart_def loop_inv_def split: if_splits)
next
  case crash
  from crash_visit_inv [OF assms(1-3) crash(3), of t1] obtain newly sv1 ok sv2 st2
    where v: "mark_crash_detected (sl_supervisor l) pid = (newly, sv1)"
      "(if newly then record_crash sv1 pid t1 else Some (True, sv1)) = Some (ok, sv2)"
    and st2: "ps_policies sv2 pid = Some p" "ps_states sv2 pid = Some st2" "budget_inv p u st2"
      "ok \<longrightarrow> rs_crash_detected st2 \<and> \<not> rs_circuit_open st2"
    by blast
  from run visit_crash [OF crash(2,3) v, of t2] st2 show ?thesis unfolding crash(1)
    by (auto simp: start_restart_def loop_inv_def clear_crash_detected_def budget_inv_def
        split: if_splits)
next
  case healthy
  from inv obtain st where "ps_policies (sl_supervisor l) pid = Some p"
      "ps_states (sl_supervisor l) pid = Some st" "budget_inv p u st"
    by (auto simp: loop_inv_def)
  with run show ?thesis unfolding healthy(1) visit_healthy [OF healthy(2)]
    by (auto simp: Let_def loop_inv_def record_heartbeat_def record_success_def budget_inv_def
        split: if_splits)
qed

lemma supervise_provider_inv:
  assumes "loop_inv pid p u l" and "rp_enabled p" and "rp_backoff_ms p \<noteq> []"
    and "supervise_provider l prov avail t1 t2 = Some (l', as)"
  shows "loop_inv pid p (budget_used_from pid u as) l'"
proof (cases "prov = pid")
  case True
  with supervise_self [OF assms(1-3)] assms(4) show ?thesis by simp
next
  case False
  with supervise_other [OF assms(4), of pid u] assms(1) show ?thesis by (simp add: loop_inv_def)
qed

lemma supervise_all_inv:
  "loop_inv pid p u l \<Longrightarrow> rp_enabled p \<Longrightarrow> rp_backoff_ms p \<noteq> [] \<Longrightarrow>
   supervise_all l vs = Some (l', as) \<Longrightarrow> loop_inv pid p (budget_used_from pid u as) l'"
proof (induction vs arbitrary: l u as)
  case Nil
  then show ?case by simp
next
  case (Cons v vs)
  obtain prov avail t1 t2 where v: "v = (prov, avail, t1, t2)" by (cases v)
  from Cons.prems(4) obtain l1 as1 as2 where s: "supervise_provider l prov avail t1 t2 = Some (l1, as1)"
    "supervise_all l1 vs = Some (l', as2)" "as = as1 @ as2"
    by (auto simp: v split: option.splits)
  from supervise_provider_inv [OF Cons.prems(1-3) s(1)] Cons.IH [OF _ Cons.prems(2,3) s(2)]
  show ?case by (simp add: s(3) budget_used_append)
qed

lemma run_loop_inv:
  "loop_inv pid p u l \<Longrightarrow> rp_enabled p \<Longrightarrow> rp_backoff_ms p \<noteq> [] \<Longrightarrow>
   run_loop l its = Some (l', as) \<Longrightarrow> loop_inv pid p (budget_used_from pid u as) l'"
proof (induction its arbitrary: l u as)
  case Nil
  then show ?case by simp
next
  case (Cons it its)
  obtain ready now vs where it: "it = (ready, now, vs)" by (cases it)
  from Cons.prems(4) obtain l1 as1 as2
    where s: "supervise_all (collect_restart l ready now) vs = Some (l1, as1)"
      "run_loop l1 its = Some (l', as2)" "as = as1 @ as2"
    by (auto simp: it split: option.splits)
  from supervise_all_inv [OF loop_inv_collect [OF Cons.prems(1)] Cons.prems(2,3) s(1)]
    Cons.IH [OF _ Cons.prems(2,3) s(2)]
  show ?case by (simp add: s(3) budget_used_append)
qed

text \<open>Every provider of a run configured validly: no visit reads the schedule out of range.\<close>

definition all_policies_ok :: "ProviderSupervisor \<Rightarrow> bool" where
  "all_policies_ok sv \<longleftrightarrow> (\<forall>pid p. ps_policies sv pid = Some p \<longrightarrow> rp_enabled p \<longrightarrow> rp_backoff_ms p \<noteq> []) \<and>
     (\<forall>pid st. ps_states sv pid = Some st \<longrightarrow> 0 \<le> rs_attempt_count st)"

lemma record_crash_total:
  assumes "all_policies_ok sv"
  shows "\<exists>b sv'. record_crash sv pid t = Some (b, sv') \<and> all_policies_ok sv'"
proof (cases "ps_policies sv pid = None \<or> ps_states sv pid = None")
  case True
  with assms show ?thesis by (auto simp: record_crash_def split: option.splits)
next
  case False
  then obtain p st where p: "ps_policies sv pid = Some p" "ps_states sv pid = Some st" by auto
  with assms have "rp_enabled p \<Longrightarrow> rp_backoff_ms p \<noteq> []" "0 \<le> rs_attempt_count st" by (auto simp: all_policies_ok_def)
  with p assms show ?thesis
    by (auto simp: record_crash_def Let_def backoff_at_nonempty all_policies_ok_def)
qed

lemma all_policies_ok_ops:
  assumes "all_policies_ok sv"
  shows "all_policies_ok (snd (mark_crash_detected sv prov))"
    and "all_policies_ok (clear_crash_detected sv prov)"
    and "all_policies_ok (record_heartbeat sv prov t)"
    and "all_policies_ok (record_success sv prov)"
    and "all_policies_ok (record_probe_result sv prov r t)"
  using assms by (auto simp: op_defs all_policies_ok_def Let_def split: option.splits)

lemma supervise_provider_total:
  assumes ok: "all_policies_ok (sl_supervisor l)"
  shows "\<exists>l' as. supervise_provider l prov avail t1 t2 = Some (l', as) \<and>
    all_policies_ok (sl_supervisor l')"
proof (cases avail l prov rule: visit_cases)
  case skip
  with ok show ?thesis by (auto simp: visit_skip)
next
  case probing
  with ok show ?thesis by (auto simp: visit_open start_restart_def)
next
  case crash
  obtain newly sv1 where mark: "mark_crash_detected (sl_supervisor l) prov = (newly, sv1)"
    by fastforce
  with all_policies_ok_ops(1) [OF ok, of prov] have sv1: "all_policies_ok sv1" by simp
  then obtain b sv2 where step: "(if newly then record_crash sv1 prov t1 else Some (True, sv1)) = Some (b, sv2)"
      and sv2: "all_policies_ok sv2"
    using record_crash_total [OF sv1, of prov t1] by (cases newly) auto
  from visit_crash [OF crash(2,3) mark step, of t2] sv2 show ?thesis unfolding crash(1)
    by (auto simp: start_restart_def all_policies_ok_ops(2))
next
  case healthy
  from ok show ?thesis unfolding healthy(1) visit_healthy [OF healthy(2)]
    by (auto simp: Let_def all_policies_ok_ops(3,4))
qed

lemma run_loop_total:
  assumes "all_policies_ok (sl_supervisor l)"
  shows "\<exists>l' as. run_loop l its = Some (l', as)"
proof -
  have all: "all_policies_ok (sl_supervisor l) \<Longrightarrow>
      \<exists>l' as. supervise_all l vs = Some (l', as) \<and> all_policies_ok (sl_supervisor l')" for l vs
  proof (induction vs arbitrary: l)
    case Nil
    then show ?case by simp
  next
    case (Cons v vs)
    obtain prov avail t1 t2 where v: "v = (prov, avail, t1, t2)" by (cases v)
    from supervise_provider_total [OF Cons.prems, of prov avail t1 t2] Cons.IH show ?case
      by (fastforce simp: v)
  qed
  have collect: "all_policies_ok (sl_supervisor l) \<Longrightarrow>
      all_policies_ok (sl_supervisor (collect_restart l ready now))" for l ready now
    by (auto simp: collect_restart_def all_policies_ok_ops(5) split: option.splits)
  from assms show ?thesis
  proof (induction its arbitrary: l)
    case Nil
    then show ?case by simp
  next
    case (Cons it its)
    obtain ready now vs where it: "it = (ready, now, vs)" by (cases it)
    from all [OF collect [OF Cons.prems], of ready now vs] Cons.IH show ?case
      by (fastforce simp: it)
  qed
qed

section \<open>Properties\<close>

text \<open>C21. The supervision loop always completes and never restarts a provider from the budget more
  than \<open>max_attempts\<close> times between two recoveries: for a freshly registered provider with an
  enabled valid policy, beside any other validly configured providers, every run of the main loop,
  with any interleaving of crashes, restart results, probes and clock readings, has at most
  \<open>max_attempts\<close> budgeted restarts of that provider since it last recovered.\<close>

theorem loop_restart_budget:
  assumes "policy_ok p" and "rp_enabled p" and "all_policies_ok sv"
  shows "\<exists>l' as. run_loop \<lparr>sl_supervisor = register_provider sv pid p, sl_restart = None\<rparr> its
           = Some (l', as) \<and> budget_used_from pid 0 as \<le> rp_max_attempts p"
proof -
  let ?l = "\<lparr>sl_supervisor = register_provider sv pid p, sl_restart = None\<rparr>"
  have ok: "all_policies_ok (sl_supervisor ?l)" and ne: "rp_backoff_ms p \<noteq> []"
    using assms
    by (auto simp: all_policies_ok_def register_provider_def initial_restart_state_def policy_ok_def)
  from run_loop_total [OF ok] obtain l' as where run: "run_loop ?l its = Some (l', as)" by blast
  have "loop_inv pid p 0 ?l"
    using budget_inv_register [OF assms(1)] by (simp add: loop_inv_def register_provider_def)
  from run_loop_inv [OF this assms(2) ne run] run show ?thesis
    by (auto simp: loop_inv_def budget_inv_def)
qed

theorem loop_restart_budget_witness:
  "\<exists>l' as. run_loop \<lparr>sl_supervisor = register_provider (new_supervisor 60000) ''sim0''
        (default_restart_policy\<lparr>rp_enabled := True\<rparr>), sl_restart = None\<rparr>
      [(None, 5, [(''sim0'', Some False, 6, 200000000)])] = Some (l', as) \<and>
    budget_used_from ''sim0'' 0 as \<le> 3"
  using loop_restart_budget [of "default_restart_policy\<lparr>rp_enabled := True\<rparr>" "new_supervisor 60000"
      "''sim0''" "[(None, 5, [(''sim0'', Some False, 6, 200000000)])]"]
  by (simp add: policy_ok_def default_restart_policy_def all_policies_ok_def new_supervisor_def)

end
