(* ===== verification/Framed_Stdio.thy ===== *)
theory Framed_Stdio
  imports Anolis_Prelude
begin

unbundle bit_operations_syntax

text \<open>
  \<open>core/provider/framed_stdio_client.cpp\<close>, the POSIX branch: length-prefixed frames over the
  pipes of a provider process. What the operating system does is an input: one entry per loop
  iteration of \<open>write_exact\<close> and \<open>read_exact\<close> with the elapsed milliseconds, the outcome of
  \<open>poll\<close> and the outcome of \<open>write\<close> or \<open>read\<close>. A \<open>write\<close> accepts up to the given number
  of bytes, a \<open>read\<close> returns up to the given number of bytes of those the provider has put
  into the pipe (none left is end of file). The pipes are blocking: a \<open>write\<close> into a pipe that is full
  does not return, which is the entry \<open>W_Blocks\<close>; a \<open>read\<close> with a timeout is made only after \<open>poll\<close> has
  reported data. When the entries run out inside a loop, or a \<open>write\<close> does not return, the call has not
  returned, which is the status \<open>IO_Blocked\<close>.
\<close>

section \<open>State and system calls\<close>

definition kMaxFrameSize :: nat where
  "kMaxFrameSize = 1024 * 1024"

record FramedStdioClient =
  fc_stdin_write :: int
  fc_stdout_read :: int
  fc_error :: string

definition new_client :: FramedStdioClient where
  "new_client = \<lparr>fc_stdin_write = -1, fc_stdout_read = -1, fc_error = ''''\<rparr>"

definition set_handles :: "FramedStdioClient \<Rightarrow> int \<Rightarrow> int \<Rightarrow> FramedStdioClient" where
  "set_handles c stdin_write stdout_read = c\<lparr>fc_stdin_write := stdin_write, fc_stdout_read := stdout_read\<rparr>"

definition close_stdin :: "FramedStdioClient \<Rightarrow> FramedStdioClient" where
  "close_stdin c = (if 0 \<le> fc_stdin_write c then c\<lparr>fc_stdin_write := -1\<rparr> else c)"

definition close_stdout :: "FramedStdioClient \<Rightarrow> FramedStdioClient" where
  "close_stdout c = (if 0 \<le> fc_stdout_read c then c\<lparr>fc_stdout_read := -1\<rparr> else c)"

datatype io_status = IO_Ok | IO_Fail | IO_Blocked

datatype write_result = Written nat | W_EINTR | W_EAGAIN | W_EPIPE | W_Error string | W_Blocks

datatype poll_result = Poll_Failed string | Poll_None | Poll_In | Poll_Err_Hup | Poll_Other

datatype read_result = Got nat | R_EINTR | R_Error string

type_synonym write_script = "(int \<times> write_result) list"
type_synonym read_script = "(int \<times> poll_result \<times> read_result) list"

section \<open>Operations\<close>

definition wait_for_data :: "FramedStdioClient \<Rightarrow> poll_result \<Rightarrow> bool \<times> FramedStdioClient" where
  "wait_for_data c pr =
     (let c = c\<lparr>fc_error := ''''\<rparr> in
      if fc_stdout_read c < 0 then (False, c\<lparr>fc_error := ''Invalid stdout pipe''\<rparr>)
      else case pr of
        Poll_Failed e \<Rightarrow> (False, c\<lparr>fc_error := ''poll failed: '' @ e\<rparr>)
      | Poll_None \<Rightarrow> (False, c)
      | Poll_In \<Rightarrow> (True, c)
      | Poll_Err_Hup \<Rightarrow> (False, c\<lparr>fc_error := ''poll error on stdout pipe''\<rparr>)
      | Poll_Other \<Rightarrow> (False, c))"

text \<open>\<open>write_exact timeout buf script c out\<close>: \<open>buf\<close> is what is still to be written
  (\<open>buf + total\<close>), \<open>out\<close> what the pipe has accepted so far.\<close>

fun write_exact ::
    "int \<Rightarrow> u8 list \<Rightarrow> write_script \<Rightarrow> FramedStdioClient \<Rightarrow> u8 list \<Rightarrow>
     io_status \<times> FramedStdioClient \<times> u8 list \<times> write_script" where
  "write_exact timeout_ms [] script c out = (IO_Ok, c, out, script)"
| "write_exact timeout_ms (b # bs) [] c out = (IO_Blocked, c, out, [])"
| "write_exact timeout_ms (b # bs) ((elapsed_ms, w) # script) c out =
     (if 0 \<le> timeout_ms \<and> timeout_ms \<le> elapsed_ms
      then (IO_Fail, c\<lparr>fc_error := ''Timeout writing frame''\<rparr>, out, script)
      else case w of
        Written k \<Rightarrow>
          if k = 0 then (IO_Fail, c\<lparr>fc_error := ''Write returned 0 bytes''\<rparr>, out, script)
          else write_exact timeout_ms (drop k (b # bs)) script c (out @ take k (b # bs))
      | W_EINTR \<Rightarrow> write_exact timeout_ms (b # bs) script c out
      | W_EAGAIN \<Rightarrow> write_exact timeout_ms (b # bs) script c out
      | W_EPIPE \<Rightarrow> (IO_Fail, c\<lparr>fc_error := ''Broken pipe (provider terminated)''\<rparr>, out, script)
      | W_Error e \<Rightarrow> (IO_Fail, c\<lparr>fc_error := ''Write failed: '' @ e\<rparr>, out, script)
      | W_Blocks \<Rightarrow> (IO_Blocked, c, out, script))"

text \<open>\<open>read_exact timeout n script c pipe buf\<close>: \<open>n\<close> bytes are still missing
  (\<open>n - total\<close>), \<open>buf\<close> holds those read so far, \<open>pipe\<close> what the provider has written
  and nobody has read.\<close>

definition error_if_empty :: "string \<Rightarrow> FramedStdioClient \<Rightarrow> FramedStdioClient" where
  "error_if_empty msg c = (if fc_error c = '''' then c\<lparr>fc_error := msg\<rparr> else c)"

definition read_step ::
    "int \<Rightarrow> int \<Rightarrow> poll_result \<Rightarrow> FramedStdioClient \<Rightarrow> bool \<times> FramedStdioClient" where
  "read_step timeout_ms elapsed_ms pr c =
     (if 0 \<le> timeout_ms
      then if timeout_ms \<le> elapsed_ms then (False, error_if_empty ''Timeout reading frame'' c)
           else (let (ready, c) = wait_for_data c pr in
                 if ready then (True, c)
                 else (False, error_if_empty ''Timeout waiting for data chunk'' c))
      else (True, c))"

fun read_exact ::
    "int \<Rightarrow> nat \<Rightarrow> read_script \<Rightarrow> FramedStdioClient \<Rightarrow> u8 list \<Rightarrow> u8 list \<Rightarrow>
     io_status \<times> FramedStdioClient \<times> u8 list \<times> u8 list \<times> read_script" where
  "read_exact timeout_ms 0 script c pipe buf = (IO_Ok, c, pipe, buf, script)"
| "read_exact timeout_ms (Suc n) [] c pipe buf = (IO_Blocked, c, pipe, buf, [])"
| "read_exact timeout_ms (Suc n) ((elapsed_ms, pr, r) # script) c pipe buf =
     (let (go, c) = read_step timeout_ms elapsed_ms pr c in
      if \<not> go then (IO_Fail, c, pipe, buf, script)
      else case r of
        R_EINTR \<Rightarrow> read_exact timeout_ms (Suc n) script c pipe buf
      | R_Error e \<Rightarrow> (IO_Fail, c\<lparr>fc_error := ''Read failed: '' @ e\<rparr>, pipe, buf, script)
      | Got k \<Rightarrow>
          (let chunk = take (min k (Suc n)) pipe in
           if chunk = [] then (IO_Fail, c, pipe, buf, script)
           else read_exact timeout_ms (Suc n - length chunk) script c
                  (drop (length chunk) pipe) (buf @ chunk)))"

text \<open>The four prefix bytes, least significant first, and their value.\<close>

definition len_prefix :: "u32 \<Rightarrow> u8 list" where
  "len_prefix len32 =
     [ucast (drop_bit 0 len32 AND 0xFF), ucast (drop_bit 8 len32 AND 0xFF),
      ucast (drop_bit 16 len32 AND 0xFF), ucast (drop_bit 24 len32 AND 0xFF)]"

definition len_of_prefix :: "u8 list \<Rightarrow> u32" where
  "len_of_prefix len_buf =
     push_bit 0 (ucast (len_buf ! 0)) OR push_bit 8 (ucast (len_buf ! 1)) OR
     push_bit 16 (ucast (len_buf ! 2)) OR push_bit 24 (ucast (len_buf ! 3))"

definition write_frame ::
    "int \<Rightarrow> u8 list \<Rightarrow> write_script \<Rightarrow> FramedStdioClient \<Rightarrow>
     io_status \<times> FramedStdioClient \<times> u8 list \<times> write_script" where
  "write_frame timeout_ms payload script c =
     (if kMaxFrameSize < length payload
      then (IO_Fail, c\<lparr>fc_error := ''Frame too large: '' @ nat_to_string (length payload) @ '' bytes''\<rparr>,
            [], script)
      else case write_exact timeout_ms (len_prefix (of_nat (length payload))) script c [] of
        (IO_Ok, c, out, script) \<Rightarrow>
          if 0 < length payload then write_exact timeout_ms payload script c out
          else (IO_Ok, c, out, script)
      | r \<Rightarrow> r)"

definition read_frame ::
    "int \<Rightarrow> read_script \<Rightarrow> FramedStdioClient \<Rightarrow> u8 list \<Rightarrow>
     io_status \<times> FramedStdioClient \<times> u8 list \<times> u8 list \<times> read_script" where
  "read_frame timeout_ms script c pipe =
     (case read_exact timeout_ms 4 script c pipe [] of
        (IO_Ok, c, pipe, len_buf, script) \<Rightarrow>
          (let len = unat (len_of_prefix len_buf) in
           if kMaxFrameSize < len
           then (IO_Fail, c\<lparr>fc_error := ''Frame too large: '' @ nat_to_string len @ '' bytes''\<rparr>,
                 pipe, [], script)
           else if 0 < len then
             (case read_exact timeout_ms len script c pipe [] of
                (IO_Fail, c, pipe, buf, script) \<Rightarrow>
                  (IO_Fail, error_if_empty ''EOF reading frame payload'' c, pipe, [], script)
              | r \<Rightarrow> r)
           else (IO_Ok, c, pipe, [], script))
      | (IO_Fail, c, pipe, _, script) \<Rightarrow>
          (IO_Fail, error_if_empty ''EOF reading frame length'' c, pipe, [], script)
      | (IO_Blocked, c, pipe, _, script) \<Rightarrow> (IO_Blocked, c, pipe, [], script))"

section \<open>Specification\<close>

text \<open>The wire format and the scripts on which a call must succeed: the timeout \<open>t\<close>, if there is one, does not expire,
  \<open>poll\<close> reports data, there are only interruptions and progress, and enough entries that make progress.\<close>

definition encode_frame :: "u8 list \<Rightarrow> u8 list" where
  "encode_frame payload = len_prefix (of_nat (length payload)) @ payload"

definition benign_write :: "int \<Rightarrow> write_script \<Rightarrow> bool" where
  "benign_write t script \<longleftrightarrow>
     (\<forall>(e, w) \<in> set script. (t < 0 \<or> e < t) \<and> (w = W_EINTR \<or> w = W_EAGAIN \<or> (\<exists>k. w = Written k \<and> 0 < k)))"

definition writes_of :: "write_script \<Rightarrow> nat" where
  "writes_of script = length (filter (\<lambda>(e, w). w \<noteq> W_EINTR \<and> w \<noteq> W_EAGAIN) script)"

definition benign_read :: "int \<Rightarrow> read_script \<Rightarrow> bool" where
  "benign_read t script \<longleftrightarrow>
     (\<forall>(e, p, r) \<in> set script. (t < 0 \<or> e < t \<and> p = Poll_In) \<and> (r = R_EINTR \<or> (\<exists>k. r = Got k \<and> 0 < k)))"

text \<open>Waiting for data clears the error of the client.\<close>

definition waited :: "int \<Rightarrow> FramedStdioClient \<Rightarrow> FramedStdioClient" where
  "waited t c = (if t < 0 then c else c\<lparr> fc_error := [] \<rparr>)"

definition reads_of :: "read_script \<Rightarrow> nat" where
  "reads_of script = length (filter (\<lambda>(e, p, r). r \<noteq> R_EINTR) script)"

section \<open>Lemmas\<close>

lemma len_prefix_byte: "bit (drop_bit k w AND (255 :: u32)) n \<longleftrightarrow> n < 8 \<and> bit w (k + n)"
proof -
  have m: "(255 :: u32) = mask 8" by (simp add: mask_eq_exp_minus_1)
  have "bit (255 :: u32) n \<longleftrightarrow> n < 8" unfolding m by (auto simp: bit_mask_iff simp del: mask_numeral)
  then show ?thesis by (auto simp: bit_and_iff bit_drop_bit_eq)
qed

lemma len_of_len_prefix [simp]: "len_of_prefix (len_prefix w) = w"
proof (rule bit_word_eqI)
  fix n
  assume n: "n < LENGTH(32)"
  then consider "n < 8" | "8 \<le> n" "n < 16" | "16 \<le> n" "n < 24" | "24 \<le> n" "n < 32" by fastforce
  then show "bit (len_of_prefix (len_prefix w)) n = bit w n"
    by cases (auto simp: len_of_prefix_def len_prefix_def bit_or_iff bit_push_bit_iff
        bit_ucast_iff len_prefix_byte simp del: push_bit_0_id drop_bit_0)
qed

lemma len_prefix_of_prefix:
  assumes "length p = 4"
  shows "len_prefix (len_of_prefix p) = p"
proof -
  obtain a b c d where p: "p = [a, b, c, d]"
    using assms by (auto simp: length_Suc_conv eval_nat_numeral)
  have byte: "ucast (drop_bit k w AND (255 :: u32)) = (x :: u8)"
    if "\<And>n. n < 8 \<Longrightarrow> bit w (k + n) = bit x n" for k w x
    using that by (intro bit_word_eqI) (simp add: bit_ucast_iff len_prefix_byte)
  show ?thesis
    unfolding len_prefix_def p list.inject
    by (intro conjI byte refl)
      (auto simp: len_of_prefix_def bit_or_iff bit_push_bit_iff bit_ucast_iff not_less
        dest: bit_imp_le_length)
qed

lemma length_len_prefix [simp]: "length (len_prefix w) = 4"
  by (simp add: len_prefix_def)

text \<open>Whatever a successful \<open>write_exact\<close> put into the pipe is the buffer, in order, and nothing
  else; a benign script with at least as many progressing entries as bytes succeeds.\<close>

lemma write_exact_ok:
  "write_exact timeout_ms buf script c out = (IO_Ok, c', out', script') \<Longrightarrow> out' = out @ buf"
proof (induction script arbitrary: buf out)
  case Nil
  then show ?case by (cases buf) auto
next
  case (Cons ev script)
  obtain e w where ev: "ev = (e, w)" by (cases ev)
  from Cons.prems show ?case by (cases buf; cases w) (auto simp: ev split: if_splits dest!: Cons.IH)
qed

lemma write_exact_benign:
  "benign_write t script \<Longrightarrow> length buf + m \<le> writes_of script \<Longrightarrow>
   \<exists>script'. write_exact t buf script c out = (IO_Ok, c, out @ buf, script') \<and>
     benign_write t script' \<and> m \<le> writes_of script'"
proof (induction script arbitrary: buf out)
  case Nil
  then show ?case by (cases buf) (simp_all add: writes_of_def)
next
  case (Cons ev script)
  obtain e w where ev: "ev = (e, w)" by (cases ev)
  from Cons.prems have ben: "benign_write t script" and time: "\<not> (0 \<le> t \<and> t \<le> e)" by (auto simp: ev benign_write_def)
  show ?case
  proof (cases buf)
    case Nil
    with Cons.prems show ?thesis by (simp add: exI [of _ "ev # script"])
  next
    case (Cons b bs)
    show ?thesis
    proof (cases "w = W_EINTR \<or> w = W_EAGAIN")
      case True
      with Cons.IH [OF ben, of buf out] Cons.prems show ?thesis
        by (auto simp: ev Cons writes_of_def time)
    next
      case False
      with Cons.prems obtain k where k: "w = Written k" "0 < k"
        by (auto simp: ev benign_write_def)
      have "length (drop k buf) + m \<le> writes_of script"
        using Cons.prems(2) k by (simp add: ev writes_of_def Cons)
      with Cons.IH [OF ben, of "drop k buf" "out @ take k buf"] k show ?thesis
        by (simp add: ev Cons time)
    qed
  qed
qed

lemma read_step_go:
  "t < 0 \<or> e < t \<and> p = Poll_In \<Longrightarrow> t < 0 \<or> 0 \<le> fc_stdout_read c \<Longrightarrow> read_step t e p c = (True, waited t c)"
  by (auto simp: read_step_def wait_for_data_def waited_def)

lemma waited_simps [simp]: "waited t (waited t c) = waited t c" "fc_stdout_read (waited t c) = fc_stdout_read c"
  by (simp_all add: waited_def)

text \<open>A successful \<open>read_exact\<close> moves exactly the next \<open>n\<close> bytes of the pipe, however they
  were chunked.\<close>

lemma chunk_split:
  assumes "chunk = take (min k n) pipe"
  shows "length chunk \<le> n" and "length chunk \<le> length pipe"
    and "chunk @ take (n - length chunk) (drop (length chunk) pipe) = take n pipe"
    and "drop (n - length chunk) (drop (length chunk) pipe) = drop n pipe"
proof -
  show le: "length chunk \<le> n" "length chunk \<le> length pipe" using assms by auto
  have "chunk = take (length chunk) pipe" using assms by (auto simp: min_def)
  then show "chunk @ take (n - length chunk) (drop (length chunk) pipe) = take n pipe"
    by (metis le(1) le_add_diff_inverse take_add)
  show "drop (n - length chunk) (drop (length chunk) pipe) = drop n pipe" using le(1) by simp
qed

lemma read_exact_ok:
  "read_exact timeout_ms n script c pipe buf = (IO_Ok, c', pipe', buf', script') \<Longrightarrow>
   n \<le> length pipe \<and> buf' = buf @ take n pipe \<and> pipe' = drop n pipe"
proof (induction script arbitrary: n c pipe buf)
  case Nil
  then show ?case by (cases n) auto
next
  case (Cons ev script)
  obtain e p r where ev: "ev = (e, p, r)" by (cases ev)
  obtain go c1 where rs: "read_step timeout_ms e p c = (go, c1)" by fastforce
  show ?case
  proof (cases n)
    case 0
    with Cons.prems show ?thesis by auto
  next
    case (Suc m)
    with Cons.prems rs have go: "go" by (auto simp: ev split: if_splits)
    show ?thesis
    proof (cases r)
      case (Got k)
      define chunk where "chunk = take (min k n) pipe"
      note spl = chunk_split [OF chunk_def]
      from Cons.prems rs go Got have "read_exact timeout_ms (n - length chunk) script c1
          (drop (length chunk) pipe) (buf @ chunk) = (IO_Ok, c', pipe', buf', script')"
        by (auto simp: Let_def ev Suc chunk_def split: if_splits)
      from Cons.IH [OF this] spl show ?thesis by (auto simp: le_diff_conv)
    qed (use Cons rs go in \<open>auto simp: ev Suc\<close>)
  qed
qed

lemma read_exact_benign:
  "benign_read t script \<Longrightarrow> n + m \<le> reads_of script \<Longrightarrow> n \<le> length pipe \<Longrightarrow> t < 0 \<or> 0 \<le> fc_stdout_read c \<Longrightarrow>
   \<exists>script'. read_exact t n script c pipe buf =
       (IO_Ok, if n = 0 then c else waited t c, drop n pipe, buf @ take n pipe, script') \<and>
     benign_read t script' \<and> m \<le> reads_of script'"
proof (induction script arbitrary: n pipe buf c)
  case Nil
  then show ?case by (cases n) (simp_all add: reads_of_def)
next
  case (Cons ev script)
  obtain e p r where ev: "ev = (e, p, r)" by (cases ev)
  from Cons.prems have ben: "benign_read t script" by (simp add: benign_read_def)
  have go: "read_step t e p c = (True, waited t c)"
    using Cons.prems(1,4) by (intro read_step_go) (auto simp: ev benign_read_def)
  have fd: "t < 0 \<or> 0 \<le> fc_stdout_read (waited t c)" using Cons.prems(4) by simp
  show ?case
  proof (cases n)
    case 0
    with Cons.prems show ?thesis by auto
  next
    case (Suc i)
    show ?thesis
    proof (cases "r = R_EINTR")
      case True
      with Cons.IH [OF ben _ _ fd, of n pipe buf] Cons.prems go show ?thesis
        by (auto simp: ev Suc reads_of_def)
    next
      case False
      with Cons.prems obtain k where k: "r = Got k" "0 < k" by (auto simp: ev benign_read_def)
      define chunk where "chunk = take (min k n) pipe"
      note spl = chunk_split [OF chunk_def]
      have ne: "chunk \<noteq> []" using Cons.prems(3) k Suc by (auto simp: chunk_def)
      then have "0 < length chunk" by simp
      then have "n - length chunk + m \<le> reads_of script"
        using Cons.prems(2) k Suc by (cases "length chunk") (simp_all add: ev reads_of_def)
      moreover have "n - length chunk \<le> length (drop (length chunk) pipe)"
        using Cons.prems(3) by simp
      ultimately obtain script' where "read_exact t (n - length chunk) script (waited t c)
            (drop (length chunk) pipe) (buf @ chunk) = (IO_Ok, waited t c, drop n pipe, buf @ take n pipe, script')"
          "benign_read t script'" "m \<le> reads_of script'"
        using Cons.IH [OF ben _ _ fd, of "n - length chunk" "drop (length chunk) pipe" "buf @ chunk"]
        unfolding spl(4) append_assoc spl(3) by (auto split: if_splits)
      moreover have "read_exact t n (ev # script) c pipe buf =
          read_exact t (n - length chunk) script (waited t c) (drop (length chunk) pipe) (buf @ chunk)"
        using k ne go unfolding ev Suc chunk_def by (auto simp: Let_def)
      ultimately show ?thesis by (simp add: Suc)
    qed
  qed
qed

lemma read_frame_ok:
  assumes rd: "read_frame t rs d pipe = (IO_Ok, d', rest, got, rs')"
  shows "pipe = encode_frame got @ rest" and "length got \<le> kMaxFrameSize"
proof -
  from rd obtain d1 pipe1 pre rs1 where r1: "read_exact t 4 rs d pipe [] = (IO_Ok, d1, pipe1, pre, rs1)"
    by (auto simp: read_frame_def split: prod.splits io_status.splits)
  from read_exact_ok [OF r1] have pre: "4 \<le> length pipe" "pre = take 4 pipe" "pipe1 = drop 4 pipe" by auto
  let ?len = "unat (len_of_prefix pre)"
  have got: "?len \<le> kMaxFrameSize \<and> ?len \<le> length pipe1 \<and> got = take ?len pipe1 \<and> rest = drop ?len pipe1"
  proof (cases "?len = 0")
    case True
    with rd r1 show ?thesis by (simp add: read_frame_def Let_def split: if_splits)
  next
    case False
    with rd r1 have le: "?len \<le> kMaxFrameSize" by (simp add: read_frame_def Let_def split: if_splits)
    with rd r1 False have "read_exact t ?len rs1 d1 pipe1 [] = (IO_Ok, d', rest, got, rs')"
      by (auto simp: read_frame_def Let_def split: prod.splits io_status.splits)
    from read_exact_ok [OF this] le show ?thesis by simp
  qed
  then show "length got \<le> kMaxFrameSize" by auto
  have "len_prefix (of_nat (length got)) = pre" using got pre len_prefix_of_prefix [of pre] by simp
  moreover have "pipe = pre @ got @ rest" using pre got by (metis append_take_drop_id)
  ultimately show "pipe = encode_frame got @ rest" by (simp add: encode_frame_def)
qed

text \<open>A failing \<open>read_frame\<close> always says why.\<close>

lemma read_frame_fail_error:
  "read_frame t rs c pipe = (IO_Fail, c', rest, got, rs') \<Longrightarrow> fc_error c' \<noteq> []"
  by (auto simp: read_frame_def error_if_empty_def Let_def split: prod.splits io_status.splits if_splits)

text \<open>With a deadline both loops end, unless a write entered before it does not return: a script whose last entry
  reaches the deadline is long enough, and what a successful call leaves of it is long enough for the next one.\<close>

definition ends_after :: "int \<Rightarrow> (int \<times> 'a) list \<Rightarrow> bool" where
  "ends_after t script \<longleftrightarrow> script \<noteq> [] \<and> t \<le> fst (last script)"

lemma ends_after_Cons: "ends_after t (ev # script) \<Longrightarrow> \<not> t \<le> fst ev \<Longrightarrow> ends_after t script"
  by (auto simp: ends_after_def split: if_splits)

definition writes_return :: "int \<Rightarrow> write_script \<Rightarrow> bool" where
  "writes_return t script = list_all (\<lambda>(e, w). w = W_Blocks \<longrightarrow> t \<le> e) script"

lemma writes_return_Cons: "writes_return t (ev # script) \<longleftrightarrow> (snd ev = W_Blocks \<longrightarrow> t \<le> fst ev) \<and> writes_return t script"
  by (simp add: writes_return_def split_beta)

lemma write_exact_returns:
  assumes "0 \<le> t" and "ends_after t ws" and "writes_return t ws"
  shows "fst (write_exact t buf ws c out) \<noteq> IO_Blocked"
    and "write_exact t buf ws c out = (IO_Ok, c', out', ws') \<Longrightarrow> ends_after t ws' \<and> writes_return t ws'"
  using assms(2,3)
proof (induction ws arbitrary: buf out)
  case (Cons ev ws)
  {
    case 1
    then show ?case
      using assms(1) Cons.IH(1) ends_after_Cons [of t ev ws] by (cases ev; cases buf) (auto simp: writes_return_Cons split: write_result.split)
  next
    case 2
    then show ?case
      using assms(1) Cons.IH(2) ends_after_Cons [of t ev ws]
      by (cases ev; cases buf) (auto simp: writes_return_Cons split: write_result.splits if_splits)
  }
qed (simp_all add: ends_after_def)

lemma read_exact_returns:
  assumes "0 \<le> t" and "ends_after t rs"
  shows "fst (read_exact t n rs c pipe buf) \<noteq> IO_Blocked"
    and "read_exact t n rs c pipe buf = (IO_Ok, c', pipe', buf', rs') \<Longrightarrow> ends_after t rs'"
  using assms(2)
proof (induction rs arbitrary: n c pipe buf)
  case (Cons ev rs)
  {
    case 1
    then show ?case
      using assms(1) Cons.IH(1) ends_after_Cons [of t ev rs]
      by (cases ev; cases n) (auto simp: Let_def read_step_def split: read_result.split prod.split)
  next
    case 2
    then show ?case
      using assms(1) Cons.IH(2) ends_after_Cons [of t ev rs]
      by (cases ev; cases n) (auto simp: Let_def read_step_def split: read_result.splits prod.splits if_splits)
  }
qed (simp_all add: ends_after_def)

lemma write_frame_returns:
  assumes "0 \<le> t" and "ends_after t ws" and "writes_return t ws"
  shows "fst (write_frame t payload ws c) \<noteq> IO_Blocked"
proof -
  let ?pre = "len_prefix (of_nat (length payload))"
  obtain st c1 out1 ws1 where w1: "write_exact t ?pre ws c [] = (st, c1, out1, ws1)"
    by (metis prod_cases4)
  note ret = write_exact_returns [OF assms]
  have st: "st \<noteq> IO_Blocked" using ret(1) [of ?pre c "[]"] w1 by simp
  show ?thesis
  proof (cases st)
    case IO_Ok
    with ret(2) w1 have "ends_after t ws1" "writes_return t ws1" by blast+
    from write_exact_returns(1) [OF assms(1) this] show ?thesis
      using IO_Ok w1 by (simp add: write_frame_def)
  qed (use w1 st in \<open>simp_all add: write_frame_def\<close>)
qed

lemma read_frame_returns:
  assumes "0 \<le> t" and "ends_after t rs"
  shows "fst (read_frame t rs c pipe) \<noteq> IO_Blocked"
proof -
  obtain st c1 pipe1 pre rs1 where r1: "read_exact t 4 rs c pipe [] = (st, c1, pipe1, pre, rs1)"
    by (metis prod_cases5)
  note ret = read_exact_returns [OF assms]
  have st: "st \<noteq> IO_Blocked" using ret(1) [of 4 c pipe "[]"] r1 by simp
  show ?thesis
  proof (cases st)
    case IO_Ok
    with ret(2) r1 have "ends_after t rs1" by blast
    from read_exact_returns(1) [OF assms(1) this] show ?thesis
      using IO_Ok r1 by (auto simp: read_frame_def Let_def split: prod.split io_status.split dest: arg_cong [where f = fst])
  qed (use r1 st in \<open>simp_all add: read_frame_def\<close>)
qed

section \<open>Properties\<close>

text \<open>C26. Frames survive any chunking. Take a payload of at most \<open>kMaxFrameSize\<close> bytes and any timeout, negative for none,
  that does not expire while it is written or read. Writing it through any sequence of partial, interrupted or
  would-block writes with enough progress succeeds and puts exactly its encoding into the pipe; reading it
  back from an open pipe that continues with arbitrary further bytes, through any sequence of partial or interrupted
  reads with enough progress, succeeds, returns the payload, and leaves exactly the further bytes.\<close>

theorem frame_roundtrip:
  assumes "length payload \<le> kMaxFrameSize"
    and "benign_write t ws" and "4 + length payload \<le> writes_of ws"
    and "benign_read t rs" and "4 + length payload \<le> reads_of rs" and "t < 0 \<or> 0 \<le> fc_stdout_read d"
  shows "\<exists>ws' rs'. write_frame t payload ws c = (IO_Ok, c, encode_frame payload, ws') \<and>
    read_frame t rs d (encode_frame payload @ tail) = (IO_Ok, waited t d, tail, payload, rs')"
proof -
  let ?pre = "len_prefix (of_nat (length payload))"
  have small: "unat (of_nat (length payload) :: u32) = length payload"
    using assms(1) by (simp add: unat_of_nat take_bit_nat_eq_self kMaxFrameSize_def)
  from write_exact_benign [OF assms(2), of ?pre "length payload" c "[]"] assms(3)
  obtain ws1 where w1: "write_exact t ?pre ws c [] = (IO_Ok, c, ?pre, ws1)"
      "benign_write t ws1" "length payload \<le> writes_of ws1"
    by auto
  from write_exact_benign [OF w1(2), of payload 0 c ?pre] w1(3)
  obtain ws2 where w2: "write_exact t payload ws1 c ?pre = (IO_Ok, c, ?pre @ payload, ws2)"
    by auto
  from read_exact_benign [OF assms(4), of 4 "length payload" "encode_frame payload @ tail" d "[]"] assms(5,6)
  obtain rs1 where r1: "read_exact t 4 rs d (encode_frame payload @ tail) []
      = (IO_Ok, waited t d, payload @ tail, ?pre, rs1)" "benign_read t rs1" "length payload \<le> reads_of rs1"
    by (auto simp: encode_frame_def)
  from read_exact_benign [OF r1(2), of "length payload" 0 "payload @ tail" "waited t d" "[]"] r1(3) assms(6)
  obtain rs2 where r2: "read_exact t (length payload) rs1 (waited t d) (payload @ tail) []
      = (IO_Ok, waited t d, tail, payload, rs2)"
    by auto
  have "write_frame t payload ws c = (IO_Ok, c, encode_frame payload, if payload = [] then ws1 else ws2)"
    using assms(1) w1(1) w2 by (cases payload) (simp_all add: write_frame_def encode_frame_def)
  moreover have "read_frame t rs d (encode_frame payload @ tail)
      = (IO_Ok, waited t d, tail, payload, if payload = [] then rs1 else rs2)"
    using assms(1) r1(1) r2 small by (cases "payload = []") (simp_all add: read_frame_def)
  ultimately show ?thesis by blast
qed

theorem frame_roundtrip_witness:
  "\<exists>ws' rs'. write_frame 50 [7] [(0, Written 2), (0, W_EINTR), (1, Written 9), (2, Written 1),
        (2, Written 1), (2, Written 1)] new_client = (IO_Ok, new_client, encode_frame [7], ws') \<and>
    read_frame 50 [(0, Poll_In, Got 3), (1, Poll_In, R_EINTR), (1, Poll_In, Got 1),
        (3, Poll_In, Got 1), (3, Poll_In, Got 1), (3, Poll_In, Got 1)] (new_client\<lparr> fc_stdout_read := 4 \<rparr>) (encode_frame [7] @ [8])
      = (IO_Ok, waited 50 (new_client\<lparr> fc_stdout_read := 4 \<rparr>), [8], [7], rs')"
proof (rule frame_roundtrip)
  show "length ([7] :: u8 list) \<le> kMaxFrameSize" by (simp add: kMaxFrameSize_def)
qed (simp_all add: benign_write_def writes_of_def benign_read_def reads_of_def)

text \<open>The frame bound holds on both sides, for every behaviour of the operating system: a
  payload above \<open>kMaxFrameSize\<close> is refused before a byte is written; a frame that
  \<open>read_frame\<close> returns is at most \<open>kMaxFrameSize\<close> long and the pipe held exactly its encoding
  followed by the rest, which is untouched.\<close>

lemma frame_bounds:
  "(kMaxFrameSize < length payload \<longrightarrow> fst (write_frame t payload ws c) = IO_Fail \<and>
      fst (snd (snd (write_frame t payload ws c))) = []) \<and>
   (read_frame t rs d pipe = (IO_Ok, d', rest, got, rs') \<longrightarrow>
      length got \<le> kMaxFrameSize \<and> pipe = encode_frame got @ rest)"
  using read_frame_ok [of t rs d pipe d' rest got rs'] by (simp add: write_frame_def)

theorem frame_bounds_witness:
  "read_frame (-1) [(0, Poll_In, Got 4), (0, Poll_In, Got 9)] new_client [1, 0, 0, 0, 5, 6]
     = (IO_Ok, new_client, [6], [5], []) \<and> [1, 0, 0, 0, 5, 6] = encode_frame [5] @ [6]"
proof -
  have "read_frame (-1) [(0, Poll_In, Got 4), (0, Poll_In, Got 9)] new_client [1, 0, 0, 0, 5, 6]
     = (IO_Ok, new_client, [6], [5], [])"
  proof -
    have "read_exact (-1) 4 [(0, Poll_In, Got 4), (0, Poll_In, Got 9)] new_client [1, 0, 0, 0, 5, 6] []
        = (IO_Ok, new_client, [5, 6], [1, 0, 0, 0], [(0, Poll_In, Got 9)])"
      by (simp add: eval_nat_numeral read_step_def)
    moreover have "unat (len_of_prefix [1, 0, 0, 0]) = Suc 0" by (simp add: len_of_prefix_def)
    ultimately show ?thesis by (simp add: read_frame_def kMaxFrameSize_def read_step_def)
  qed
  with frame_bounds show ?thesis by blast
qed

end
