(* ===== verification/Protocol.thy ===== *)
theory Protocol
  imports Anolis_Prelude "HOL-Library.Log_Nat"
begin

text \<open>
  The fields and enumerators of the provider protocol (\<open>protocol.pb.h\<close>, generated and not part
  of the sources) that the runtime uses, as records and datatypes. Enumerations are open: every one
  has a constructor for the numbers the sources do not name. A \<open>Value\<close> keeps its declared type tag
  apart from the oneof that carries the payload, because the code reads both.

  A \<open>double\<close> is its IEEE-754 binary64 bit pattern. Comparison is decided on the patterns, as the
  hardware does; \<open>f64_scaled\<close> gives the number a finite pattern stands for (in units of
  \<open>2 ^ (-1074)\<close>, so it is an integer), and the two are shown to agree. Conversion from an integer
  rounds to nearest, ties to even, and is shown to be exact up to \<open>2 ^ 53\<close>.
\<close>

section \<open>Doubles\<close>

type_synonym f64 = "64 word"

definition f64_mag :: "f64 \<Rightarrow> nat" where
  "f64_mag b = unat b mod 2 ^ 63"

definition f64_neg :: "f64 \<Rightarrow> bool" where
  "f64_neg b \<longleftrightarrow> 2 ^ 63 \<le> unat b"

definition f64_is_nan :: "f64 \<Rightarrow> bool" where
  "f64_is_nan b \<longleftrightarrow> 2047 * 2 ^ 52 < f64_mag b"

definition f64_finite :: "f64 \<Rightarrow> bool" where
  "f64_finite b \<longleftrightarrow> f64_mag b < 2047 * 2 ^ 52"

definition f64_key :: "f64 \<Rightarrow> int" where
  "f64_key b = (if f64_neg b then - int (f64_mag b) else int (f64_mag b))"

definition f64_lt :: "f64 \<Rightarrow> f64 \<Rightarrow> bool" where
  "f64_lt a b \<longleftrightarrow> \<not> f64_is_nan a \<and> \<not> f64_is_nan b \<and> f64_key a < f64_key b"

definition f64_eq :: "f64 \<Rightarrow> f64 \<Rightarrow> bool" where
  "f64_eq a b \<longleftrightarrow> \<not> f64_is_nan a \<and> \<not> f64_is_nan b \<and> f64_key a = f64_key b"

text \<open>The number a finite pattern stands for, times \<open>2 ^ 1074\<close>.\<close>

definition mag_scaled :: "nat \<Rightarrow> nat" where
  "mag_scaled m = (if m div 2 ^ 52 = 0 then m mod 2 ^ 52
     else (2 ^ 52 + m mod 2 ^ 52) * 2 ^ (m div 2 ^ 52 - 1))"

definition f64_scaled :: "f64 \<Rightarrow> int" where
  "f64_scaled b = (if f64_neg b then - int (mag_scaled (f64_mag b)) else int (mag_scaled (f64_mag b)))"

text \<open>\<open>static_cast<double>(n)\<close> of an integer: with \<open>e\<close> the position of the leading bit, the 53
  leading bits are kept and the remainder is rounded to nearest, ties to even; a carry out of the
  significand moves into the exponent by itself.\<close>

definition mag_of_nat :: "nat \<Rightarrow> nat" where
  "mag_of_nat m =
     (if m = 0 then 0
      else let e = floorlog 2 m - 1 in
        if e \<le> 52 then (e + 1023) * 2 ^ 52 + (m * 2 ^ (52 - e) - 2 ^ 52)
        else let s = e - 52; q = m div 2 ^ s; r = m mod 2 ^ s;
                 up = (if 2 ^ s < 2 * r \<or> (2 ^ s = 2 * r \<and> odd q) then 1 else 0)
             in (e + 1023) * 2 ^ 52 + (q + up - 2 ^ 52))"

definition f64_of_int :: "int \<Rightarrow> f64" where
  "f64_of_int i = (if i < 0 then of_nat (2 ^ 63 + mag_of_nat (nat (- i))) else of_nat (mag_of_nat (nat i)))"

section \<open>Enumerations\<close>

datatype StatusCode = CODE_OK | CODE_INVALID_ARGUMENT | CODE_NOT_FOUND | CODE_FAILED_PRECONDITION
  | CODE_UNAVAILABLE | CODE_DEADLINE_EXCEEDED | CODE_INTERNAL | CODE_OUT_OF_RANGE
  | CODE_RESOURCE_EXHAUSTED | CODE_OTHER int

datatype ValueType = VALUE_TYPE_BOOL | VALUE_TYPE_INT64 | VALUE_TYPE_UINT64 | VALUE_TYPE_DOUBLE
  | VALUE_TYPE_STRING | VALUE_TYPE_BYTES | VALUE_TYPE_OTHER int

datatype Category = CATEGORY_UNSPECIFIED | CATEGORY_READ | CATEGORY_ACTUATE | CATEGORY_CONFIG
  | CATEGORY_OTHER int

datatype ProtoQuality = QUALITY_UNSPECIFIED | QUALITY_OK | QUALITY_STALE | QUALITY_FAULT
  | QUALITY_UNKNOWN | QUALITY_OTHER int

section \<open>Messages\<close>

datatype ValueKind = K_Unset | K_Bool bool | K_Int64 u64 | K_Uint64 u64 | K_Double f64
  | K_String string | K_Bytes "u8 list"

record Value =
  v_type :: ValueType
  v_kind :: ValueKind

type_synonym args_map = "(string \<times> Value) list"

text \<open>The accessors of a oneof member return the default when another member is set.\<close>

definition bool_value :: "Value \<Rightarrow> bool" where
  "bool_value v = (case v_kind v of K_Bool b \<Rightarrow> b | _ \<Rightarrow> False)"

definition int64_value :: "Value \<Rightarrow> u64" where
  "int64_value v = (case v_kind v of K_Int64 i \<Rightarrow> i | _ \<Rightarrow> 0)"

definition uint64_value :: "Value \<Rightarrow> u64" where
  "uint64_value v = (case v_kind v of K_Uint64 u \<Rightarrow> u | _ \<Rightarrow> 0)"

definition double_value :: "Value \<Rightarrow> f64" where
  "double_value v = (case v_kind v of K_Double d \<Rightarrow> d | _ \<Rightarrow> 0)"

definition string_value :: "Value \<Rightarrow> string" where
  "string_value v = (case v_kind v of K_String s \<Rightarrow> s | _ \<Rightarrow> [])"

definition bytes_value :: "Value \<Rightarrow> u8 list" where
  "bytes_value v = (case v_kind v of K_Bytes bs \<Rightarrow> bs | _ \<Rightarrow> [])"

record ArgSpec =
  as_name :: string
  as_type :: ValueType
  as_required :: bool
  as_min_double :: "f64 option"
  as_max_double :: "f64 option"
  as_min_int64 :: "u64 option"
  as_max_int64 :: "u64 option"
  as_min_uint64 :: "u64 option"
  as_max_uint64 :: "u64 option"
  as_allowed_values :: "string list"
  as_description :: string
  as_unit :: string

record FunctionPolicy =
  fp_category :: Category
  fp_allowed_modes :: "string list"
  fp_min_interval_ms :: u32
  fp_requires_lease :: bool

record ProtoSignal =
  sg_signal_id :: string
  sg_name :: string
  sg_unit :: string
  sg_description :: string
  sg_value_type :: ValueType
  sg_poll_hint_hz :: f64
  sg_stale_after_ms :: u32

record ProtoFunction =
  fn_function_id :: u32
  fn_name :: string
  fn_description :: string
  fn_args :: "ArgSpec list"
  fn_policy :: FunctionPolicy

record ProtoDevice =
  pd_device_id :: string
  pd_label :: string
  pd_type_id :: string
  pd_type_version :: string
  pd_tags :: "(string \<times> string) list"

record CapabilitySet =
  cs_signals :: "ProtoSignal list"
  cs_functions :: "ProtoFunction list"

record SignalValue =
  sv_signal_id :: string
  sv_value :: Value
  sv_quality :: ProtoQuality
  sv_timestamp :: "(int \<times> int) option"

section \<open>Lemmas on doubles\<close>

lemma f64_mag_bound: "f64_mag b < 2 ^ 63"
  by (simp add: f64_mag_def)

lemma mag_scaled_Suc: "mag_scaled m < mag_scaled (Suc m)"
proof (cases "Suc (m mod 2 ^ 52) = 2 ^ 52")
  case True
  then have d: "Suc m div 2 ^ 52 = Suc (m div 2 ^ 52)" "Suc m mod 2 ^ 52 = 0"
    by (simp_all add: div_Suc mod_Suc)
  have lt: "m mod 2 ^ 52 < (2 :: nat) ^ 52" by simp
  show ?thesis
  proof (cases "m div 2 ^ 52")
    case 0
    then show ?thesis using d lt by (simp add: mag_scaled_def)
  next
    case (Suc k)
    have "(2 ^ 52 + m mod 2 ^ 52) * 2 ^ k < (2 ^ 52 + 2 ^ 52) * (2 :: nat) ^ k"
      using lt by (intro mult_strict_right_mono) auto
    then show ?thesis using d Suc by (simp add: mag_scaled_def)
  qed
next
  case False
  then have "Suc m div 2 ^ 52 = m div 2 ^ 52" "Suc m mod 2 ^ 52 = Suc (m mod 2 ^ 52)"
    by (simp_all add: div_Suc mod_Suc)
  then show ?thesis by (simp add: mag_scaled_def)
qed

lemma mag_scaled_less_iff: "mag_scaled m < mag_scaled n \<longleftrightarrow> m < n"
  using strict_mono_less [of mag_scaled] mag_scaled_Suc by (simp add: strict_mono_Suc_iff)

lemma mag_scaled_0 [simp]: "mag_scaled 0 = 0"
  by (simp add: mag_scaled_def)

text \<open>The order decided on bit patterns is the order of the numbers.\<close>

lemma f64_lt_scaled:
  assumes "f64_finite a" and "f64_finite b"
  shows "f64_lt a b \<longleftrightarrow> f64_scaled a < f64_scaled b"
proof -
  have zero: "mag_scaled m = 0 \<longleftrightarrow> m = 0" for m
    using mag_scaled_less_iff [of 0 m] by auto
  have "f64_key a < f64_key b \<longleftrightarrow> f64_scaled a < f64_scaled b"
    using zero [of "f64_mag a"] zero [of "f64_mag b"]
      mag_scaled_less_iff [of "f64_mag a" "f64_mag b"] mag_scaled_less_iff [of "f64_mag b" "f64_mag a"]
    by (auto simp: f64_key_def f64_scaled_def)
  with assms show ?thesis by (simp add: f64_lt_def f64_is_nan_def f64_finite_def)
qed

lemma floorlog_two_bounds:
  assumes "0 < m"
  shows "2 ^ (floorlog 2 m - 1) \<le> m" and "m < 2 ^ floorlog 2 m" and "0 < floorlog 2 m"
proof -
  show "2 ^ (floorlog 2 m - 1) \<le> m" and hi: "m < 2 ^ floorlog 2 m"
    using assms floorlog_bounds [of m 2] by auto
  show "0 < floorlog 2 m" using hi assms by (cases "floorlog 2 m") auto
qed

text \<open>A magnitude with exponent field \<open>e + 1023\<close> and significand \<open>f\<close>, hidden bit included.\<close>

lemma mag_scaled_parts:
  assumes "2 ^ 52 \<le> f" and "f < 2 * 2 ^ 52"
  shows "mag_scaled ((e + 1023) * 2 ^ 52 + (f - 2 ^ 52)) = f * 2 ^ (e + 1022)"
proof -
  have "f - 2 ^ 52 < 2 ^ 52" using assms by linarith
  then have "((e + 1023) * 2 ^ 52 + (f - 2 ^ 52)) div 2 ^ 52 = e + 1023"
    and "((e + 1023) * 2 ^ 52 + (f - 2 ^ 52)) mod 2 ^ 52 = f - 2 ^ 52"
    using mod_mult_self3 [of "e + 1023" "2 ^ 52" "f - 2 ^ 52"] by simp_all
  then show ?thesis using assms(1) by (simp add: mag_scaled_def)
qed

lemma mag_of_nat_exact_below:
  assumes "0 < m" and "m < 2 ^ 53"
  shows "mag_scaled (mag_of_nat m) = m * 2 ^ 1074 \<and> mag_of_nat m < 2047 * 2 ^ 52"
proof -
  define e where "e = floorlog 2 m - 1"
  have lo: "2 ^ e \<le> m" and hi: "m < 2 * 2 ^ e"
    using floorlog_two_bounds [OF assms(1)] by (auto simp: e_def simp flip: power_Suc)
  have e: "e \<le> 52"
  proof (rule ccontr)
    assume "\<not> e \<le> 52"
    then have "(2 :: nat) ^ 53 \<le> 2 ^ e" by (intro power_increasing) auto
    with lo assms(2) show False by linarith
  qed
  then obtain d where d: "e + d = 52" by (auto dest: le_Suc_ex)
  have pow: "(2 :: nat) ^ e * 2 ^ d = 2 ^ 52" by (simp add: d flip: power_add)
  define f where "f = m * 2 ^ d"
  have f: "2 ^ 52 \<le> f" "f < 2 * 2 ^ 52"
    unfolding f_def pow [symmetric] using lo hi by (simp_all add: mult.assoc [symmetric])
  have d': "d = 52 - e" using d by simp
  have eq: "mag_of_nat m = (e + 1023) * 2 ^ 52 + (f - 2 ^ 52)"
    using assms(1) e unfolding mag_of_nat_def f_def d' e_def Let_def by simp
  have "f * 2 ^ (e + 1022) = m * (2 ^ e * 2 ^ d) * 2 ^ 1022"
    by (simp only: f_def power_add mult_ac)
  also have "\<dots> = m * 2 ^ 1074" by (simp add: pow)
  finally have "mag_scaled (mag_of_nat m) = m * 2 ^ 1074"
    by (simp only: eq mag_scaled_parts [OF f])
  moreover have "mag_of_nat m < 2047 * 2 ^ 52" using f e by (simp add: eq)
  ultimately show ?thesis ..
qed

lemma mag_of_nat_exact:
  assumes "0 < m" and "m \<le> 2 ^ 53"
  shows "mag_scaled (mag_of_nat m) = m * 2 ^ 1074" and "mag_of_nat m < 2047 * 2 ^ 52"
proof -
  have "floorlog 2 (2 ^ 53) = 54" by (simp add: compute_floorlog)
  then have top: "mag_of_nat (2 ^ 53) = (53 + 1023) * 2 ^ 52"
    by (simp add: mag_of_nat_def Let_def)
  then have "mag_scaled (mag_of_nat (2 ^ 53)) = 2 ^ 53 * 2 ^ 1074"
    unfolding top by (simp add: mag_scaled_def)
  then have "mag_scaled (mag_of_nat m) = m * 2 ^ 1074 \<and> mag_of_nat m < 2047 * 2 ^ 52"
    using mag_of_nat_exact_below [OF assms(1)] assms(2) top by (cases "m = 2 ^ 53") auto
  then show "mag_scaled (mag_of_nat m) = m * 2 ^ 1074" and "mag_of_nat m < 2047 * 2 ^ 52" by simp_all
qed

text \<open>Integers of magnitude up to \<open>2 ^ 53\<close> convert exactly.\<close>

lemma f64_of_int_exact:
  assumes "\<bar>i\<bar> \<le> 2 ^ 53"
  shows "f64_scaled (f64_of_int i) = i * 2 ^ 1074" and "f64_finite (f64_of_int i)"
proof -
  have small: "nat \<bar>i\<bar> \<le> 2 ^ 53" using assms by simp
  have mag: "mag_scaled (mag_of_nat (nat \<bar>i\<bar>)) = nat \<bar>i\<bar> * 2 ^ 1074 \<and> mag_of_nat (nat \<bar>i\<bar>) < 2047 * 2 ^ 52"
    using mag_of_nat_exact [OF _ small] by (cases "i = 0") (simp_all add: mag_of_nat_def)
  have parts: "f64_neg (f64_of_int i) = (i < 0)" "f64_mag (f64_of_int i) = mag_of_nat (nat \<bar>i\<bar>)"
  proof -
    have u: "unat (of_nat k :: f64) = k" if "k < 2 ^ 64" for k
      using that by (simp add: unat_of_nat)
    show "f64_neg (f64_of_int i) = (i < 0)"
      using mag by (auto simp: f64_neg_def f64_of_int_def u simp del: of_nat_add)
    show "f64_mag (f64_of_int i) = mag_of_nat (nat \<bar>i\<bar>)"
      using mag by (auto simp: f64_mag_def f64_of_int_def u simp del: of_nat_add)
  qed
  show "f64_scaled (f64_of_int i) = i * 2 ^ 1074"
    using mag by (auto simp: f64_scaled_def parts)
  show "f64_finite (f64_of_int i)" using mag by (simp add: f64_finite_def parts)
qed

end
