(* ===== verification/Device_Registry.thy ===== *)
theory Device_Registry
  imports Protocol
begin

text \<open>
  The live inventory of devices (\<open>core/registry/device_registry.cpp\<close>) and the table of provider
  handles (\<open>core/provider/provider_registry.cpp\<close>).

  Discovery talks to a provider: its answers are arguments. \<open>ListDevices\<close> either fails or lists
  devices, and each listed device comes with the answer \<open>DescribeDevice\<close> gave for it (\<open>None\<close> when
  that call failed). The published inventory is the vector of devices plus the index from handle to
  position that every commit rebuilds; the lookups go through the index. Provider handles are a type
  parameter: the registry only stores and returns them.
\<close>

section \<open>Provider registry\<close>

type_synonym 'h ProviderRegistry = "(string \<times> 'h) list"

definition add_provider :: "string \<Rightarrow> 'h \<Rightarrow> 'h ProviderRegistry \<Rightarrow> 'h ProviderRegistry" where
  [op_defs]: "add_provider provider_id provider r = AList.update provider_id provider r"

definition remove_provider :: "string \<Rightarrow> 'h ProviderRegistry \<Rightarrow> bool \<times> 'h ProviderRegistry" where
  [op_defs]: "remove_provider provider_id r = (map_of r provider_id \<noteq> None, AList.delete provider_id r)"

definition get_provider :: "'h ProviderRegistry \<Rightarrow> string \<Rightarrow> 'h option" where
  [op_defs]: "get_provider r provider_id = map_of r provider_id"

definition get_all_providers :: "'h ProviderRegistry \<Rightarrow> (string \<times> 'h) list" where
  [op_defs]: "get_all_providers r = r"

definition get_provider_ids :: "'h ProviderRegistry \<Rightarrow> string list" where
  [op_defs]: "get_provider_ids r = map fst r"

definition has_provider :: "'h ProviderRegistry \<Rightarrow> string \<Rightarrow> bool" where
  [op_defs]: "has_provider r provider_id = (map_of r provider_id \<noteq> None)"

definition provider_count :: "'h ProviderRegistry \<Rightarrow> nat" where
  [op_defs]: "provider_count r = length r"

definition clear_providers :: "'h ProviderRegistry \<Rightarrow> 'h ProviderRegistry" where
  [op_defs]: "clear_providers r = []"

section \<open>Capability snapshots\<close>

record SignalSpec =
  ss_signal_id :: string
  ss_label :: string
  ss_unit :: string
  ss_description :: string
  ss_type :: ValueType
  ss_readable :: bool
  ss_writable :: bool
  ss_is_default :: bool
  ss_stale_after_ms :: u32
  ss_poll_hint_hz :: f64

record FunctionSpec =
  fs_function_id :: u32
  fs_function_name :: string
  fs_label :: string
  fs_args :: "ArgSpec list"
  fs_category :: Category
  fs_allowed_modes :: "string list"
  fs_min_interval_ms :: u32
  fs_requires_lease :: bool

record DeviceCapabilitySet =
  dc_proto :: ProtoDevice
  dc_signals_by_id :: "(string \<times> SignalSpec) list"
  dc_functions_by_id :: "(string \<times> FunctionSpec) list"

record RegisteredDevice =
  rd_provider_id :: string
  rd_device_id :: string
  rd_capabilities :: DeviceCapabilitySet

definition get_handle :: "RegisteredDevice \<Rightarrow> string" where
  "get_handle d = rd_provider_id d @ ''/'' @ rd_device_id d"

definition is_actuating :: "FunctionSpec \<Rightarrow> bool" where
  "is_actuating spec = (fs_category spec \<noteq> CATEGORY_READ)"

definition signal_spec :: "ProtoSignal \<Rightarrow> SignalSpec" where
  "signal_spec sg = \<lparr> ss_signal_id = sg_signal_id sg, ss_label = sg_name sg, ss_unit = sg_unit sg,
     ss_description = sg_description sg, ss_type = sg_value_type sg, ss_readable = True,
     ss_writable = False, ss_is_default = f64_lt 0 (sg_poll_hint_hz sg),
     ss_stale_after_ms = sg_stale_after_ms sg, ss_poll_hint_hz = sg_poll_hint_hz sg \<rparr>"

definition function_spec :: "ProtoFunction \<Rightarrow> FunctionSpec" where
  "function_spec fn = \<lparr> fs_function_id = fn_function_id fn, fs_function_name = fn_name fn,
     fs_label = fn_description fn, fs_args = fn_args fn,
     fs_category = fp_category (fn_policy fn), fs_allowed_modes = fp_allowed_modes (fn_policy fn),
     fs_min_interval_ms = fp_min_interval_ms (fn_policy fn),
     fs_requires_lease = fp_requires_lease (fn_policy fn) \<rparr>"

text \<open>\<open>build_capabilities\<close> always succeeds. A later signal or function with the same key replaces the
  earlier one.\<close>

definition build_capabilities :: "ProtoDevice \<Rightarrow> CapabilitySet \<Rightarrow> DeviceCapabilitySet" where
  "build_capabilities proto_device proto_caps = \<lparr> dc_proto = proto_device,
     dc_signals_by_id =
       fold (\<lambda>sg. AList.update (sg_signal_id sg) (signal_spec sg)) (cs_signals proto_caps) [],
     dc_functions_by_id =
       fold (\<lambda>fn. AList.update (fn_name fn) (function_spec fn)) (cs_functions proto_caps) [] \<rparr>"

section \<open>Device registry\<close>

record DeviceRegistry =
  dr_devices :: "RegisteredDevice list"
  dr_handle_to_index :: "(string \<times> nat) list"
  dr_error :: string

definition new_registry :: DeviceRegistry where
  "new_registry = \<lparr> dr_devices = [], dr_handle_to_index = [], dr_error = [] \<rparr>"

text \<open>The left summand is a failed \<open>ListDevices\<close> with the provider's error text.\<close>

type_synonym list_answer = "string + (ProtoDevice \<times> (ProtoDevice \<times> CapabilitySet) option) list"

definition register_device :: "string \<Rightarrow> string \<Rightarrow> ProtoDevice \<Rightarrow> CapabilitySet \<Rightarrow> RegisteredDevice" where
  "register_device provider_id device_id described caps = \<lparr> rd_provider_id = provider_id,
     rd_device_id = device_id, rd_capabilities = build_capabilities described caps \<rparr>"

fun describe_all :: "string \<Rightarrow> (ProtoDevice \<times> (ProtoDevice \<times> CapabilitySet) option) list \<Rightarrow> RegisteredDevice list" where
  "describe_all provider_id [] = []"
| "describe_all provider_id ((brief, None) # rest) = describe_all provider_id rest"
| "describe_all provider_id ((brief, Some (described, caps)) # rest) =
     register_device provider_id (pd_device_id brief) described caps # describe_all provider_id rest"

definition inspect_provider_devices ::
  "string \<Rightarrow> list_answer \<Rightarrow> DeviceRegistry \<Rightarrow> RegisteredDevice list option \<times> DeviceRegistry" where
  "inspect_provider_devices provider_id answer r =
     (case answer of
        Inl err \<Rightarrow> (None, r\<lparr> dr_error := ''ListDevices failed: '' @ err \<rparr>)
      | Inr listed \<Rightarrow> (Some (describe_all provider_id listed), r))"

definition rebuild_index :: "RegisteredDevice list \<Rightarrow> (string \<times> nat) list" where
  "rebuild_index devices =
     fold (\<lambda>i. AList.update (get_handle (devices ! i)) i) [0..<length devices] []"

definition commit_provider_devices ::
  "string \<Rightarrow> RegisteredDevice list \<Rightarrow> bool \<Rightarrow> DeviceRegistry \<Rightarrow> DeviceRegistry" where
  [op_defs]: "commit_provider_devices provider_id discovered_devices replace_existing r =
     (let kept = (if replace_existing then filter (\<lambda>d. rd_provider_id d \<noteq> provider_id) (dr_devices r)
                  else dr_devices r);
          devices = kept @ discovered_devices
      in r\<lparr> dr_devices := devices, dr_handle_to_index := rebuild_index devices \<rparr>)"

definition discover_provider :: "string \<Rightarrow> list_answer \<Rightarrow> bool \<Rightarrow> DeviceRegistry \<Rightarrow> bool \<times> DeviceRegistry" where
  [op_defs]: "discover_provider provider_id answer replace_existing r =
     (case inspect_provider_devices provider_id answer r of
        (None, r1) \<Rightarrow> (False, r1)
      | (Some ds, r1) \<Rightarrow> (True, commit_provider_devices provider_id ds replace_existing r1))"

definition get_device_by_handle_copy :: "DeviceRegistry \<Rightarrow> string \<Rightarrow> RegisteredDevice option" where
  "get_device_by_handle_copy r handle = map_option (\<lambda>i. dr_devices r ! i) (map_of (dr_handle_to_index r) handle)"

definition get_device_copy :: "DeviceRegistry \<Rightarrow> string \<Rightarrow> string \<Rightarrow> RegisteredDevice option" where
  "get_device_copy r provider_id device_id = get_device_by_handle_copy r (provider_id @ ''/'' @ device_id)"

definition get_all_devices :: "DeviceRegistry \<Rightarrow> RegisteredDevice list" where
  "get_all_devices r = dr_devices r"

definition get_devices_for_provider :: "DeviceRegistry \<Rightarrow> string \<Rightarrow> RegisteredDevice list" where
  "get_devices_for_provider r provider_id = filter (\<lambda>d. rd_provider_id d = provider_id) (dr_devices r)"

definition clear_provider_devices :: "string \<Rightarrow> DeviceRegistry \<Rightarrow> DeviceRegistry" where
  [op_defs]: "clear_provider_devices provider_id r =
     (let devices = filter (\<lambda>d. rd_provider_id d \<noteq> provider_id) (dr_devices r)
      in r\<lparr> dr_devices := devices, dr_handle_to_index := rebuild_index devices \<rparr>)"

definition device_count :: "DeviceRegistry \<Rightarrow> nat" where
  "device_count r = length (dr_devices r)"

section \<open>Specification\<close>

text \<open>The registries a runtime can have: discoveries and clearings, in any order, from the empty
  one.\<close>

inductive registry_reach :: "DeviceRegistry \<Rightarrow> bool" where
  reach_new: "registry_reach new_registry"
| reach_commit: "registry_reach r \<Longrightarrow> registry_reach (commit_provider_devices p ds replace_existing r)"
| reach_inspect: "registry_reach r \<Longrightarrow> registry_reach (snd (inspect_provider_devices p answer r))"
| reach_clear: "registry_reach r \<Longrightarrow> registry_reach (clear_provider_devices p r)"

text \<open>What a lookup means without an index: the last published device with the handle.\<close>

definition last_with_handle :: "RegisteredDevice list \<Rightarrow> string \<Rightarrow> RegisteredDevice option" where
  "last_with_handle ds handle = find (\<lambda>d. get_handle d = handle) (rev ds)"

section \<open>Lemmas\<close>

lemma rebuild_index_snoc:
  "rebuild_index (ds @ [d]) = AList.update (get_handle d) (length ds) (rebuild_index ds)"
proof -
  have "fold (\<lambda>i. AList.update (get_handle ((ds @ [d]) ! i)) i) [0..<length ds] []
      = fold (\<lambda>i. AList.update (get_handle (ds ! i)) i) [0..<length ds] []"
    by (rule fold_cong) (auto simp: nth_append)
  then show ?thesis by (simp add: rebuild_index_def)
qed

lemma rebuild_index_bound: "map_of (rebuild_index ds) h = Some i \<Longrightarrow> i < length ds"
proof (induction ds arbitrary: i rule: rev_induct)
  case Nil
  then show ?case by (simp add: rebuild_index_def)
next
  case (snoc d ds)
  then show ?case by (fastforce simp: rebuild_index_snoc update_conv split: if_splits)
qed

lemma rebuild_index_lookup:
  "map_option ((!) ds) (map_of (rebuild_index ds) h) = last_with_handle ds h"
proof (induction ds rule: rev_induct)
  case Nil
  then show ?case by (simp add: rebuild_index_def last_with_handle_def)
next
  case (snoc d ds)
  have "map_option ((!) (ds @ [d])) (map_of (rebuild_index ds) h) = map_option ((!) ds) (map_of (rebuild_index ds) h)"
    by (cases "map_of (rebuild_index ds) h") (auto simp: nth_append dest: rebuild_index_bound)
  with snoc show ?case
    by (auto simp: rebuild_index_snoc update_conv last_with_handle_def)
qed

lemma reach_index: "registry_reach r \<Longrightarrow> dr_handle_to_index r = rebuild_index (dr_devices r)"
proof (induction rule: registry_reach.induct)
  case reach_new
  show ?case by (simp add: new_registry_def rebuild_index_def)
qed (auto simp: op_defs Let_def inspect_provider_devices_def split: sum.splits)

lemma reach_lookup: "registry_reach r \<Longrightarrow> get_device_by_handle_copy r h = last_with_handle (dr_devices r) h"
  using rebuild_index_lookup by (simp add: get_device_by_handle_copy_def reach_index)

lemma describe_all_provider: "d \<in> set (describe_all p listed) \<Longrightarrow> rd_provider_id d = p"
  by (induction p listed rule: describe_all.induct) (auto simp: register_device_def)

lemma find_append: "find P (xs @ ys) = (case find P xs of None \<Rightarrow> find P ys | Some x \<Rightarrow> Some x)"
  by (induction xs) auto

lemma last_with_handle_append:
  "last_with_handle (xs @ ys) h = (case last_with_handle ys h of None \<Rightarrow> last_with_handle xs h | Some d \<Rightarrow> Some d)"
  by (simp add: last_with_handle_def find_append split: option.split)

lemma handle_inject:
  assumes "CHR ''/'' \<notin> set p" and "CHR ''/'' \<notin> set q"
  shows "p @ ''/'' @ d = q @ ''/'' @ e \<longleftrightarrow> p = q \<and> d = e"
proof
  assume "p @ ''/'' @ d = q @ ''/'' @ e"
  then have "split_first (CHR ''/'') (p @ CHR ''/'' # d) = split_first (CHR ''/'') (q @ CHR ''/'' # e)"
    by simp
  with assms show "p = q \<and> d = e" by simp
qed simp

lemma last_with_handle_filter:
  "(\<And>d. d \<in> set ds \<Longrightarrow> get_handle d = h \<Longrightarrow> P d) \<Longrightarrow> last_with_handle (filter P ds) h = last_with_handle ds h"
proof (induction ds rule: rev_induct)
  case (snoc d ds)
  then show ?case by (auto simp: last_with_handle_def)
qed (simp add: last_with_handle_def)

lemma last_with_handle_None: "last_with_handle ds h = None \<longleftrightarrow> (\<forall>d \<in> set ds. get_handle d \<noteq> h)"
  by (auto simp: last_with_handle_def find_None_iff)

lemma last_with_handle_own:
  assumes "\<And>d. d \<in> set ds \<Longrightarrow> rd_provider_id d = p"
  shows "last_with_handle ds (p @ ''/'' @ dev) = find (\<lambda>d. rd_device_id d = dev) (rev ds)"
  using assms unfolding last_with_handle_def by (intro find_cong) (auto simp: get_handle_def)

lemma last_with_handle_other:
  assumes "\<And>d. d \<in> set ds \<Longrightarrow> rd_provider_id d = p"
    and "p \<noteq> q" and "CHR ''/'' \<notin> set p" and "CHR ''/'' \<notin> set q"
  shows "last_with_handle ds (q @ ''/'' @ dev) = None"
  using assms handle_inject [OF assms(3,4)] by (auto simp: last_with_handle_None get_handle_def)

lemma functions_by_id_lookup:
  assumes "map_of (dc_functions_by_id (build_capabilities dev caps)) name = Some spec"
  shows "\<exists>fn \<in> set (cs_functions caps). fn_name fn = name \<and> spec = function_spec fn"
  using umap.get_fold_SomeD [of fn_name function_spec "cs_functions caps" "[]" name spec] assms
  by (auto simp: build_capabilities_def)

section \<open>Properties\<close>

text \<open>A rediscovery swaps exactly one provider's inventory. Whatever discoveries and clearings came
  before, once \<open>ListDevices\<close> of provider \<open>p\<close> answers, a lookup by the handle \<open>q/dev\<close> returns,
  for \<open>q = p\<close>, the last listed device of that id which could be described (and nothing of the
  previous inventory), and for every other provider what it returned before. When \<open>ListDevices\<close>
  fails, every lookup is unchanged. The provider ids involved have no slash in them.\<close>

lemma discover_swaps_one_provider:
  assumes "registry_reach r" and "CHR ''/'' \<notin> set p" and "CHR ''/'' \<notin> set q"
    and "\<forall>d \<in> set (dr_devices r). CHR ''/'' \<notin> set (rd_provider_id d)"
  shows "get_device_copy (snd (discover_provider p (Inr listed) True r)) q dev =
      (if q = p then find (\<lambda>d. rd_device_id d = dev) (rev (describe_all p listed))
       else get_device_copy r q dev) \<and>
    get_device_copy (snd (discover_provider p (Inl err) True r)) q dev = get_device_copy r q dev"
proof -
  let ?kept = "filter (\<lambda>d. rd_provider_id d \<noteq> p) (dr_devices r)"
  let ?new = "describe_all p listed" and ?h = "q @ ''/'' @ dev"
  have dis: "snd (discover_provider p (Inr listed) True r) = commit_provider_devices p ?new True r"
    by (simp add: discover_provider_def inspect_provider_devices_def)
  have "get_device_copy (snd (discover_provider p (Inr listed) True r)) q dev = last_with_handle (?kept @ ?new) ?h"
    using reach_lookup [OF reach_commit [OF assms(1), of p ?new True], of ?h]
    by (simp add: dis get_device_copy_def commit_provider_devices_def Let_def)
  also have "\<dots> = (if q = p then find (\<lambda>d. rd_device_id d = dev) (rev ?new) else get_device_copy r q dev)"
  proof (cases "q = p")
    case True
    have "get_handle d \<noteq> ?h" if "d \<in> set ?kept" for d
      using that assms(2,4) handle_inject [of "rd_provider_id d" p "rd_device_id d" dev] True
      by (auto simp: get_handle_def)
    then have "last_with_handle ?kept ?h = None" by (simp add: last_with_handle_None)
    then show ?thesis using True last_with_handle_own [of ?new p dev, OF describe_all_provider]
      by (simp add: last_with_handle_append split: option.split)
  next
    case False
    have "last_with_handle ?kept ?h = last_with_handle (dr_devices r) ?h"
      using assms(3,4) False handle_inject [of _ q _ dev]
      by (intro last_with_handle_filter) (auto simp: get_handle_def)
    then show ?thesis
      using False last_with_handle_other [of ?new p q dev, OF describe_all_provider] assms
      by (simp add: last_with_handle_append get_device_copy_def reach_lookup)
  qed
  finally have "get_device_copy (snd (discover_provider p (Inr listed) True r)) q dev =
      (if q = p then find (\<lambda>d. rd_device_id d = dev) (rev ?new) else get_device_copy r q dev)" .
  moreover have "get_device_copy (snd (discover_provider p (Inl err) True r)) q dev = get_device_copy r q dev"
    by (simp add: discover_provider_def inspect_provider_devices_def get_device_copy_def
        get_device_by_handle_copy_def)
  ultimately show ?thesis by blast
qed

theorem discover_swaps_one_provider_witness:
  "get_device_copy (snd (discover_provider ''sim0'' (Inr []) True new_registry)) ''bread0'' ''d'' = None \<and>
   get_device_copy (snd (discover_provider ''sim0'' (Inl ''timeout'') True new_registry)) ''bread0'' ''d'' = None"
proof -
  have reach: "registry_reach new_registry" by (rule reach_new)
  have none: "get_device_copy new_registry ''bread0'' ''d'' = None"
    by (simp add: get_device_copy_def get_device_by_handle_copy_def new_registry_def)
  have empty: "\<forall>d \<in> set (dr_devices new_registry). CHR ''/'' \<notin> set (rd_provider_id d)"
    by (simp add: new_registry_def)
  show ?thesis
    using discover_swaps_one_provider [OF reach _ _ empty, of "''sim0''" "''bread0''"] none by simp
qed

text \<open>Handles do not determine the device: ids that contain a slash, which nothing refuses, give two
  devices one handle, and the lookup finds only the later one.\<close>

definition slash_first :: RegisteredDevice where
  "slash_first = \<lparr> rd_provider_id = ''a/b'', rd_device_id = ''c'', rd_capabilities =
     \<lparr> dc_proto = \<lparr> pd_device_id = ''c'', pd_label = [], pd_type_id = [], pd_type_version = [], pd_tags = [] \<rparr>,
       dc_signals_by_id = [], dc_functions_by_id = [] \<rparr> \<rparr>"

definition slash_second :: RegisteredDevice where
  "slash_second = slash_first\<lparr> rd_provider_id := ''a'', rd_device_id := ''b/c'' \<rparr>"

lemma handles_collide:
  "let r = commit_provider_devices ''a'' [slash_second] False
             (commit_provider_devices ''a/b'' [slash_first] False new_registry)
   in device_count r = 2 \<and> get_device_copy r ''a/b'' ''c'' = Some slash_second"
  by (simp add: Let_def commit_provider_devices_def new_registry_def device_count_def get_device_copy_def
      get_device_by_handle_copy_def rebuild_index_def get_handle_def slash_first_def slash_second_def)

end
