(* ===== verification/Provider_Handle.thy ===== *)
theory Provider_Handle
  imports Framed_Stdio Device_Registry
begin

text \<open>
  \<open>core/provider/provider_handle.cpp\<close>: one synchronous request/response exchange at a time with a
  provider process. The process, its clock and the bytes it writes are inputs of an exchange
  (\<open>SendEnv\<close> and one \<open>WaitEntry\<close> per turn of the waiting loop); the protobuf codec is a pair of
  parameters \<open>serialize\<close> and \<open>parse\<close>. The type variable is the body of a health report, which the
  handle passes through. \<open>ph_pipe\<close> holds the bytes the provider has written and nobody has read.
\<close>

section \<open>Messages\<close>

datatype RequestBody = ReqHello string string string | ReqWaitReady int | ReqListDevices
  | ReqDescribeDevice string | ReqReadSignals string "string list"
  | ReqCall string u32 string args_map | ReqGetHealth

record Request =
  rq_request_id :: u64
  rq_body :: RequestBody

record HelloResponse =
  hr_protocol_version :: string
  hr_provider_name :: string
  hr_provider_version :: string
  hr_metadata :: "(string \<times> string) list"

datatype 'g ResponseBody = RespNone | RespHello HelloResponse | RespWaitReady "(string \<times> string) list"
  | RespListDevices "ProtoDevice list" | RespDescribeDevice ProtoDevice CapabilitySet
  | RespReadSignals "SignalValue list" | RespCall args_map | RespGetHealth 'g

record 'g Response =
  rs_request_id :: u64
  rs_status_code :: StatusCode
  rs_status_message :: string
  rs_body :: "'g ResponseBody"

section \<open>State and environment\<close>

record ProviderHandle =
  ph_client :: FramedStdioClient
  ph_pipe :: "u8 list"
  ph_session_healthy :: bool
  ph_error :: string
  ph_last_status_code :: StatusCode
  ph_next_request_id :: u32
  ph_timeout_ms :: int
  ph_hello_timeout_ms :: int
  ph_ready_timeout_ms :: int

definition new_handle :: "int \<Rightarrow> int \<Rightarrow> int \<Rightarrow> ProviderHandle" where
  "new_handle timeout_ms hello_timeout_ms ready_timeout_ms = \<lparr> ph_client = new_client, ph_pipe = [],
     ph_session_healthy = False, ph_error = '''', ph_last_status_code = CODE_OK,
     ph_next_request_id = 1, ph_timeout_ms = timeout_ms, ph_hello_timeout_ms = hello_timeout_ms,
     ph_ready_timeout_ms = ready_timeout_ms \<rparr>"

text \<open>One turn of the loop in \<open>wait_for_response\<close>: the elapsed time at its head, the outcome of
  \<open>poll\<close>, the bytes that arrived by then, the elapsed time read before the frame is read, the reads
  of that frame, and whether the process still runs at the end of the turn.\<close>

record WaitEntry =
  we_elapsed_ms :: int
  we_poll :: poll_result
  we_arrived :: "u8 list"
  we_elapsed2_ms :: int
  we_reads :: read_script
  we_running :: bool

record SendEnv =
  se_lock_acquired :: bool
  se_running :: bool
  se_writes :: write_script
  se_waits :: "WaitEntry list"

datatype 'r exchange = EX_Ok 'r | EX_Fail StatusCode | EX_Blocked

section \<open>One exchange\<close>

definition poison :: "string \<Rightarrow> ProviderHandle \<Rightarrow> ProviderHandle" where
  "poison msg h = h\<lparr> ph_session_healthy := False, ph_error := msg \<rparr>"

definition is_available :: "bool \<Rightarrow> ProviderHandle \<Rightarrow> bool" where
  "is_available running h = (ph_session_healthy h \<and> running)"

definition read_response ::
  "(u8 list \<Rightarrow> 'g Response option) \<Rightarrow> u64 \<Rightarrow> int \<Rightarrow> read_script \<Rightarrow> ProviderHandle \<Rightarrow>
   'g Response exchange \<times> ProviderHandle" where
  "read_response parse expected_request_id read_timeout reads h =
     (case read_frame read_timeout reads (ph_client h) (ph_pipe h) of
        (IO_Ok, c, pipe, frame_data, _) \<Rightarrow>
          (let h = h\<lparr> ph_client := c, ph_pipe := pipe \<rparr> in
           case parse frame_data of
             None \<Rightarrow> (EX_Fail CODE_INTERNAL, poison ''Failed to parse response protobuf'' h)
           | Some response \<Rightarrow>
               if rs_request_id response \<noteq> expected_request_id
               then (EX_Fail CODE_INTERNAL,
                     poison (''Response request_id mismatch (expected '' @
                       nat_to_string (unat expected_request_id) @ '', got '' @
                       nat_to_string (unat (rs_request_id response)) @ '')'') h)
               else (EX_Ok response, h))
      | (IO_Fail, c, pipe, _, _) \<Rightarrow>
          (let h = h\<lparr> ph_client := c, ph_pipe := pipe \<rparr> in
           if fc_error c \<noteq> ''''
           then (EX_Fail CODE_UNAVAILABLE, poison (''Failed to read response: '' @ fc_error c) h)
           else (EX_Fail CODE_DEADLINE_EXCEEDED, h\<lparr> ph_error := ''Timed out reading response payload'' \<rparr>))
      | (IO_Blocked, c, pipe, _, _) \<Rightarrow> (EX_Blocked, h\<lparr> ph_client := c, ph_pipe := pipe \<rparr>))"

fun wait_for_response ::
  "(u8 list \<Rightarrow> 'g Response option) \<Rightarrow> u64 \<Rightarrow> int \<Rightarrow> WaitEntry list \<Rightarrow> ProviderHandle \<Rightarrow>
   'g Response exchange \<times> ProviderHandle" where
  "wait_for_response parse expected_request_id timeout_ms [] h = (EX_Blocked, h)"
| "wait_for_response parse expected_request_id timeout_ms (w # ws) h =
     (if timeout_ms \<le> we_elapsed_ms w
      then (EX_Fail CODE_DEADLINE_EXCEEDED,
            poison (''Timeout waiting for response ('' @ int_to_string timeout_ms @ ''ms)'') h)
      else
        (let (ready, c) = wait_for_data (ph_client h) (we_poll w);
             h = h\<lparr> ph_client := c, ph_pipe := ph_pipe h @ we_arrived w \<rparr>
         in
         if ready then read_response parse expected_request_id (max 0 (timeout_ms - we_elapsed2_ms w)) (we_reads w) h
         else if fc_error c \<noteq> ''''
         then (EX_Fail CODE_UNAVAILABLE, poison (''Failed waiting for response: '' @ fc_error c) h)
         else if \<not> we_running w
         then (EX_Fail CODE_UNAVAILABLE, poison ''Provider process died while waiting for response'' h)
         else wait_for_response parse expected_request_id timeout_ms ws h))"

definition timeout_to_use :: "RequestBody \<Rightarrow> ProviderHandle \<Rightarrow> int" where
  "timeout_to_use body h = (case body of ReqHello _ _ _ \<Rightarrow> ph_hello_timeout_ms h
     | ReqWaitReady _ \<Rightarrow> ph_ready_timeout_ms h | _ \<Rightarrow> ph_timeout_ms h)"

definition fail_exchange :: "StatusCode \<Rightarrow> string \<Rightarrow> ProviderHandle \<Rightarrow> ProviderHandle" where
  "fail_exchange code msg h = h\<lparr> ph_last_status_code := code, ph_error := msg \<rparr>"

text \<open>The result, the bytes put into the provider's input pipe, and the handle afterwards.\<close>

definition send_request ::
  "(Request \<Rightarrow> u8 list option) \<Rightarrow> (u8 list \<Rightarrow> 'g Response option) \<Rightarrow> Request \<Rightarrow> SendEnv \<Rightarrow> ProviderHandle \<Rightarrow>
   'g Response exchange \<times> u8 list \<times> ProviderHandle" where
  "send_request serialize parse request env h =
     (if \<not> se_lock_acquired env then (EX_Fail CODE_DEADLINE_EXCEEDED, [], h)
      else if \<not> ph_session_healthy h
      then (EX_Fail CODE_UNAVAILABLE, [], fail_exchange CODE_UNAVAILABLE ''Provider session not healthy'' h)
      else if \<not> se_running env
      then (EX_Fail CODE_UNAVAILABLE, [],
            fail_exchange CODE_UNAVAILABLE ''Provider process not running'' (h\<lparr> ph_session_healthy := False \<rparr>))
      else case serialize request of
        None \<Rightarrow> (EX_Fail CODE_INTERNAL, [], fail_exchange CODE_INTERNAL ''Failed to serialize request'' h)
      | Some serialized \<Rightarrow>
          (let timeout = timeout_to_use (rq_body request) h in
           case write_frame timeout serialized (se_writes env) (ph_client h) of
             (IO_Fail, c, out, _) \<Rightarrow>
               (EX_Fail CODE_UNAVAILABLE, out,
                fail_exchange CODE_UNAVAILABLE (''Failed to write request: '' @ fc_error c)
                  (h\<lparr> ph_client := c, ph_session_healthy := False \<rparr>))
           | (IO_Blocked, c, out, _) \<Rightarrow> (EX_Blocked, out, h\<lparr> ph_client := c \<rparr>)
           | (IO_Ok, c, out, _) \<Rightarrow>
               (case wait_for_response parse (rq_request_id request) timeout (se_waits env) (h\<lparr> ph_client := c \<rparr>) of
                  (EX_Blocked, h) \<Rightarrow> (EX_Blocked, out, h)
                | (EX_Fail status, h) \<Rightarrow> (EX_Fail status, out, h\<lparr> ph_last_status_code := status \<rparr>)
                | (EX_Ok response, h) \<Rightarrow>
                    (let status = rs_status_code response; h = h\<lparr> ph_last_status_code := status \<rparr> in
                     if status \<noteq> CODE_OK
                     then (EX_Fail status, out,
                           h\<lparr> ph_error := ''Provider returned error: '' @ rs_status_message response \<rparr>)
                     else (EX_Ok response, out, h)))))"

section \<open>Remote calls\<close>

definition next_request_id :: "ProviderHandle \<Rightarrow> u64 \<times> ProviderHandle" where
  "next_request_id h = (ucast (ph_next_request_id h), h\<lparr> ph_next_request_id := ph_next_request_id h + 1 \<rparr>)"

text \<open>The shape the remote calls share: take an id, send, pick the member of the response. The status
  of a failure is the one of the exchange, which is \<open>CODE_OK\<close> when the member was missing.\<close>

definition rpc ::
  "(Request \<Rightarrow> u8 list option) \<Rightarrow> (u8 list \<Rightarrow> 'g Response option) \<Rightarrow> RequestBody \<Rightarrow>
   ('g ResponseBody \<Rightarrow> 'r option) \<Rightarrow> string \<Rightarrow> SendEnv \<Rightarrow> ProviderHandle \<Rightarrow> 'r exchange \<times> ProviderHandle" where
  "rpc serialize parse body member missing env h =
     (let (request_id, h) = next_request_id h in
      case send_request serialize parse \<lparr> rq_request_id = request_id, rq_body = body \<rparr> env h of
        (EX_Ok resp, _, h) \<Rightarrow>
          (case member (rs_body resp) of
             Some r \<Rightarrow> (EX_Ok r, h)
           | None \<Rightarrow> (EX_Fail (rs_status_code resp), h\<lparr> ph_error := missing \<rparr>))
      | (EX_Fail status, _, h) \<Rightarrow> (EX_Fail status, h)
      | (EX_Blocked, _, h) \<Rightarrow> (EX_Blocked, h))"

definition hello ::
  "(Request \<Rightarrow> u8 list option) \<Rightarrow> (u8 list \<Rightarrow> 'g Response option) \<Rightarrow> SendEnv \<Rightarrow> ProviderHandle \<Rightarrow>
   HelloResponse exchange \<times> ProviderHandle" where
  "hello serialize parse env h =
     (case rpc serialize parse (ReqHello ''v1'' ''anolis-runtime'' ''0.1.0'')
             (\<lambda>b. case b of RespHello r \<Rightarrow> Some r | _ \<Rightarrow> None) ''Response missing hello field'' env h of
        (EX_Ok r, h) \<Rightarrow>
          if hr_protocol_version r \<noteq> ''v1''
          then (EX_Fail CODE_OK, h\<lparr> ph_error :=
                  ''Protocol version mismatch: runtime expects v1, provider reported '' @ hr_protocol_version r \<rparr>)
          else (EX_Ok r, h)
      | r \<Rightarrow> r)"

definition wait_ready ::
  "(Request \<Rightarrow> u8 list option) \<Rightarrow> (u8 list \<Rightarrow> 'g Response option) \<Rightarrow> SendEnv \<Rightarrow> ProviderHandle \<Rightarrow>
   (string \<times> string) list exchange \<times> ProviderHandle" where
  "wait_ready serialize parse env h =
     rpc serialize parse (ReqWaitReady (ph_ready_timeout_ms h))
       (\<lambda>b. case b of RespWaitReady d \<Rightarrow> Some d | _ \<Rightarrow> None) ''Response missing wait_ready field'' env h"

definition list_devices ::
  "(Request \<Rightarrow> u8 list option) \<Rightarrow> (u8 list \<Rightarrow> 'g Response option) \<Rightarrow> SendEnv \<Rightarrow> ProviderHandle \<Rightarrow>
   ProtoDevice list exchange \<times> ProviderHandle" where
  "list_devices serialize parse env h =
     rpc serialize parse ReqListDevices
       (\<lambda>b. case b of RespListDevices ds \<Rightarrow> Some ds | _ \<Rightarrow> None) ''Response missing list_devices field'' env h"

definition describe_device ::
  "(Request \<Rightarrow> u8 list option) \<Rightarrow> (u8 list \<Rightarrow> 'g Response option) \<Rightarrow> string \<Rightarrow> SendEnv \<Rightarrow> ProviderHandle \<Rightarrow>
   (ProtoDevice \<times> CapabilitySet) exchange \<times> ProviderHandle" where
  "describe_device serialize parse device_id env h =
     rpc serialize parse (ReqDescribeDevice device_id)
       (\<lambda>b. case b of RespDescribeDevice d c \<Rightarrow> Some (d, c) | _ \<Rightarrow> None)
       ''Response missing describe_device field'' env h"

text \<open>The one call whose missing member has a status of its own.\<close>

definition read_signals ::
  "(Request \<Rightarrow> u8 list option) \<Rightarrow> (u8 list \<Rightarrow> 'g Response option) \<Rightarrow> string \<Rightarrow> string list \<Rightarrow> SendEnv \<Rightarrow>
   ProviderHandle \<Rightarrow> SignalValue list exchange \<times> ProviderHandle" where
  "read_signals serialize parse device_id signal_ids env h =
     (let (request_id, h) = next_request_id h in
      case send_request serialize parse
          \<lparr> rq_request_id = request_id, rq_body = ReqReadSignals device_id signal_ids \<rparr> env h of
        (EX_Ok resp, _, h) \<Rightarrow>
          (case rs_body resp of
             RespReadSignals vs \<Rightarrow> (EX_Ok vs, h)
           | _ \<Rightarrow> (EX_Fail CODE_INTERNAL, h\<lparr> ph_error := ''Response missing read_signals field'' \<rparr>))
      | (EX_Fail status, _, h) \<Rightarrow> (EX_Fail status, h)
      | (EX_Blocked, _, h) \<Rightarrow> (EX_Blocked, h))"

text \<open>\<open>fold omap_put\<close> copies the arguments into the request's map entry by entry.\<close>

definition call ::
  "(Request \<Rightarrow> u8 list option) \<Rightarrow> (u8 list \<Rightarrow> 'g Response option) \<Rightarrow> string \<Rightarrow> u32 \<Rightarrow> string \<Rightarrow> args_map \<Rightarrow>
   SendEnv \<Rightarrow> ProviderHandle \<Rightarrow> args_map exchange \<times> ProviderHandle" where
  "call serialize parse device_id function_id function_name args env h =
     rpc serialize parse (ReqCall device_id function_id function_name (fold (\<lambda>(k, v). omap_put k v) args []))
       (\<lambda>b. case b of RespCall results \<Rightarrow> Some results | _ \<Rightarrow> None) ''Response missing call field'' env h"

text \<open>\<open>get_health\<close> waits for the session, \<open>try_get_health\<close> gives up: the difference is only whether
  \<open>se_lock_acquired\<close> can be false.\<close>

definition get_health_impl ::
  "(Request \<Rightarrow> u8 list option) \<Rightarrow> (u8 list \<Rightarrow> 'g Response option) \<Rightarrow> SendEnv \<Rightarrow> ProviderHandle \<Rightarrow>
   'g exchange \<times> ProviderHandle" where
  "get_health_impl serialize parse env h =
     rpc serialize parse ReqGetHealth (\<lambda>b. case b of RespGetHealth g \<Rightarrow> Some g | _ \<Rightarrow> None)
       ''Response missing get_health field'' env h"

definition get_health ::
  "(Request \<Rightarrow> u8 list option) \<Rightarrow> (u8 list \<Rightarrow> 'g Response option) \<Rightarrow> SendEnv \<Rightarrow> ProviderHandle \<Rightarrow>
   'g exchange \<times> ProviderHandle" where
  "get_health serialize parse env h = get_health_impl serialize parse (env\<lparr> se_lock_acquired := True \<rparr>) h"

definition try_get_health ::
  "(Request \<Rightarrow> u8 list option) \<Rightarrow> (u8 list \<Rightarrow> 'g Response option) \<Rightarrow> SendEnv \<Rightarrow> ProviderHandle \<Rightarrow>
   'g exchange \<times> ProviderHandle" where
  "try_get_health serialize parse env h = get_health_impl serialize parse env h"

text \<open>\<open>start\<close>: \<open>spawned\<close> is what \<open>ProviderProcess::spawn\<close> did, the left summand its error, the right
  one the two pipe ends of the new process.\<close>

definition start ::
  "(Request \<Rightarrow> u8 list option) \<Rightarrow> (u8 list \<Rightarrow> 'g Response option) \<Rightarrow> string + int \<times> int \<Rightarrow> SendEnv \<Rightarrow> SendEnv \<Rightarrow>
   ProviderHandle \<Rightarrow> bool option \<times> ProviderHandle" where
  "start serialize parse spawned hello_env ready_env h =
     (let h = h\<lparr> ph_session_healthy := False \<rparr> in
      case spawned of
        Inl err \<Rightarrow> (Some False, h\<lparr> ph_error := err \<rparr>)
      | Inr (stdin_write, stdout_read) \<Rightarrow>
          (let h = h\<lparr> ph_client := set_handles (ph_client h) stdin_write stdout_read, ph_pipe := [],
                     ph_session_healthy := True \<rparr> in
           case hello serialize parse hello_env h of
             (EX_Blocked, h) \<Rightarrow> (None, h)
           | (EX_Fail _, h) \<Rightarrow> (Some False, h\<lparr> ph_session_healthy := False \<rparr>)
           | (EX_Ok r, h) \<Rightarrow>
               if map_of (hr_metadata r) ''supports_wait_ready'' = Some ''true''
               then (case wait_ready serialize parse ready_env h of
                       (EX_Blocked, h) \<Rightarrow> (None, h)
                     | (EX_Fail _, h) \<Rightarrow> (Some False, h\<lparr> ph_session_healthy := False \<rparr>)
                     | (EX_Ok _, h) \<Rightarrow> (Some True, h))
               else (Some True, h)))"

text \<open>\<open>stop\<close>: \<open>exited\<close> is the answer of \<open>ProviderProcess::shutdown\<close>, which closes both pipes.\<close>

definition stop :: "bool \<Rightarrow> ProviderHandle \<Rightarrow> bool \<times> ProviderHandle" where
  "stop exited h =
     (exited, h\<lparr> ph_session_healthy := False, ph_client := close_stdout (close_stdin (ph_client h)) \<rparr>)"

section \<open>Lemmas\<close>

lemma write_frame_ok:
  assumes "write_frame t payload ws c = (IO_Ok, c', out, ws')"
  shows "out = encode_frame payload"
proof -
  let ?pre = "len_prefix (of_nat (length payload))"
  from assms obtain c1 out1 ws1 where w1: "write_exact t ?pre ws c [] = (IO_Ok, c1, out1, ws1)"
    by (auto simp: write_frame_def split: if_splits prod.splits io_status.splits)
  from write_exact_ok [OF w1] have out1: "out1 = ?pre" by simp
  show ?thesis
  proof (cases "payload = []")
    case True
    with assms w1 out1 show ?thesis by (simp add: write_frame_def encode_frame_def split: if_splits)
  next
    case False
    with assms w1 have "write_exact t payload ws1 c1 out1 = (IO_Ok, c', out, ws')"
      by (simp add: write_frame_def split: if_splits)
    from write_exact_ok [OF this] out1 show ?thesis by (simp add: encode_frame_def)
  qed
qed

lemma poison_unhealthy [simp]: "\<not> ph_session_healthy (poison msg h)"
  by (simp add: poison_def)

text \<open>A response is one whole frame off the pipe, and any failure poisons the session: the branch that
  would leave it healthy after a failed read is dead, because a failing \<open>read_frame\<close> always has an
  error text.\<close>

lemma read_response_ok:
  assumes "read_response parse rid t reads h = (EX_Ok resp, h')"
  shows "\<exists>frame. ph_pipe h = encode_frame frame @ ph_pipe h' \<and> parse frame = Some resp"
    and "rs_request_id resp = rid" and "ph_session_healthy h' = ph_session_healthy h"
proof -
  obtain st c pipe frame rest where rf: "read_frame t reads (ph_client h) (ph_pipe h) = (st, c, pipe, frame, rest)"
    by (metis prod_cases5)
  with assms have st: "st = IO_Ok" and pa: "parse frame = Some resp" and id: "rs_request_id resp = rid"
    and h': "h' = h\<lparr> ph_client := c, ph_pipe := pipe \<rparr>"
    by (auto simp: read_response_def Let_def split: io_status.splits option.splits if_splits)
  from read_frame_ok [OF rf [unfolded st]] pa h' show "\<exists>frame. ph_pipe h = encode_frame frame @ ph_pipe h' \<and> parse frame = Some resp"
    by auto
  show "rs_request_id resp = rid" by (rule id)
  show "ph_session_healthy h' = ph_session_healthy h" using h' by simp
qed

lemma read_response_fail:
  assumes "read_response parse rid t reads h = (EX_Fail st, h')"
  shows "\<not> ph_session_healthy h'"
proof -
  obtain io c pipe frame rest where rf: "read_frame t reads (ph_client h) (ph_pipe h) = (io, c, pipe, frame, rest)"
    by (metis prod_cases5)
  show ?thesis
  proof (cases io)
    case IO_Ok
    with assms rf show ?thesis by (auto simp: read_response_def Let_def split: option.splits if_splits)
  next
    case IO_Fail
    with rf have "fc_error c \<noteq> []" by (simp add: read_frame_fail_error)
    with assms rf IO_Fail show ?thesis by (auto simp: read_response_def Let_def)
  next
    case IO_Blocked
    with assms rf show ?thesis by (simp add: read_response_def)
  qed
qed

lemma wait_for_response_ok:
  "wait_for_response parse rid t ws h = (EX_Ok resp, h') \<Longrightarrow>
   (\<exists>k frame. ph_pipe h @ concat (map we_arrived (take k ws)) = encode_frame frame @ ph_pipe h' \<and>
      parse frame = Some resp) \<and> rs_request_id resp = rid \<and> ph_session_healthy h' = ph_session_healthy h"
proof (induction ws arbitrary: h)
  case (Cons w ws)
  obtain ready c where wd: "wait_for_data (ph_client h) (we_poll w) = (ready, c)" by fastforce
  let ?h1 = "h\<lparr> ph_client := c, ph_pipe := ph_pipe h @ we_arrived w \<rparr>"
  show ?case
  proof (cases ready)
    case True
    with Cons.prems wd have "read_response parse rid (max 0 (t - we_elapsed2_ms w)) (we_reads w) ?h1 = (EX_Ok resp, h')"
      by (simp split: if_splits)
    note rr = read_response_ok [OF this]
    from rr(1) obtain frame where "ph_pipe h @ we_arrived w = encode_frame frame @ ph_pipe h'" "parse frame = Some resp"
      by auto
    then have "ph_pipe h @ concat (map we_arrived (take 1 (w # ws))) = encode_frame frame @ ph_pipe h' \<and>
        parse frame = Some resp" by simp
    then have "\<exists>k frame. ph_pipe h @ concat (map we_arrived (take k (w # ws))) = encode_frame frame @ ph_pipe h' \<and>
        parse frame = Some resp" by blast
    then show ?thesis using rr(2,3) by simp
  next
    case False
    with Cons.prems wd have "wait_for_response parse rid t ws ?h1 = (EX_Ok resp, h')"
      by (simp add: Let_def split: if_splits)
    from Cons.IH [OF this] obtain k frame where
      "ph_pipe h @ we_arrived w @ concat (map we_arrived (take k ws)) = encode_frame frame @ ph_pipe h'"
      "parse frame = Some resp" "rs_request_id resp = rid" "ph_session_healthy h' = ph_session_healthy h"
      by auto
    then show ?thesis by (intro conjI exI [of _ "Suc k"] exI [of _ frame]) simp_all
  qed
qed simp

lemma wait_for_response_fail:
  "wait_for_response parse rid t ws h = (EX_Fail st, h') \<Longrightarrow> \<not> ph_session_healthy h'"
proof (induction ws arbitrary: h)
  case (Cons w ws)
  then show ?case
    by (auto simp: Let_def split: if_splits prod.splits dest: read_response_fail)
qed simp

text \<open>An exchange that returns a response leaves the session as healthy as it was, and a session that
  is not healthy is not used.\<close>

lemma send_request_ok_healthy:
  assumes "send_request serialize parse rq env h = (EX_Ok resp, out, h')"
  shows "ph_session_healthy h'"
proof -
  from assms have hl: "ph_session_healthy h"
    by (auto simp: send_request_def split: if_splits)
  from assms obtain c hw where
    wr: "wait_for_response parse (rq_request_id rq) (timeout_to_use (rq_body rq) h) (se_waits env)
           (h\<lparr> ph_client := c \<rparr>) = (EX_Ok resp, hw)" and h': "ph_session_healthy h' = ph_session_healthy hw"
    by (auto simp: send_request_def Let_def
        split: if_splits option.splits prod.splits io_status.splits exchange.splits)
  from wait_for_response_ok [OF wr] h' hl show ?thesis by simp
qed

lemma rpc_ok_healthy:
  assumes "rpc serialize parse body member missing env h = (EX_Ok r, h')"
  shows "ph_session_healthy h'"
  using assms send_request_ok_healthy
  by (fastforce simp: rpc_def next_request_id_def split: prod.splits exchange.splits option.splits)

lemma hello_ok:
  assumes "hello serialize parse env h = (EX_Ok r, h')"
  shows "ph_session_healthy h'" and "hr_protocol_version r = ''v1''"
  using assms rpc_ok_healthy by (auto simp: hello_def split: prod.splits exchange.splits if_splits)

lemma read_response_returns:
  assumes "0 \<le> t" and "ends_after t reads"
  shows "fst (read_response parse rid t reads h) \<noteq> EX_Blocked"
proof -
  obtain io c pipe frame rest where rf: "read_frame t reads (ph_client h) (ph_pipe h) = (io, c, pipe, frame, rest)"
    by (metis prod_cases5)
  with read_frame_returns [OF assms, of "ph_client h" "ph_pipe h"] have "io \<noteq> IO_Blocked" by simp
  with rf show ?thesis
    by (cases io) (auto simp: read_response_def Let_def split: option.split)
qed

text \<open>The scripts of a wait on which the clock reaches the deadline.\<close>

definition waits_end :: "int \<Rightarrow> WaitEntry list \<Rightarrow> bool" where
  "waits_end t ws \<longleftrightarrow> (\<exists>w \<in> set ws. t \<le> we_elapsed_ms w) \<and>
     (\<forall>w \<in> set ws. 0 \<le> we_elapsed2_ms w \<and> ends_after t (we_reads w))"

lemma wait_for_response_returns:
  "0 \<le> t \<Longrightarrow> waits_end t ws \<Longrightarrow> fst (wait_for_response parse rid t ws h) \<noteq> EX_Blocked"
proof (induction ws arbitrary: h)
  case (Cons w ws)
  obtain ready c where wd: "wait_for_data (ph_client h) (we_poll w) = (ready, c)" by fastforce
  let ?rt = "max 0 (t - we_elapsed2_ms w)"
  show ?case
  proof (cases "t \<le> we_elapsed_ms w")
    case False
    with Cons.prems have "waits_end t ws" by (auto simp: waits_end_def)
    note IH = Cons.IH [OF Cons.prems(1) this]
    have "ends_after ?rt (we_reads w)"
      using Cons.prems by (auto simp: waits_end_def ends_after_def)
    then have "fst (read_response parse rid ?rt (we_reads w) h1) \<noteq> EX_Blocked" for h1
      by (intro read_response_returns) auto
    with IH show ?thesis by (simp add: wd Let_def)
  qed simp
qed (simp add: waits_end_def)

section \<open>Properties\<close>

text \<open>C25. A session that survives an exchange is in step with its provider. For every behaviour of the
  operating system, the process and the codec: if \<open>send_request\<close> returns and the session is still
  healthy, then either nothing was sent and nothing was read, or exactly the encoding of the request
  went out, exactly one whole frame came off the pipe, that frame parsed to a response with the id of
  this request, and the result is that response, or its status when that is not \<open>CODE_OK\<close>. No
  late, partial or foreign response can be taken for the answer of a later request.\<close>

theorem exchange_in_step:
  assumes "send_request serialize parse rq env h = (res, out, h')"
    and "res \<noteq> EX_Blocked" and "ph_session_healthy h'"
  shows "(out = [] \<and> ph_pipe h' = ph_pipe h \<and> (\<exists>st. res = EX_Fail st)) \<or>
    (\<exists>bytes k frame resp. serialize rq = Some bytes \<and> out = encode_frame bytes \<and>
       ph_pipe h @ concat (map we_arrived (take k (se_waits env))) = encode_frame frame @ ph_pipe h' \<and>
       parse frame = Some resp \<and> rs_request_id resp = rq_request_id rq \<and>
       res = (if rs_status_code resp = CODE_OK then EX_Ok resp else EX_Fail (rs_status_code resp)))"
proof (cases "se_lock_acquired env \<and> ph_session_healthy h \<and> se_running env \<and> serialize rq \<noteq> None")
  case False
  with assms show ?thesis
    by (auto simp: send_request_def fail_exchange_def split: if_splits option.splits)
next
  case True
  then obtain bytes where ser: "serialize rq = Some bytes" by auto
  let ?t = "timeout_to_use (rq_body rq) h"
  obtain io c wout ws where wf: "write_frame ?t bytes (se_writes env) (ph_client h) = (io, c, wout, ws)"
    by (metis prod_cases4)
  obtain wres hw where wr: "wait_for_response parse (rq_request_id rq) ?t (se_waits env) (h\<lparr> ph_client := c \<rparr>) = (wres, hw)"
    by fastforce
  note eq = assms(1) [unfolded send_request_def, simplified True ser, simplified, unfolded wf Let_def]
  from eq assms(2,3) True ser have io: "io = IO_Ok"
    by (cases io) (auto simp: fail_exchange_def wf Let_def)
  with eq wr assms(2,3) True ser wf obtain resp where wres: "wres = EX_Ok resp"
    by (cases wres) (auto dest: wait_for_response_fail simp: Let_def)
  from wait_for_response_ok [OF wr [unfolded wres]] obtain k frame where fr:
    "ph_pipe h @ concat (map we_arrived (take k (se_waits env))) = encode_frame frame @ ph_pipe hw"
    "parse frame = Some resp" "rs_request_id resp = rq_request_id rq"
    by auto
  have "out = wout" "ph_pipe h' = ph_pipe hw"
    "res = (if rs_status_code resp = CODE_OK then EX_Ok resp else EX_Fail (rs_status_code resp))"
    using eq wr wres io True ser wf by (auto simp: Let_def split: if_splits)
  moreover have "wout = encode_frame bytes" using write_frame_ok [OF wf [unfolded io]] .
  ultimately show ?thesis using fr ser by metis
qed

text \<open>A concrete session: a codec with one request and one response, both of one byte.\<close>

definition w_response :: "unit Response" where
  "w_response = \<lparr> rs_request_id = 1, rs_status_code = CODE_OK, rs_status_message = [], rs_body = RespGetHealth () \<rparr>"

definition w_parse :: "u8 list \<Rightarrow> unit Response option" where
  "w_parse bs = (if bs = [9] then Some w_response else None)"

definition w_request :: Request where
  "w_request = \<lparr> rq_request_id = 1, rq_body = ReqGetHealth \<rparr>"

definition w_handle :: ProviderHandle where
  "w_handle = (new_handle 100 100 1000)\<lparr> ph_session_healthy := True,
     ph_client := set_handles new_client 3 4 \<rparr>"

definition w_env :: SendEnv where
  "w_env = \<lparr> se_lock_acquired = True, se_running = True,
     se_writes = [(0, Written 4), (0, Written 9)],
     se_waits = [\<lparr> we_elapsed_ms = 1, we_poll = Poll_None, we_arrived = [1, 0], we_elapsed2_ms = 1, we_reads = [],
                   we_running = True \<rparr>,
                 \<lparr> we_elapsed_ms = 2, we_poll = Poll_In, we_arrived = [0, 0, 9, 77], we_elapsed2_ms = 2,
                   we_reads = [(0, Poll_In, Got 4), (0, Poll_In, Got 9)], we_running = True \<rparr>] \<rparr>"

lemma w_io:
  "write_frame 100 [5] [(0, Written 4), (0, Written 9)] (set_handles new_client 3 4)
     = (IO_Ok, set_handles new_client 3 4, encode_frame [5], [])"
  "read_frame 98 [(0, Poll_In, Got 4), (0, Poll_In, Got 9)] (set_handles new_client 3 4) [1, 0, 0, 0, 9, 77]
     = (IO_Ok, set_handles new_client 3 4, [77], [9], [])"
  "wait_for_data (set_handles new_client 3 4) Poll_None = (False, set_handles new_client 3 4)"
  "wait_for_data (set_handles new_client 3 4) Poll_In = (True, set_handles new_client 3 4)"
  "fc_error (set_handles new_client 3 4) = []"
proof -
  let ?c = "set_handles new_client 3 4"
  show "write_frame 100 [5] [(0, Written 4), (0, Written 9)] ?c = (IO_Ok, ?c, encode_frame [5], [])"
    by (simp add: write_frame_def kMaxFrameSize_def encode_frame_def len_prefix_def)
  have "read_exact 98 4 [(0, Poll_In, Got 4), (0, Poll_In, Got 9)] ?c [1, 0, 0, 0, 9, 77] []
      = (IO_Ok, ?c, [9, 77], [1, 0, 0, 0], [(0, Poll_In, Got 9)])"
    by (simp add: eval_nat_numeral read_step_def wait_for_data_def set_handles_def new_client_def)
  moreover have "unat (len_of_prefix [1, 0, 0, 0]) = Suc 0" by (simp add: len_of_prefix_def)
  ultimately show "read_frame 98 [(0, Poll_In, Got 4), (0, Poll_In, Got 9)] ?c [1, 0, 0, 0, 9, 77]
      = (IO_Ok, ?c, [77], [9], [])"
    by (simp add: read_frame_def kMaxFrameSize_def read_step_def wait_for_data_def set_handles_def new_client_def)
  show "wait_for_data ?c Poll_None = (False, ?c)" "wait_for_data ?c Poll_In = (True, ?c)" "fc_error ?c = []"
    by (simp_all add: wait_for_data_def set_handles_def new_client_def)
qed

theorem exchange_in_step_witness:
  "\<exists>out h'. send_request (\<lambda>_. Some [5]) w_parse w_request w_env w_handle = (EX_Ok w_response, out, h') \<and>
     ph_session_healthy h' \<and> out = encode_frame [5] \<and> ph_pipe h' = [77]"
proof -
  obtain out h' where h': "send_request (\<lambda>_. Some [5]) w_parse w_request w_env w_handle = (EX_Ok w_response, out, h')"
      "ph_session_healthy h'" "ph_pipe h' = [77]"
    by (simp add: send_request_def w_request_def w_env_def w_handle_def new_handle_def timeout_to_use_def w_io
        read_response_def w_parse_def w_response_def Let_def)
  from exchange_in_step [OF h'(1) _ h'(2)] have "out = encode_frame [5]" by auto
  with h' show ?thesis by blast
qed

text \<open>C40. An exchange can hang only in a write. With a deadline that is not negative, and clocks that reach it in
  the write loop, in the waiting loop and in the reads of every turn, \<open>send_request\<close> has returned, unless a
  \<open>write\<close> to the provider's pipe, entered before the deadline, does not return: the pipe is blocking, and the
  deadline is looked at between writes only.\<close>

theorem exchange_hangs_only_in_write:
  assumes "0 \<le> timeout_to_use (rq_body rq) h"
    and "ends_after (timeout_to_use (rq_body rq) h) (se_writes env)"
    and "waits_end (timeout_to_use (rq_body rq) h) (se_waits env)"
    and "fst (send_request serialize parse rq env h) = EX_Blocked"
  shows "\<exists>e. (e, W_Blocks) \<in> set (se_writes env) \<and> e < timeout_to_use (rq_body rq) h"
proof (rule ccontr)
  let ?t = "timeout_to_use (rq_body rq) h"
  assume "\<not> ?thesis"
  then have returns: "writes_return ?t (se_writes env)" by (fastforce simp: writes_return_def list_all_iff)
  have wr: "fst (wait_for_response parse rid ?t (se_waits env) h1) \<noteq> EX_Blocked" for rid h1
    using wait_for_response_returns assms(1,3) by blast
  have wf: "fst (write_frame ?t payload (se_writes env) c) \<noteq> IO_Blocked" for payload c
    using write_frame_returns assms(1,2) returns by blast
  have "fst (send_request serialize parse rq env h) \<noteq> EX_Blocked"
    using wr wf by (auto simp: send_request_def Let_def
        split: option.split prod.split io_status.split exchange.split) (metis fst_conv)+
  with assms(4) show False by blast
qed

text \<open>A provider that does not read its input, and whose pipe is full: the exchange with a timeout of 100 ms
  never returns.\<close>

theorem exchange_hangs_only_in_write_witness:
  "let env = w_env\<lparr> se_writes := [(0, W_Blocks), (100, W_EAGAIN)], se_waits := [\<lparr> we_elapsed_ms = 100, we_poll = Poll_None,
        we_arrived = [], we_elapsed2_ms = 100, we_reads = [(100, Poll_None, R_EINTR)], we_running = True \<rparr>] \<rparr>
   in fst (send_request (\<lambda>_. Some [5]) w_parse w_request env w_handle) = EX_Blocked \<and> (\<exists>e. (e, W_Blocks) \<in> set (se_writes env) \<and> e < 100)"
proof -
  let ?env = "w_env\<lparr> se_writes := [(0, W_Blocks), (100, W_EAGAIN)], se_waits := [\<lparr> we_elapsed_ms = 100, we_poll = Poll_None,
        we_arrived = [], we_elapsed2_ms = 100, we_reads = [(100, Poll_None, R_EINTR)], we_running = True \<rparr>] \<rparr>"
  have t: "timeout_to_use (rq_body w_request) w_handle = 100"
    by (simp add: w_request_def w_handle_def new_handle_def timeout_to_use_def)
  have hangs: "fst (send_request (\<lambda>_. Some [5]) w_parse w_request ?env w_handle) = EX_Blocked"
    by (simp add: send_request_def w_request_def w_env_def w_handle_def new_handle_def timeout_to_use_def write_frame_def len_prefix_def
        kMaxFrameSize_def Let_def)
  have "\<exists>e. (e, W_Blocks) \<in> set (se_writes ?env) \<and> e < timeout_to_use (rq_body w_request) w_handle"
    by (rule exchange_hangs_only_in_write [OF _ _ _ hangs]) (simp_all add: t ends_after_def waits_end_def)
  with hangs show ?thesis unfolding t Let_def by blast
qed

text \<open>\<open>start\<close> reports what it leaves behind. Whenever it returns, its result says whether the
  session is healthy; and a session started here has completed a \<open>Hello\<close> with protocol version v1,
  so a provider that speaks another version is never usable.\<close>

lemma start_reports_session:
  assumes "start serialize parse spawned hello_env ready_env h = (Some ok, h')"
  shows "ph_session_healthy h' = ok \<and>
    (ok \<longrightarrow> (\<exists>fd_in fd_out r h1. spawned = Inr (fd_in, fd_out) \<and>
      hello serialize parse hello_env (h\<lparr> ph_client := set_handles (ph_client h) fd_in fd_out, ph_pipe := [],
        ph_session_healthy := True \<rparr>) = (EX_Ok r, h1) \<and> hr_protocol_version r = ''v1''))"
proof
  show "ph_session_healthy h' = ok"
    using assms hello_ok(1) rpc_ok_healthy
    by (auto simp: start_def Let_def wait_ready_def
        split: sum.splits prod.splits exchange.splits if_splits)
  show "ok \<longrightarrow> (\<exists>fd_in fd_out r h1. spawned = Inr (fd_in, fd_out) \<and>
      hello serialize parse hello_env (h\<lparr> ph_client := set_handles (ph_client h) fd_in fd_out, ph_pipe := [],
        ph_session_healthy := True \<rparr>) = (EX_Ok r, h1) \<and> hr_protocol_version r = ''v1'')"
    using assms
    by (fastforce simp: start_def Let_def split: sum.splits prod.splits exchange.splits dest: hello_ok(2))
qed

definition w_hello :: "u8 list \<Rightarrow> unit Response option" where
  "w_hello bs = Some \<lparr> rs_request_id = 1, rs_status_code = CODE_OK, rs_status_message = [],
     rs_body = RespHello \<lparr> hr_protocol_version = ''v1'', hr_provider_name = ''sim'', hr_provider_version = ''1'',
       hr_metadata = [] \<rparr> \<rparr>"

theorem start_reports_session_witness:
  "\<exists>h'. start (\<lambda>_. Some [5]) w_hello (Inr (3, 4)) w_env w_env (new_handle 100 100 1000) = (Some True, h') \<and>
     ph_session_healthy h'"
proof -
  have w: "fst (start (\<lambda>_. Some [5]) w_hello (Inr (3, 4)) w_env w_env (new_handle 100 100 1000)) = Some True"
    by (simp add: start_def hello_def rpc_def next_request_id_def send_request_def w_env_def new_handle_def
        timeout_to_use_def w_io read_response_def w_hello_def Let_def)
  then obtain h' where "start (\<lambda>_. Some [5]) w_hello (Inr (3, 4)) w_env w_env (new_handle 100 100 1000) = (Some True, h')"
    by (metis prod.collapse)
  with start_reports_session [OF this] show ?thesis by blast
qed

end
