(* ===== verification/Mode_Manager.thy ===== *)
theory Mode_Manager
  imports Anolis_Prelude
begin

text \<open>
  \<open>core/automation/mode_manager.cpp\<close>: the runtime mode and its transitions. \<open>set_mode\<close> takes the
  lock twice, with the before-callbacks running unlocked in between, so it is modelled in the three
  parts the code has: \<open>begin_set_mode\<close> (first critical section), \<open>run_before\<close> (the callbacks) and
  \<open>commit_set_mode\<close> (second critical section, with the commit guards). What a callback or guard
  answers is an input. \<open>set_mode\<close> composes the parts for one caller with an arbitrary change by others
  in between; \<open>mm_step\<close> interleaves any number of callers.
\<close>

section \<open>Modes\<close>

datatype RuntimeMode = MANUAL | AUTO | IDLE | FAULT

instantiation RuntimeMode :: enum
begin

definition enum_RuntimeMode :: "RuntimeMode list" where
  "enum_RuntimeMode = [MANUAL, AUTO, IDLE, FAULT]"

definition enum_all_RuntimeMode :: "(RuntimeMode \<Rightarrow> bool) \<Rightarrow> bool" where
  "enum_all_RuntimeMode P \<longleftrightarrow> P MANUAL \<and> P AUTO \<and> P IDLE \<and> P FAULT"

definition enum_ex_RuntimeMode :: "(RuntimeMode \<Rightarrow> bool) \<Rightarrow> bool" where
  "enum_ex_RuntimeMode P \<longleftrightarrow> P MANUAL \<or> P AUTO \<or> P IDLE \<or> P FAULT"

instance proof
  have univ: "(UNIV :: RuntimeMode set) = {MANUAL, AUTO, IDLE, FAULT}"
  proof (rule set_eqI)
    fix x :: RuntimeMode
    show "x \<in> UNIV \<longleftrightarrow> x \<in> {MANUAL, AUTO, IDLE, FAULT}" by (cases x) simp_all
  qed
  show "(UNIV :: RuntimeMode set) = set enum_class.enum"
    by (simp add: univ enum_RuntimeMode_def)
  show "distinct (enum_class.enum :: RuntimeMode list)" by (simp add: enum_RuntimeMode_def)
  show "enum_class.enum_all P \<longleftrightarrow> Ball UNIV P" for P :: "RuntimeMode \<Rightarrow> bool"
    by (simp add: univ enum_all_RuntimeMode_def)
  show "enum_class.enum_ex P \<longleftrightarrow> Bex UNIV P" for P :: "RuntimeMode \<Rightarrow> bool"
    by (simp add: univ enum_ex_RuntimeMode_def)
qed

end

fun mode_to_string :: "RuntimeMode \<Rightarrow> string" where
  "mode_to_string MANUAL = ''MANUAL''"
| "mode_to_string AUTO = ''AUTO''"
| "mode_to_string IDLE = ''IDLE''"
| "mode_to_string FAULT = ''FAULT''"

definition string_to_mode :: "string \<Rightarrow> RuntimeMode option" where
  "string_to_mode str =
     (if str = ''MANUAL'' then Some MANUAL
      else if str = ''AUTO'' then Some AUTO
      else if str = ''IDLE'' then Some IDLE
      else if str = ''FAULT'' then Some FAULT
      else None)"

definition is_valid_transition :: "RuntimeMode \<Rightarrow> RuntimeMode \<Rightarrow> bool" where
  "is_valid_transition from_mode to_mode =
     (if from_mode = to_mode then True
      else if to_mode = FAULT then True
      else if from_mode = FAULT then to_mode = MANUAL
      else if from_mode = MANUAL then to_mode = AUTO \<or> to_mode = IDLE
      else if from_mode = AUTO \<or> from_mode = IDLE then to_mode = MANUAL
      else False)"

section \<open>Manager\<close>

record ModeManager =
  mm_current_mode :: RuntimeMode

definition new_mode_manager :: "RuntimeMode \<Rightarrow> ModeManager" where
  "new_mode_manager initial_mode = \<lparr> mm_current_mode = initial_mode \<rparr>"

definition current_mode :: "ModeManager \<Rightarrow> RuntimeMode" where
  "current_mode mm = mm_current_mode mm"

definition is_idle :: "ModeManager \<Rightarrow> bool" where
  "is_idle mm = (mm_current_mode mm = IDLE)"

text \<open>What a callback or guard does: return true, return false with a message, or throw.\<close>

datatype verdict = Allow | Reject string | Throws string

definition invalid_transition_error :: "RuntimeMode \<Rightarrow> RuntimeMode \<Rightarrow> string" where
  "invalid_transition_error from_mode to_mode =
     ''Invalid mode transition: '' @ mode_to_string from_mode @ '' -> '' @ mode_to_string to_mode"

text \<open>First critical section: already there, refused, or pending with the mode seen.\<close>

datatype begin_result = Already | Refused string | Pending RuntimeMode

definition begin_set_mode :: "RuntimeMode \<Rightarrow> ModeManager \<Rightarrow> begin_result" where
  "begin_set_mode new_mode mm =
     (if mm_current_mode mm = new_mode then Already
      else if \<not> is_valid_transition (mm_current_mode mm) new_mode
      then Refused (invalid_transition_error (mm_current_mode mm) new_mode)
      else Pending (mm_current_mode mm))"

text \<open>The before-callbacks, in order; the error of the first one that vetoes.\<close>

fun run_before :: "RuntimeMode \<Rightarrow> verdict list \<Rightarrow> string option" where
  "run_before new_mode [] = None"
| "run_before new_mode (Allow # vs) = run_before new_mode vs"
| "run_before new_mode (Reject e # vs) =
     (if new_mode = FAULT then run_before new_mode vs
      else Some (if e = [] then ''Mode transition rejected by before-mode callback'' else e))"
| "run_before new_mode (Throws e # vs) =
     (if new_mode = FAULT then run_before new_mode vs
      else Some (''Before mode change callback error: '' @ e))"

fun run_guards :: "verdict list \<Rightarrow> string option" where
  "run_guards [] = None"
| "run_guards (Allow # vs) = run_guards vs"
| "run_guards (Reject e # vs) = Some (if e = [] then ''Mode transition rejected at commit'' else e)"
| "run_guards (Throws e # vs) = Some (''Mode commit guard error: '' @ e)"

text \<open>Second critical section. \<open>Committed prev\<close> is a written mode, whose after-callbacks get \<open>prev\<close>
  as the previous one; \<open>Joined\<close> is the concurrent FAULT entry that needs no write.\<close>

datatype commit_result = Committed RuntimeMode | Joined | Commit_Refused string

definition commit_set_mode ::
  "RuntimeMode \<Rightarrow> RuntimeMode \<Rightarrow> verdict list \<Rightarrow> ModeManager \<Rightarrow> commit_result \<times> ModeManager" where
  "commit_set_mode new_mode previous_mode guards mm =
     (let cur = mm_current_mode mm in
      if cur \<noteq> previous_mode \<and> new_mode = FAULT \<and> cur = FAULT then (Joined, mm)
      else if cur \<noteq> previous_mode \<and> new_mode \<noteq> FAULT
      then (Commit_Refused ''Concurrent mode change detected while processing transition callbacks'', mm)
      else if \<not> is_valid_transition cur new_mode
      then (Commit_Refused (invalid_transition_error cur new_mode), mm)
      else case (if new_mode \<noteq> FAULT then run_guards guards else None) of
        Some e \<Rightarrow> (Commit_Refused e, mm)
      | None \<Rightarrow> (Committed cur, mm\<lparr> mm_current_mode := new_mode \<rparr>))"

text \<open>One call: the result (an error or success), the after-callback notification if one is sent, and
  the manager. \<open>others\<close> is what other callers did to the mode while the before-callbacks ran.\<close>

definition set_mode ::
  "RuntimeMode \<Rightarrow> verdict list \<Rightarrow> (ModeManager \<Rightarrow> ModeManager) \<Rightarrow> verdict list \<Rightarrow> ModeManager \<Rightarrow>
   string option \<times> (RuntimeMode \<times> RuntimeMode) option \<times> ModeManager" where
  "set_mode new_mode befores others guards mm =
     (case begin_set_mode new_mode mm of
        Already \<Rightarrow> (None, None, mm)
      | Refused e \<Rightarrow> (Some e, None, mm)
      | Pending previous_mode \<Rightarrow>
          (let mm = others mm in
           case run_before new_mode befores of
             Some e \<Rightarrow> (Some e, None, mm)
           | None \<Rightarrow>
               (case commit_set_mode new_mode previous_mode guards mm of
                  (Committed prev, mm) \<Rightarrow> (None, Some (prev, new_mode), mm)
                | (Joined, mm) \<Rightarrow> (None, None, mm)
                | (Commit_Refused e, mm) \<Rightarrow> (Some e, None, mm))))"

section \<open>Concurrent callers\<close>

text \<open>Each caller, a natural number, is between calls, in its callbacks, or done with a result. The
  history is the list of notified transitions, latest first.\<close>

datatype caller = Quiet | In_Callbacks RuntimeMode RuntimeMode | Done RuntimeMode bool

record mode_sys =
  sys_mm :: ModeManager
  sys_callers :: "nat \<Rightarrow> caller"
  sys_history :: "(RuntimeMode \<times> RuntimeMode) list"

definition sys_init :: "RuntimeMode \<Rightarrow> mode_sys" where
  "sys_init m = \<lparr> sys_mm = new_mode_manager m, sys_callers = (\<lambda>_. Quiet), sys_history = [] \<rparr>"

fun between_calls :: "caller \<Rightarrow> bool" where
  "between_calls (In_Callbacks _ _) = False"
| "between_calls _ = True"

inductive mm_step :: "mode_sys \<Rightarrow> mode_sys \<Rightarrow> bool" where
  step_already: "between_calls (sys_callers s t) \<Longrightarrow> begin_set_mode new_mode (sys_mm s) = Already \<Longrightarrow>
    mm_step s (s\<lparr> sys_callers := (sys_callers s)(t := Done new_mode True) \<rparr>)"
| step_refused: "between_calls (sys_callers s t) \<Longrightarrow> begin_set_mode new_mode (sys_mm s) = Refused e \<Longrightarrow>
    mm_step s (s\<lparr> sys_callers := (sys_callers s)(t := Done new_mode False) \<rparr>)"
| step_pending: "between_calls (sys_callers s t) \<Longrightarrow> begin_set_mode new_mode (sys_mm s) = Pending prev \<Longrightarrow>
    mm_step s (s\<lparr> sys_callers := (sys_callers s)(t := In_Callbacks new_mode prev) \<rparr>)"
| step_veto: "sys_callers s t = In_Callbacks new_mode prev \<Longrightarrow> run_before new_mode befores = Some e \<Longrightarrow>
    mm_step s (s\<lparr> sys_callers := (sys_callers s)(t := Done new_mode False) \<rparr>)"
| step_commit: "sys_callers s t = In_Callbacks new_mode prev \<Longrightarrow> run_before new_mode befores = None \<Longrightarrow>
    commit_set_mode new_mode prev guards (sys_mm s) = (Committed prev', mm') \<Longrightarrow>
    mm_step s (s\<lparr> sys_mm := mm', sys_callers := (sys_callers s)(t := Done new_mode True),
                 sys_history := (prev', new_mode) # sys_history s \<rparr>)"
| step_joined: "sys_callers s t = In_Callbacks new_mode prev \<Longrightarrow> run_before new_mode befores = None \<Longrightarrow>
    commit_set_mode new_mode prev guards (sys_mm s) = (Joined, mm') \<Longrightarrow>
    mm_step s (s\<lparr> sys_mm := mm', sys_callers := (sys_callers s)(t := Done new_mode True) \<rparr>)"
| step_commit_refused: "sys_callers s t = In_Callbacks new_mode prev \<Longrightarrow> run_before new_mode befores = None \<Longrightarrow>
    commit_set_mode new_mode prev guards (sys_mm s) = (Commit_Refused e, mm') \<Longrightarrow>
    mm_step s (s\<lparr> sys_mm := mm', sys_callers := (sys_callers s)(t := Done new_mode False) \<rparr>)"

abbreviation mm_reach :: "mode_sys \<Rightarrow> mode_sys \<Rightarrow> bool" where
  "mm_reach \<equiv> mm_step\<^sup>*\<^sup>*"

text \<open>A history that is a path of legal transitions from \<open>m0\<close> to \<open>m\<close>, without gaps.\<close>

fun legal_path :: "RuntimeMode \<Rightarrow> (RuntimeMode \<times> RuntimeMode) list \<Rightarrow> RuntimeMode \<Rightarrow> bool" where
  "legal_path m0 [] m = (m = m0)"
| "legal_path m0 ((a, b) # hist) m = (m = b \<and> a \<noteq> b \<and> is_valid_transition a b \<and> legal_path m0 hist a)"

section \<open>Lemmas\<close>

lemma run_before_fault [simp]: "run_before FAULT vs = None"
proof (induction vs)
  case (Cons v vs)
  then show ?case by (cases v) simp_all
qed simp

lemma is_valid_transition_fault [simp]: "is_valid_transition m FAULT"
  by (simp add: is_valid_transition_def)

lemma begin_fault: "begin_set_mode FAULT mm \<noteq> Refused e"
  by (simp add: begin_set_mode_def)

lemma begin_pending:
  "begin_set_mode new_mode mm = Pending prev \<Longrightarrow> prev = mm_current_mode mm \<and> prev \<noteq> new_mode"
  by (auto simp: begin_set_mode_def split: if_splits)

lemma commit_fault:
  assumes "prev \<noteq> FAULT"
  shows "commit_set_mode FAULT prev guards mm =
    (if mm_current_mode mm = FAULT then (Joined, mm)
     else (Committed (mm_current_mode mm), mm\<lparr> mm_current_mode := FAULT \<rparr>))"
  using assms by (auto simp: commit_set_mode_def Let_def)

lemma commit_committed:
  assumes "commit_set_mode new_mode prev guards mm = (Committed prev', mm')" and "prev \<noteq> new_mode"
  shows "prev' = mm_current_mode mm" and "mm_current_mode mm' = new_mode"
    and "is_valid_transition prev' new_mode" and "prev' \<noteq> new_mode"
    and "new_mode \<noteq> FAULT \<Longrightarrow> prev' = prev \<and> run_guards guards = None"
  using assms by (auto simp: commit_set_mode_def Let_def split: if_splits option.splits)

lemma commit_not_committed:
  assumes "commit_set_mode new_mode prev guards mm = (res, mm')" and "\<forall>p. res \<noteq> Committed p"
  shows "mm' = mm" and "res = Joined \<Longrightarrow> new_mode = FAULT \<and> mm_current_mode mm = FAULT"
  using assms by (auto simp: commit_set_mode_def Let_def split: if_splits option.splits)

text \<open>The invariant of the interleaved system: a pending request is for another mode than the one it
  saw, a finished FAULT request has succeeded, and the notified transitions form a legal path that
  ends in the current mode.\<close>

definition sys_inv :: "RuntimeMode \<Rightarrow> mode_sys \<Rightarrow> bool" where
  "sys_inv m0 s \<longleftrightarrow>
     (\<forall>t new_mode prev. sys_callers s t = In_Callbacks new_mode prev \<longrightarrow> new_mode \<noteq> prev) \<and>
     (\<forall>t. sys_callers s t \<noteq> Done FAULT False) \<and>
     legal_path m0 (sys_history s) (mm_current_mode (sys_mm s))"

lemma sys_inv_init: "sys_inv m0 (sys_init m0)"
  by (simp add: sys_inv_def sys_init_def new_mode_manager_def)

lemma sys_inv_step: "mm_step s s' \<Longrightarrow> sys_inv m0 s \<Longrightarrow> sys_inv m0 s'"
proof (induction rule: mm_step.induct)
  case (step_refused s t new_mode e)
  then show ?case using begin_fault [of "sys_mm s" e] by (auto simp: sys_inv_def)
next
  case (step_pending s t new_mode prev)
  then show ?case using begin_pending [of new_mode "sys_mm s" prev] by (auto simp: sys_inv_def)
next
  case (step_veto s t new_mode prev befores e)
  then show ?case by (auto simp: sys_inv_def)
next
  case (step_commit s t new_mode prev befores guards prev' mm')
  then have "prev \<noteq> new_mode" by (auto simp: sys_inv_def)
  with step_commit show ?case using commit_committed [OF step_commit(3)] by (auto simp: sys_inv_def)
next
  case (step_joined s t new_mode prev befores guards mm')
  then show ?case using commit_not_committed [OF step_joined(3)] by (auto simp: sys_inv_def)
next
  case (step_commit_refused s t new_mode prev befores guards e mm')
  then have "prev \<noteq> new_mode" by (auto simp: sys_inv_def)
  then have "new_mode \<noteq> FAULT" using step_commit_refused(3) commit_fault [of prev guards "sys_mm s"]
    by (auto split: if_splits)
  then show ?case using step_commit_refused commit_not_committed [OF step_commit_refused(3)]
    by (auto simp: sys_inv_def)
qed (auto simp: sys_inv_def)

lemma sys_inv_reach: "mm_reach (sys_init m0) s \<Longrightarrow> sys_inv m0 s"
  by (induction rule: rtranclp_induct) (auto intro: sys_inv_init sys_inv_step)

section \<open>Properties\<close>

text \<open>A request for FAULT cannot be refused. Whatever mode the runtime is in, whatever the
  before-callbacks answer (vetoes and exceptions included), whatever the guards say and whatever mode
  changes other callers commit while the callbacks run, \<open>set_mode(FAULT)\<close> returns success, the mode
  it leaves is FAULT, and if it notifies anyone the previous mode it reports is the one FAULT really
  replaced.\<close>

lemma set_mode_fault_always:
  "\<exists>note mm'. set_mode FAULT befores others guards mm = (None, note, mm') \<and>
     mm_current_mode mm' = FAULT \<and>
     (\<forall>prev new_mode. note = Some (prev, new_mode) \<longrightarrow> new_mode = FAULT \<and> prev = mm_current_mode (others mm) \<and> prev \<noteq> FAULT)"
proof (cases "mm_current_mode mm = FAULT")
  case True
  then show ?thesis by (simp add: set_mode_def begin_set_mode_def)
next
  case False
  then have "begin_set_mode FAULT mm = Pending (mm_current_mode mm)" by (simp add: begin_set_mode_def)
  then show ?thesis using False by (simp add: set_mode_def commit_fault Let_def)
qed

theorem set_mode_fault_always_witness:
  "\<exists>note mm'. set_mode FAULT [Reject ''no'', Throws ''boom''] (\<lambda>mm. mm\<lparr> mm_current_mode := IDLE \<rparr>) [Reject ''no'']
       (new_mode_manager AUTO) = (None, note, mm') \<and> mm_current_mode mm' = FAULT"
  using set_mode_fault_always [of "[Reject ''no'', Throws ''boom'']" "\<lambda>mm. mm\<lparr> mm_current_mode := IDLE \<rparr>"
      "[Reject ''no'']" "new_mode_manager AUTO"]
  by (auto simp: new_mode_manager_def)

text \<open>C37. Under any interleaving of any number of callers, the transitions announced to the
  after-callbacks, in the order they commit, form a path without gaps from the initial mode to the
  current one, and each is a legal transition: FAULT is left only for MANUAL, and AUTO and IDLE are
  entered only from MANUAL. No FAULT request ever ends refused.\<close>

theorem mode_history_legal:
  assumes "mm_reach (sys_init m0) s"
  shows "legal_path m0 (sys_history s) (mm_current_mode (sys_mm s)) \<and>
    (\<forall>a b. (a, b) \<in> set (sys_history s) \<longrightarrow> (a = FAULT \<longrightarrow> b = MANUAL) \<and> (b = AUTO \<or> b = IDLE \<longrightarrow> a = MANUAL)) \<and>
    (\<forall>t. sys_callers s t \<noteq> Done FAULT False)"
proof -
  have inv: "sys_inv m0 s" using sys_inv_reach [OF assms] .
  have "legal_path m0 hist m \<Longrightarrow> (a, b) \<in> set hist \<Longrightarrow> (a = FAULT \<longrightarrow> b = MANUAL) \<and> (b = AUTO \<or> b = IDLE \<longrightarrow> a = MANUAL)"
    for hist m a b
    by (induction m0 hist m rule: legal_path.induct) (auto simp: is_valid_transition_def split: if_splits)
  with inv show ?thesis unfolding sys_inv_def by blast
qed

theorem mode_history_legal_witness:
  "\<exists>s. mm_reach (sys_init IDLE) s \<and> sys_history s = [(IDLE, MANUAL)] \<and>
     legal_path IDLE (sys_history s) (mm_current_mode (sys_mm s))"
proof -
  let ?s1 = "(sys_init IDLE)\<lparr> sys_callers := (sys_callers (sys_init IDLE))(0 := In_Callbacks MANUAL IDLE) \<rparr>"
  let ?s2 = "?s1\<lparr> sys_mm := new_mode_manager MANUAL, sys_callers := (sys_callers ?s1)(0 := Done MANUAL True),
      sys_history := (IDLE, MANUAL) # sys_history ?s1 \<rparr>"
  have "mm_step (sys_init IDLE) ?s1"
    by (rule step_pending) (simp_all add: sys_init_def new_mode_manager_def begin_set_mode_def is_valid_transition_def)
  moreover have "mm_step ?s1 ?s2"
    by (rule step_commit [where befores = "[Allow]" and guards = "[Allow]" and prev = IDLE])
      (simp_all add: sys_init_def new_mode_manager_def commit_set_mode_def is_valid_transition_def)
  ultimately have "mm_reach (sys_init IDLE) ?s2" by simp
  moreover from mode_history_legal [OF this]
  have "legal_path IDLE (sys_history ?s2) (mm_current_mode (sys_mm ?s2))" by blast
  moreover have "sys_history ?s2 = [(IDLE, MANUAL)]" by (simp add: sys_init_def)
  ultimately show ?thesis by blast
qed

text \<open>The mode names round-trip and nothing else parses.\<close>

lemma mode_string_roundtrip: "string_to_mode str = Some m \<longleftrightarrow> str = mode_to_string m"
  by (cases m) (auto simp: string_to_mode_def)

end
