(* ===== verification/Parameter_Manager.thy ===== *)
theory Parameter_Manager
  imports Protocol
begin

text \<open>
  Runtime parameters: \<open>core/automation/parameter_manager.cpp\<close>, the value domain of
  \<open>core/automation/parameter_types.hpp\<close> and the two conversions out of it
  (\<open>core/automation/parameter_value_bridge.hpp\<close>, \<open>core/control/provider_value_bridge.hpp\<close>).
  Error texts that print a double are constructors that carry the numbers. The change callbacks that
  run after an update are the notification the operation returns.
\<close>

section \<open>Values\<close>

datatype ParameterType = PT_DOUBLE | PT_INT64 | PT_BOOL | PT_STRING

datatype ParameterValue = PV_Double f64 | PV_Int64 u64 | PV_Bool bool | PV_String string

text \<open>The value domain of signals and events.\<close>

datatype TypedValue = TV_Double f64 | TV_Int64 u64 | TV_Uint64 u64 | TV_Bool bool | TV_String string

fun parameter_type_to_string :: "ParameterType \<Rightarrow> string" where
  "parameter_type_to_string PT_DOUBLE = ''double''"
| "parameter_type_to_string PT_INT64 = ''int64''"
| "parameter_type_to_string PT_BOOL = ''bool''"
| "parameter_type_to_string PT_STRING = ''string''"

definition parameter_type_from_string :: "string \<Rightarrow> ParameterType option" where
  "parameter_type_from_string type_name =
     (if type_name = ''double'' then Some PT_DOUBLE
      else if type_name = ''int64'' then Some PT_INT64
      else if type_name = ''bool'' then Some PT_BOOL
      else if type_name = ''string'' then Some PT_STRING
      else None)"

fun parameter_value_type_name :: "ParameterValue \<Rightarrow> string" where
  "parameter_value_type_name (PV_Double _) = ''double''"
| "parameter_value_type_name (PV_Int64 _) = ''int64''"
| "parameter_value_type_name (PV_Bool _) = ''bool''"
| "parameter_value_type_name (PV_String _) = ''string''"

fun parameter_value_matches_type :: "ParameterType \<Rightarrow> ParameterValue \<Rightarrow> bool" where
  "parameter_value_matches_type PT_DOUBLE (PV_Double _) = True"
| "parameter_value_matches_type PT_INT64 (PV_Int64 _) = True"
| "parameter_value_matches_type PT_BOOL (PV_Bool _) = True"
| "parameter_value_matches_type PT_STRING (PV_String _) = True"
| "parameter_value_matches_type _ _ = False"

fun parameter_value_to_typed_value :: "ParameterValue \<Rightarrow> TypedValue" where
  "parameter_value_to_typed_value (PV_Double d) = TV_Double d"
| "parameter_value_to_typed_value (PV_Int64 i) = TV_Int64 i"
| "parameter_value_to_typed_value (PV_Bool b) = TV_Bool b"
| "parameter_value_to_typed_value (PV_String s) = TV_String s"

definition INT64_MAX :: u64 where
  "INT64_MAX = 0x7FFFFFFFFFFFFFFF"

fun parameter_value_from_typed_value :: "TypedValue \<Rightarrow> ParameterValue option" where
  "parameter_value_from_typed_value (TV_Double d) = Some (PV_Double d)"
| "parameter_value_from_typed_value (TV_Int64 i) = Some (PV_Int64 i)"
| "parameter_value_from_typed_value (TV_Bool b) = Some (PV_Bool b)"
| "parameter_value_from_typed_value (TV_String s) = Some (PV_String s)"
| "parameter_value_from_typed_value (TV_Uint64 raw) = (if INT64_MAX < raw then None else Some (PV_Int64 raw))"

fun to_provider_value :: "ParameterValue \<Rightarrow> Value" where
  "to_provider_value (PV_Double d) = \<lparr> v_type = VALUE_TYPE_DOUBLE, v_kind = K_Double d \<rparr>"
| "to_provider_value (PV_Int64 i) = \<lparr> v_type = VALUE_TYPE_INT64, v_kind = K_Int64 i \<rparr>"
| "to_provider_value (PV_Bool b) = \<lparr> v_type = VALUE_TYPE_BOOL, v_kind = K_Bool b \<rparr>"
| "to_provider_value (PV_String s) = \<lparr> v_type = VALUE_TYPE_STRING, v_kind = K_String s \<rparr>"

section \<open>Definitions and validation\<close>

record ParameterDef =
  pm_name :: string
  pm_type :: ParameterType
  pm_value :: ParameterValue
  pm_min :: "f64 option"
  pm_max :: "f64 option"
  pm_allowed_values :: "string list option"
  pm_set_by_operator :: bool

datatype param_error = PE_Type_Mismatch string string | PE_Below f64 f64 | PE_Above f64 f64
  | PE_Not_Allowed string "string list" | PE_Not_Found string

fun numeric_value :: "ParameterValue \<Rightarrow> f64" where
  "numeric_value (PV_Double d) = d"
| "numeric_value (PV_Int64 i) = f64_of_int (sint i)"
| "numeric_value _ = 0"

definition range_error :: "f64 option \<Rightarrow> f64 option \<Rightarrow> f64 \<Rightarrow> param_error option" where
  "range_error lo hi x =
     (case lo of
        Some l \<Rightarrow> if f64_lt x l then Some (PE_Below x l)
                  else (case hi of Some h \<Rightarrow> if f64_lt h x then Some (PE_Above x h) else None | None \<Rightarrow> None)
      | None \<Rightarrow> (case hi of Some h \<Rightarrow> if f64_lt h x then Some (PE_Above x h) else None | None \<Rightarrow> None))"

definition validate :: "ParameterDef \<Rightarrow> ParameterValue \<Rightarrow> param_error option" where
  "validate d new_value =
     (if \<not> parameter_value_matches_type (pm_type d) new_value
      then Some (PE_Type_Mismatch (parameter_type_to_string (pm_type d)) (parameter_value_type_name new_value))
      else case (if pm_type d = PT_DOUBLE \<or> pm_type d = PT_INT64
                 then range_error (pm_min d) (pm_max d) (numeric_value new_value) else None) of
        Some e \<Rightarrow> Some e
      | None \<Rightarrow>
          (case (pm_allowed_values d, new_value) of
             (Some allowed, PV_String s) \<Rightarrow>
               if pm_type d = PT_STRING \<and> s \<notin> set allowed then Some (PE_Not_Allowed s allowed) else None
           | _ \<Rightarrow> None))"

section \<open>Manager\<close>

type_synonym ParameterManager = "(string \<times> ParameterDef) list"

definition define_parameter ::
  "string \<Rightarrow> ParameterType \<Rightarrow> ParameterValue \<Rightarrow> f64 option \<Rightarrow> f64 option \<Rightarrow> string list option \<Rightarrow>
   ParameterManager \<Rightarrow> bool \<times> ParameterManager" where
  "define_parameter name type default_value lo hi allowed_values pm =
     (if map_of pm name \<noteq> None then (False, pm)
      else let d = \<lparr> pm_name = name, pm_type = type, pm_value = default_value, pm_min = lo, pm_max = hi,
                     pm_allowed_values = allowed_values, pm_set_by_operator = False \<rparr> in
        if validate d default_value \<noteq> None then (False, pm)
        else (True, AList.update name d pm))"

text \<open>\<open>==\<close> on two values of the same alternative; doubles compare as numbers.\<close>

fun same_value :: "ParameterValue \<Rightarrow> ParameterValue \<Rightarrow> bool" where
  "same_value (PV_Double a) (PV_Double b) = f64_eq a b"
| "same_value (PV_Int64 a) (PV_Int64 b) = (a = b)"
| "same_value (PV_Bool a) (PV_Bool b) = (a = b)"
| "same_value (PV_String a) (PV_String b) = (a = b)"
| "same_value _ _ = False"

text \<open>The error, the notification the callbacks get (name, old value, new value), the manager.\<close>

definition set_parameter ::
  "string \<Rightarrow> ParameterValue \<Rightarrow> ParameterManager \<Rightarrow>
   param_error option \<times> (string \<times> ParameterValue \<times> ParameterValue) option \<times> ParameterManager" where
  "set_parameter name value pm =
     (case map_of pm name of
        None \<Rightarrow> (Some (PE_Not_Found name), None, pm)
      | Some d \<Rightarrow>
          (case validate d value of
             Some e \<Rightarrow> (Some e, None, pm)
           | None \<Rightarrow>
               if same_value (pm_value d) value then (None, None, pm)
               else (None, Some (name, pm_value d, value),
                     AList.update name (d\<lparr> pm_value := value, pm_set_by_operator := True \<rparr>) pm)))"

definition get_parameter :: "ParameterManager \<Rightarrow> string \<Rightarrow> ParameterValue option" where
  "get_parameter pm name = map_option pm_value (map_of pm name)"

definition get_double :: "ParameterManager \<Rightarrow> string \<Rightarrow> f64 \<Rightarrow> f64" where
  "get_double pm name default_value =
     (case get_parameter pm name of Some (PV_Double d) \<Rightarrow> d | _ \<Rightarrow> default_value)"

definition get_int64 :: "ParameterManager \<Rightarrow> string \<Rightarrow> u64 \<Rightarrow> u64" where
  "get_int64 pm name default_value =
     (case get_parameter pm name of Some (PV_Int64 i) \<Rightarrow> i | _ \<Rightarrow> default_value)"

definition get_bool :: "ParameterManager \<Rightarrow> string \<Rightarrow> bool \<Rightarrow> bool" where
  "get_bool pm name default_value =
     (case get_parameter pm name of Some (PV_Bool b) \<Rightarrow> b | _ \<Rightarrow> default_value)"

definition get_string :: "ParameterManager \<Rightarrow> string \<Rightarrow> string \<Rightarrow> string" where
  "get_string pm name default_value =
     (case get_parameter pm name of Some (PV_String s) \<Rightarrow> s | _ \<Rightarrow> default_value)"

definition get_definition :: "ParameterManager \<Rightarrow> string \<Rightarrow> ParameterDef option" where
  "get_definition pm name = map_of pm name"

definition get_all_definitions :: "ParameterManager \<Rightarrow> (string \<times> ParameterDef) list" where
  "get_all_definitions pm = pm"

definition has_parameter :: "ParameterManager \<Rightarrow> string \<Rightarrow> bool" where
  "has_parameter pm name = (map_of pm name \<noteq> None)"

definition parameter_count :: "ParameterManager \<Rightarrow> nat" where
  "parameter_count pm = length pm"

text \<open>Every manager a runtime can have.\<close>

inductive params_reach :: "ParameterManager \<Rightarrow> bool" where
  params_new: "params_reach []"
| params_define: "params_reach pm \<Longrightarrow> params_reach (snd (define_parameter name type v lo hi allowed pm))"
| params_set: "params_reach pm \<Longrightarrow> params_reach (snd (snd (set_parameter name v pm)))"

section \<open>Lemmas\<close>

lemma validate_def_cong:
  "validate (d\<lparr> pm_value := v, pm_set_by_operator := b \<rparr>) w = validate d w"
  by (auto simp: validate_def split: option.split ParameterValue.split)

lemma params_valid: "params_reach pm \<Longrightarrow> map_of pm name = Some d \<Longrightarrow> validate d (pm_value d) = None"
proof (induction arbitrary: name d rule: params_reach.induct)
  case (params_define pm n type v lo hi allowed)
  then show ?case
    by (auto simp: define_parameter_def Let_def update_conv split: if_splits)
next
  case (params_set pm n v)
  then show ?case
    by (auto simp: set_parameter_def update_conv validate_def_cong split: if_splits option.splits)
qed simp

lemma range_error_None:
  "range_error lo hi x = None \<longleftrightarrow> (\<forall>l. lo = Some l \<longrightarrow> \<not> f64_lt x l) \<and> (\<forall>h. hi = Some h \<longrightarrow> \<not> f64_lt h x)"
  by (auto simp: range_error_def split: option.splits)

lemma validate_range:
  assumes "validate d v = None" and "pm_type d = PT_DOUBLE \<or> pm_type d = PT_INT64"
  shows "range_error (pm_min d) (pm_max d) (numeric_value v) = None"
  using assms by (auto simp: validate_def split: if_splits option.splits)

section \<open>Properties\<close>

text \<open>C38. Every value a parameter ever has satisfies its declaration. After any sequence of
  definitions and operator updates, the stored value of a parameter has the declared type, a string
  with an enumeration is one of its members, and a numeric value lies within the declared bounds as
  numbers: for a double that is finite, and for an integer of magnitude at most \<open>2 ^ 53\<close> (the ones
  the comparison in double precision represents exactly).\<close>

theorem parameters_always_valid:
  assumes "params_reach pm" and "map_of pm name = Some d"
  shows "parameter_value_matches_type (pm_type d) (pm_value d) \<and>
    (\<forall>s allowed. pm_value d = PV_String s \<and> pm_allowed_values d = Some allowed \<longrightarrow> s \<in> set allowed) \<and>
    (\<forall>x l. pm_value d = PV_Double x \<and> pm_min d = Some l \<and> f64_finite x \<and> f64_finite l \<longrightarrow> f64_scaled l \<le> f64_scaled x) \<and>
    (\<forall>x h. pm_value d = PV_Double x \<and> pm_max d = Some h \<and> f64_finite x \<and> f64_finite h \<longrightarrow> f64_scaled x \<le> f64_scaled h) \<and>
    (\<forall>i l. pm_value d = PV_Int64 i \<and> \<bar>sint i\<bar> \<le> 2 ^ 53 \<and> pm_min d = Some l \<and> f64_finite l \<longrightarrow> f64_scaled l \<le> sint i * 2 ^ 1074) \<and>
    (\<forall>i h. pm_value d = PV_Int64 i \<and> \<bar>sint i\<bar> \<le> 2 ^ 53 \<and> pm_max d = Some h \<and> f64_finite h \<longrightarrow> sint i * 2 ^ 1074 \<le> f64_scaled h)"
proof -
  have val: "validate d (pm_value d) = None" using params_valid assms by blast
  then have ty: "parameter_value_matches_type (pm_type d) (pm_value d)" by (auto simp: validate_def split: if_splits)
  have str: "s \<in> set allowed" if "pm_value d = PV_String s" "pm_allowed_values d = Some allowed" for s allowed
    using val ty that by (cases "pm_type d") (auto simp: validate_def split: if_splits)
  have dbl: "pm_type d = PT_DOUBLE" if "pm_value d = PV_Double x" for x using ty that by (cases "pm_type d") auto
  have int: "pm_type d = PT_INT64" if "pm_value d = PV_Int64 i" for i using ty that by (cases "pm_type d") auto
  have rd: "range_error (pm_min d) (pm_max d) x = None" if "pm_value d = PV_Double x" for x
    using validate_range [OF val] dbl [OF that] that by simp
  have ri: "range_error (pm_min d) (pm_max d) (f64_of_int (sint i)) = None" if "pm_value d = PV_Int64 i" for i
    using validate_range [OF val] int [OF that] that by simp
  have le: "f64_scaled b \<le> f64_scaled a" if "\<not> f64_lt a b" "f64_finite a" "f64_finite b" for a b
    using that f64_lt_scaled by force
  have lo: "f64_scaled l \<le> f64_scaled x"
    if "pm_value d = PV_Double x" "pm_min d = Some l" "f64_finite x" "f64_finite l" for x l
    using rd [OF that(1)] that by (intro le) (auto simp: range_error_None)
  have hi: "f64_scaled x \<le> f64_scaled h"
    if "pm_value d = PV_Double x" "pm_max d = Some h" "f64_finite x" "f64_finite h" for x h
    using rd [OF that(1)] that by (intro le) (auto simp: range_error_None)
  have ilo: "f64_scaled l \<le> sint i * 2 ^ 1074"
    if "pm_value d = PV_Int64 i" "\<bar>sint i\<bar> \<le> 2 ^ 53" "pm_min d = Some l" "f64_finite l" for i l
    unfolding f64_of_int_exact(1) [OF that(2), symmetric]
    using ri [OF that(1)] that f64_of_int_exact(2) [OF that(2)] by (intro le) (auto simp: range_error_None)
  have ihi: "sint i * 2 ^ 1074 \<le> f64_scaled h"
    if "pm_value d = PV_Int64 i" "\<bar>sint i\<bar> \<le> 2 ^ 53" "pm_max d = Some h" "f64_finite h" for i h
    unfolding f64_of_int_exact(1) [OF that(2), symmetric]
    using ri [OF that(1)] that f64_of_int_exact(2) [OF that(2)] by (intro le) (auto simp: range_error_None)
  show ?thesis using ty str lo hi ilo ihi by blast
qed

definition w_params :: ParameterManager where
  "w_params = snd (define_parameter ''duty'' PT_INT64 (PV_Int64 3) (Some (f64_of_int 0)) None None [])"

lemma w_params_lookup:
  "map_of w_params ''duty'' = Some \<lparr> pm_name = ''duty'', pm_type = PT_INT64, pm_value = PV_Int64 3,
     pm_min = Some (f64_of_int 0), pm_max = None, pm_allowed_values = None, pm_set_by_operator = False \<rparr>"
proof -
  have "f64_of_int 0 = 0" by (simp add: f64_of_int_def mag_of_nat_def)
  moreover have "\<not> f64_lt (f64_of_int 3) 0"
    using f64_lt_scaled [of "f64_of_int 3" "f64_of_int 0"] f64_of_int_exact [of 3] f64_of_int_exact [of 0]
    by (simp add: \<open>f64_of_int 0 = 0\<close>)
  ultimately show ?thesis
    by (simp add: w_params_def define_parameter_def validate_def range_error_def Let_def)
qed

theorem parameters_always_valid_witness:
  "\<exists>d. map_of w_params ''duty'' = Some d \<and> pm_value d = PV_Int64 3 \<and> 0 \<le> (3 :: int) * 2 ^ 1074"
proof -
  have "params_reach w_params" unfolding w_params_def by (intro params_define params_new)
  from parameters_always_valid [OF this w_params_lookup] w_params_lookup show ?thesis by auto
qed

text \<open>An update is all or nothing. If \<open>set\<close> fails, nothing changes and nobody is notified. If it
  succeeds, reading the parameter back gives the new value, or the old one when the two are equal (and
  then nobody is notified); the notification carries the value that was there and the one that is
  there now; type, bounds and enumeration of the parameter stay as defined; and every other parameter
  is untouched.\<close>

lemma set_parameter_contract:
  assumes "set_parameter name v pm = (err, note, pm')"
  shows "(err \<noteq> None \<longrightarrow> note = None \<and> pm' = pm) \<and>
    (err = None \<longrightarrow>
       (\<exists>d d'. map_of pm name = Some d \<and> map_of pm' name = Some d' \<and> validate d v = None \<and>
         pm_type d' = pm_type d \<and> pm_min d' = pm_min d \<and> pm_max d' = pm_max d \<and>
         pm_allowed_values d' = pm_allowed_values d \<and>
         (if same_value (pm_value d) v then note = None \<and> d' = d
          else note = Some (name, pm_value d, v) \<and> pm_value d' = v \<and> pm_set_by_operator d'))) \<and>
    (\<forall>other. other \<noteq> name \<longrightarrow> map_of pm' other = map_of pm other)"
  using assms by (auto simp: set_parameter_def update_conv split: option.splits if_splits)

theorem set_parameter_contract_witness:
  "\<exists>note pm'. set_parameter ''nope'' (PV_Bool True) w_params = (Some (PE_Not_Found ''nope''), note, pm') \<and>
     note = None \<and> pm' = w_params"
proof -
  have "map_of w_params ''nope'' = None"
    by (simp add: w_params_def define_parameter_def Let_def)
  then have "set_parameter ''nope'' (PV_Bool True) w_params = (Some (PE_Not_Found ''nope''), None, w_params)"
    by (simp add: set_parameter_def)
  with set_parameter_contract [OF this] show ?thesis by blast
qed

text \<open>The bounds of an integer parameter are compared in double precision, so beyond \<open>2 ^ 53\<close> an
  integer above the maximum can pass.\<close>

lemma int_parameter_above_max_accepted:
  "range_error None (Some (f64_of_int (2 ^ 53))) (numeric_value (PV_Int64 (2 ^ 53 + 1))) = None"
proof -
  have "floorlog 2 9007199254740993 = 54" "floorlog 2 9007199254740992 = 54" by (simp_all add: compute_floorlog)
  then have "f64_of_int (2 ^ 53 + 1) = f64_of_int (2 ^ 53)"
    by (simp add: f64_of_int_def mag_of_nat_def Let_def)
  moreover have "sint (2 ^ 53 + 1 :: u64) = 2 ^ 53 + 1" by simp
  ultimately show ?thesis by (simp add: range_error_def f64_lt_def)
qed

end
