(* ===== verification/Event_Emitter.thy ===== *)
theory Event_Emitter
  imports Parameter_Manager
begin

text \<open>
  Events and their fan-out: \<open>core/events/event_types.hpp\<close> and \<open>core/events/event_emitter.cpp\<close>.
  A queue is shared by the emitter and the subscription that reads it, so the emitter's state has a
  store of queues addressed by subscription id; a subscription holds the id. \<open>emit\<close> stamps the event
  and picks its targets under the lock and pushes after releasing it; the two halves are separate
  operations here. Popping an empty queue waits; the model has the state in which the wait ended.
  Pushing to a queue of capacity 0 takes the front of an empty \<open>std::queue\<close>, which is undefined
  behaviour and is the result \<open>None\<close>.
\<close>

section \<open>Events\<close>

datatype Quality = Q_OK | Q_STALE | Q_UNAVAILABLE | Q_FAULT

fun quality_to_string :: "Quality \<Rightarrow> string" where
  "quality_to_string Q_OK = ''OK''"
| "quality_to_string Q_STALE = ''STALE''"
| "quality_to_string Q_UNAVAILABLE = ''UNAVAILABLE''"
| "quality_to_string Q_FAULT = ''FAULT''"

fun value_type_name :: "TypedValue \<Rightarrow> string" where
  "value_type_name (TV_Double _) = ''double''"
| "value_type_name (TV_Int64 _) = ''int64''"
| "value_type_name (TV_Uint64 _) = ''uint64''"
| "value_type_name (TV_Bool _) = ''bool''"
| "value_type_name (TV_String _) = ''string''"

text \<open>Doubles are compared by bit pattern.\<close>

fun values_equal :: "TypedValue \<Rightarrow> TypedValue \<Rightarrow> bool" where
  "values_equal (TV_Double a) (TV_Double b) = (a = b)"
| "values_equal (TV_Int64 a) (TV_Int64 b) = (a = b)"
| "values_equal (TV_Uint64 a) (TV_Uint64 b) = (a = b)"
| "values_equal (TV_Bool a) (TV_Bool b) = (a = b)"
| "values_equal (TV_String a) (TV_String b) = (a = b)"
| "values_equal _ _ = False"

datatype EventBody =
    StateUpdateEvent string string string TypedValue Quality
  | QualityChangeEvent string string string Quality Quality
  | DeviceAvailabilityEvent string string bool
  | ModeChangeEvent string string
  | ParameterChangeEvent string string string
  | AutomationFaultEvent string string
  | AutomationCallFailedEvent string string string u64
  | DeviceRemovedEvent string string
  | StopChainEvent string string string
  | StopChainMismatchEvent string string bool string

record Event =
  ev_event_id :: u64
  ev_body :: EventBody
  ev_timestamp_ms :: int

definition get_event_id :: "Event \<Rightarrow> u64" where
  "get_event_id e = ev_event_id e"

definition get_timestamp_ms :: "Event \<Rightarrow> int" where
  "get_timestamp_ms e = ev_timestamp_ms e"

section \<open>Queues\<close>

record SubscriberQueue =
  sq_max_size :: nat
  sq_name :: string
  sq_queue :: "Event list"
  sq_dropped_count :: nat
  sq_closed :: bool

definition new_queue :: "nat \<Rightarrow> string \<Rightarrow> SubscriberQueue" where
  "new_queue max_size name = \<lparr> sq_max_size = max_size, sq_name = name, sq_queue = [], sq_dropped_count = 0,
     sq_closed = False \<rparr>"

definition push :: "Event \<Rightarrow> SubscriberQueue \<Rightarrow> (bool \<times> SubscriberQueue) option" where
  "push event q =
     (if sq_max_size q \<le> length (sq_queue q)
      then case sq_queue q of
        [] \<Rightarrow> None
      | _ # rest \<Rightarrow> Some (False, q\<lparr> sq_queue := rest @ [event], sq_dropped_count := sq_dropped_count q + 1 \<rparr>)
      else Some (True, q\<lparr> sq_queue := sq_queue q @ [event] \<rparr>))"

definition pop :: "SubscriberQueue \<Rightarrow> Event option \<times> SubscriberQueue" where
  "pop q = (case sq_queue q of [] \<Rightarrow> (None, q) | e # rest \<Rightarrow> (Some e, q\<lparr> sq_queue := rest \<rparr>))"

definition close_queue :: "SubscriberQueue \<Rightarrow> SubscriberQueue" where
  "close_queue q = q\<lparr> sq_closed := True \<rparr>"

section \<open>Filters\<close>

record EventFilter =
  ef_provider_id :: string
  ef_device_id :: string
  ef_signal_id :: string

definition filter_all :: EventFilter where
  "filter_all = \<lparr> ef_provider_id = [], ef_device_id = [], ef_signal_id = [] \<rparr>"

fun event_provider :: "EventBody \<Rightarrow> string option" where
  "event_provider (StateUpdateEvent p d s v q) = Some p"
| "event_provider (QualityChangeEvent p d s q q') = Some p"
| "event_provider (DeviceAvailabilityEvent p d a) = Some p"
| "event_provider (DeviceRemovedEvent p d) = Some p"
| "event_provider _ = None"

fun event_device :: "EventBody \<Rightarrow> string option" where
  "event_device (StateUpdateEvent p d s v q) = Some d"
| "event_device (QualityChangeEvent p d s q q') = Some d"
| "event_device (DeviceAvailabilityEvent p d a) = Some d"
| "event_device (DeviceRemovedEvent p d) = Some d"
| "event_device _ = None"

fun event_signal :: "EventBody \<Rightarrow> string option" where
  "event_signal (StateUpdateEvent p d s v q) = Some s"
| "event_signal (QualityChangeEvent p d s q q') = Some s"
| "event_signal _ = None"

definition field_matches :: "string \<Rightarrow> string option \<Rightarrow> bool" where
  "field_matches wanted actual = (wanted = [] \<or> actual = None \<or> actual = Some wanted)"

definition matches :: "EventFilter \<Rightarrow> Event \<Rightarrow> bool" where
  "matches f e = (field_matches (ef_provider_id f) (event_provider (ev_body e)) \<and>
     field_matches (ef_device_id f) (event_device (ev_body e)) \<and>
     field_matches (ef_signal_id f) (event_signal (ev_body e)))"

section \<open>Emitter\<close>

record SubscriberInfo =
  si_filter :: EventFilter
  si_name :: string

record EventEmitter =
  em_default_queue_size :: nat
  em_max_subscribers :: nat
  em_subscribers :: "(u64 \<times> SubscriberInfo) list"
  em_next_subscription_id :: u64
  em_next_event_id :: u64
  em_queues :: "(u64 \<times> SubscriberQueue) list"

definition new_emitter :: "nat \<Rightarrow> nat \<Rightarrow> EventEmitter" where
  "new_emitter default_queue_size max_subscribers = \<lparr> em_default_queue_size = default_queue_size,
     em_max_subscribers = max_subscribers, em_subscribers = [], em_next_subscription_id = 1,
     em_next_event_id = 1, em_queues = [] \<rparr>"

definition at_capacity :: "EventEmitter \<Rightarrow> bool" where
  "at_capacity em = (0 < em_max_subscribers em \<and> em_max_subscribers em \<le> length (em_subscribers em))"

definition subscribe :: "EventFilter \<Rightarrow> nat \<Rightarrow> string \<Rightarrow> EventEmitter \<Rightarrow> u64 option \<times> EventEmitter" where
  "subscribe flt queue_size name em =
     (if at_capacity em then (None, em)
      else let sub = em_next_subscription_id em;
               size = (if 0 < queue_size then queue_size else em_default_queue_size em)
           in (Some sub, em\<lparr> em_next_subscription_id := sub + 1,
                 em_queues := AList.update sub (new_queue size name) (em_queues em),
                 em_subscribers := AList.update sub \<lparr> si_filter = flt, si_name = name \<rparr> (em_subscribers em) \<rparr>))"

definition stamp :: "Event \<Rightarrow> EventEmitter \<Rightarrow> Event \<times> u64 list \<times> EventEmitter" where
  "stamp event em =
     (let event = event\<lparr> ev_event_id := em_next_event_id em \<rparr>
      in (event, map fst (filter (\<lambda>(sub, info). matches (si_filter info) event) (em_subscribers em)),
          em\<lparr> em_next_event_id := em_next_event_id em + 1 \<rparr>))"

definition push_to :: "u64 \<Rightarrow> Event \<Rightarrow> EventEmitter \<Rightarrow> EventEmitter option" where
  "push_to sub event em =
     (case map_of (em_queues em) sub of
        None \<Rightarrow> Some em
      | Some q \<Rightarrow> map_option (\<lambda>(ok, q). em\<lparr> em_queues := AList.update sub q (em_queues em) \<rparr>) (push event q))"

fun push_targets :: "u64 list \<Rightarrow> Event \<Rightarrow> EventEmitter \<Rightarrow> EventEmitter option" where
  "push_targets [] event em = Some em"
| "push_targets (sub # subs) event em = Option.bind (push_to sub event em) (push_targets subs event)"

definition emit :: "Event \<Rightarrow> EventEmitter \<Rightarrow> EventEmitter option" where
  "emit event em = (let (event, targets, em) = stamp event em in push_targets targets event em)"

definition unsubscribe :: "u64 \<Rightarrow> EventEmitter \<Rightarrow> EventEmitter" where
  "unsubscribe sub em =
     (case map_of (em_subscribers em) sub of
        None \<Rightarrow> em
      | Some _ \<Rightarrow> em\<lparr> em_subscribers := AList.delete sub (em_subscribers em),
          em_queues := (case map_of (em_queues em) sub of
             None \<Rightarrow> em_queues em | Some q \<Rightarrow> AList.update sub (close_queue q) (em_queues em)) \<rparr>)"

definition destroy_emitter :: "EventEmitter \<Rightarrow> EventEmitter" where
  "destroy_emitter em = em\<lparr> em_queues :=
     map (\<lambda>(sub, q). (sub, if sub \<in> fst ` set (em_subscribers em) then close_queue q else q)) (em_queues em) \<rparr>"

text \<open>What a subscription does with its queue.\<close>

definition subscription_pop :: "u64 \<Rightarrow> EventEmitter \<Rightarrow> Event option \<times> EventEmitter" where
  "subscription_pop sub em =
     (case map_of (em_queues em) sub of
        None \<Rightarrow> (None, em)
      | Some q \<Rightarrow> (let (e, q) = pop q in (e, em\<lparr> em_queues := AList.update sub q (em_queues em) \<rparr>)))"

definition subscription_active :: "u64 \<Rightarrow> EventEmitter \<Rightarrow> bool" where
  "subscription_active sub em = (case map_of (em_queues em) sub of None \<Rightarrow> False | Some q \<Rightarrow> \<not> sq_closed q)"

definition subscription_unsubscribe :: "u64 \<Rightarrow> EventEmitter \<Rightarrow> EventEmitter" where
  "subscription_unsubscribe sub em =
     (let em = (if subscription_active sub em then unsubscribe sub em else em) in
      case map_of (em_queues em) sub of
        None \<Rightarrow> em
      | Some q \<Rightarrow> em\<lparr> em_queues := AList.update sub (close_queue q) (em_queues em) \<rparr>)"

section \<open>The lossy queue interface\<close>

text \<open>A bounded queue that drops its oldest element when full. The operations are those of one queue
  object; \<open>contents\<close>, \<open>capacity\<close> and \<open>lost\<close> observe it.\<close>

datatype 'e qop = QPush 'e | QPop

fun pushed :: "'e qop list \<Rightarrow> 'e list" where
  "pushed [] = []"
| "pushed (QPush e # ops) = e # pushed ops"
| "pushed (QPop # ops) = pushed ops"

fun run_queue ::
  "('e \<Rightarrow> 'q \<Rightarrow> 'q option) \<Rightarrow> ('q \<Rightarrow> 'e option \<times> 'q) \<Rightarrow> 'e qop list \<Rightarrow> 'q \<Rightarrow> ('e list \<times> 'q) option" where
  "run_queue put get [] q = Some ([], q)"
| "run_queue put get (QPush e # ops) q = Option.bind (put e q) (run_queue put get ops)"
| "run_queue put get (QPop # ops) q =
     (let (r, q) = get q in
      map_option (\<lambda>(got, q). ((case r of None \<Rightarrow> got | Some e \<Rightarrow> e # got), q)) (run_queue put get ops q))"

locale lossy_queue =
  fixes put :: "'e \<Rightarrow> 'q \<Rightarrow> 'q option" and get :: "'q \<Rightarrow> 'e option \<times> 'q"
    and contents :: "'q \<Rightarrow> 'e list" and capacity :: "'q \<Rightarrow> nat" and lost :: "'q \<Rightarrow> nat"
  assumes put_room: "length (contents q) < capacity q \<Longrightarrow>
      \<exists>q'. put e q = Some q' \<and> contents q' = contents q @ [e] \<and> lost q' = lost q \<and> capacity q' = capacity q"
    and put_full: "capacity q \<le> length (contents q) \<Longrightarrow> contents q = x # xs \<Longrightarrow>
      \<exists>q'. put e q = Some q' \<and> contents q' = xs @ [e] \<and> lost q' = Suc (lost q) \<and> capacity q' = capacity q"
    and get_empty: "contents q = [] \<Longrightarrow> get q = (None, q)"
    and get_front: "contents q = x # xs \<Longrightarrow>
      \<exists>q'. get q = (Some x, q') \<and> contents q' = xs \<and> lost q' = lost q \<and> capacity q' = capacity q"
begin

lemma put_cases:
  assumes "0 < capacity q" and "length (contents q) \<le> capacity q"
  obtains (room) q' where "put e q = Some q'" "contents q' = contents q @ [e]" "lost q' = lost q"
      "capacity q' = capacity q" "length (contents q') \<le> capacity q"
  | (full) q' x xs where "put e q = Some q'" "contents q = x # xs" "contents q' = xs @ [e]"
      "lost q' = Suc (lost q)" "capacity q' = capacity q" "length (contents q') \<le> capacity q"
proof (cases "length (contents q) < capacity q")
  case True
  from put_room [OF True, of e] True room show ?thesis by auto
next
  case False
  then obtain x xs where c: "contents q = x # xs" using assms(1) by (cases "contents q") auto
  from False put_full [OF _ c, of e] assms(2) c full show ?thesis by auto
qed

lemma run_queue_conserves:
  "0 < capacity q \<Longrightarrow> length (contents q) \<le> capacity q \<Longrightarrow>
   \<exists>got q'. run_queue put get ops q = Some (got, q') \<and>
     subseq (got @ contents q') (contents q @ pushed ops) \<and>
     suffix (contents q') (contents q @ pushed ops) \<and>
     length got + length (contents q') + lost q' = length (contents q) + length (pushed ops) + lost q \<and>
     length (contents q') \<le> capacity q"
proof (induction ops arbitrary: q)
  case (Cons op ops)
  show ?case
  proof (cases op)
    case (QPush e)
    show ?thesis
    proof (cases rule: put_cases [OF Cons.prems, of e, case_names room full])
      case (room q')
      from Cons.IH [of q'] Cons.prems room obtain got q'' where "run_queue put get ops q' = Some (got, q'')"
        "subseq (got @ contents q'') (contents q @ e # pushed ops)" "suffix (contents q'') (contents q @ e # pushed ops)"
        "length got + length (contents q'') + lost q'' = length (contents q) + 1 + length (pushed ops) + lost q"
        "length (contents q'') \<le> capacity q"
        by auto
      with room QPush show ?thesis by auto
    next
      case (full q' x xs)
      from Cons.IH [of q'] Cons.prems full obtain got q'' where "run_queue put get ops q' = Some (got, q'')"
        "subseq (got @ contents q'') (xs @ e # pushed ops)" "suffix (contents q'') (xs @ e # pushed ops)"
        "length got + length (contents q'') + lost q'' = length xs + 1 + length (pushed ops) + Suc (lost q)"
        "length (contents q'') \<le> capacity q"
        by auto
      with full QPush show ?thesis by (auto intro: suffix_ConsI)
    qed
  next
    case QPop
    show ?thesis
    proof (cases "contents q")
      case Nil
      with Cons.IH [OF Cons.prems] QPop get_empty [OF Nil] show ?thesis by auto
    next
      case (Cons x xs)
      from get_front [OF Cons] obtain q' where q': "get q = (Some x, q')" "contents q' = xs" "lost q' = lost q"
        "capacity q' = capacity q" by auto
      with Cons.IH [of q'] Cons.prems Cons obtain got q'' where "run_queue put get ops q' = Some (got, q'')"
        "subseq (got @ contents q'') (xs @ pushed ops)" "suffix (contents q'') (xs @ pushed ops)"
        "length got + length (contents q'') + lost q'' = length xs + length (pushed ops) + lost q"
        "length (contents q'') \<le> capacity q"
        by auto
      with q' QPop Cons show ?thesis by (auto intro: suffix_ConsI)
    qed
  qed
qed simp

end

interpretation sq: lossy_queue "\<lambda>e q. map_option snd (push e q)" pop sq_queue sq_max_size sq_dropped_count
  by unfold_locales (auto simp: push_def pop_def)

section \<open>Properties\<close>

text \<open>C39. A subscriber loses only the oldest events, and knows how many. Through any sequence of pushes
  and pops on a queue of positive capacity, no push fails, at most \<open>max_size\<close> events are held, what was
  popped followed by what is held is a subsequence of what was pushed (nothing is reordered,
  duplicated or invented), what is held are the most recent events, and \<open>dropped_count\<close> is exactly
  the number missing.\<close>

theorem queue_keeps_newest:
  assumes "0 < max_size"
  shows "\<exists>got q. run_queue (\<lambda>e q. map_option snd (push e q)) pop ops (new_queue max_size name) = Some (got, q) \<and>
    subseq (got @ sq_queue q) (pushed ops) \<and> suffix (sq_queue q) (pushed ops) \<and>
    length got + length (sq_queue q) + sq_dropped_count q = length (pushed ops) \<and>
    length (sq_queue q) \<le> max_size"
  using sq.run_queue_conserves [of "new_queue max_size name" ops] assms by (simp add: new_queue_def)

definition w_event :: "u64 \<Rightarrow> Event" where
  "w_event n = \<lparr> ev_event_id = n, ev_body = ModeChangeEvent ''IDLE'' ''MANUAL'', ev_timestamp_ms = 0 \<rparr>"

theorem queue_keeps_newest_witness:
  "\<exists>got q. run_queue (\<lambda>e q. map_option snd (push e q)) pop [QPush (w_event 1), QPush (w_event 2), QPop]
     (new_queue 1 ''sse'') = Some (got, q) \<and> length got + length (sq_queue q) + sq_dropped_count q = 2"
  using queue_keeps_newest [of 1 "[QPush (w_event 1), QPush (w_event 2), QPop]" "''sse''"] by auto

text \<open>The emitters a runtime can have, with subscriptions, emissions, pops and unsubscriptions in any
  order. Identifiers are 64 bits wide; a run that would wrap one of the two counters is left out.\<close>

inductive em_reach :: "EventEmitter \<Rightarrow> bool" where
  em_new: "0 < default_queue_size \<Longrightarrow> em_reach (new_emitter default_queue_size max_subscribers)"
| em_subscribe: "em_reach em \<Longrightarrow> em_next_subscription_id em + 1 \<noteq> 0 \<Longrightarrow> em_reach (snd (subscribe flt qsize name em))"
| em_emit: "em_reach em \<Longrightarrow> em_next_event_id em + 1 \<noteq> 0 \<Longrightarrow> emit e em = Some em' \<Longrightarrow> em_reach em'"
| em_pop: "em_reach em \<Longrightarrow> em_reach (snd (subscription_pop sub em))"
| em_unsubscribe: "em_reach em \<Longrightarrow> em_reach (subscription_unsubscribe sub em)"

definition queue_ok :: "u64 \<Rightarrow> SubscriberQueue \<Rightarrow> bool" where
  "queue_ok next_event q \<longleftrightarrow> 0 < sq_max_size q \<and> length (sq_queue q) \<le> sq_max_size q \<and>
     sorted_wrt (<) (map ev_event_id (sq_queue q)) \<and> (\<forall>e \<in> set (sq_queue q). ev_event_id e < next_event)"

definition em_inv :: "EventEmitter \<Rightarrow> bool" where
  "em_inv em \<longleftrightarrow> 0 < em_default_queue_size em \<and> distinct (map fst (em_subscribers em)) \<and>
     fst ` set (em_subscribers em) \<subseteq> fst ` set (em_queues em) \<and>
     (\<forall>sub \<in> fst ` set (em_queues em). sub < em_next_subscription_id em) \<and>
     (\<forall>sub q. map_of (em_queues em) sub = Some q \<longrightarrow> queue_ok (em_next_event_id em) q)"

lemma push_ok:
  assumes "queue_ok n q" and "ev_event_id e = n" and "n + 1 \<noteq> 0"
  shows "\<exists>q'. push e q = Some (length (sq_queue q) < sq_max_size q, q') \<and> queue_ok (n + 1) q' \<and>
    (\<exists>kept. suffix kept (sq_queue q) \<and> sq_queue q' = kept @ [e])"
proof (cases "length (sq_queue q) < sq_max_size q")
  case True
  with assms show ?thesis
    by (auto simp: push_def queue_ok_def sorted_wrt_append
        intro: word_less_succ word_less_succ_trans exI [of _ "sq_queue q"])
next
  case False
  with assms(1) obtain x xs where c: "sq_queue q = x # xs" by (cases "sq_queue q") (auto simp: queue_ok_def)
  with assms False show ?thesis
    by (auto simp: push_def queue_ok_def sorted_wrt_append
        intro: word_less_succ word_less_succ_trans intro!: exI [of _ xs] suffix_ConsI)
qed

lemma queue_ok_later: "queue_ok n q \<Longrightarrow> n + 1 \<noteq> 0 \<Longrightarrow> queue_ok (n + 1) q"
  by (auto simp: queue_ok_def intro: word_less_succ_trans)

text \<open>What \<open>emit\<close> does to the store: a queue among the targets takes the event, any other stays.\<close>

definition delivered :: "u64 list \<Rightarrow> Event \<Rightarrow> EventEmitter \<Rightarrow> EventEmitter \<Rightarrow> bool" where
  "delivered targets e em em' \<longleftrightarrow>
     (\<forall>sub q. map_of (em_queues em) sub = Some q \<longrightarrow>
        (\<exists>q'. map_of (em_queues em') sub = Some q' \<and>
           (if sub \<in> set targets then push e q = Some (length (sq_queue q) < sq_max_size q, q') else q' = q))) \<and>
     fst ` set (em_queues em') = fst ` set (em_queues em) \<and>
     em\<lparr> em_queues := em_queues em' \<rparr> = em'"

lemma push_targets_delivered:
  "distinct targets \<Longrightarrow> set targets \<subseteq> fst ` set (em_queues em) \<Longrightarrow>
   (\<And>sub q. sub \<in> set targets \<Longrightarrow> map_of (em_queues em) sub = Some q \<Longrightarrow> queue_ok (ev_event_id e) q) \<Longrightarrow>
   ev_event_id e + 1 \<noteq> 0 \<Longrightarrow> \<exists>em'. push_targets targets e em = Some em' \<and> delivered targets e em em'"
proof (induction targets arbitrary: em)
  case Nil
  then show ?case by (auto simp: delivered_def)
next
  case (Cons t ts)
  from Cons.prems(2) obtain q where q: "map_of (em_queues em) t = Some q"
    by (metis insert_subset list.simps(15) map_of_eq_None_iff option.exhaust)
  from push_ok [OF Cons.prems(3) [OF _ q] refl Cons.prems(4)] obtain q' where
    q': "push e q = Some (length (sq_queue q) < sq_max_size q, q')" by auto
  let ?em1 = "em\<lparr> em_queues := AList.update t q' (em_queues em) \<rparr>"
  have p: "push_to t e em = Some ?em1" by (simp add: push_to_def q q')
  have keys: "fst ` set (AList.update t q' (em_queues em)) = fst ` set (em_queues em)"
    using q umap.keys_put [of t q' "em_queues em"] by (metis insert_absorb map_of_eq_None_iff option.distinct(1))
  have "\<exists>em'. push_targets ts e ?em1 = Some em' \<and> delivered ts e ?em1 em'"
  proof (rule Cons.IH)
    show "distinct ts" using Cons.prems(1) by simp
    show "set ts \<subseteq> fst ` set (em_queues ?em1)" using Cons.prems(2) keys by simp
    show "queue_ok (ev_event_id e) qq" if "sub \<in> set ts" "map_of (em_queues ?em1) sub = Some qq" for sub qq
      using that Cons.prems(1,3) by (auto simp: update_conv split: if_splits)
    show "ev_event_id e + 1 \<noteq> 0" by (rule Cons.prems(4))
  qed
  then obtain em' where em': "push_targets ts e ?em1 = Some em'" "delivered ts e ?em1 em'" by blast
  have "\<exists>q1. map_of (em_queues em') sub = Some q1 \<and>
      (if sub \<in> set (t # ts) then push e q0 = Some (length (sq_queue q0) < sq_max_size q0, q1) else q1 = q0)"
    if q0: "map_of (em_queues em) sub = Some q0" for sub q0
  proof (cases "sub = t")
    case True
    have "map_of (em_queues ?em1) sub = Some q'" using True by (simp add: update_conv)
    then have "map_of (em_queues em') sub = Some q'"
      using em'(2) Cons.prems(1) True unfolding delivered_def by fastforce
    then show ?thesis using True q q' q0 by simp
  next
    case False
    then have "map_of (em_queues ?em1) sub = Some q0" using q0 by (simp add: update_conv)
    then show ?thesis using em'(2) False unfolding delivered_def by simp
  qed
  then have "delivered (t # ts) e em em'" using em'(2) keys unfolding delivered_def by auto
  with p em'(1) show ?case by simp
qed

lemma emit_delivered:
  assumes "em_inv em" and "em_next_event_id em + 1 \<noteq> 0"
  shows "\<exists>em' targets. emit e em = Some em' \<and>
    delivered targets (e\<lparr> ev_event_id := em_next_event_id em \<rparr>)
      (em\<lparr> em_next_event_id := em_next_event_id em + 1 \<rparr>) em' \<and>
    set targets = {sub. \<exists>info. map_of (em_subscribers em) sub = Some info \<and> matches (si_filter info) (e\<lparr> ev_event_id := em_next_event_id em \<rparr>)}"
proof -
  let ?e = "e\<lparr> ev_event_id := em_next_event_id em \<rparr>" and ?em1 = "em\<lparr> em_next_event_id := em_next_event_id em + 1 \<rparr>"
  define targets where "targets = map fst (filter (\<lambda>(sub, info). matches (si_filter info) ?e) (em_subscribers em))"
  have st: "stamp e em = (?e, targets, ?em1)" by (simp add: stamp_def targets_def Let_def)
  have dist: "distinct (map fst (em_subscribers em))" using assms(1) by (simp add: em_inv_def)
  have "\<exists>em'. push_targets targets ?e ?em1 = Some em' \<and> delivered targets ?e ?em1 em'"
  proof (rule push_targets_delivered)
    show "distinct targets" using dist unfolding targets_def by (simp add: distinct_map_filter)
    show "set targets \<subseteq> fst ` set (em_queues ?em1)" using assms(1) by (auto simp: targets_def em_inv_def)
    show "queue_ok (ev_event_id ?e) q" if "sub \<in> set targets" "map_of (em_queues ?em1) sub = Some q" for sub q
      using that assms(1) by (simp add: em_inv_def)
    show "ev_event_id ?e + 1 \<noteq> 0" using assms(2) by simp
  qed
  moreover have "set targets = {sub. \<exists>info. map_of (em_subscribers em) sub = Some info \<and> matches (si_filter info) ?e}"
    using dist by (force simp: targets_def map_of_eq_Some_iff)
  ultimately show ?thesis using st by (auto simp: emit_def)
qed

lemma em_inv_subscribe:
  assumes "em_inv em" and "em_next_subscription_id em + 1 \<noteq> 0"
  shows "em_inv (snd (subscribe flt qsize name em))"
proof (cases "at_capacity em")
  case True
  with assms show ?thesis by (simp add: subscribe_def)
next
  case False
  let ?n = "em_next_subscription_id em"
  have fresh: "?n \<notin> fst ` set (em_queues em)" using assms(1) by (auto simp: em_inv_def)
  with assms(1) have "?n \<notin> fst ` set (em_subscribers em)" by (auto simp: em_inv_def)
  with False assms show ?thesis
    by (auto simp: subscribe_def Let_def em_inv_def umap.keys_put distinct_update update_conv queue_ok_def new_queue_def
        intro: word_less_succ word_less_succ_trans)
qed

lemma delivered_queue:
  assumes "delivered targets e em em'" and "map_of (em_queues em) sub = Some q" and "map_of (em_queues em') sub = Some q'"
  shows "if sub \<in> set targets then push e q = Some (length (sq_queue q) < sq_max_size q, q') else q' = q"
  using assms unfolding delivered_def by (metis option.inject)

lemma em_inv_emit:
  assumes "em_inv em" and "em_next_event_id em + 1 \<noteq> 0" and "emit e em = Some em'"
  shows "em_inv em'"
proof -
  let ?e = "e\<lparr> ev_event_id := em_next_event_id em \<rparr>" and ?em1 = "em\<lparr> em_next_event_id := em_next_event_id em + 1 \<rparr>"
  from emit_delivered [OF assms(1,2), of e] assms(3) obtain targets where del: "delivered targets ?e ?em1 em'" by auto
  then have same: "em' = ?em1\<lparr> em_queues := em_queues em' \<rparr>"
    and keys: "fst ` set (em_queues em') = fst ` set (em_queues em)" by (auto simp: delivered_def)
  have "queue_ok (em_next_event_id em + 1) q'" if q': "map_of (em_queues em') sub = Some q'" for sub q'
  proof -
    from q' keys obtain q where q: "map_of (em_queues em) sub = Some q"
      by (metis map_of_eq_None_iff not_None_eq)
    with assms(1) have ok: "queue_ok (em_next_event_id em) q" by (simp add: em_inv_def)
    show ?thesis
    proof (cases "sub \<in> set targets")
      case True
      with delivered_queue [OF del _ q'] q have "push ?e q = Some (length (sq_queue q) < sq_max_size q, q')" by simp
      with push_ok [OF ok, of ?e] assms(2) show ?thesis by auto
    next
      case False
      with delivered_queue [OF del _ q'] q have "q' = q" by simp
      with queue_ok_later [OF ok assms(2)] show ?thesis by simp
    qed
  qed
  then show ?thesis using assms(1) keys same unfolding em_inv_def
    by (metis (no_types, lifting) EventEmitter.simps(1-6) EventEmitter.select_convs EventEmitter.update_convs(5,6)
        EventEmitter.surjective)
qed

lemma queue_ok_pop: "queue_ok n q \<Longrightarrow> queue_ok n (snd (pop q))"
  by (cases "sq_queue q") (auto simp: queue_ok_def pop_def)

lemma em_inv_queue_update:
  assumes "em_inv em" and "map_of (em_queues em) sub = Some q" and "queue_ok (em_next_event_id em) q'"
  shows "em_inv (em\<lparr> em_queues := AList.update sub q' (em_queues em) \<rparr>)"
proof -
  have "fst ` set (AList.update sub q' (em_queues em)) = fst ` set (em_queues em)"
    using assms(2) umap.keys_put [of sub q' "em_queues em"] by (metis insert_absorb map_of_eq_None_iff option.distinct(1))
  with assms show ?thesis by (auto simp: em_inv_def update_conv split: if_splits)
qed

lemma queue_ok_close: "queue_ok n (close_queue q) = queue_ok n q"
  by (simp add: queue_ok_def close_queue_def)

lemma em_inv_pop: "em_inv em \<Longrightarrow> em_inv (snd (subscription_pop sub em))"
  by (auto simp: subscription_pop_def em_inv_def [of em] split: option.split prod.split
      intro!: em_inv_queue_update) (metis em_inv_def queue_ok_pop snd_conv)+

lemma em_inv_close:
  "em_inv em \<Longrightarrow> em_inv (case map_of (em_queues em) sub of None \<Rightarrow> em
     | Some q \<Rightarrow> em\<lparr> em_queues := AList.update sub (close_queue q) (em_queues em) \<rparr>)"
  by (auto split: option.split intro!: em_inv_queue_update simp: queue_ok_close) (simp add: em_inv_def)

lemma em_inv_fewer:
  assumes "em_inv em" and "distinct (map fst subs)" and "fst ` set subs \<subseteq> fst ` set (em_subscribers em)"
  shows "em_inv (em\<lparr> em_subscribers := subs \<rparr>)"
  using assms by (auto simp: em_inv_def)

lemma em_inv_unsubscribe: "em_inv em \<Longrightarrow> em_inv (unsubscribe sub em)"
proof (cases "map_of (em_subscribers em) sub")
  case None
  assume "em_inv em"
  with None show ?thesis by (simp add: unsubscribe_def)
next
  case (Some info)
  assume inv: "em_inv em"
  let ?em1 = "case map_of (em_queues em) sub of None \<Rightarrow> em
     | Some q \<Rightarrow> em\<lparr> em_queues := AList.update sub (close_queue q) (em_queues em) \<rparr>"
  have "unsubscribe sub em = ?em1\<lparr> em_subscribers := AList.delete sub (em_subscribers em) \<rparr>"
    using Some by (simp add: unsubscribe_def split: option.split)
  moreover have "em_subscribers ?em1 = em_subscribers em" by (simp split: option.split)
  moreover have "distinct (map fst (AList.delete sub (em_subscribers em)))"
    using inv by (simp add: em_inv_def distinct_delete)
  moreover have "fst ` set (AList.delete sub (em_subscribers em)) \<subseteq> fst ` set (em_subscribers em)"
    by (auto simp: AList.delete_eq)
  ultimately show ?thesis using em_inv_fewer [OF em_inv_close [OF inv, of sub]] by simp
qed

lemma em_inv_reach: "em_reach em \<Longrightarrow> em_inv em"
proof (induction rule: em_reach.induct)
  case (em_new n m)
  then show ?case by (simp add: em_inv_def new_emitter_def)
next
  case (em_unsubscribe em sub)
  then show ?case
    using em_inv_close em_inv_unsubscribe by (simp add: subscription_unsubscribe_def Let_def)
qed (auto intro: em_inv_subscribe em_inv_emit em_inv_pop)

text \<open>Fan-out is exact and every stream is ordered. For any emitter a runtime can have, \<open>emit\<close>
  succeeds; each subscriber whose filter matches gets the event, with the next id, as the newest element
  of its queue; every other queue is untouched; and in every queue the ids are strictly increasing, so
  a gap in them is a gap in what the subscriber received. The emissions are one after the other here.\<close>

lemma emit_fans_out:
  assumes "em_reach em" and "em_next_event_id em + 1 \<noteq> 0"
  shows "\<exists>em'. emit e em = Some em' \<and>
    (\<forall>sub q. map_of (em_queues em) sub = Some q \<longrightarrow>
      (\<exists>q' kept. map_of (em_queues em') sub = Some q' \<and>
        (if \<exists>info. map_of (em_subscribers em) sub = Some info \<and>
              matches (si_filter info) (e\<lparr> ev_event_id := em_next_event_id em \<rparr>)
         then suffix kept (sq_queue q) \<and> sq_queue q' = kept @ [e\<lparr> ev_event_id := em_next_event_id em \<rparr>]
         else q' = q))) \<and>
    (\<forall>sub q'. map_of (em_queues em') sub = Some q' \<longrightarrow> sorted_wrt (<) (map ev_event_id (sq_queue q')))"
proof -
  let ?e = "e\<lparr> ev_event_id := em_next_event_id em \<rparr>" and ?em1 = "em\<lparr> em_next_event_id := em_next_event_id em + 1 \<rparr>"
  have inv: "em_inv em" using em_inv_reach [OF assms(1)] .
  from emit_delivered [OF inv assms(2), of e] obtain em' targets where em': "emit e em = Some em'"
    and del: "delivered targets ?e ?em1 em'"
    and tg: "set targets = {sub. \<exists>info. map_of (em_subscribers em) sub = Some info \<and> matches (si_filter info) ?e}"
    by auto
  have queues: "\<exists>q' kept. map_of (em_queues em') sub = Some q' \<and>
      (if \<exists>info. map_of (em_subscribers em) sub = Some info \<and> matches (si_filter info) ?e
       then suffix kept (sq_queue q) \<and> sq_queue q' = kept @ [?e] else q' = q)"
    if q: "map_of (em_queues em) sub = Some q" for sub q
  proof -
    from del q obtain q' where q': "map_of (em_queues em') sub = Some q'" by (fastforce simp: delivered_def)
    have "queue_ok (em_next_event_id em) q" using inv q by (simp add: em_inv_def)
    from push_ok [OF this, of ?e] assms(2) delivered_queue [OF del _ q'] q q' tg
    show ?thesis by (cases "sub \<in> set targets") auto
  qed
  have "sorted_wrt (<) (map ev_event_id (sq_queue q'))" if "map_of (em_queues em') sub = Some q'" for sub q'
    using em_inv_emit [OF inv assms(2) em'] that by (auto simp: em_inv_def queue_ok_def)
  with em' queues show ?thesis by blast
qed

definition w_emitter :: EventEmitter where
  "w_emitter = snd (subscribe filter_all 0 ''sse'' (new_emitter 2 32))"

theorem emit_fans_out_witness:
  "\<exists>em' q'. emit (w_event 0) w_emitter = Some em' \<and> map_of (em_queues em') 1 = Some q' \<and> sq_queue q' = [w_event 1]"
proof -
  have reach: "em_reach w_emitter"
    unfolding w_emitter_def by (intro em_subscribe em_new) (simp_all add: new_emitter_def)
  have w: "em_next_event_id w_emitter = 1" "map_of (em_queues w_emitter) 1 = Some (new_queue 2 ''sse'')"
    "map_of (em_subscribers w_emitter) 1 = Some \<lparr> si_filter = filter_all, si_name = ''sse'' \<rparr>"
    by (simp_all add: w_emitter_def subscribe_def new_emitter_def at_capacity_def Let_def)
  have m: "matches filter_all (w_event 0 \<lparr> ev_event_id := 1 \<rparr>)" by (simp add: matches_def filter_all_def field_matches_def)
  obtain em' q' kept where "emit (w_event 0) w_emitter = Some em'" "map_of (em_queues em') 1 = Some q'"
    "suffix kept (sq_queue (new_queue 2 ''sse''))" "sq_queue q' = kept @ [(w_event 0)\<lparr> ev_event_id := 1 \<rparr>]"
    using emit_fans_out [OF reach, of "w_event 0"] w m by fastforce
  then show ?thesis by (auto simp: new_queue_def w_event_def)
qed

text \<open>With two emitting threads the halves of \<open>emit\<close> interleave, and a queue can hold a later id before
  an earlier one.\<close>

lemma emit_interleaving_reorders:
  "let (e1, t1, em) = stamp (w_event 0) w_emitter; (e2, t2, em) = stamp (w_event 0) em in
   map_option (\<lambda>em. map_option (\<lambda>q. map ev_event_id (sq_queue q)) (map_of (em_queues em) 1))
     (Option.bind (push_targets t2 e2 em) (push_targets t1 e1)) = Some (Some [2, 1])"
  by (simp add: w_emitter_def subscribe_def new_emitter_def at_capacity_def Let_def stamp_def matches_def filter_all_def
      field_matches_def push_to_def push_def new_queue_def w_event_def)

end
