(* ===== verification/State_Cache.thy ===== *)
theory State_Cache
  imports Device_Registry Event_Emitter "HOL-Library.Multiset"
begin

text \<open>
  \<open>core/state/state_cache.cpp\<close>: the polled cache of device state and the edges it reports. Every
  operation returns what it sent out, in order: events to the emitter and edges to the reachability
  sink. The answers of providers, the clocks and the shutdown flag are inputs of a poll
  (\<open>PollEnv\<close>, per provider id or device handle). The registry snapshot is an argument of the two
  operations that read it. Rate-limited log lines are not modelled, the state that limits them is.
  Polls run on several threads: the poll loop and the calls that poll a device after they are made. Each device read
  changes the cache in one locked section, so the operations of a run include single device reads, of any
  thread, beside whole polls. A rebuild is one step here; in the code it is several locked sections in a row.
  Edges are sent after the lock is released, so the order of an output is the order in which they were
  decided, not the one in which the sink receives them.
\<close>

section \<open>State\<close>

record CachedSignalValue =
  cv_value :: Value
  cv_timestamp :: time_ns
  cv_quality :: ProtoQuality

record DeviceState =
  ds_device_handle :: string
  ds_signals :: "(string \<times> CachedSignalValue) list"
  ds_last_poll_time :: time_ns
  ds_provider_available :: bool
  ds_loss_reported :: bool
  ds_unavailable_emitted :: bool

record CarriedReachability =
  cr_provider_available :: bool
  cr_loss_reported :: bool
  cr_unavailable_emitted :: bool

record PollConfig =
  pc_provider_id :: string
  pc_device_id :: string
  pc_signal_ids :: "string list"

record OutageLogState =
  ol_in_outage :: bool
  ol_provider_missing :: bool
  ol_last_log_time :: time_ns

record StateCache =
  sc_has_emitter :: bool
  sc_has_sink :: bool
  sc_device_states :: "(string \<times> DeviceState) list"
  sc_edge_seq :: u64
  sc_departed :: "(string \<times> CarriedReachability) list"
  sc_poll_configs :: "PollConfig list"
  sc_initialized :: bool
  sc_preinit_warned :: bool
  sc_outage :: "(string \<times> OutageLogState) list"

definition new_cache :: "bool \<Rightarrow> bool \<Rightarrow> StateCache" where
  "new_cache has_emitter has_sink = \<lparr> sc_has_emitter = has_emitter, sc_has_sink = has_sink,
     sc_device_states = [], sc_edge_seq = 0, sc_departed = [], sc_poll_configs = [], sc_initialized = False,
     sc_preinit_warned = False, sc_outage = [] \<rparr>"

text \<open>What leaves the cache: an event, or an edge (handle, reachable, status, edge number).\<close>

datatype cache_out = Out_Event EventBody | Out_Edge string bool StatusCode u64

section \<open>Staleness\<close>

definition cv_age :: "time_ns \<Rightarrow> CachedSignalValue \<Rightarrow> duration_ms" where
  "cv_age now cv = (if now < cv_timestamp cv then 0 else ns_to_ms (now - cv_timestamp cv))"

definition cv_is_stale :: "duration_ms \<Rightarrow> time_ns \<Rightarrow> CachedSignalValue \<Rightarrow> bool" where
  "cv_is_stale timeout now cv =
     (if cv_quality cv = QUALITY_STALE \<or> cv_quality cv = QUALITY_FAULT \<or> cv_quality cv = QUALITY_UNKNOWN
      then True else timeout < cv_age now cv)"

section \<open>Poll plan\<close>

definition default_signals :: "RegisteredDevice \<Rightarrow> string list" where
  "default_signals device =
     map fst (filter (\<lambda>(signal_id, spec). ss_is_default spec) (dc_signals_by_id (rd_capabilities device)))"

definition poll_config_of :: "RegisteredDevice \<Rightarrow> PollConfig" where
  "poll_config_of device = \<lparr> pc_provider_id = rd_provider_id device, pc_device_id = rd_device_id device,
     pc_signal_ids = default_signals device \<rparr>"

definition fresh_state :: "string \<Rightarrow> time_ns \<Rightarrow> CarriedReachability \<Rightarrow> DeviceState" where
  "fresh_state handle now prior = \<lparr> ds_device_handle = handle, ds_signals = [], ds_last_poll_time = now,
     ds_provider_available = cr_provider_available prior, ds_loss_reported = cr_loss_reported prior,
     ds_unavailable_emitted = cr_unavailable_emitted prior \<rparr>"

definition no_prior :: CarriedReachability where
  "no_prior = \<lparr> cr_provider_available = True, cr_loss_reported = False, cr_unavailable_emitted = False \<rparr>"

definition initialize :: "RegisteredDevice list \<Rightarrow> (string \<Rightarrow> time_ns) \<Rightarrow> StateCache \<Rightarrow> StateCache" where
  "initialize devices now sc =
     (let polled = filter (\<lambda>d. default_signals d \<noteq> []) devices in
      sc\<lparr> sc_poll_configs := map poll_config_of polled,
          sc_device_states :=
            fold (\<lambda>d. AList.update (get_handle d) (fresh_state (get_handle d) (now (get_handle d)) no_prior)) polled [],
          sc_outage := [], sc_initialized := True, sc_preinit_warned := False \<rparr>)"

definition carried_of :: "DeviceState \<Rightarrow> CarriedReachability" where
  "carried_of s = \<lparr> cr_provider_available = ds_provider_available s, cr_loss_reported = ds_loss_reported s,
     cr_unavailable_emitted = ds_unavailable_emitted s \<rparr>"

definition owned_by :: "string \<Rightarrow> string \<Rightarrow> bool" where
  "owned_by provider_id handle = prefix (provider_id @ ''/'') handle"

definition prior_of ::
  "(string \<times> CarriedReachability) list \<Rightarrow> (string \<times> CarriedReachability) list \<Rightarrow> string \<Rightarrow> CarriedReachability" where
  "prior_of carried departed handle =
     (case map_of carried handle of
        Some c \<Rightarrow> c
      | None \<Rightarrow> (case map_of departed handle of Some c \<Rightarrow> c | None \<Rightarrow> no_prior))"

definition rebuild_device ::
  "(string \<times> CarriedReachability) list \<Rightarrow> (string \<Rightarrow> time_ns) \<Rightarrow> RegisteredDevice \<Rightarrow> StateCache \<Rightarrow> StateCache" where
  "rebuild_device carried now device sc =
     (let handle = get_handle device; prior = prior_of carried (sc_departed sc) handle in
      sc\<lparr> sc_poll_configs := sc_poll_configs sc @ [poll_config_of device],
          sc_departed := AList.delete handle (sc_departed sc),
          sc_device_states := AList.update handle (fresh_state handle (now handle) prior) (sc_device_states sc) \<rparr>)"

definition removed_event :: "StateCache \<Rightarrow> string \<Rightarrow> string \<Rightarrow> cache_out list" where
  "removed_event sc provider_id handle =
     (if sc_has_emitter sc then [Out_Event (DeviceRemovedEvent provider_id (drop (length provider_id + 1) handle))] else [])"

definition rebuild_departure ::
  "string \<Rightarrow> string \<times> CarriedReachability \<Rightarrow> StateCache \<times> cache_out list \<Rightarrow> StateCache \<times> cache_out list" where
  "rebuild_departure provider_id entry acc =
     (let (handle, prior) = entry; (sc, outs) = acc in
      if map_of (sc_device_states sc) handle \<noteq> None then (sc, outs)
      else (if cr_loss_reported prior then sc\<lparr> sc_departed := AList.update handle prior (sc_departed sc) \<rparr> else sc,
            outs @ removed_event sc provider_id handle))"

definition rebuild_poll_configs ::
  "string \<Rightarrow> RegisteredDevice list \<Rightarrow> (string \<Rightarrow> time_ns) \<Rightarrow> StateCache \<Rightarrow> StateCache \<times> cache_out list" where
  "rebuild_poll_configs provider_id devices now sc =
     (let carried = map (\<lambda>(h, s). (h, carried_of s)) (filter (\<lambda>(h, s). owned_by provider_id h) (sc_device_states sc));
          sc = sc\<lparr> sc_poll_configs := filter (\<lambda>c. pc_provider_id c \<noteq> provider_id) (sc_poll_configs sc),
                   sc_device_states := filter (\<lambda>(h, s). \<not> owned_by provider_id h) (sc_device_states sc),
                   sc_outage := AList.delete provider_id (sc_outage sc) \<rparr>;
          polled = filter (\<lambda>d. rd_provider_id d = provider_id \<and> default_signals d \<noteq> []) devices;
          sc = fold (rebuild_device carried now) polled sc
      in fold (rebuild_departure provider_id) carried (sc, []))"

section \<open>Change detection\<close>

definition value_changed :: "Value \<Rightarrow> Value \<Rightarrow> bool" where
  "value_changed old_val new_val =
     (if v_type old_val \<noteq> v_type new_val then True
      else case v_type old_val of
        VALUE_TYPE_DOUBLE \<Rightarrow> double_value old_val \<noteq> double_value new_val
      | VALUE_TYPE_INT64 \<Rightarrow> int64_value old_val \<noteq> int64_value new_val
      | VALUE_TYPE_UINT64 \<Rightarrow> uint64_value old_val \<noteq> uint64_value new_val
      | VALUE_TYPE_BOOL \<Rightarrow> bool_value old_val \<noteq> bool_value new_val
      | VALUE_TYPE_STRING \<Rightarrow> string_value old_val \<noteq> string_value new_val
      | VALUE_TYPE_BYTES \<Rightarrow> bytes_value old_val \<noteq> bytes_value new_val
      | VALUE_TYPE_OTHER _ \<Rightarrow> True)"

definition quality_changed :: "ProtoQuality \<Rightarrow> ProtoQuality \<Rightarrow> bool" where
  "quality_changed old_q new_q = (old_q \<noteq> new_q)"

definition bytes_to_string :: "u8 list \<Rightarrow> string" where
  "bytes_to_string bs = map (\<lambda>b. char_of (unat b)) bs"

definition typed_value_of :: "Value \<Rightarrow> TypedValue" where
  "typed_value_of v = (case v_type v of
     VALUE_TYPE_DOUBLE \<Rightarrow> TV_Double (double_value v)
   | VALUE_TYPE_INT64 \<Rightarrow> TV_Int64 (int64_value v)
   | VALUE_TYPE_UINT64 \<Rightarrow> TV_Uint64 (uint64_value v)
   | VALUE_TYPE_BOOL \<Rightarrow> TV_Bool (bool_value v)
   | VALUE_TYPE_STRING \<Rightarrow> TV_String (string_value v)
   | VALUE_TYPE_BYTES \<Rightarrow> TV_String (bytes_to_string (bytes_value v))
   | VALUE_TYPE_OTHER _ \<Rightarrow> TV_String ''<unknown>'')"

definition event_quality :: "ProtoQuality \<Rightarrow> Quality" where
  "event_quality q = (case q of QUALITY_OK \<Rightarrow> Q_OK | QUALITY_STALE \<Rightarrow> Q_STALE | QUALITY_FAULT \<Rightarrow> Q_FAULT | _ \<Rightarrow> Q_UNAVAILABLE)"

definition emit_state_update :: "StateCache \<Rightarrow> string \<Rightarrow> string \<Rightarrow> string \<times> Value \<times> ProtoQuality \<Rightarrow> cache_out list" where
  "emit_state_update sc provider_id device_id pending =
     (let (signal_id, value, quality) = pending in
      if sc_has_emitter sc
      then [Out_Event (StateUpdateEvent provider_id device_id signal_id (typed_value_of value) (event_quality quality))]
      else [])"

definition emit_device_availability :: "StateCache \<Rightarrow> string \<Rightarrow> string \<Rightarrow> bool \<Rightarrow> cache_out list" where
  "emit_device_availability sc provider_id device_id available =
     (if sc_has_emitter sc then [Out_Event (DeviceAvailabilityEvent provider_id device_id available)] else [])"

section \<open>Polling\<close>

definition cached_of :: "time_ns \<Rightarrow> SignalValue \<Rightarrow> CachedSignalValue" where
  "cached_of now sv = \<lparr> cv_value = sv_value sv,
     cv_timestamp = (case sv_timestamp sv of Some (seconds, nanos) \<Rightarrow> seconds * 1000000000 + nanos | None \<Rightarrow> now),
     cv_quality = sv_quality sv \<rparr>"

text \<open>The loop over the values of one read: the new signals and the changes, in order.\<close>

fun update_signals ::
  "(nat \<Rightarrow> time_ns) \<Rightarrow> nat \<Rightarrow> SignalValue list \<Rightarrow> (string \<times> CachedSignalValue) list \<Rightarrow>
   (string \<times> CachedSignalValue) list \<times> (string \<times> Value \<times> ProtoQuality) list" where
  "update_signals now i [] signals = (signals, [])"
| "update_signals now i (sv # svs) signals =
     (let changed = (case map_of signals (sv_signal_id sv) of
            None \<Rightarrow> True
          | Some cv \<Rightarrow> value_changed (cv_value cv) (sv_value sv) \<or> quality_changed (cv_quality cv) (sv_quality sv));
          (signals, pending) = update_signals now (Suc i) svs
            (AList.update (sv_signal_id sv) (cached_of (now i) sv) signals)
      in (signals, if changed then (sv_signal_id sv, sv_value sv, sv_quality sv) # pending else pending))"

definition update_device_state ::
  "string \<Rightarrow> string \<Rightarrow> string \<Rightarrow> SignalValue list \<Rightarrow> time_ns \<Rightarrow> (nat \<Rightarrow> time_ns) \<Rightarrow> StateCache \<Rightarrow>
   StateCache \<times> cache_out list" where
  "update_device_state device_handle provider_id device_id values poll_time now sc =
     (case map_of (sc_device_states sc) device_handle of
        None \<Rightarrow> (sc, [])
      | Some state \<Rightarrow>
          (let available = (if ds_unavailable_emitted state
                            then emit_device_availability sc provider_id device_id True else []);
               report_return = ds_loss_reported state;
               seq = (if report_return then sc_edge_seq sc + 1 else sc_edge_seq sc);
               (signals, pending) = update_signals now 0 values (ds_signals state);
               state = state\<lparr> ds_last_poll_time := poll_time, ds_provider_available := True,
                              ds_unavailable_emitted := False, ds_loss_reported := False, ds_signals := signals \<rparr>;
               sc = sc\<lparr> sc_edge_seq := seq,
                        sc_device_states := AList.update device_handle state (sc_device_states sc) \<rparr>
           in (sc, available @ concat (map (emit_state_update sc provider_id device_id) pending) @
                   (if report_return \<and> sc_has_sink sc then [Out_Edge device_handle True CODE_OK seq] else []))))"

datatype provider_status = P_Missing | P_Down | P_Up

record PollEnv =
  pe_provider :: "string \<Rightarrow> provider_status"
  pe_steady :: "string \<Rightarrow> time_ns"
  pe_shutting_down :: "string \<Rightarrow> bool"
  pe_read :: "string \<Rightarrow> string list \<Rightarrow> StatusCode + SignalValue list"
  pe_lost :: "string \<Rightarrow> bool"
  pe_poll_time :: "string \<Rightarrow> time_ns"
  pe_clock :: "string \<Rightarrow> nat \<Rightarrow> time_ns"

definition read_failed ::
  "string \<Rightarrow> string \<Rightarrow> string \<Rightarrow> StatusCode \<Rightarrow> bool \<Rightarrow> bool \<Rightarrow> StateCache \<Rightarrow> StateCache \<times> cache_out list" where
  "read_failed device_handle provider_id device_id failure_status shutting_down provider_lost sc =
     (case map_of (sc_device_states sc) device_handle of
        None \<Rightarrow> (sc, [])
      | Some state \<Rightarrow>
          (let emit_loss = (\<not> shutting_down \<and> \<not> ds_unavailable_emitted state);
               report_loss = (\<not> shutting_down \<and> \<not> provider_lost \<and> \<not> ds_loss_reported state \<and> sc_has_sink sc);
               seq = (if report_loss then sc_edge_seq sc + 1 else sc_edge_seq sc);
               outs = (if emit_loss then emit_device_availability sc provider_id device_id False else []);
               state = state\<lparr> ds_provider_available := False, ds_signals := [],
                              ds_unavailable_emitted := ds_unavailable_emitted state \<or> emit_loss,
                              ds_loss_reported := ds_loss_reported state \<or> report_loss \<rparr>;
               sc = sc\<lparr> sc_edge_seq := seq,
                        sc_device_states := AList.update device_handle state (sc_device_states sc) \<rparr>
           in (sc, outs @ (if report_loss then [Out_Edge device_handle False failure_status seq] else []))))"

definition poll_device :: "PollEnv \<Rightarrow> PollConfig \<Rightarrow> StateCache \<Rightarrow> StateCache \<times> cache_out list" where
  "poll_device env cfg sc =
     (let handle = pc_provider_id cfg @ ''/'' @ pc_device_id cfg in
      case pe_read env handle (pc_signal_ids cfg) of
        Inl failure_status \<Rightarrow>
          read_failed handle (pc_provider_id cfg) (pc_device_id cfg) failure_status
            (pe_shutting_down env handle) (pe_lost env handle) sc
      | Inr values \<Rightarrow>
          update_device_state handle (pc_provider_id cfg) (pc_device_id cfg) values
            (pe_poll_time env handle) (pe_clock env handle) sc)"

definition mark_unavailable :: "bool \<Rightarrow> PollConfig \<Rightarrow> StateCache \<Rightarrow> StateCache \<times> cache_out list" where
  "mark_unavailable shutting_down cfg sc =
     (let handle = pc_provider_id cfg @ ''/'' @ pc_device_id cfg in
      case map_of (sc_device_states sc) handle of
        None \<Rightarrow> (sc, [])
      | Some state \<Rightarrow>
          (let emit_loss = (\<not> shutting_down \<and> \<not> ds_unavailable_emitted state);
               state = state\<lparr> ds_provider_available := False,
                              ds_unavailable_emitted := ds_unavailable_emitted state \<or> emit_loss \<rparr>
           in (sc\<lparr> sc_device_states := AList.update handle state (sc_device_states sc) \<rparr>,
               if emit_loss then emit_device_availability sc (pc_provider_id cfg) (pc_device_id cfg) False else [])))"

definition kOutageLogInterval :: time_ns where
  "kOutageLogInterval = 30 * 1000000000"

definition track_outage :: "string \<Rightarrow> bool \<Rightarrow> time_ns \<Rightarrow> StateCache \<Rightarrow> StateCache" where
  "track_outage provider_id provider_missing now sc =
     (let state = (case map_of (sc_outage sc) provider_id of
            Some s \<Rightarrow> s
          | None \<Rightarrow> \<lparr> ol_in_outage = False, ol_provider_missing = False, ol_last_log_time = 0 \<rparr>);
          transitioned = (\<not> ol_in_outage state \<or> ol_provider_missing state \<noteq> provider_missing);
          interval_elapsed = (ol_last_log_time state = 0 \<or> kOutageLogInterval \<le> now - ol_last_log_time state);
          last_log = (if transitioned \<or> interval_elapsed then now else ol_last_log_time state)
      in sc\<lparr> sc_outage := AList.update provider_id
               \<lparr> ol_in_outage = True, ol_provider_missing = provider_missing, ol_last_log_time = last_log \<rparr>
               (sc_outage sc) \<rparr>)"

definition clear_outage :: "string \<Rightarrow> StateCache \<Rightarrow> StateCache" where
  "clear_outage provider_id sc =
     (case map_of (sc_outage sc) provider_id of
        Some s \<Rightarrow> if ol_in_outage s then sc\<lparr> sc_outage := AList.delete provider_id (sc_outage sc) \<rparr> else sc
      | None \<Rightarrow> sc)"

text \<open>Running a step for each target in turn, collecting what it sends out.\<close>

fun run_steps :: "('a \<Rightarrow> StateCache \<Rightarrow> StateCache \<times> cache_out list) \<Rightarrow> 'a list \<Rightarrow> StateCache \<Rightarrow> StateCache \<times> cache_out list" where
  "run_steps f [] sc = (sc, [])"
| "run_steps f (x # xs) sc =
     (let (sc, outs) = f x sc; (sc, outs') = run_steps f xs sc in (sc, outs @ outs'))"

definition poll_provider :: "PollEnv \<Rightarrow> string \<times> PollConfig list \<Rightarrow> StateCache \<Rightarrow> StateCache \<times> cache_out list" where
  "poll_provider env entry sc =
     (let (provider_id, cfgs) = entry in
      case pe_provider env provider_id of
        P_Missing \<Rightarrow> run_steps (mark_unavailable (pe_shutting_down env provider_id)) cfgs
                       (track_outage provider_id True (pe_steady env provider_id) sc)
      | P_Down \<Rightarrow> run_steps (mark_unavailable (pe_shutting_down env provider_id)) cfgs
                    (track_outage provider_id False (pe_steady env provider_id) sc)
      | P_Up \<Rightarrow> run_steps (poll_device env) cfgs (clear_outage provider_id sc))"

definition group_by_provider :: "PollConfig list \<Rightarrow> (string \<times> PollConfig list) list" where
  "group_by_provider cfgs =
     fold (\<lambda>c groups. AList.update (pc_provider_id c)
            ((case map_of groups (pc_provider_id c) of None \<Rightarrow> [] | Some cs \<Rightarrow> cs) @ [c]) groups) cfgs []"

definition poll_once :: "PollEnv \<Rightarrow> StateCache \<Rightarrow> StateCache \<times> cache_out list" where
  "poll_once env sc =
     (if \<not> sc_initialized sc then (sc\<lparr> sc_preinit_warned := True \<rparr>, [])
      else run_steps (poll_provider env) (group_by_provider (sc_poll_configs sc)) sc)"

definition poll_device_now :: "PollEnv \<Rightarrow> string \<Rightarrow> StateCache \<Rightarrow> StateCache \<times> cache_out list" where
  "poll_device_now env device_handle sc =
     (if \<not> sc_initialized sc then (sc\<lparr> sc_preinit_warned := True \<rparr>, [])
      else case find (\<lambda>c. pc_provider_id c @ ''/'' @ pc_device_id c = device_handle) (sc_poll_configs sc) of
        None \<Rightarrow> (sc, [])
      | Some cfg \<Rightarrow> if pe_provider env (pc_provider_id cfg) = P_Up then poll_device env cfg sc else (sc, []))"

definition get_device_state :: "StateCache \<Rightarrow> string \<Rightarrow> DeviceState option" where
  "get_device_state sc device_handle = map_of (sc_device_states sc) device_handle"

definition get_signal_value :: "StateCache \<Rightarrow> string \<Rightarrow> string \<Rightarrow> CachedSignalValue option" where
  "get_signal_value sc device_handle signal_id =
     Option.bind (map_of (sc_device_states sc) device_handle) (\<lambda>s. map_of (ds_signals s) signal_id)"

definition cache_device_count :: "StateCache \<Rightarrow> nat" where
  "cache_device_count sc = length (sc_device_states sc)"

section \<open>Runs\<close>

text \<open>\<open>Op_Device\<close> and \<open>Op_Unavailable\<close> are one device's turn in a poll that is under way on some thread, with the
  poll configuration that thread copied.\<close>

datatype cache_op = Op_Poll PollEnv | Op_Poll_Now PollEnv string
  | Op_Device PollEnv PollConfig | Op_Unavailable bool PollConfig
  | Op_Rebuild string "RegisteredDevice list" "string \<Rightarrow> time_ns"

fun cache_step :: "cache_op \<Rightarrow> StateCache \<Rightarrow> StateCache \<times> cache_out list" where
  "cache_step (Op_Poll env) sc = poll_once env sc"
| "cache_step (Op_Poll_Now env handle) sc = poll_device_now env handle sc"
| "cache_step (Op_Device env cfg) sc = poll_device env cfg sc"
| "cache_step (Op_Unavailable shutting_down cfg) sc = mark_unavailable shutting_down cfg sc"
| "cache_step (Op_Rebuild provider_id devices now) sc = rebuild_poll_configs provider_id devices now sc"

text \<open>The edges of one device in an output, and all edge numbers.\<close>

fun edges_of :: "string \<Rightarrow> cache_out list \<Rightarrow> bool list" where
  "edges_of h [] = []"
| "edges_of h (Out_Edge h' reachable st seq # outs) = (if h' = h then reachable # edges_of h outs else edges_of h outs)"
| "edges_of h (Out_Event e # outs) = edges_of h outs"

fun seqs_of :: "cache_out list \<Rightarrow> u64 list" where
  "seqs_of [] = []"
| "seqs_of (Out_Edge h reachable st seq # outs) = seq # seqs_of outs"
| "seqs_of (Out_Event e # outs) = seqs_of outs"

text \<open>The same on single outputs.\<close>

fun is_edge :: "cache_out \<Rightarrow> bool" where
  "is_edge (Out_Edge h reachable st seq) = True"
| "is_edge (Out_Event e) = False"

fun edge_handle :: "cache_out \<Rightarrow> string" where
  "edge_handle (Out_Edge h reachable st seq) = h"
| "edge_handle (Out_Event e) = []"

fun edge_reachable :: "cache_out \<Rightarrow> bool" where
  "edge_reachable (Out_Edge h reachable st seq) = reachable"
| "edge_reachable (Out_Event e) = False"

fun edge_number :: "cache_out \<Rightarrow> u64" where
  "edge_number (Out_Edge h reachable st seq) = seq"
| "edge_number (Out_Event e) = 0"

text \<open>A word of edges that alternates: with the loss on record the next edge is a return, without it
  the next edge is a loss.\<close>

fun alternates :: "bool \<Rightarrow> bool list \<Rightarrow> bool \<Rightarrow> bool" where
  "alternates lost [] lost' = (lost = lost')"
| "alternates lost (reachable # es) lost' = (reachable = lost \<and> alternates (\<not> reachable) es lost')"

text \<open>The loss on record for a handle, in a live state or kept for a departed device.\<close>

definition loss_on_record :: "StateCache \<Rightarrow> string \<Rightarrow> bool" where
  "loss_on_record sc h =
     (case map_of (sc_device_states sc) h of
        Some s \<Rightarrow> ds_loss_reported s
      | None \<Rightarrow> (case map_of (sc_departed sc) h of Some c \<Rightarrow> cr_loss_reported c | None \<Rightarrow> False))"

fun numbered :: "u64 \<Rightarrow> u64 list \<Rightarrow> u64 \<Rightarrow> bool" where
  "numbered s [] s' = (s = s')"
| "numbered s (x # xs) s' = (x = s + 1 \<and> numbered x xs s')"

section \<open>Lemmas on outputs\<close>

lemma edges_of_append [simp]: "edges_of h (xs @ ys) = edges_of h xs @ edges_of h ys"
  by (induction h xs rule: edges_of.induct) auto

lemma seqs_of_append [simp]: "seqs_of (xs @ ys) = seqs_of xs @ seqs_of ys"
  by (induction xs rule: seqs_of.induct) auto

lemma edges_of_filter: "edges_of h outs = map edge_reachable (filter (\<lambda>e. edge_handle e = h) (filter is_edge outs))"
  by (induction h outs rule: edges_of.induct) auto

lemma seqs_of_filter: "seqs_of outs = map edge_number (filter is_edge outs)"
  by (induction outs rule: seqs_of.induct) auto

lemma alternates_append: "alternates a xs b \<Longrightarrow> alternates b ys c \<Longrightarrow> alternates a (xs @ ys) c"
  by (induction a xs b rule: alternates.induct) auto

lemma numbered_append: "numbered a xs b \<Longrightarrow> numbered b ys c \<Longrightarrow> numbered a (xs @ ys) c"
  by (induction a xs b rule: numbered.induct) auto

lemma numbered_of_nat: "numbered s xs s' \<Longrightarrow> xs = map (\<lambda>i. s + of_nat i) [1..<Suc (length xs)]"
proof (induction s xs s' rule: numbered.induct)
  case (2 s x xs s')
  then have IH: "xs = map (\<lambda>i. x + of_nat i) [1..<Suc (length xs)]" and x: "x = s + 1" by auto
  have "[1..<Suc (length (x # xs))] = 1 # map Suc [1..<Suc (length xs)]"
    by (simp add: map_Suc_upt upt_conv_Cons del: upt_Suc)
  then show ?case using arg_cong [OF IH, of "(#) x"] x by (simp add: algebra_simps comp_def del: upt_Suc)
qed simp

lemma numbered_increasing:
  assumes "numbered 0 xs s'" and "length xs < 2 ^ 64"
  shows "sorted_wrt (<) xs"
proof -
  have "sorted_wrt (<) (map (of_nat :: nat \<Rightarrow> u64) [1..<Suc (length xs)])"
    unfolding sorted_wrt_map
    by (rule sorted_wrt_mono_rel [OF _ sorted_wrt_upt]) (use assms(2) in \<open>auto intro!: of_nat_word_less_iff [THEN iffD2] simp: take_bit_nat_eq_self\<close>)
  then show ?thesis using numbered_of_nat [OF assms(1)] by simp
qed

text \<open>Edges numbered in increasing order are put back into the order they were decided in by sorting them.\<close>

lemma sort_edges:
  assumes "mset arrived = mset (filter is_edge outs)" and "sorted_wrt (<) (seqs_of outs)"
  shows "sort_key edge_number (filter (\<lambda>e. edge_handle e = h) arrived) = filter (\<lambda>e. edge_handle e = h) (filter is_edge outs)"
proof -
  let ?es = "filter (\<lambda>e. edge_handle e = h) (filter is_edge outs)"
  have "sorted_wrt (\<lambda>a b. edge_number a < edge_number b) (filter is_edge outs)"
    using assms(2) by (simp add: seqs_of_filter sorted_wrt_map)
  then have less: "sorted_wrt (\<lambda>a b. edge_number a < edge_number b) ?es" by (rule sorted_wrt_filter)
  then have sorted: "sorted (map edge_number ?es)" by (auto simp: sorted_wrt_map elim: sorted_wrt_mono_rel [rotated])
  have "sorted_wrt (<) (map edge_number ?es)" using less by (simp add: sorted_wrt_map)
  then have "distinct (map edge_number ?es)" using strict_sorted_iff by blast
  then have inj: "inj_on edge_number (set ?es)" by (simp add: distinct_map)
  have same: "mset (filter (\<lambda>e. edge_handle e = h) arrived) = mset ?es" using assms(1) by (metis mset_filter)
  then have "set (filter (\<lambda>e. edge_handle e = h) arrived) = set ?es" by (metis set_mset_mset)
  with inj show ?thesis using sort_key_inj_key_eq [OF same _ sorted] by simp
qed

lemma event_outs [simp]:
  "edges_of h (emit_device_availability sc p d a) = []" "seqs_of (emit_device_availability sc p d a) = []"
  "edges_of h (emit_state_update sc p d pe) = []" "seqs_of (emit_state_update sc p d pe) = []"
  "edges_of h (removed_event sc p h') = []" "seqs_of (removed_event sc p h') = []"
  by (auto simp: emit_device_availability_def emit_state_update_def removed_event_def split: prod.split)

lemma state_update_outs [simp]:
  "edges_of h (concat (map (emit_state_update sc p d) pending)) = []"
  "seqs_of (concat (map (emit_state_update sc p d) pending)) = []"
  by (induction pending) auto

lemma map_of_filter_key: "map_of (filter (\<lambda>(k, v). P k) xs) k = (if P k then map_of xs k else None)"
  by (induction xs) auto

section \<open>Invariant\<close>

definition cache_inv :: "StateCache \<Rightarrow> bool" where
  "cache_inv sc \<longleftrightarrow> sc_has_sink sc \<and> distinct (map fst (sc_device_states sc)) \<and>
     (\<forall>h. map_of (sc_device_states sc) h \<noteq> None \<longrightarrow> map_of (sc_departed sc) h = None)"

text \<open>What an operation owes: the invariant, edges that alternate for every device, and edge numbers
  handed out one after the other.\<close>

definition edges_ok :: "StateCache \<Rightarrow> StateCache \<times> cache_out list \<Rightarrow> bool" where
  "edges_ok sc r \<longleftrightarrow> cache_inv (fst r) \<and>
     (\<forall>h. alternates (loss_on_record sc h) (edges_of h (snd r)) (loss_on_record (fst r) h)) \<and>
     numbered (sc_edge_seq sc) (seqs_of (snd r)) (sc_edge_seq (fst r))"

lemma edges_ok_refl: "cache_inv sc \<Longrightarrow> edges_ok sc (sc, [])"
  by (simp add: edges_ok_def)

lemma edges_ok_same:
  assumes "cache_inv sc" and "sc_device_states sc' = sc_device_states sc" and "sc_departed sc' = sc_departed sc"
    and "sc_edge_seq sc' = sc_edge_seq sc" and "sc_has_sink sc' = sc_has_sink sc"
  shows "edges_ok sc (sc', [])"
  using assms by (simp add: edges_ok_def cache_inv_def loss_on_record_def cong: option.case_cong)

lemma edges_ok_trans:
  assumes "edges_ok sc (sc1, outs1)" and "edges_ok sc1 (sc2, outs2)"
  shows "edges_ok sc (sc2, outs1 @ outs2)"
  using assms by (auto simp: edges_ok_def intro: alternates_append numbered_append)

text \<open>Replacing the state of a known device.\<close>

lemma cache_inv_update:
  assumes "cache_inv sc" and "map_of (sc_device_states sc) handle = Some state"
  shows "cache_inv (sc\<lparr> sc_edge_seq := n, sc_device_states := AList.update handle state' (sc_device_states sc) \<rparr>)"
    and "cache_inv (sc\<lparr> sc_device_states := AList.update handle state' (sc_device_states sc) \<rparr>)"
  using assms by (auto simp: cache_inv_def distinct_update update_conv split: if_splits)

lemma loss_update:
  "loss_on_record (sc\<lparr> sc_edge_seq := n, sc_device_states := AList.update handle state' (sc_device_states sc) \<rparr>) h
     = (if h = handle then ds_loss_reported state' else loss_on_record sc h)"
  "loss_on_record (sc\<lparr> sc_device_states := AList.update handle state' (sc_device_states sc) \<rparr>) h
     = (if h = handle then ds_loss_reported state' else loss_on_record sc h)"
  by (simp_all add: loss_on_record_def update_conv cong: option.case_cong)

lemma cache_inv_sink: "cache_inv sc \<Longrightarrow> sc_has_sink sc"
  by (simp add: cache_inv_def)

lemma loss_known: "map_of (sc_device_states sc) h = Some s \<Longrightarrow> loss_on_record sc h = ds_loss_reported s"
  by (simp add: loss_on_record_def)

lemma edges_ok_read_failed:
  "cache_inv sc \<Longrightarrow> edges_ok sc (read_failed handle p d st shutting_down lost sc)"
  by (cases "map_of (sc_device_states sc) handle")
    (auto simp: read_failed_def edges_ok_refl edges_ok_def Let_def cache_inv_update loss_update loss_known)

lemma edges_ok_update_device_state:
  "cache_inv sc \<Longrightarrow> edges_ok sc (update_device_state handle p d values t now sc)"
  by (cases "map_of (sc_device_states sc) handle")
    (auto simp: update_device_state_def edges_ok_refl edges_ok_def Let_def cache_inv_update loss_update loss_known
      cache_inv_sink split: prod.split)

lemma edges_ok_mark_unavailable: "cache_inv sc \<Longrightarrow> edges_ok sc (mark_unavailable shutting_down cfg sc)"
  by (auto simp: mark_unavailable_def edges_ok_refl edges_ok_def Let_def cache_inv_update loss_update loss_known
      split: option.split)

lemma edges_ok_poll_device: "cache_inv sc \<Longrightarrow> edges_ok sc (poll_device env cfg sc)"
  by (auto simp: poll_device_def Let_def intro: edges_ok_read_failed edges_ok_update_device_state split: sum.split)

lemma edges_ok_run_steps:
  "(\<And>x sc. cache_inv sc \<Longrightarrow> edges_ok sc (f x sc)) \<Longrightarrow> cache_inv sc \<Longrightarrow> edges_ok sc (run_steps f xs sc)"
proof (induction xs arbitrary: sc)
  case (Cons x xs)
  obtain sc1 outs1 where f: "f x sc = (sc1, outs1)" by fastforce
  obtain sc2 outs2 where r: "run_steps f xs sc1 = (sc2, outs2)" by fastforce
  have ok1: "edges_ok sc (sc1, outs1)" using Cons.prems(1) [OF Cons.prems(2), of x] f by simp
  then have "cache_inv sc1" by (simp add: edges_ok_def)
  from Cons.IH [OF Cons.prems(1) this] r have "edges_ok sc1 (sc2, outs2)" by simp
  from edges_ok_trans [OF ok1 this] f r show ?case by simp
qed (simp add: edges_ok_refl)

lemma edges_ok_after_same:
  assumes "cache_inv sc" and "edges_ok sc (sc1, [])" and "\<And>sc. cache_inv sc \<Longrightarrow> edges_ok sc (f sc)"
  shows "edges_ok sc (f sc1)"
proof -
  have "cache_inv sc1" using assms(2) by (simp add: edges_ok_def)
  then have "edges_ok sc1 (fst (f sc1), snd (f sc1))" using assms(3) by simp
  from edges_ok_trans [OF assms(2) this] show ?thesis by simp
qed

lemma edges_ok_poll_provider: "cache_inv sc \<Longrightarrow> edges_ok sc (poll_provider env entry sc)"
proof -
  assume inv: "cache_inv sc"
  obtain p cfgs where entry: "entry = (p, cfgs)" by fastforce
  have outage: "edges_ok sc (track_outage p b t sc, [])" "edges_ok sc (clear_outage p sc, [])" for b t
    using inv by (auto intro!: edges_ok_same simp: track_outage_def clear_outage_def Let_def split: option.split)
  have steps: "edges_ok sc' (run_steps (mark_unavailable sd) cfgs sc')" "edges_ok sc' (run_steps (poll_device env) cfgs sc')"
    if "cache_inv sc'" for sc' sd
    using that by (auto intro: edges_ok_run_steps edges_ok_mark_unavailable edges_ok_poll_device)
  have "edges_ok sc (run_steps (mark_unavailable sd) cfgs (track_outage p b t sc))" for sd b t
    by (rule edges_ok_after_same [OF inv outage(1) steps(1)])
  moreover have "edges_ok sc (run_steps (poll_device env) cfgs (clear_outage p sc))"
    by (rule edges_ok_after_same [OF inv outage(2) steps(2)])
  ultimately show ?thesis by (simp add: poll_provider_def entry split: provider_status.split)
qed

lemma edges_ok_poll_once: "cache_inv sc \<Longrightarrow> edges_ok sc (poll_once env sc)"
  by (auto simp: poll_once_def intro: edges_ok_run_steps edges_ok_poll_provider edges_ok_same)

lemma edges_ok_poll_device_now: "cache_inv sc \<Longrightarrow> edges_ok sc (poll_device_now env handle sc)"
  by (auto simp: poll_device_now_def intro: edges_ok_poll_device edges_ok_same edges_ok_refl split: option.split)

section \<open>Rebuilding\<close>

text \<open>While the states are rebuilt the loss of a device is in its new state, else among the carried
  records, else with the departed.\<close>

definition loss_carried :: "(string \<times> CarriedReachability) list \<Rightarrow> StateCache \<Rightarrow> string \<Rightarrow> bool" where
  "loss_carried carried sc h =
     (case map_of (sc_device_states sc) h of
        Some s \<Rightarrow> ds_loss_reported s
      | None \<Rightarrow> cr_loss_reported (prior_of carried (sc_departed sc) h))"

lemma loss_carried_rebuild_device:
  assumes "map_of (sc_device_states sc) (get_handle d) = None"
  shows "loss_carried carried (rebuild_device carried now d sc) h = loss_carried carried sc h"
  using assms
  by (auto simp: loss_carried_def rebuild_device_def Let_def update_conv delete_conv fresh_state_def prior_of_def
      split: option.split)

definition rebuild_inv :: "StateCache \<Rightarrow> bool" where
  "rebuild_inv sc \<longleftrightarrow> distinct (map fst (sc_device_states sc)) \<and>
     (\<forall>h. map_of (sc_device_states sc) h \<noteq> None \<longrightarrow> map_of (sc_departed sc) h = None)"

lemma rebuild_inv_device: "rebuild_inv sc \<Longrightarrow> rebuild_inv (rebuild_device carried now d sc)"
  by (auto simp: rebuild_inv_def rebuild_device_def Let_def distinct_update update_conv delete_conv split: if_splits)

lemma rebuild_device_fields [simp]:
  "sc_edge_seq (rebuild_device carried now d sc) = sc_edge_seq sc"
  "sc_has_sink (rebuild_device carried now d sc) = sc_has_sink sc"
  by (simp_all add: rebuild_device_def Let_def)

lemma rebuild_device_departed:
  "map_of (sc_departed sc) h = None \<Longrightarrow> map_of (sc_departed (rebuild_device carried now d sc)) h = None"
  by (simp add: rebuild_device_def Let_def delete_conv)

lemma rebuild_devices:
  "distinct (map get_handle ds) \<Longrightarrow> (\<And>d. d \<in> set ds \<Longrightarrow> map_of (sc_device_states sc) (get_handle d) = None) \<Longrightarrow>
   rebuild_inv sc \<Longrightarrow>
   rebuild_inv (fold (rebuild_device carried now) ds sc) \<and>
   sc_edge_seq (fold (rebuild_device carried now) ds sc) = sc_edge_seq sc \<and>
   sc_has_sink (fold (rebuild_device carried now) ds sc) = sc_has_sink sc \<and>
   (\<forall>h. loss_carried carried (fold (rebuild_device carried now) ds sc) h = loss_carried carried sc h) \<and>
   (\<forall>h. map_of (sc_departed sc) h = None \<longrightarrow> map_of (sc_departed (fold (rebuild_device carried now) ds sc)) h = None)"
proof (induction ds arbitrary: sc)
  case (Cons d ds)
  let ?sc1 = "rebuild_device carried now d sc"
  have none: "map_of (sc_device_states ?sc1) (get_handle d') = None" if "d' \<in> set ds" for d'
  proof -
    have "get_handle d' \<noteq> get_handle d" using that Cons.prems(1) by (metis distinct.simps(2) imageI list.set_map list.simps(9))
    then show ?thesis using that Cons.prems(2) by (simp add: rebuild_device_def Let_def update_conv)
  qed
  have inv: "rebuild_inv ?sc1" using Cons.prems(3) by (rule rebuild_inv_device)
  from Cons.IH [OF _ none inv] Cons.prems(1)
    loss_carried_rebuild_device [OF Cons.prems(2) [of d], of carried now] rebuild_device_departed [of sc _ carried now d]
  show ?case by simp
qed simp

text \<open>The last pass keeps the loss of a device that was carried and not rebuilt.\<close>

lemma rebuild_departures:
  "distinct (map fst carried) \<Longrightarrow> (\<And>h. h \<in> fst ` set carried \<Longrightarrow> map_of (sc_departed sc) h = None) \<Longrightarrow> rebuild_inv sc \<Longrightarrow>
   (\<forall>h. edges_of h outs = []) \<and> seqs_of outs = [] \<Longrightarrow>
   \<exists>sc' outs'. fold (rebuild_departure p) carried (sc, outs) = (sc', outs') \<and> rebuild_inv sc' \<and>
     sc_edge_seq sc' = sc_edge_seq sc \<and> sc_has_sink sc' = sc_has_sink sc \<and>
     (\<forall>h. edges_of h outs' = []) \<and> seqs_of outs' = [] \<and>
     (\<forall>h. loss_on_record sc' h = loss_carried carried sc h)"
proof (induction carried arbitrary: sc outs)
  case Nil
  then show ?case
    by (auto simp: loss_on_record_def loss_carried_def prior_of_def no_prior_def split: option.split)
next
  case (Cons entry carried)
  obtain k prior where entry: "entry = (k, prior)" by fastforce
  obtain sc1 outs1 where s1: "rebuild_departure p entry (sc, outs) = (sc1, outs1)" by fastforce
  have st: "sc_device_states sc1 = sc_device_states sc" "sc_edge_seq sc1 = sc_edge_seq sc" "sc_has_sink sc1 = sc_has_sink sc"
    and dep: "sc_departed sc1 = (if map_of (sc_device_states sc) k = None \<and> cr_loss_reported prior
      then AList.update k prior (sc_departed sc) else sc_departed sc)"
    and o1: "(\<forall>h. edges_of h outs1 = []) \<and> seqs_of outs1 = []"
    using s1 Cons.prems(4) by (auto simp: rebuild_departure_def entry split: if_splits)
  have inv1: "rebuild_inv sc1" using Cons.prems(3) by (auto simp: rebuild_inv_def st dep update_conv)
  have "distinct (map fst carried)" "k \<notin> fst ` set carried" using Cons.prems(1) by (auto simp: entry)
  moreover have "map_of (sc_departed sc1) h = None" if "h \<in> fst ` set carried" for h
    using that Cons.prems(2) \<open>k \<notin> fst ` set carried\<close> by (auto simp: dep update_conv entry)
  ultimately obtain sc' outs' where r: "fold (rebuild_departure p) carried (sc1, outs1) = (sc', outs')" "rebuild_inv sc'"
      "sc_edge_seq sc' = sc_edge_seq sc1" "sc_has_sink sc' = sc_has_sink sc1"
      "(\<forall>h. edges_of h outs' = []) \<and> seqs_of outs' = []" "\<forall>h. loss_on_record sc' h = loss_carried carried sc1 h"
    using Cons.IH [OF _ _ inv1 o1] by blast
  have "loss_carried carried sc1 h = loss_carried (entry # carried) sc h" for h
  proof (cases "h = k")
    case True
    have "map_of carried k = None" using \<open>k \<notin> fst ` set carried\<close> by (simp add: map_of_eq_None_iff)
    moreover have "map_of (sc_departed sc) k = None" using Cons.prems(2) by (simp add: entry)
    ultimately show ?thesis using True
      by (auto simp: loss_carried_def st dep prior_of_def entry update_conv no_prior_def split: option.split)
  next
    case False
    then show ?thesis by (auto simp: loss_carried_def st dep prior_of_def entry update_conv split: option.split)
  qed
  then show ?case using r s1 st by auto
qed

lemma edges_ok_rebuild:
  assumes inv: "cache_inv sc" and dist: "distinct (map get_handle devices)"
  shows "edges_ok sc (rebuild_poll_configs p devices now sc)"
proof -
  define carried where "carried = map (\<lambda>(h, s). (h, carried_of s)) (filter (\<lambda>(h, s). owned_by p h) (sc_device_states sc))"
  define sc0 where "sc0 = sc\<lparr> sc_poll_configs := filter (\<lambda>c. pc_provider_id c \<noteq> p) (sc_poll_configs sc),
      sc_device_states := filter (\<lambda>(h, s). \<not> owned_by p h) (sc_device_states sc),
      sc_outage := AList.delete p (sc_outage sc) \<rparr>"
  define ds where "ds = filter (\<lambda>d. rd_provider_id d = p \<and> default_signals d \<noteq> []) devices"
  define sc1 where "sc1 = fold (rebuild_device carried now) ds sc0"
  have eq: "rebuild_poll_configs p devices now sc = fold (rebuild_departure p) carried (sc1, [])"
    by (simp add: rebuild_poll_configs_def Let_def carried_def sc0_def ds_def sc1_def)
  have st0: "map_of (sc_device_states sc0) h = (if owned_by p h then None else map_of (sc_device_states sc) h)" for h
    using map_of_filter_key [of "\<lambda>h. \<not> owned_by p h" "sc_device_states sc" h] by (simp add: sc0_def)
  have car: "map_of carried h = (if owned_by p h then map_option carried_of (map_of (sc_device_states sc) h) else None)" for h
    using map_of_filter_key [of "owned_by p" "sc_device_states sc" h] by (simp add: carried_def map_of_map)
  have dep0: "sc_departed sc0 = sc_departed sc" "sc_edge_seq sc0 = sc_edge_seq sc" "sc_has_sink sc0 = sc_has_sink sc"
    by (simp_all add: sc0_def)
  have inv0: "rebuild_inv sc0"
    using inv st0 by (auto simp: rebuild_inv_def cache_inv_def sc0_def distinct_map_filter split: if_splits)
  have own: "owned_by p (get_handle d)" if "d \<in> set ds" for d
    using that by (auto simp: ds_def owned_by_def get_handle_def)
  have "distinct (map get_handle ds)" using dist by (simp add: ds_def distinct_map_filter)
  from rebuild_devices [OF this _ inv0, of carried now] own st0 have r1: "rebuild_inv sc1"
    "sc_edge_seq sc1 = sc_edge_seq sc" "sc_has_sink sc1 = sc_has_sink sc"
    "\<And>h. loss_carried carried sc1 h = loss_carried carried sc0 h"
    "\<And>h. map_of (sc_departed sc) h = None \<Longrightarrow> map_of (sc_departed sc1) h = None"
    by (auto simp: sc1_def dep0)
  have l0: "loss_carried carried sc0 h = loss_on_record sc h" for h
    using inv by (auto simp: loss_carried_def loss_on_record_def st0 prior_of_def car dep0 carried_of_def no_prior_def
        split: option.split)
  have "map_of (sc_departed sc1) h = None" if "h \<in> fst ` set carried" for h
  proof -
    have "map_of carried h \<noteq> None" using that by (simp add: map_of_eq_None_iff)
    then have "map_of (sc_device_states sc) h \<noteq> None" by (auto simp: car split: if_splits)
    then show ?thesis using inv r1(5) by (simp add: cache_inv_def)
  qed
  moreover have "distinct (map fst carried)"
    using inv by (simp add: carried_def cache_inv_def distinct_map_filter comp_def case_prod_unfold)
  ultimately obtain sc' outs' where "rebuild_poll_configs p devices now sc = (sc', outs')" "rebuild_inv sc'"
      "sc_edge_seq sc' = sc_edge_seq sc" "sc_has_sink sc'" "(\<forall>h. edges_of h outs' = []) \<and> seqs_of outs' = []"
      "\<forall>h. loss_on_record sc' h = loss_on_record sc h"
    using rebuild_departures [of carried sc1 "[]" p] r1 l0 eq inv by (auto simp: cache_inv_def)
  then show ?thesis by (simp add: edges_ok_def cache_inv_def rebuild_inv_def)
qed

fun op_ok :: "cache_op \<Rightarrow> bool" where
  "op_ok (Op_Rebuild p devices now) = distinct (map get_handle devices)"
| "op_ok _ = True"

lemma edges_ok_step: "cache_inv sc \<Longrightarrow> op_ok op \<Longrightarrow> edges_ok sc (cache_step op sc)"
  by (cases op) (auto intro: edges_ok_poll_once edges_ok_poll_device_now edges_ok_poll_device edges_ok_mark_unavailable edges_ok_rebuild)

lemma edges_ok_run: "cache_inv sc \<Longrightarrow> \<forall>op \<in> set ops. op_ok op \<Longrightarrow> edges_ok sc (run_steps cache_step ops sc)"
proof (induction ops arbitrary: sc)
  case (Cons op ops)
  obtain sc1 outs1 where f: "cache_step op sc = (sc1, outs1)" by fastforce
  obtain sc2 outs2 where r: "run_steps cache_step ops sc1 = (sc2, outs2)" by fastforce
  have ok1: "edges_ok sc (sc1, outs1)" using edges_ok_step [OF Cons.prems(1), of op] Cons.prems(2) f by simp
  then have "cache_inv sc1" by (simp add: edges_ok_def)
  from Cons.IH [OF this] Cons.prems(2) r have "edges_ok sc1 (sc2, outs2)" by simp
  from edges_ok_trans [OF ok1 this] f r show ?case by simp
qed (simp add: edges_ok_refl)

lemma initialize_states:
  "map_of (sc_device_states (initialize devices now sc)) h = Some s \<Longrightarrow>
   \<not> ds_loss_reported s \<and> \<not> ds_unavailable_emitted s \<and> ds_provider_available s"
  using umap.get_fold_SomeD [of get_handle "\<lambda>d. fresh_state (get_handle d) (now (get_handle d)) no_prior"
      "filter (\<lambda>d. default_signals d \<noteq> []) devices" "[]" h s]
  by (auto simp: initialize_def Let_def fresh_state_def no_prior_def)

lemma initialize_inv: "sc_has_sink sc \<Longrightarrow> sc_departed sc = [] \<Longrightarrow> cache_inv (initialize devices now sc)"
  using umap.ok_fold [OF umap.ok_empty] by (auto simp: cache_inv_def initialize_def Let_def umap_ok_def)

lemma initialize_no_loss: "sc_departed sc = [] \<Longrightarrow> \<not> loss_on_record (initialize devices now sc) h"
  by (auto simp: loss_on_record_def dest: initialize_states split: option.split) (simp add: initialize_def Let_def)

section \<open>Availability events\<close>

fun avail_of :: "string \<Rightarrow> cache_out list \<Rightarrow> bool list" where
  "avail_of h [] = []"
| "avail_of h (Out_Event (DeviceAvailabilityEvent p d a) # outs) =
     (if p @ ''/'' @ d = h then a # avail_of h outs else avail_of h outs)"
| "avail_of h (_ # outs) = avail_of h outs"

lemma avail_of_append [simp]: "avail_of h (xs @ ys) = avail_of h xs @ avail_of h ys"
  by (induction h xs rule: avail_of.induct) auto

lemma avail_of_updates [simp]: "avail_of h (concat (map (emit_state_update sc p d) pending)) = []"
  by (induction pending) (auto simp: emit_state_update_def split: prod.split)

lemma avail_of_emit:
  "sc_has_emitter sc \<Longrightarrow> avail_of h (emit_device_availability sc p d a) = (if p @ ''/'' @ d = h then [a] else [])"
  by (simp add: emit_device_availability_def)

text \<open>With an emitter and no shutdown, the flag that guards the events is the negation of the
  availability the cache serves.\<close>

definition down_for :: "StateCache \<Rightarrow> string \<Rightarrow> bool" where
  "down_for sc h = (case map_of (sc_device_states sc) h of Some s \<Rightarrow> \<not> ds_provider_available s | None \<Rightarrow> False)"

definition avail_inv :: "StateCache \<Rightarrow> bool" where
  "avail_inv sc \<longleftrightarrow> sc_has_emitter sc \<and>
     (\<forall>h s. map_of (sc_device_states sc) h = Some s \<longrightarrow> ds_unavailable_emitted s = (\<not> ds_provider_available s))"

definition avail_ok :: "StateCache \<Rightarrow> StateCache \<times> cache_out list \<Rightarrow> bool" where
  "avail_ok sc r \<longleftrightarrow> avail_inv (fst r) \<and> (\<forall>h. alternates (down_for sc h) (avail_of h (snd r)) (down_for (fst r) h))"

lemma avail_ok_refl: "avail_inv sc \<Longrightarrow> avail_ok sc (sc, [])"
  by (simp add: avail_ok_def)

lemma avail_ok_trans: "avail_ok sc (sc1, o1) \<Longrightarrow> avail_ok sc1 (sc2, o2) \<Longrightarrow> avail_ok sc (sc2, o1 @ o2)"
  by (auto simp: avail_ok_def intro: alternates_append)

lemma avail_ok_same:
  assumes "avail_inv sc" and "sc_device_states sc' = sc_device_states sc" and "sc_has_emitter sc' = sc_has_emitter sc"
  shows "avail_ok sc (sc', [])"
  using assms by (simp add: avail_ok_def avail_inv_def down_for_def)

lemma avail_inv_update:
  assumes "avail_inv sc" and "ds_unavailable_emitted s' = (\<not> ds_provider_available s')"
  shows "avail_inv (sc\<lparr> sc_edge_seq := n, sc_device_states := AList.update h s' (sc_device_states sc) \<rparr>)"
    and "avail_inv (sc\<lparr> sc_device_states := AList.update h s' (sc_device_states sc) \<rparr>)"
  using assms by (auto simp: avail_inv_def update_conv split: if_splits)

lemma down_update:
  "down_for (sc\<lparr> sc_edge_seq := n, sc_device_states := AList.update handle s' (sc_device_states sc) \<rparr>) h
     = (if h = handle then \<not> ds_provider_available s' else down_for sc h)"
  "down_for (sc\<lparr> sc_device_states := AList.update handle s' (sc_device_states sc) \<rparr>) h
     = (if h = handle then \<not> ds_provider_available s' else down_for sc h)"
  by (simp_all add: down_for_def update_conv)

lemma avail_known:
  assumes "avail_inv sc" and "map_of (sc_device_states sc) h = Some s"
  shows "ds_unavailable_emitted s = (\<not> ds_provider_available s)" and "down_for sc h = (\<not> ds_provider_available s)"
    and "sc_has_emitter sc"
  using assms by (auto simp: avail_inv_def down_for_def)

lemma avail_ok_read_failed:
  assumes "avail_inv sc" and "handle = p @ ''/'' @ d"
  shows "avail_ok sc (read_failed handle p d st False lost sc)"
proof (cases "map_of (sc_device_states sc) handle")
  case None
  with assms show ?thesis by (simp add: read_failed_def avail_ok_refl)
next
  case (Some s)
  note k = avail_known [OF assms(1) Some]
  have h: "p @ CHR ''/'' # d = handle" using assms(2) by simp
  show ?thesis
    by (simp add: h read_failed_def Some Let_def avail_ok_def k avail_inv_update [OF assms(1)] down_update avail_of_emit)
qed

lemma avail_ok_update_device_state:
  assumes "avail_inv sc" and "handle = p @ ''/'' @ d"
  shows "avail_ok sc (update_device_state handle p d values t now sc)"
proof (cases "map_of (sc_device_states sc) handle")
  case None
  with assms show ?thesis by (simp add: update_device_state_def avail_ok_refl)
next
  case (Some s)
  note k = avail_known [OF assms(1) Some]
  have h: "p @ CHR ''/'' # d = handle" using assms(2) by simp
  show ?thesis
    by (simp add: h update_device_state_def Some Let_def avail_ok_def k avail_inv_update [OF assms(1)] down_update avail_of_emit
        split: prod.split)
qed

lemma avail_ok_poll_device:
  assumes "avail_inv sc" and "\<And>h. \<not> pe_shutting_down env h"
  shows "avail_ok sc (poll_device env cfg sc)"
  using assms by (auto simp: poll_device_def Let_def intro: avail_ok_read_failed avail_ok_update_device_state split: sum.split)

lemma avail_ok_mark_unavailable:
  assumes "avail_inv sc"
  shows "avail_ok sc (mark_unavailable False cfg sc)"
proof (cases "map_of (sc_device_states sc) (pc_provider_id cfg @ ''/'' @ pc_device_id cfg)")
  case None
  with assms show ?thesis by (simp add: mark_unavailable_def avail_ok_refl)
next
  case (Some s)
  with assms have "ds_unavailable_emitted s = (\<not> ds_provider_available s)" "sc_has_emitter sc"
    by (auto simp: avail_inv_def)
  with Some assms show ?thesis
    by (auto simp: mark_unavailable_def Let_def avail_ok_def avail_inv_def update_conv down_for_def avail_of_emit
        split: option.splits if_splits)
qed

lemma avail_ok_run_steps:
  "(\<And>x sc. x \<in> set xs \<Longrightarrow> avail_inv sc \<Longrightarrow> avail_ok sc (f x sc)) \<Longrightarrow> avail_inv sc \<Longrightarrow> avail_ok sc (run_steps f xs sc)"
proof (induction xs arbitrary: sc)
  case (Cons x xs)
  obtain sc1 outs1 where f: "f x sc = (sc1, outs1)" by fastforce
  obtain sc2 outs2 where r: "run_steps f xs sc1 = (sc2, outs2)" by fastforce
  have ok1: "avail_ok sc (sc1, outs1)" using Cons.prems(1) [OF _ Cons.prems(2), of x] f by simp
  then have "avail_inv sc1" by (simp add: avail_ok_def)
  moreover have "\<And>y sc. y \<in> set xs \<Longrightarrow> avail_inv sc \<Longrightarrow> avail_ok sc (f y sc)" using Cons.prems(1) by simp
  ultimately have "avail_ok sc1 (sc2, outs2)" using Cons.IH [of sc1] r by simp
  from avail_ok_trans [OF ok1 this] f r show ?case by simp
qed (simp add: avail_ok_refl)

lemma avail_ok_poll_provider:
  assumes "avail_inv sc" and "\<And>h. \<not> pe_shutting_down env h"
  shows "avail_ok sc (poll_provider env entry sc)"
proof -
  obtain p cfgs where entry: "entry = (p, cfgs)" by fastforce
  have "avail_ok sc (f sc1)" if "avail_ok sc (sc1, [])" "\<And>sc. avail_inv sc \<Longrightarrow> avail_ok sc (f sc)" for f sc1
    using avail_ok_trans [OF that(1), of "fst (f sc1)" "snd (f sc1)"] that by (simp add: avail_ok_def)
  moreover have "avail_ok sc (track_outage p b t sc, [])" "avail_ok sc (clear_outage p sc, [])" for b t
    using assms(1) by (auto intro!: avail_ok_same simp: track_outage_def clear_outage_def Let_def split: option.split)
  moreover have "avail_ok sc' (run_steps (mark_unavailable False) cfgs sc')" "avail_ok sc' (run_steps (poll_device env) cfgs sc')"
    if "avail_inv sc'" for sc'
    using that assms(2) by (auto intro: avail_ok_run_steps avail_ok_mark_unavailable avail_ok_poll_device)
  ultimately show ?thesis
    using assms(2) by (simp add: poll_provider_def entry split: provider_status.split)
qed

fun poll_op :: "cache_op \<Rightarrow> bool" where
  "poll_op (Op_Poll env) = (\<forall>h. \<not> pe_shutting_down env h)"
| "poll_op (Op_Poll_Now env handle) = (\<forall>h. \<not> pe_shutting_down env h)"
| "poll_op (Op_Device env cfg) = (\<forall>h. \<not> pe_shutting_down env h)"
| "poll_op (Op_Unavailable shutting_down cfg) = (\<not> shutting_down)"
| "poll_op (Op_Rebuild p ds now) = False"

lemma avail_ok_step: "avail_inv sc \<Longrightarrow> poll_op op \<Longrightarrow> avail_ok sc (cache_step op sc)"
  by (cases op) (auto simp: poll_once_def poll_device_now_def split: option.split
      intro!: avail_ok_run_steps avail_ok_poll_provider avail_ok_poll_device avail_ok_mark_unavailable avail_ok_same avail_ok_refl)

text \<open>What one read leaves in the signal table.\<close>

lemma update_signals_lookup_other:
  "k \<notin> sv_signal_id ` set svs \<Longrightarrow> map_of (fst (update_signals now i svs signals)) k = map_of signals k"
proof (induction svs arbitrary: i signals)
  case (Cons sv svs)
  then show ?case by (simp add: Let_def update_conv case_prod_unfold)
qed simp

lemma update_signals_lookup:
  "distinct (map sv_signal_id svs) \<Longrightarrow> j < length svs \<Longrightarrow>
   map_of (fst (update_signals now i svs signals)) (sv_signal_id (svs ! j)) = Some (cached_of (now (i + j)) (svs ! j))"
proof (induction svs arbitrary: i j signals)
  case (Cons sv svs)
  show ?case
  proof (cases j)
    case 0
    have "sv_signal_id sv \<notin> sv_signal_id ` set svs" using Cons.prems(1) by simp
    then show ?thesis using 0 by (simp add: Let_def case_prod_unfold update_signals_lookup_other update_conv)
  next
    case (Suc j')
    then show ?thesis using Cons by (simp add: Let_def case_prod_unfold)
  qed
qed simp

fun is_state_update :: "cache_out \<Rightarrow> bool" where
  "is_state_update (Out_Event (StateUpdateEvent _ _ _ _ _)) = True"
| "is_state_update _ = False"

definition signal_changed :: "(string \<times> CachedSignalValue) list \<Rightarrow> SignalValue \<Rightarrow> bool" where
  "signal_changed signals sv = (case map_of signals (sv_signal_id sv) of
     None \<Rightarrow> True
   | Some cv \<Rightarrow> value_changed (cv_value cv) (sv_value sv) \<or> quality_changed (cv_quality cv) (sv_quality sv))"

lemma update_signals_pending:
  "distinct (map sv_signal_id svs) \<Longrightarrow>
   snd (update_signals now i svs signals) =
     map (\<lambda>sv. (sv_signal_id sv, sv_value sv, sv_quality sv)) (filter (signal_changed signals) svs)"
proof (induction svs arbitrary: i signals)
  case (Cons sv svs)
  have "filter (signal_changed (AList.update (sv_signal_id sv) cv signals)) svs = filter (signal_changed signals) svs" for cv
  proof (rule filter_cong [OF refl])
    fix x assume "x \<in> set svs"
    then have "sv_signal_id x \<noteq> sv_signal_id sv" using Cons.prems by (metis distinct.simps(2) imageI list.set_map list.simps(9))
    then show "signal_changed (AList.update (sv_signal_id sv) cv signals) x = signal_changed signals x"
      by (simp add: signal_changed_def update_conv)
  qed
  then show ?case using Cons by (auto simp: Let_def case_prod_unfold signal_changed_def [of signals sv])
qed simp

section \<open>Properties\<close>

text \<open>C24. The numbers of the edges tell a device's history. Over any run of polls, post-call polls, single device turns
  of polls on other threads and provider rebuilds, in which fewer than \<open>2 ^ 64\<close> edges are decided, let the edges
  reach the sink in any order. Their numbers are distinct, and ordered by them the edges of one device alternate:
  lost, back, lost, back, starting with a loss; whether a loss is outstanding is exactly what the cache has on
  record, also across a rebuild and also for a device a rebuild dropped and a later one brings back. Snapshots
  handed to a rebuild have distinct handles, and a rebuild is not interleaved with polls.\<close>

theorem reachability_edges_alternate:
  assumes "\<forall>op \<in> set ops. op_ok op"
    and "run_steps cache_step ops (initialize devices now (new_cache emitter True)) = (sc, outs)"
    and "mset arrived = mset (filter is_edge outs)" and "length arrived < 2 ^ 64"
  shows "distinct (map edge_number arrived) \<and>
    alternates False (map edge_reachable (sort_key edge_number (filter (\<lambda>e. edge_handle e = h) arrived))) (loss_on_record sc h)"
proof -
  let ?sc0 = "initialize devices now (new_cache emitter True)"
  have inv: "cache_inv ?sc0" by (rule initialize_inv) (simp_all add: new_cache_def)
  have seq: "sc_edge_seq ?sc0 = 0" by (simp add: initialize_def new_cache_def Let_def)
  have no_loss: "loss_on_record ?sc0 h = False" using initialize_no_loss [of "new_cache emitter True" devices now h] by (simp add: new_cache_def)
  have ok: "edges_ok ?sc0 (sc, outs)" using edges_ok_run [OF inv assms(1)] assms(2) by simp
  have "length (seqs_of outs) = length arrived" using mset_eq_length [OF assms(3)] by (simp add: seqs_of_filter)
  then have increasing: "sorted_wrt (<) (seqs_of outs)"
    using ok assms(4) seq by (intro numbered_increasing) (auto simp: edges_ok_def)
  have "mset (map edge_number arrived) = mset (seqs_of outs)" using assms(3) by (simp add: seqs_of_filter)
  moreover have "distinct (seqs_of outs)" using increasing strict_sorted_iff by blast
  ultimately have "distinct (map edge_number arrived)" using mset_eq_imp_distinct_iff by blast
  moreover have "alternates (loss_on_record ?sc0 h) (edges_of h outs) (loss_on_record sc h)" using ok by (simp add: edges_ok_def)
  ultimately show ?thesis unfolding sort_edges [OF assms(3) increasing] edges_of_filter [symmetric] no_loss by simp
qed

text \<open>Subscribers see the availability the cache serves. With an emitter attached and no shutdown
  requested, over any run of polls and post-call polls the availability events of a device alternate,
  beginning with \<open>available: false\<close>, and the last one agrees with the state the cache returns for the
  device.\<close>

lemma availability_events_match_cache:
  assumes "\<forall>op \<in> set ops. poll_op op"
    and "run_steps cache_step ops (initialize devices now (new_cache True sink)) = (sc, outs)"
  shows "alternates False (avail_of h outs) (down_for sc h)"
proof -
  let ?sc0 = "initialize devices now (new_cache True sink)"
  have inv: "avail_inv ?sc0"
    by (auto simp: avail_inv_def dest: initialize_states) (simp add: initialize_def new_cache_def Let_def)
  have up: "down_for ?sc0 h = False" by (auto simp: down_for_def dest: initialize_states split: option.split)
  have "avail_ok ?sc0 (run_steps cache_step ops ?sc0)"
    using assms(1) by (intro avail_ok_run_steps avail_ok_step inv) auto
  then have "alternates (down_for ?sc0 h) (avail_of h outs) (down_for sc h)"
    using assms(2) by (simp add: avail_ok_def)
  then show ?thesis unfolding up .
qed

text \<open>The cache holds the last read and nothing else. After a successful read of a known device
  (signals reported once each), every signal of the answer has the value, quality and time of the
  answer, the others keep what they had, and a state update is emitted for exactly the signals whose
  value or quality differs from before. After a failed read no signal value is left at all.\<close>

lemma poll_device_caches_read:
  assumes "map_of (sc_device_states sc) handle = Some state"
    and "handle = pc_provider_id cfg @ ''/'' @ pc_device_id cfg"
    and "pe_read env handle (pc_signal_ids cfg) = Inr values" and "distinct (map sv_signal_id values)" and "j < length values"
    and "k \<notin> sv_signal_id ` set values"
    and "pe_read env' handle (pc_signal_ids cfg) = Inl status"
  shows "get_signal_value (fst (poll_device env cfg sc)) handle (sv_signal_id (values ! j)) =
      Some (cached_of (pe_clock env handle j) (values ! j)) \<and>
    get_signal_value (fst (poll_device env cfg sc)) handle k = get_signal_value sc handle k \<and>
    filter is_state_update (snd (poll_device env cfg sc)) =
      (if sc_has_emitter sc then
         map (\<lambda>sv. Out_Event (StateUpdateEvent (pc_provider_id cfg) (pc_device_id cfg) (sv_signal_id sv)
                 (typed_value_of (sv_value sv)) (event_quality (sv_quality sv))))
           (filter (signal_changed (ds_signals state)) values)
       else []) \<and>
    get_signal_value (fst (poll_device env' cfg sc)) handle k' = None"
proof (intro conjI)
  obtain signals pending where u: "update_signals (pe_clock env handle) 0 values (ds_signals state) = (signals, pending)"
    by fastforce
  have h: "pc_provider_id cfg @ CHR ''/'' # pc_device_id cfg = handle" using assms(2) by simp
  show "get_signal_value (fst (poll_device env cfg sc)) handle (sv_signal_id (values ! j)) =
      Some (cached_of (pe_clock env handle j) (values ! j))"
    using update_signals_lookup [OF assms(4,5), of "pe_clock env handle" 0 "ds_signals state"] u
    by (simp add: get_signal_value_def poll_device_def h assms(1,3) update_device_state_def Let_def update_conv)
  show "get_signal_value (fst (poll_device env cfg sc)) handle k = get_signal_value sc handle k"
    using update_signals_lookup_other [OF assms(6), of "pe_clock env handle" 0 "ds_signals state"] u
    by (simp add: get_signal_value_def poll_device_def h assms(1,3) update_device_state_def Let_def update_conv)
  have pend: "pending = map (\<lambda>sv. (sv_signal_id sv, sv_value sv, sv_quality sv)) (filter (signal_changed (ds_signals state)) values)"
    using update_signals_pending [OF assms(4), of "pe_clock env handle" 0 "ds_signals state"] u by simp
  have f: "filter is_state_update (concat (map (emit_state_update sc1 p d) (map (\<lambda>sv. (sv_signal_id sv, sv_value sv, sv_quality sv)) svs)))
      = (if sc_has_emitter sc1 then map (\<lambda>sv. Out_Event (StateUpdateEvent p d (sv_signal_id sv)
           (typed_value_of (sv_value sv)) (event_quality (sv_quality sv)))) svs else [])" for sc1 p d svs
    by (induction svs) (auto simp: emit_state_update_def)
  show "filter is_state_update (snd (poll_device env cfg sc)) =
      (if sc_has_emitter sc then
         map (\<lambda>sv. Out_Event (StateUpdateEvent (pc_provider_id cfg) (pc_device_id cfg) (sv_signal_id sv)
                 (typed_value_of (sv_value sv)) (event_quality (sv_quality sv))))
           (filter (signal_changed (ds_signals state)) values)
       else [])"
    by (simp add: poll_device_def h assms(1,3) update_device_state_def Let_def u pend f emit_device_availability_def
        del: map_map)
  show "get_signal_value (fst (poll_device env' cfg sc)) handle k' = None"
    by (simp add: get_signal_value_def poll_device_def h assms(1,7) read_failed_def Let_def update_conv)
qed

text \<open>A device with one polled signal, a read that fails and one that succeeds.\<close>

definition w_device :: RegisteredDevice where
  "w_device = \<lparr> rd_provider_id = ''sim0'', rd_device_id = ''t'', rd_capabilities =
     \<lparr> dc_proto = \<lparr> pd_device_id = ''t'', pd_label = [], pd_type_id = [], pd_type_version = [], pd_tags = [] \<rparr>,
       dc_signals_by_id = [(''temp'', \<lparr> ss_signal_id = ''temp'', ss_label = [], ss_unit = [], ss_description = [],
         ss_type = VALUE_TYPE_BOOL, ss_readable = True, ss_writable = False, ss_is_default = True,
         ss_stale_after_ms = 0, ss_poll_hint_hz = 0 \<rparr>)],
       dc_functions_by_id = [] \<rparr> \<rparr>"

definition w_reading :: SignalValue where
  "w_reading = \<lparr> sv_signal_id = ''temp'', sv_value = \<lparr> v_type = VALUE_TYPE_BOOL, v_kind = K_Bool True \<rparr>,
     sv_quality = QUALITY_OK, sv_timestamp = None \<rparr>"

definition w_poll :: "StatusCode + SignalValue list \<Rightarrow> PollEnv" where
  "w_poll answer = \<lparr> pe_provider = (\<lambda>_. P_Up), pe_steady = (\<lambda>_. 1), pe_shutting_down = (\<lambda>_. False),
     pe_read = (\<lambda>_ _. answer), pe_lost = (\<lambda>_. False), pe_poll_time = (\<lambda>_. 5), pe_clock = (\<lambda>_ _. 5) \<rparr>"

definition w_ops :: "cache_op list" where
  "w_ops = [Op_Poll (w_poll (Inl CODE_UNAVAILABLE)), Op_Poll (w_poll (Inl CODE_UNAVAILABLE)),
     Op_Poll_Now (w_poll (Inr [w_reading])) ''sim0/t'']"

definition w_cache :: StateCache where
  "w_cache = initialize [w_device] (\<lambda>_. 0) (new_cache True True)"

lemma w_cache_eq:
  "w_cache = \<lparr> sc_has_emitter = True, sc_has_sink = True,
     sc_device_states = [(''sim0/t'', fresh_state ''sim0/t'' 0 no_prior)], sc_edge_seq = 0, sc_departed = [],
     sc_poll_configs = [\<lparr> pc_provider_id = ''sim0'', pc_device_id = ''t'', pc_signal_ids = [''temp''] \<rparr>],
     sc_initialized = True, sc_preinit_warned = False, sc_outage = [] \<rparr>"
  by (simp add: w_cache_def initialize_def new_cache_def w_device_def default_signals_def poll_config_of_def
      get_handle_def Let_def)

lemma w_run:
  "edges_of ''sim0/t'' (snd (run_steps cache_step w_ops w_cache)) = [False, True]"
  "avail_of ''sim0/t'' (snd (run_steps cache_step w_ops w_cache)) = [False, True]"
  by (simp_all add: w_cache_eq w_ops_def poll_once_def poll_device_now_def group_by_provider_def poll_provider_def
      w_poll_def poll_device_def read_failed_def update_device_state_def fresh_state_def no_prior_def clear_outage_def
      emit_device_availability_def emit_state_update_def Let_def w_reading_def)

lemma w_edges:
  "filter is_edge (snd (run_steps cache_step w_ops w_cache)) =
     [Out_Edge ''sim0/t'' False CODE_UNAVAILABLE 1, Out_Edge ''sim0/t'' True CODE_OK 2]"
  by (simp add: w_cache_eq w_ops_def poll_once_def poll_device_now_def group_by_provider_def poll_provider_def
      w_poll_def poll_device_def read_failed_def update_device_state_def fresh_state_def no_prior_def clear_outage_def
      emit_device_availability_def emit_state_update_def Let_def w_reading_def)

text \<open>The two edges reach the sink in the opposite order.\<close>

theorem reachability_edges_alternate_witness:
  "\<exists>arrived. mset arrived = mset (filter is_edge (snd (run_steps cache_step w_ops w_cache))) \<and>
     map edge_reachable arrived = [True, False] \<and>
     alternates False (map edge_reachable (sort_key edge_number (filter (\<lambda>e. edge_handle e = ''sim0/t'') arrived)))
       (loss_on_record (fst (run_steps cache_step w_ops w_cache)) ''sim0/t'')"
proof -
  let ?r = "run_steps cache_step w_ops w_cache"
  let ?arrived = "[Out_Edge ''sim0/t'' True CODE_OK 2, Out_Edge ''sim0/t'' False CODE_UNAVAILABLE 1]"
  have ok: "\<forall>op \<in> set w_ops. op_ok op" by (simp add: w_ops_def)
  have same: "mset ?arrived = mset (filter is_edge (snd ?r))" by (simp add: w_edges)
  from reachability_edges_alternate [OF ok prod.collapse [symmetric, of ?r, unfolded w_cache_def] same [unfolded w_cache_def], of "''sim0/t''"] same
  show ?thesis unfolding w_cache_def [symmetric] by (intro exI [of _ ?arrived] conjI) simp_all
qed

theorem availability_events_match_cache_witness:
  "\<exists>sc outs. run_steps cache_step w_ops w_cache = (sc, outs) \<and> avail_of ''sim0/t'' outs = [False, True] \<and>
     \<not> down_for sc ''sim0/t''"
proof -
  obtain sc outs where r: "run_steps cache_step w_ops w_cache = (sc, outs)" by fastforce
  have "\<forall>op \<in> set w_ops. poll_op op" by (simp add: w_ops_def w_poll_def)
  from availability_events_match_cache [OF this r [unfolded w_cache_def], of "''sim0/t''"] r w_run(2)
  show ?thesis by auto
qed

theorem poll_device_caches_read_witness:
  "get_signal_value (fst (poll_device (w_poll (Inr [w_reading])) (poll_config_of w_device) w_cache)) ''sim0/t'' ''temp''
     = Some (cached_of 5 w_reading) \<and>
   get_signal_value (fst (poll_device (w_poll (Inl CODE_INTERNAL)) (poll_config_of w_device) w_cache)) ''sim0/t'' ''temp'' = None"
proof -
  have st: "map_of (sc_device_states w_cache) ''sim0/t'' = Some (fresh_state ''sim0/t'' 0 no_prior)"
    by (simp add: w_cache_eq)
  have h: "''sim0/t'' = pc_provider_id (poll_config_of w_device) @ ''/'' @ pc_device_id (poll_config_of w_device)"
    by (simp add: poll_config_of_def w_device_def)
  from poll_device_caches_read [OF st h, of "w_poll (Inr [w_reading])" "[w_reading]" 0 "''none''"
      "w_poll (Inl CODE_INTERNAL)" CODE_INTERNAL "''temp''"]
  show ?thesis by (simp add: w_poll_def w_reading_def)
qed

end
