(* ===== verification/Device_Loss_Latch.thy ===== *)
theory Device_Loss_Latch
  imports State_Cache "HOL-Library.Multiset"
begin

text \<open>
  \<open>core/control/device_loss_latch.cpp\<close> and \<open>core/control/reissue_worker.cpp\<close>: which devices
  automation may not command, and the worker that re-asserts their safe state. An edge is what the
  state cache hands to its sink: handle, reachable, status of the failing read, number. Edges may
  arrive in any order. \<open>latched_\<close> is a sorted list without duplicates, as a \<open>std::set\<close> iterates.
  The reason an expected loss is logged with has no effect on the state and is left out.
\<close>

section \<open>Latch\<close>

record AppliedEdge =
  ae_seq :: u64
  ae_reachable :: bool

record DeviceLossLatch =
  dl_latched :: "string list"
  dl_last_edge :: "(string \<times> AppliedEdge) list"

definition new_loss_latch :: DeviceLossLatch where
  "new_loss_latch = \<lparr> dl_latched = [], dl_last_edge = [] \<rparr>"

definition transport_failure :: "StatusCode \<Rightarrow> bool" where
  "transport_failure last_status = (last_status = CODE_UNAVAILABLE \<or> last_status = CODE_DEADLINE_EXCEEDED)"

text \<open>\<open>last_edge_[device_handle]\<close> creates the default entry.\<close>

definition last_edge_of :: "DeviceLossLatch \<Rightarrow> string \<Rightarrow> AppliedEdge" where
  "last_edge_of l device_handle =
     (case map_of (dl_last_edge l) device_handle of Some e \<Rightarrow> e | None \<Rightarrow> \<lparr> ae_seq = 0, ae_reachable = False \<rparr>)"

definition insert_latched :: "string \<Rightarrow> DeviceLossLatch \<Rightarrow> bool \<times> DeviceLossLatch" where
  "insert_latched device_handle l =
     (device_handle \<notin> set (dl_latched l), l\<lparr> dl_latched := oset_put device_handle (dl_latched l) \<rparr>)"

definition apply_reachability_edge ::
  "string \<Rightarrow> bool \<Rightarrow> StatusCode \<Rightarrow> u64 \<Rightarrow> DeviceLossLatch \<Rightarrow> bool \<times> DeviceLossLatch" where
  "apply_reachability_edge device_handle reachable last_status edge_seq l =
     (let last = last_edge_of l device_handle;
          l = l\<lparr> dl_last_edge := AList.update device_handle last (dl_last_edge l) \<rparr> in
      if edge_seq \<le> ae_seq last
      then if reachable \<or> \<not> transport_failure last_status then (False, l)
           else (let (engaged, l) = insert_latched device_handle l in (engaged \<and> ae_reachable last, l))
      else (let l = l\<lparr> dl_last_edge := AList.update device_handle
                        \<lparr> ae_seq = edge_seq, ae_reachable = reachable \<rparr> (dl_last_edge l) \<rparr> in
            if reachable then (device_handle \<in> set (dl_latched l), l)
            else (False, if transport_failure last_status then snd (insert_latched device_handle l) else l)))"

definition is_latched :: "DeviceLossLatch \<Rightarrow> string \<Rightarrow> bool" where
  "is_latched l device_handle = (device_handle \<in> set (dl_latched l))"

definition release_all :: "DeviceLossLatch \<Rightarrow> string list \<times> DeviceLossLatch" where
  "release_all l = (dl_latched l, l\<lparr> dl_latched := [] \<rparr>)"

definition latched :: "DeviceLossLatch \<Rightarrow> string list" where
  "latched l = dl_latched l"

section \<open>Reissue worker\<close>

record ReissueWorker =
  rw_queue :: "string list"
  rw_stopping :: bool

definition new_worker :: ReissueWorker where
  "new_worker = \<lparr> rw_queue = [], rw_stopping = False \<rparr>"

definition post :: "string \<Rightarrow> ReissueWorker \<Rightarrow> ReissueWorker" where
  "post device_handle w =
     (if rw_stopping w then w
      else if device_handle \<in> set (rw_queue w) then w
      else w\<lparr> rw_queue := rw_queue w @ [device_handle] \<rparr>)"

definition stop_worker :: "ReissueWorker \<Rightarrow> ReissueWorker" where
  "stop_worker w = w\<lparr> rw_stopping := True \<rparr>"

text \<open>One turn of \<open>run\<close>: the handle whose safe state is re-asserted; \<open>None\<close> when the loop waits, or
  ends because it is stopping.\<close>

definition run_turn :: "ReissueWorker \<Rightarrow> string option \<times> ReissueWorker" where
  "run_turn w = (case rw_queue w of [] \<Rightarrow> (None, w) | h # rest \<Rightarrow> (Some h, w\<lparr> rw_queue := rest \<rparr>))"

text \<open>The sink: apply the edge, post when the latch asks for it.\<close>

definition reachability_sink ::
  "string \<Rightarrow> bool \<Rightarrow> StatusCode \<Rightarrow> u64 \<Rightarrow> DeviceLossLatch \<times> ReissueWorker \<Rightarrow> DeviceLossLatch \<times> ReissueWorker" where
  "reachability_sink device_handle reachable last_status edge_seq lw =
     (let (reissue, l) = apply_reachability_edge device_handle reachable last_status edge_seq (fst lw)
      in (l, if reissue then post device_handle (snd lw) else snd lw))"

section \<open>Specification\<close>

text \<open>The latch seen from outside: the set of latched devices and the newest edge of each device.
  What an edge does to it does not look at the order of arrival.\<close>

type_synonym edge = "string \<times> bool \<times> StatusCode \<times> u64"

definition loss_view :: "DeviceLossLatch \<Rightarrow> string set \<times> (string \<Rightarrow> AppliedEdge)" where
  "loss_view l = (set (dl_latched l), last_edge_of l)"

fun view_edge :: "edge \<Rightarrow> string set \<times> (string \<Rightarrow> AppliedEdge) \<Rightarrow> string set \<times> (string \<Rightarrow> AppliedEdge)" where
  "view_edge (h, reachable, st, seq) (held, newest) =
     (if \<not> reachable \<and> transport_failure st then insert h held else held,
      if ae_seq (newest h) < seq then newest(h := \<lparr> ae_seq = seq, ae_reachable = reachable \<rparr>) else newest)"

definition apply_edge :: "edge \<Rightarrow> DeviceLossLatch \<Rightarrow> DeviceLossLatch" where
  "apply_edge e l = (case e of (h, reachable, st, seq) \<Rightarrow> snd (apply_reachability_edge h reachable st seq l))"

text \<open>Edges that could be confused with one another: same device, same number, different content.\<close>

definition unambiguous :: "edge list \<Rightarrow> bool" where
  "unambiguous es \<longleftrightarrow> (\<forall>(h, r, st, s) \<in> set es. \<forall>(h', r', st', s') \<in> set es. h = h' \<and> s = s' \<longrightarrow> r = r')"

text \<open>A latch with its worker: edges arrive, the worker takes turns, the log records what it re-asserted.\<close>

datatype sink_op = Edge string bool StatusCode u64 | Turn

fun sink_step :: "sink_op \<Rightarrow> (DeviceLossLatch \<times> ReissueWorker) \<times> string list \<Rightarrow> (DeviceLossLatch \<times> ReissueWorker) \<times> string list" where
  "sink_step (Edge h reachable st seq) (lw, acted) = (reachability_sink h reachable st seq lw, acted)"
| "sink_step Turn ((l, w), acted) =
     (let (r, w) = run_turn w in ((l, w), case r of None \<Rightarrow> acted | Some h \<Rightarrow> acted @ [h]))"

definition back_and_latched :: "DeviceLossLatch \<Rightarrow> string \<Rightarrow> bool" where
  "back_and_latched l h \<longleftrightarrow> is_latched l h \<and> ae_reachable (last_edge_of l h)"

section \<open>Lemmas\<close>

lemma last_edge_update [simp]:
  "last_edge_of (l\<lparr> dl_last_edge := AList.update h e (dl_last_edge l) \<rparr>) h' = (if h' = h then e else last_edge_of l h')"
  by (simp add: last_edge_of_def update_conv)

lemma last_edge_latched [simp]: "last_edge_of (l\<lparr> dl_latched := xs \<rparr>) h = last_edge_of l h"
  by (simp add: last_edge_of_def)

lemma view_apply_edge: "loss_view (apply_edge e l) = view_edge e (loss_view l)"
proof -
  obtain h r st s where e: "e = (h, r, st, s)" by (cases e)
  have *: "last_edge_of (l\<lparr> dl_last_edge := AList.update h x (dl_last_edge l), dl_latched := xs \<rparr>) =
      (last_edge_of l)(h := x)"
    "last_edge_of (l\<lparr> dl_last_edge := AList.update h x (dl_last_edge l) \<rparr>) = (last_edge_of l)(h := x)" for x xs
    by (auto simp: fun_eq_iff)
  have **: "last_edge_of (l\<lparr> dl_last_edge := AList.update h x (AList.update h y (dl_last_edge l)), dl_latched := xs \<rparr>) =
      (last_edge_of l)(h := x)"
    "last_edge_of (l\<lparr> dl_last_edge := AList.update h x (AList.update h y (dl_last_edge l)) \<rparr>) = (last_edge_of l)(h := x)" for x y xs
    by (auto simp: fun_eq_iff last_edge_of_def update_conv)
  show ?thesis
    by (auto simp: e apply_edge_def apply_reachability_edge_def loss_view_def Let_def insert_latched_def * ** not_le)
qed

lemma view_run: "loss_view (fold apply_edge es l) = fold view_edge es (loss_view l)"
  by (induction es arbitrary: l) (simp_all add: view_apply_edge)

lemma view_edge_commute:
  assumes "\<not> (h = h' \<and> s = s' \<and> r \<noteq> r')"
  shows "view_edge (h, r, st, s) (view_edge (h', r', st', s') v) = view_edge (h', r', st', s') (view_edge (h, r, st, s) v)"
  using assms by (cases v) (auto simp: fun_eq_iff)

section \<open>Interface\<close>

text \<open>What the call router may ask of a loss latch.\<close>

locale device_loss_view =
  fixes asks :: "'l \<Rightarrow> string \<Rightarrow> bool" and lists :: "'l \<Rightarrow> string list"
    and edge :: "edge \<Rightarrow> 'l \<Rightarrow> 'l" and release :: "'l \<Rightarrow> string list \<times> 'l"
  assumes asks_lists: "asks l h \<longleftrightarrow> h \<in> set (lists l)"
    and edge_asks: "asks (edge (h, r, st, s) l) h' \<longleftrightarrow> asks l h' \<or> (h' = h \<and> \<not> r \<and> transport_failure st)"
    and release_lists: "fst (release l) = lists l"
    and release_asks: "\<not> asks (snd (release l)) h"
begin

lemma edges_ask:
  "asks (fold edge es l) h \<longleftrightarrow> asks l h \<or> (\<exists>st s. (h, False, st, s) \<in> set es \<and> transport_failure st)"
proof (induction es arbitrary: l)
  case (Cons e es)
  obtain h' r st s where e: "e = (h', r, st, s)" by (cases e)
  show ?case using Cons.IH [of "edge e l"] by (auto simp: e edge_asks)
qed simp

text \<open>Only a release lets go, and it reports every device it let go of.\<close>

lemma released_reported: "asks l h \<Longrightarrow> \<not> asks (snd (release l)) h \<and> h \<in> set (fst (release l))"
  using release_asks [of l h] release_lists [of l] asks_lists [of l h] by simp

end

interpretation loss: device_loss_view is_latched latched apply_edge release_all
proof
  show "is_latched l h \<longleftrightarrow> h \<in> set (latched l)" for l h by (simp add: is_latched_def latched_def)
  show "is_latched (apply_edge (h, r, st, s) l) h' \<longleftrightarrow> is_latched l h' \<or> (h' = h \<and> \<not> r \<and> transport_failure st)"
    for l h r st s h'
  proof -
    have "set (dl_latched (apply_edge (h, r, st, s) l)) =
        (if \<not> r \<and> transport_failure st then insert h (set (dl_latched l)) else set (dl_latched l))"
      using view_apply_edge [of "(h, r, st, s)" l] by (simp add: loss_view_def)
    then show ?thesis by (auto simp: is_latched_def)
  qed
  show "fst (release_all l) = latched l" for l by (simp add: release_all_def latched_def)
  show "\<not> is_latched (snd (release_all l)) h" for l h by (simp add: release_all_def is_latched_def)
qed

lemma sink_request:
  assumes "apply_reachability_edge h r st s l = (reissue, l')"
  shows "back_and_latched l' h' \<Longrightarrow> back_and_latched l h' \<or> (reissue \<and> h' = h)"
  using assms
  by (auto simp: apply_reachability_edge_def back_and_latched_def is_latched_def insert_latched_def Let_def
      split: if_splits)

section \<open>Properties\<close>

text \<open>C28. Every arrival order ends where the in-order one does. Deliver the same reachability edges in two
  different orders: the same devices end up latched, and for every device the newest applied edge is the
  same. A device is latched exactly when it was latched before or one of its losses was a
  transport-level one. Two edges of one device with the same number agree on whether it was reachable.\<close>

theorem loss_latch_order_independent:
  assumes "mset es = mset es'" and "unambiguous es"
  shows "set (latched (fold apply_edge es l)) = set (latched (fold apply_edge es' l)) \<and>
    last_edge_of (fold apply_edge es l) = last_edge_of (fold apply_edge es' l) \<and>
    (is_latched (fold apply_edge es l) h \<longleftrightarrow>
       is_latched l h \<or> (\<exists>st s. (h, False, st, s) \<in> set es \<and> transport_failure st))"
proof -
  have "view_edge x \<circ> view_edge y = view_edge y \<circ> view_edge x" if "x \<in> set es" "y \<in> set es" for x y
  proof -
    obtain h r st s h' r' st' s' where "x = (h, r, st, s)" "y = (h', r', st', s')" by (metis prod_cases4)
    with that assms(2) view_edge_commute [of h h' s s' r r' st st'] show ?thesis
      by (fastforce simp: unambiguous_def fun_eq_iff)
  qed
  then have "fold view_edge es = fold view_edge es'" by (intro fold_multiset_equiv assms(1))
  then have "loss_view (fold apply_edge es l) = loss_view (fold apply_edge es' l)" by (simp add: view_run)
  then show ?thesis using loss.edges_ask by (simp add: loss_view_def latched_def)
qed

theorem loss_latch_order_independent_witness:
  "set (latched (fold apply_edge [(''a/b'', False, CODE_UNAVAILABLE, 1), (''a/b'', True, CODE_OK, 2)] new_loss_latch)) =
   set (latched (fold apply_edge [(''a/b'', True, CODE_OK, 2), (''a/b'', False, CODE_UNAVAILABLE, 1)] new_loss_latch)) \<and>
   is_latched (fold apply_edge [(''a/b'', False, CODE_UNAVAILABLE, 1), (''a/b'', True, CODE_OK, 2)] new_loss_latch) ''a/b''"
proof -
  let ?es = "[(''a/b'', False, CODE_UNAVAILABLE, 1), (''a/b'', True, CODE_OK, 2)] :: edge list"
  let ?es' = "[(''a/b'', True, CODE_OK, 2), (''a/b'', False, CODE_UNAVAILABLE, 1)] :: edge list"
  have "mset ?es = mset ?es'" by simp
  moreover have "unambiguous ?es" by (simp add: unambiguous_def)
  ultimately show ?thesis
    using loss_latch_order_independent [of ?es ?es' new_loss_latch "''a/b''"] by (auto simp: transport_failure_def)
qed

text \<open>C29. A returning device gets its safe state re-asserted, in any arrival order. Start from a latch on
  which no latched device counts as back, and let edges arrive and the worker take turns in any order
  while it is not stopping. If a device is then latched and its newest edge is a return, its handle is
  waiting in the worker's queue or has been re-asserted since.\<close>

theorem returning_device_reissued:
  assumes "\<forall>h. \<not> back_and_latched l h" and "\<not> rw_stopping w"
    and "fold sink_step ops ((l, w), []) = ((l', w'), acted)" and "back_and_latched l' h"
  shows "h \<in> set (rw_queue w') \<or> h \<in> set acted"
proof -
  have "\<not> rw_stopping w'' \<and> (\<forall>h. back_and_latched l'' h \<longrightarrow> h \<in> set (rw_queue w'') \<or> h \<in> set acted'')"
    if "fold sink_step ops ((l, w), []) = ((l'', w''), acted'')" for l'' w'' acted''
    using that
  proof (induction ops arbitrary: l'' w'' acted'' rule: rev_induct)
    case Nil
    then show ?case using assms(1,2) by simp
  next
    case (snoc op ops)
    obtain l1 w1 acted1 where r1: "fold sink_step ops ((l, w), []) = ((l1, w1), acted1)"
      by (metis prod.collapse)
    from snoc.IH [OF r1] have IH: "\<not> rw_stopping w1"
      "\<And>h. back_and_latched l1 h \<Longrightarrow> h \<in> set (rw_queue w1) \<or> h \<in> set acted1" by auto
    show ?case
    proof (cases op)
      case (Edge h r st s)
      obtain reissue l2 where a: "apply_reachability_edge h r st s l1 = (reissue, l2)" by fastforce
      have eq: "l'' = l2" "w'' = (if reissue then post h w1 else w1)" "acted'' = acted1"
        using snoc.prems r1 Edge a by (auto simp: reachability_sink_def)
      have posted: "set (rw_queue w1) \<subseteq> set (rw_queue w'')" "reissue \<Longrightarrow> h \<in> set (rw_queue w'')" "\<not> rw_stopping w''"
        using IH(1) by (auto simp: eq post_def)
      have "h' \<in> set (rw_queue w'') \<or> h' \<in> set acted''" if "back_and_latched l'' h'" for h'
        using sink_request [OF a, of h'] that IH(2) [of h'] posted eq by blast
      with posted(3) show ?thesis by blast
    next
      case Turn
      have eq: "l'' = l1" "\<not> rw_stopping w''" "set (rw_queue w1) \<union> set acted1 \<subseteq> set (rw_queue w'') \<union> set acted''"
        using snoc.prems r1 Turn IH(1) by (auto simp: run_turn_def split: list.splits)
      then show ?thesis using IH(2) by blast
    qed
  qed
  with assms show ?thesis by blast
qed

theorem returning_device_reissued_witness:
  "\<exists>l' w' acted. fold sink_step [Edge ''a/b'' True CODE_OK 2, Edge ''a/b'' False CODE_UNAVAILABLE 1]
       ((new_loss_latch, new_worker), []) = ((l', w'), acted) \<and> back_and_latched l' ''a/b'' \<and>
     (''a/b'' \<in> set (rw_queue w') \<or> ''a/b'' \<in> set acted)"
proof -
  obtain l' w' acted where r: "fold sink_step [Edge ''a/b'' True CODE_OK 2, Edge ''a/b'' False CODE_UNAVAILABLE 1]
       ((new_loss_latch, new_worker), []) = ((l', w'), acted)" by (metis prod.collapse)
  have none: "\<forall>h. \<not> back_and_latched new_loss_latch h"
    by (simp add: back_and_latched_def is_latched_def new_loss_latch_def)
  have "back_and_latched l' ''a/b''"
    using r by (auto simp: reachability_sink_def apply_reachability_edge_def new_loss_latch_def last_edge_of_def
        insert_latched_def transport_failure_def back_and_latched_def is_latched_def Let_def post_def new_worker_def)
  with returning_device_reissued [OF none _ r this] r show ?thesis by (auto simp: new_worker_def)
qed

end
