(* ===== verification/Call_Router.thy ===== *)
theory Call_Router
  imports Mode_Manager Device_Loss_Latch
begin

text \<open>
  \<open>core/control/call_router.cpp\<close>: the one path by which a device function is called. \<open>execute_call\<close>
  is modelled whole: the gates in the order of the code, resolution, coercion and validation of the
  arguments, the second look at both latches under the provider lock, the interval limit, the dispatch
  and the poll after it. Everything the call reads while it runs is in \<open>RouterEnv\<close>; what other
  threads may change in between (mode, latches) is read as often as the code reads it. The provider's
  answer is a function of what it was sent. Error texts are constructors; the text of a resolution
  error is written out because the code searches it.
\<close>

section \<open>Requests and results\<close>

record CallRequest =
  rq_device_handle :: string
  rq_function_id :: u32
  rq_function_name :: string
  rq_args :: args_map
  rq_is_automated :: bool
  rq_is_behavior_tree :: bool
  rq_safe_state :: bool
  rq_fault_entry_hook :: bool

datatype resolve_error = RE_Id_Not_Found u32 | RE_Selector_Mismatch u32 string string
  | RE_Missing_Selector | RE_Name_Not_Found string string

datatype arg_error = AE_Negative string int | AE_Above_Int64 string int | AE_Inexact_Double string int
  | AE_Missing_Required string | AE_Unknown string | AE_Unknown_Type string
  | AE_Type_Mismatch string string string | AE_Below string | AE_Above string | AE_Not_Allowed string string "string list"

datatype call_error = CE_Idle | CE_Auto_Blocked | CE_Handle_Format string | CE_Handle_Empty string
  | CE_Provider_Not_Found string | CE_Provider_Unavailable string | CE_Device_Not_Found string
  | CE_Resolve resolve_error | CE_Mode string "string list" string | CE_Latched | CE_Device_Lost
  | CE_Argument arg_error | CE_Interval string int int | CE_Provider_Failed string

record CallResult =
  cr_success :: bool
  cr_error :: "call_error option"
  cr_results :: args_map
  cr_status_code :: StatusCode
  cr_dispatched :: bool

definition refused :: "call_error \<Rightarrow> StatusCode \<Rightarrow> CallResult" where
  "refused e code = \<lparr> cr_success = False, cr_error = Some e, cr_results = [], cr_status_code = code, cr_dispatched = False \<rparr>"

section \<open>Resolution\<close>

definition parse_device_handle :: "string \<Rightarrow> call_error + string \<times> string" where
  "parse_device_handle device_handle =
     (case split_first (CHR ''/'') device_handle of
        None \<Rightarrow> Inl (CE_Handle_Format device_handle)
      | Some (provider_id, device_id) \<Rightarrow>
          if provider_id = [] \<or> device_id = [] then Inl (CE_Handle_Empty device_handle)
          else Inr (provider_id, device_id))"

definition validate_function_exists :: "RegisteredDevice \<Rightarrow> string \<Rightarrow> resolve_error + FunctionSpec" where
  "validate_function_exists device function_name =
     (case map_of (dc_functions_by_id (rd_capabilities device)) function_name of
        None \<Rightarrow> Inl (RE_Name_Not_Found function_name (get_handle device))
      | Some spec \<Rightarrow> Inr spec)"

definition resolve_function_spec :: "RegisteredDevice \<Rightarrow> CallRequest \<Rightarrow> resolve_error + FunctionSpec \<times> string" where
  "resolve_function_spec device request =
     (if rq_function_id request \<noteq> 0
      then case find (\<lambda>(name, spec). fs_function_id spec = rq_function_id request)
                  (dc_functions_by_id (rd_capabilities device)) of
          None \<Rightarrow> Inl (RE_Id_Not_Found (rq_function_id request))
        | Some (name, spec) \<Rightarrow>
            if rq_function_name request \<noteq> [] \<and> rq_function_name request \<noteq> name
            then Inl (RE_Selector_Mismatch (rq_function_id request) name (rq_function_name request))
            else Inr (spec, name)
      else if rq_function_name request = [] then Inl RE_Missing_Selector
      else case validate_function_exists device (rq_function_name request) of
          Inl e \<Rightarrow> Inl e
        | Inr spec \<Rightarrow> Inr (spec, rq_function_name request))"

fun resolve_text :: "resolve_error \<Rightarrow> string" where
  "resolve_text (RE_Id_Not_Found fid) = ''Function ID not found: '' @ nat_to_string (unat fid)"
| "resolve_text (RE_Selector_Mismatch fid name wanted) =
     ''Function selector mismatch: function_id '' @ nat_to_string (unat fid) @ '' maps to '' @ [CHR 0x27] @ name @
     [CHR 0x27] @ '', not '' @ [CHR 0x27] @ wanted @ [CHR 0x27]"
| "resolve_text RE_Missing_Selector = ''Missing function selector (function_id or function_name)''"
| "resolve_text (RE_Name_Not_Found name handle) = ''Function not found: '' @ name @ '' on device '' @ handle"

definition resolve_status :: "resolve_error \<Rightarrow> StatusCode" where
  "resolve_status e = (if contains_str ''not found'' (resolve_text e) then CODE_NOT_FOUND else CODE_INVALID_ARGUMENT)"

section \<open>Arguments\<close>

definition kMaxExactDouble :: int where
  "kMaxExactDouble = 2 ^ 53"

text \<open>One turn of the coercion loop: what the argument becomes, or why it cannot.\<close>

definition coerce_value :: "ArgSpec \<Rightarrow> Value \<Rightarrow> arg_error + Value" where
  "coerce_value arg_spec v =
     (case (as_type arg_spec, v_kind v) of
        (VALUE_TYPE_UINT64, K_Int64 raw) \<Rightarrow>
          if sint raw < 0 then Inl (AE_Negative (as_name arg_spec) (sint raw))
          else Inr \<lparr> v_type = VALUE_TYPE_UINT64, v_kind = K_Uint64 raw \<rparr>
      | (VALUE_TYPE_INT64, K_Uint64 raw) \<Rightarrow>
          if INT64_MAX < raw then Inl (AE_Above_Int64 (as_name arg_spec) (uint raw))
          else Inr \<lparr> v_type = VALUE_TYPE_INT64, v_kind = K_Int64 raw \<rparr>
      | (VALUE_TYPE_DOUBLE, K_Int64 raw) \<Rightarrow>
          if kMaxExactDouble < sint raw \<or> sint raw < - kMaxExactDouble
          then Inl (AE_Inexact_Double (as_name arg_spec) (sint raw))
          else Inr \<lparr> v_type = VALUE_TYPE_DOUBLE, v_kind = K_Double (f64_of_int (sint raw)) \<rparr>
      | (VALUE_TYPE_DOUBLE, K_Uint64 raw) \<Rightarrow>
          if kMaxExactDouble < uint raw
          then Inl (AE_Inexact_Double (as_name arg_spec) (uint raw))
          else Inr \<lparr> v_type = VALUE_TYPE_DOUBLE, v_kind = K_Double (f64_of_int (uint raw)) \<rparr>
      | _ \<Rightarrow> Inr v)"

fun coerce_arguments :: "ArgSpec list \<Rightarrow> args_map \<Rightarrow> arg_error + args_map" where
  "coerce_arguments [] args = Inr args"
| "coerce_arguments (arg_spec # specs) args =
     (case map_of args (as_name arg_spec) of
        None \<Rightarrow> coerce_arguments specs args
      | Some v \<Rightarrow>
          (case coerce_value arg_spec v of
             Inl e \<Rightarrow> Inl e
           | Inr v' \<Rightarrow> coerce_arguments specs (omap_put (as_name arg_spec) v' args)))"

fun value_type_to_string :: "ValueType \<Rightarrow> string" where
  "value_type_to_string VALUE_TYPE_BOOL = ''bool''"
| "value_type_to_string VALUE_TYPE_INT64 = ''int64''"
| "value_type_to_string VALUE_TYPE_UINT64 = ''uint64''"
| "value_type_to_string VALUE_TYPE_DOUBLE = ''double''"
| "value_type_to_string VALUE_TYPE_STRING = ''string''"
| "value_type_to_string VALUE_TYPE_BYTES = ''bytes''"
| "value_type_to_string (VALUE_TYPE_OTHER _) = ''unknown''"

fun kind_has_type :: "ValueType \<Rightarrow> ValueKind \<Rightarrow> bool" where
  "kind_has_type VALUE_TYPE_BOOL (K_Bool _) = True"
| "kind_has_type VALUE_TYPE_INT64 (K_Int64 _) = True"
| "kind_has_type VALUE_TYPE_UINT64 (K_Uint64 _) = True"
| "kind_has_type VALUE_TYPE_DOUBLE (K_Double _) = True"
| "kind_has_type VALUE_TYPE_STRING (K_String _) = True"
| "kind_has_type VALUE_TYPE_BYTES (K_Bytes _) = True"
| "kind_has_type _ _ = False"

definition validate_argument_type :: "ArgSpec \<Rightarrow> Value \<Rightarrow> arg_error option" where
  "validate_argument_type spec v =
     (case as_type spec of
        VALUE_TYPE_OTHER _ \<Rightarrow> Some (AE_Unknown_Type (as_name spec))
      | t \<Rightarrow> if kind_has_type t (v_kind v) then None
            else Some (AE_Type_Mismatch (as_name spec) (value_type_to_string t) (value_type_to_string (v_type v))))"

definition out_of_range :: "string \<Rightarrow> ('n \<Rightarrow> 'n \<Rightarrow> bool) \<Rightarrow> 'n option \<Rightarrow> 'n option \<Rightarrow> 'n \<Rightarrow> arg_error option" where
  "out_of_range name lt lo hi x =
     (if (case lo of Some l \<Rightarrow> lt x l | None \<Rightarrow> False) then Some (AE_Below name)
      else if (case hi of Some h \<Rightarrow> lt h x | None \<Rightarrow> False) then Some (AE_Above name)
      else None)"

definition validate_argument_range :: "ArgSpec \<Rightarrow> Value \<Rightarrow> arg_error option" where
  "validate_argument_range spec v =
     (case as_type spec of
        VALUE_TYPE_DOUBLE \<Rightarrow> out_of_range (as_name spec) f64_lt (as_min_double spec) (as_max_double spec) (double_value v)
      | VALUE_TYPE_INT64 \<Rightarrow> out_of_range (as_name spec) (\<lambda>a b. sint a < sint b) (as_min_int64 spec) (as_max_int64 spec) (int64_value v)
      | VALUE_TYPE_UINT64 \<Rightarrow> out_of_range (as_name spec) (<) (as_min_uint64 spec) (as_max_uint64 spec) (uint64_value v)
      | VALUE_TYPE_STRING \<Rightarrow>
          if as_allowed_values spec \<noteq> [] \<and> string_value v \<notin> set (as_allowed_values spec)
          then Some (AE_Not_Allowed (as_name spec) (string_value v) (as_allowed_values spec)) else None
      | _ \<Rightarrow> None)"

fun first_error :: "('a \<Rightarrow> arg_error option) \<Rightarrow> 'a list \<Rightarrow> arg_error option" where
  "first_error f [] = None"
| "first_error f (x # xs) = (case f x of Some e \<Rightarrow> Some e | None \<Rightarrow> first_error f xs)"

definition spec_map :: "ArgSpec list \<Rightarrow> (string \<times> ArgSpec) list" where
  "spec_map specs = fold (\<lambda>s. AList.update (as_name s) s) specs []"

definition validate_argument :: "ArgSpec list \<Rightarrow> string \<times> Value \<Rightarrow> arg_error option" where
  "validate_argument specs arg =
     (case map_of (spec_map specs) (fst arg) of
        None \<Rightarrow> Some (AE_Unknown (fst arg))
      | Some spec \<Rightarrow>
          (case validate_argument_type spec (snd arg) of
             Some e \<Rightarrow> Some e
           | None \<Rightarrow> validate_argument_range spec (snd arg)))"

definition validate_arguments :: "ArgSpec list \<Rightarrow> args_map \<Rightarrow> arg_error option" where
  "validate_arguments specs args =
     (case first_error (\<lambda>s. if as_required s \<and> map_of args (as_name s) = None
                           then Some (AE_Missing_Required (as_name s)) else None) specs of
        Some e \<Rightarrow> Some e
      | None \<Rightarrow> first_error (validate_argument specs) args)"

section \<open>Records of calls\<close>

definition call_source :: "CallRequest \<Rightarrow> string" where
  "call_source request =
     (if rq_safe_state request then ''safe-state''
      else if rq_is_behavior_tree request then ''behavior tree''
      else if rq_is_automated request then ''hook''
      else ''HTTP'')"

text \<open>\<open>fmt\<close> is \<open>std::format\<close> of a double.\<close>

definition format_value :: "(f64 \<Rightarrow> string) \<Rightarrow> Value \<Rightarrow> string" where
  "format_value fmt v = (case v_kind v of
     K_Bool b \<Rightarrow> if b then ''true'' else ''false''
   | K_Int64 i \<Rightarrow> int_to_string (sint i)
   | K_Uint64 u \<Rightarrow> nat_to_string (unat u)
   | K_Double d \<Rightarrow> fmt d
   | K_String s \<Rightarrow> [CHR 0x22] @ s @ [CHR 0x22]
   | K_Bytes bs \<Rightarrow> ''<'' @ nat_to_string (length bs) @ '' bytes>''
   | K_Unset \<Rightarrow> ''<unset>'')"

record CallRouter =
  ro_registry :: DeviceRegistry
  ro_has_mode_manager :: bool
  ro_manual_gating_policy :: string
  ro_last_tree_record :: "(string \<times> string) list"
  ro_last_dispatch :: "(string \<times> time_ns) list"

definition new_router :: "DeviceRegistry \<Rightarrow> CallRouter" where
  "new_router registry = \<lparr> ro_registry = registry, ro_has_mode_manager = False, ro_manual_gating_policy = ''BLOCK'',
     ro_last_tree_record = [], ro_last_dispatch = [] \<rparr>"

definition set_mode_manager :: "string \<Rightarrow> CallRouter \<Rightarrow> CallRouter" where
  "set_mode_manager gating_policy ro = ro\<lparr> ro_has_mode_manager := True, ro_manual_gating_policy := gating_policy \<rparr>"

text \<open>The record written, if any: a behaviour-tree call that repeats its last record is not.\<close>

definition log_call_record ::
  "(f64 \<Rightarrow> string) \<Rightarrow> CallRequest \<Rightarrow> string \<Rightarrow> args_map \<Rightarrow> string \<Rightarrow> CallRouter \<Rightarrow> string option \<times> CallRouter" where
  "log_call_record fmt request function_name args result ro =
     (let formatted = join_comma (map (\<lambda>(name, v). name @ ''='' @ format_value fmt v) args);
          line = ''call '' @ rq_device_handle request @ '' '' @ function_name @ ''('' @ formatted @ '') from '' @
                 call_source request @ '': '' @ result;
          key = rq_device_handle request @ '' '' @ function_name
      in if rq_is_behavior_tree request
         then if map_of (ro_last_tree_record ro) key = Some line then (None, ro)
              else (Some line, ro\<lparr> ro_last_tree_record := omap_put key line (ro_last_tree_record ro) \<rparr>)
         else (Some line, ro))"

section \<open>Gates\<close>

text \<open>The e-stop latch as the router sees it: engaged, and admitting FAULT-entry hooks on this thread.
  \<open>None\<close> is a latch that is not attached.\<close>

type_synonym latch_view = "(bool \<times> bool) option"

definition latch_holds :: "latch_view \<Rightarrow> CallRequest \<Rightarrow> FunctionSpec \<Rightarrow> bool" where
  "latch_holds latch request spec =
     (case latch of
        None \<Rightarrow> False
      | Some (engaged, admits) \<Rightarrow>
          \<not> rq_safe_state request \<and> engaged \<and> is_actuating spec \<and> \<not> (rq_fault_entry_hook request \<and> admits))"

definition loss_holds :: "(string \<Rightarrow> bool) option \<Rightarrow> CallRequest \<Rightarrow> FunctionSpec \<Rightarrow> bool" where
  "loss_holds loss request spec =
     (case loss of
        None \<Rightarrow> False
      | Some is_lost \<Rightarrow> \<not> rq_safe_state request \<and> rq_is_behavior_tree request \<and>
          is_lost (rq_device_handle request) \<and> is_actuating spec)"

text \<open>\<open>std::toupper\<close> in the C locale.\<close>

definition ascii_upper :: "char \<Rightarrow> char" where
  "ascii_upper c = (if 97 \<le> (of_char c :: nat) \<and> (of_char c :: nat) \<le> 122 then char_of ((of_char c :: nat) - 32) else c)"

definition mode_allowed :: "FunctionSpec \<Rightarrow> string \<Rightarrow> bool" where
  "mode_allowed spec mode = (\<exists>declared \<in> set (fs_allowed_modes spec). map ascii_upper declared = mode)"

definition dispatch_key :: "CallRequest \<Rightarrow> FunctionSpec \<Rightarrow> string" where
  "dispatch_key request spec = rq_device_handle request @ ''/'' @ nat_to_string (unat (fs_function_id spec))"

text \<open>Remaining milliseconds when the call comes too soon.\<close>

definition interval_left :: "CallRouter \<Rightarrow> CallRequest \<Rightarrow> FunctionSpec \<Rightarrow> time_ns \<Rightarrow> int option" where
  "interval_left ro request spec now =
     (if rq_safe_state request then None
      else case map_of (ro_last_dispatch ro) (dispatch_key request spec) of
        None \<Rightarrow> None
      | Some prev \<Rightarrow>
          (let elapsed = ns_to_ms (now - prev) in
           if elapsed < uint (fs_min_interval_ms spec) then Some (uint (fs_min_interval_ms spec) - elapsed) else None))"

section \<open>Executing a call\<close>

text \<open>The answer of \<open>IProviderHandle::call\<close>: results, or a status with an error text.\<close>

type_synonym call_answer = "(StatusCode \<times> string) + args_map"

record RouterEnv =
  re_mode_idle :: RuntimeMode
  re_mode_auto :: RuntimeMode
  re_mode_allowed :: RuntimeMode
  re_provider :: "string \<Rightarrow> bool option"
  re_latch :: latch_view
  re_loss :: "(string \<Rightarrow> bool) option"
  re_latch_locked :: latch_view
  re_loss_locked :: "(string \<Rightarrow> bool) option"
  re_now :: time_ns
  re_call :: "string \<Rightarrow> string \<Rightarrow> u32 \<Rightarrow> string \<Rightarrow> args_map \<Rightarrow> call_answer"
  re_poll :: PollEnv
  re_fmt :: "f64 \<Rightarrow> string"
  re_status_name :: "StatusCode \<Rightarrow> string"

text \<open>What the provider was sent: provider, device, function id and name, arguments.\<close>

type_synonym dispatch = "string \<times> string \<times> u32 \<times> string \<times> args_map"

record outcome =
  oc_result :: CallResult
  oc_dispatch :: "dispatch option"
  oc_router :: CallRouter
  oc_cache :: StateCache
  oc_outs :: "cache_out list"

definition refuse :: "call_error \<Rightarrow> StatusCode \<Rightarrow> CallRouter \<Rightarrow> StateCache \<Rightarrow> outcome" where
  "refuse e code ro sc = \<lparr> oc_result = refused e code, oc_dispatch = None, oc_router = ro, oc_cache = sc, oc_outs = [] \<rparr>"

text \<open>From the dispatch on.\<close>

definition dispatch_call ::
  "RouterEnv \<Rightarrow> CallRequest \<Rightarrow> string \<Rightarrow> string \<Rightarrow> FunctionSpec \<Rightarrow> string \<Rightarrow> args_map \<Rightarrow> CallRouter \<Rightarrow> StateCache \<Rightarrow> outcome" where
  "dispatch_call env request provider_id device_id spec name args ro sc =
     (case re_call env provider_id device_id (fs_function_id spec) name args of
        Inl (status, err) \<Rightarrow>
          (let (line, ro) = log_call_record (re_fmt env) request name args (re_status_name env status) ro in
           \<lparr> oc_result = \<lparr> cr_success = False, cr_error = Some (CE_Provider_Failed err), cr_results = [],
                           cr_status_code = status, cr_dispatched = True \<rparr>,
             oc_dispatch = Some (provider_id, device_id, fs_function_id spec, name, args),
             oc_router = ro, oc_cache = sc, oc_outs = [] \<rparr>)
      | Inr results \<Rightarrow>
          (let (line, ro) = log_call_record (re_fmt env) request name args ''OK'' ro;
               (sc, outs) = poll_device_now (re_poll env) (rq_device_handle request) sc in
           \<lparr> oc_result = \<lparr> cr_success = True, cr_error = None,
                           cr_results = fold (\<lambda>(k, v). omap_put k v) results [],
                           cr_status_code = CODE_OK, cr_dispatched = True \<rparr>,
             oc_dispatch = Some (provider_id, device_id, fs_function_id spec, name, args),
             oc_router = ro, oc_cache = sc, oc_outs = outs \<rparr>))"

text \<open>Under the provider lock: both latches again, then the interval.\<close>

definition locked_call ::
  "RouterEnv \<Rightarrow> CallRequest \<Rightarrow> string \<Rightarrow> string \<Rightarrow> FunctionSpec \<Rightarrow> string \<Rightarrow> args_map \<Rightarrow> CallRouter \<Rightarrow> StateCache \<Rightarrow> outcome" where
  "locked_call env request provider_id device_id spec name args ro sc =
     (if latch_holds (re_latch_locked env) request spec then refuse CE_Latched CODE_FAILED_PRECONDITION ro sc
      else if loss_holds (re_loss_locked env) request spec then refuse CE_Device_Lost CODE_FAILED_PRECONDITION ro sc
      else if 0 < uint (fs_min_interval_ms spec)
      then case interval_left ro request spec (re_now env) of
          Some left \<Rightarrow> refuse (CE_Interval name (uint (fs_min_interval_ms spec)) left) CODE_FAILED_PRECONDITION ro sc
        | None \<Rightarrow> dispatch_call env request provider_id device_id spec name args
            (ro\<lparr> ro_last_dispatch := omap_put (dispatch_key request spec) (re_now env) (ro_last_dispatch ro) \<rparr>) sc
      else dispatch_call env request provider_id device_id spec name args ro sc)"

text \<open>Once the function is resolved: allowed modes, latches, arguments.\<close>

definition resolved_call ::
  "RouterEnv \<Rightarrow> CallRequest \<Rightarrow> string \<Rightarrow> string \<Rightarrow> FunctionSpec \<Rightarrow> string \<Rightarrow> CallRouter \<Rightarrow> StateCache \<Rightarrow> outcome" where
  "resolved_call env request provider_id device_id spec name ro sc =
     (let mode = (if ro_has_mode_manager ro then mode_to_string (re_mode_allowed env) else ''MANUAL'') in
      if \<not> rq_safe_state request \<and> fs_allowed_modes spec \<noteq> [] \<and> \<not> mode_allowed spec mode
      then refuse (CE_Mode name (fs_allowed_modes spec) mode) CODE_FAILED_PRECONDITION ro sc
      else if latch_holds (re_latch env) request spec then refuse CE_Latched CODE_FAILED_PRECONDITION ro sc
      else if loss_holds (re_loss env) request spec then refuse CE_Device_Lost CODE_FAILED_PRECONDITION ro sc
      else case coerce_arguments (fs_args spec) (rq_args request) of
        Inl e \<Rightarrow> refuse (CE_Argument e) CODE_INVALID_ARGUMENT ro sc
      | Inr args \<Rightarrow>
          (case validate_arguments (fs_args spec) args of
             Some e \<Rightarrow> refuse (CE_Argument e) CODE_INVALID_ARGUMENT ro sc
           | None \<Rightarrow> locked_call env request provider_id device_id spec name args ro sc))"

definition execute_call :: "RouterEnv \<Rightarrow> CallRequest \<Rightarrow> CallRouter \<Rightarrow> StateCache \<Rightarrow> outcome" where
  "execute_call env request ro sc =
     (if \<not> rq_safe_state request \<and> ro_has_mode_manager ro \<and> re_mode_idle env = IDLE
      then refuse CE_Idle CODE_FAILED_PRECONDITION ro sc
      else if \<not> rq_is_automated request \<and> \<not> rq_safe_state request \<and> ro_has_mode_manager ro \<and> re_mode_auto env = AUTO \<and>
              ro_manual_gating_policy ro = ''BLOCK''
      then refuse CE_Auto_Blocked CODE_FAILED_PRECONDITION ro sc
      else case parse_device_handle (rq_device_handle request) of
        Inl e \<Rightarrow> refuse e CODE_INVALID_ARGUMENT ro sc
      | Inr (provider_id, device_id) \<Rightarrow>
          (case re_provider env provider_id of
             None \<Rightarrow> refuse (CE_Provider_Not_Found provider_id) CODE_NOT_FOUND ro sc
           | Some available \<Rightarrow>
               if \<not> available then refuse (CE_Provider_Unavailable provider_id) CODE_UNAVAILABLE ro sc
               else case get_device_copy (ro_registry ro) provider_id device_id of
                 None \<Rightarrow> refuse (CE_Device_Not_Found (rq_device_handle request)) CODE_NOT_FOUND ro sc
               | Some device \<Rightarrow>
                   (case resolve_function_spec device request of
                      Inl e \<Rightarrow> refuse (CE_Resolve e) (resolve_status e) ro sc
                    | Inr (spec, name) \<Rightarrow> resolved_call env request provider_id device_id spec name ro sc)))"

section \<open>Checks without dispatch\<close>

definition latch_refuses :: "latch_view \<Rightarrow> CallRequest \<Rightarrow> CallRouter \<Rightarrow> bool" where
  "latch_refuses latch request ro =
     (if rq_safe_state request \<or> latch = None \<or> \<not> fst (the latch) then False
      else case parse_device_handle (rq_device_handle request) of
        Inl e \<Rightarrow> False
      | Inr (provider_id, device_id) \<Rightarrow>
          (case get_device_copy (ro_registry ro) provider_id device_id of
             None \<Rightarrow> False
           | Some device \<Rightarrow>
               (case resolve_function_spec device request of
                  Inl e \<Rightarrow> False
                | Inr (spec, name) \<Rightarrow> latch_holds latch request spec)))"

definition validate_device_exists :: "CallRouter \<Rightarrow> string \<Rightarrow> call_error option" where
  "validate_device_exists ro device_handle =
     (case get_device_by_handle_copy (ro_registry ro) device_handle of
        None \<Rightarrow> Some (CE_Device_Not_Found device_handle)
      | Some _ \<Rightarrow> None)"

definition validate_call :: "CallRequest \<Rightarrow> CallRouter \<Rightarrow> call_error option" where
  "validate_call request ro =
     (case validate_device_exists ro (rq_device_handle request) of
        Some e \<Rightarrow> Some e
      | None \<Rightarrow>
          (case parse_device_handle (rq_device_handle request) of
             Inl e \<Rightarrow> Some e
           | Inr (provider_id, device_id) \<Rightarrow>
               (case get_device_copy (ro_registry ro) provider_id device_id of
                  None \<Rightarrow> Some (CE_Device_Not_Found (rq_device_handle request))
                | Some device \<Rightarrow>
                    (case resolve_function_spec device request of
                       Inl e \<Rightarrow> Some (CE_Resolve e)
                     | Inr (spec, name) \<Rightarrow>
                         (case coerce_arguments (fs_args spec) (rq_args request) of
                            Inl e \<Rightarrow> Some (CE_Argument e)
                          | Inr args \<Rightarrow> map_option CE_Argument (validate_arguments (fs_args spec) args))))))"

section \<open>Specification\<close>

text \<open>The number a value stands for, in units of \<open>2 ^ -1074\<close>.\<close>

definition value_number :: "Value \<Rightarrow> int option" where
  "value_number v = (case v_kind v of
     K_Int64 i \<Rightarrow> Some (sint i * 2 ^ 1074)
   | K_Uint64 u \<Rightarrow> Some (uint u * 2 ^ 1074)
   | K_Double d \<Rightarrow> if f64_finite d then Some (f64_scaled d) else None
   | _ \<Rightarrow> None)"

definition in_bounds :: "int option \<Rightarrow> int option \<Rightarrow> int \<Rightarrow> bool" where
  "in_bounds lo hi x = ((\<forall>l. lo = Some l \<longrightarrow> l \<le> x) \<and> (\<forall>h. hi = Some h \<longrightarrow> x \<le> h))"

text \<open>An argument an \<open>ArgSpec\<close> describes. Of doubles only the finite ones with finite bounds are
  constrained: a NaN compares false with everything.\<close>

definition finite_bound :: "f64 option \<Rightarrow> bool" where
  "finite_bound b = (case b of None \<Rightarrow> True | Some x \<Rightarrow> f64_finite x)"

definition conforms :: "ArgSpec \<Rightarrow> Value \<Rightarrow> bool" where
  "conforms spec v = (case v_kind v of
     K_Bool b \<Rightarrow> as_type spec = VALUE_TYPE_BOOL
   | K_Int64 i \<Rightarrow> as_type spec = VALUE_TYPE_INT64 \<and>
       in_bounds (map_option sint (as_min_int64 spec)) (map_option sint (as_max_int64 spec)) (sint i)
   | K_Uint64 u \<Rightarrow> as_type spec = VALUE_TYPE_UINT64 \<and>
       in_bounds (map_option uint (as_min_uint64 spec)) (map_option uint (as_max_uint64 spec)) (uint u)
   | K_Double d \<Rightarrow> as_type spec = VALUE_TYPE_DOUBLE \<and>
       (f64_finite d \<and> finite_bound (as_min_double spec) \<and> finite_bound (as_max_double spec) \<longrightarrow>
        in_bounds (map_option f64_scaled (as_min_double spec)) (map_option f64_scaled (as_max_double spec)) (f64_scaled d))
   | K_String s \<Rightarrow> as_type spec = VALUE_TYPE_STRING \<and> (as_allowed_values spec = [] \<or> s \<in> set (as_allowed_values spec))
   | K_Bytes bs \<Rightarrow> as_type spec = VALUE_TYPE_BYTES
   | K_Unset \<Rightarrow> False)"

text \<open>A function of a device that answers to the selectors of a request.\<close>

definition offers :: "DeviceRegistry \<Rightarrow> string \<Rightarrow> CallRequest \<Rightarrow> FunctionSpec \<Rightarrow> string \<Rightarrow> bool" where
  "offers registry handle request spec name =
     (\<exists>device. get_device_by_handle_copy registry handle = Some device \<and>
        (name, spec) \<in> set (dc_functions_by_id (rd_capabilities device)) \<and>
        (rq_function_id request \<noteq> 0 \<longrightarrow> fs_function_id spec = rq_function_id request) \<and>
        (rq_function_name request \<noteq> [] \<longrightarrow> name = rq_function_name request))"

text \<open>The modes in which a request is served.\<close>

definition mode_open :: "RouterEnv \<Rightarrow> CallRequest \<Rightarrow> CallRouter \<Rightarrow> FunctionSpec \<Rightarrow> bool" where
  "mode_open env request ro spec =
     ((ro_has_mode_manager ro \<longrightarrow> re_mode_idle env \<noteq> IDLE \<and>
        (re_mode_auto env = AUTO \<and> ro_manual_gating_policy ro = ''BLOCK'' \<longrightarrow> rq_is_automated request)) \<and>
      (fs_allowed_modes spec \<noteq> [] \<longrightarrow>
        mode_allowed spec (if ro_has_mode_manager ro then mode_to_string (re_mode_allowed env) else ''MANUAL'')))"

section \<open>Lemmas\<close>

lemma refuse_sel [simp]:
  "oc_result (refuse e code ro sc) = refused e code" "oc_dispatch (refuse e code ro sc) = None"
  "oc_router (refuse e code ro sc) = ro" "oc_cache (refuse e code ro sc) = sc" "oc_outs (refuse e code ro sc) = []"
  by (simp_all add: refuse_def)

lemma refused_sel [simp]:
  "cr_success (refused e code) = False" "cr_error (refused e code) = Some e" "cr_status_code (refused e code) = code"
  "cr_dispatched (refused e code) = False"
  by (simp_all add: refused_def)

lemma dispatch_call_sel [simp]:
  "oc_dispatch (dispatch_call env request p d spec name args ro sc) = Some (p, d, fs_function_id spec, name, args)"
  "cr_dispatched (oc_result (dispatch_call env request p d spec name args ro sc))"
  by (auto simp: dispatch_call_def Let_def split: sum.split prod.split)

definition same_wiring :: "CallRouter \<Rightarrow> CallRouter \<Rightarrow> bool" where
  "same_wiring ro ro' = (ro_registry ro' = ro_registry ro \<and> ro_has_mode_manager ro' = ro_has_mode_manager ro \<and>
     ro_manual_gating_policy ro' = ro_manual_gating_policy ro)"

lemma log_call_record_router:
  "log_call_record fmt request name args res ro = (line, ro') \<Longrightarrow>
     ro_last_dispatch ro' = ro_last_dispatch ro \<and> same_wiring ro ro'"
  by (auto simp: log_call_record_def Let_def same_wiring_def split: if_splits)

lemma dispatch_call_router:
  "ro_last_dispatch (oc_router (dispatch_call env request p d spec name args ro sc)) = ro_last_dispatch ro"
  "same_wiring ro (oc_router (dispatch_call env request p d spec name args ro sc))"
  by (auto simp: dispatch_call_def Let_def dest: log_call_record_router split: sum.split prod.split)

text \<open>Every call ends in one of two ways: refused at a gate, or sent with the latches open.\<close>

lemma locked_call_cases:
  obtains (refuse) e where "locked_call env request p d spec name args ro sc = refuse e CODE_FAILED_PRECONDITION ro sc"
  | (sent) ro' where "locked_call env request p d spec name args ro sc = dispatch_call env request p d spec name args ro' sc"
      and "\<not> latch_holds (re_latch_locked env) request spec" and "\<not> loss_holds (re_loss_locked env) request spec"
      and "fs_min_interval_ms spec = 0 \<longrightarrow> ro' = ro"
      and "fs_min_interval_ms spec \<noteq> 0 \<longrightarrow> interval_left ro request spec (re_now env) = None \<and>
             ro' = ro\<lparr> ro_last_dispatch := omap_put (dispatch_key request spec) (re_now env) (ro_last_dispatch ro) \<rparr>"
proof -
  have zero: "(0 < uint (fs_min_interval_ms spec)) = (fs_min_interval_ms spec \<noteq> 0)"
    using uint_nonnegative [of "fs_min_interval_ms spec"] by (auto simp: less_le uint_0_iff)
  show thesis
  proof (cases "latch_holds (re_latch_locked env) request spec \<or> loss_holds (re_loss_locked env) request spec")
    case True
    then show thesis
      by (intro that(1) [of "if latch_holds (re_latch_locked env) request spec then CE_Latched else CE_Device_Lost"])
        (auto simp: locked_call_def)
  next
    case False
    then have gates: "\<not> latch_holds (re_latch_locked env) request spec" "\<not> loss_holds (re_loss_locked env) request spec"
      by simp_all
    show thesis
    proof (cases "fs_min_interval_ms spec = 0")
      case True
      with gates show thesis by (intro that(2)) (simp_all add: locked_call_def)
    next
      case interval: False
      show thesis
      proof (cases "interval_left ro request spec (re_now env)")
        case None
        with gates interval show thesis by (intro that(2)) (simp_all add: locked_call_def zero)
      next
        case (Some left)
        with gates interval show thesis by (intro that(1)) (simp add: locked_call_def zero)
      qed
    qed
  qed
qed

lemma first_error_None: "first_error f xs = None \<longleftrightarrow> (\<forall>x \<in> set xs. f x = None)"
  by (induction xs) (auto split: option.splits)

lemma out_of_range_None:
  "out_of_range name lt lo hi x = None \<longleftrightarrow> (\<forall>l. lo = Some l \<longrightarrow> \<not> lt x l) \<and> (\<forall>h. hi = Some h \<longrightarrow> \<not> lt h x)"
  by (auto simp: out_of_range_def split: option.splits)

lemma in_bounds_map:
  "in_bounds (map_option f lo) (map_option f hi) x \<longleftrightarrow>
     (\<forall>l. lo = Some l \<longrightarrow> f l \<le> x) \<and> (\<forall>h. hi = Some h \<longrightarrow> x \<le> f h)"
  by (auto simp: in_bounds_def)

lemma validated_argument_conforms:
  assumes "validate_argument_type spec v = None" and "validate_argument_range spec v = None"
  shows "conforms spec v"
proof -
  have typed: "kind_has_type (as_type spec) (v_kind v)"
    using assms(1) by (simp add: validate_argument_type_def split: ValueType.splits if_splits)
  have double: "conforms spec v" if "as_type spec = VALUE_TYPE_DOUBLE" "v_kind v = K_Double d" for d
    using that assms(2)
    by (auto simp: validate_argument_range_def conforms_def out_of_range_None in_bounds_map double_value_def
        finite_bound_def f64_lt_scaled not_less split: option.splits)
  show ?thesis
    using typed double assms(2)
    by (cases "v_kind v"; cases "as_type spec")
      (simp_all add: validate_argument_range_def conforms_def out_of_range_None in_bounds_map int64_value_def
        uint64_value_def string_value_def not_less word_le_def word_less_def split: if_splits)
qed

lemma spec_map_Some: "map_of (spec_map specs) k = Some s \<Longrightarrow> s \<in> set specs \<and> as_name s = k"
  unfolding spec_map_def by (drule umap.get_fold_SomeD [where f = as_name and g = "\<lambda>s. s"]) auto

lemma validated_arguments_conform:
  assumes "validate_arguments specs args = None"
  shows "(\<forall>(k, v) \<in> set args. \<exists>s \<in> set specs. as_name s = k \<and> conforms s v) \<and>
         (\<forall>s \<in> set specs. as_required s \<longrightarrow> map_of args (as_name s) \<noteq> None)"
  using assms unfolding validate_arguments_def
  by (fastforce simp: first_error_None validate_argument_def dest: spec_map_Some validated_argument_conforms
      split: option.splits if_splits)

subsection \<open>Coercion\<close>

definition same_number :: "Value \<Rightarrow> Value \<Rightarrow> bool" where
  "same_number v v' = (value_number v' = value_number v \<and> (value_number v = None \<longrightarrow> v' = v))"

lemma sint_eq_uint_small:
  assumes "(w :: u64) \<le> INT64_MAX"
  shows "sint w = uint w"
proof -
  have "- (2 ^ 63) \<le> uint w" by (rule order_trans [OF _ uint_nonnegative]) simp
  with assms show ?thesis by (simp add: INT64_MAX_def word_le_def sint_uint signed_take_bit_int_eq_self)
qed

lemma uint_eq_sint_nonneg:
  assumes "0 \<le> sint (w :: u64)"
  shows "uint w = sint w"
  using assms sint_lt [of w] by (simp add: uint_sint take_bit_int_eq_self)

lemma coerce_value_number:
  assumes "coerce_value s v = Inr v'"
  shows "same_number v v'"
proof (cases "v_kind v")
  case (K_Int64 raw)
  have "\<bar>sint raw\<bar> \<le> 2 ^ 53" if "\<not> kMaxExactDouble < sint raw" "\<not> sint raw < - kMaxExactDouble"
    using that by (simp add: kMaxExactDouble_def)
  with K_Int64 assms show ?thesis
    by (cases "as_type s") (auto simp: coerce_value_def same_number_def value_number_def uint_eq_sint_nonneg
        f64_of_int_exact split: if_splits)
next
  case (K_Uint64 raw)
  have "\<bar>uint raw\<bar> \<le> 2 ^ 53" if "\<not> kMaxExactDouble < uint raw"
    using that by (simp add: kMaxExactDouble_def)
  with K_Uint64 assms show ?thesis
    by (cases "as_type s") (auto simp: coerce_value_def same_number_def value_number_def sint_eq_uint_small not_less
        f64_of_int_exact split: if_splits)
qed (use assms in \<open>cases "as_type s"; simp add: coerce_value_def same_number_def\<close>)+

lemma coerce_arguments_lookup:
  "coerce_arguments specs args = Inr args' \<Longrightarrow> rel_option same_number (map_of args k) (map_of args' k)"
proof (induction specs args arbitrary: args' rule: coerce_arguments.induct)
  case (1 args)
  then show ?case by (auto simp: option.rel_refl_strong same_number_def)
next
  case (2 s specs args)
  have trans: "same_number a b \<Longrightarrow> same_number b c \<Longrightarrow> same_number a c" for a b c
    by (auto simp: same_number_def)
  show ?case
  proof (cases "map_of args (as_name s)")
    case None
    with 2 show ?thesis by simp
  next
    case (Some v)
    with "2.prems" obtain v' where v': "coerce_value s v = Inr v'" by (auto split: sum.splits)
    with Some "2.prems" have rest: "coerce_arguments specs (omap_put (as_name s) v' args) = Inr args'" by simp
    have "rel_option same_number (map_of (omap_put (as_name s) v' args) k) (map_of args' k)"
      by (rule "2.IH"(2) [OF Some v' rest])
    then show ?thesis
      using Some coerce_value_number [OF v'] trans
      by (auto simp: omap_get_put option.rel_sel split: if_splits)
  qed
qed

lemma coerce_arguments_keys: "coerce_arguments specs args = Inr args' \<Longrightarrow> fst ` set args' = fst ` set args"
  using coerce_arguments_lookup [of specs args args']
  by (metis (no_types, opaque_lifting) option.rel_sel map_of_eq_None_iff subsetI subset_antisym)

subsection \<open>The path of a call\<close>

lemma parse_device_handle_Inr:
  "parse_device_handle h = Inr (p, d) \<Longrightarrow> h = p @ ''/'' @ d \<and> p \<noteq> [] \<and> d \<noteq> [] \<and> CHR ''/'' \<notin> set p"
  by (auto simp: parse_device_handle_def split_first_Some split: option.splits if_splits)

lemma resolve_function_spec_Inr:
  assumes "resolve_function_spec device request = Inr (spec, name)"
  shows "(name, spec) \<in> set (dc_functions_by_id (rd_capabilities device))"
    and "rq_function_id request \<noteq> 0 \<longrightarrow> fs_function_id spec = rq_function_id request"
    and "rq_function_name request \<noteq> [] \<longrightarrow> name = rq_function_name request"
  using assms unfolding resolve_function_spec_def validate_function_exists_def
  by (auto simp: find_Some_iff dest: map_of_SomeD nth_mem split: if_splits option.splits)

text \<open>What a call has passed when it gets to the provider lock.\<close>

definition reaches_lock ::
  "RouterEnv \<Rightarrow> CallRequest \<Rightarrow> CallRouter \<Rightarrow> string \<Rightarrow> string \<Rightarrow> RegisteredDevice \<Rightarrow> FunctionSpec \<Rightarrow> string \<Rightarrow> args_map \<Rightarrow> bool" where
  "reaches_lock env request ro p d device spec name args =
     (parse_device_handle (rq_device_handle request) = Inr (p, d) \<and> re_provider env p = Some True \<and>
      get_device_copy (ro_registry ro) p d = Some device \<and>
      resolve_function_spec device request = Inr (spec, name) \<and>
      (\<not> rq_safe_state request \<longrightarrow> mode_open env request ro spec) \<and>
      \<not> latch_holds (re_latch env) request spec \<and> \<not> loss_holds (re_loss env) request spec \<and>
      coerce_arguments (fs_args spec) (rq_args request) = Inr args \<and> validate_arguments (fs_args spec) args = None)"

lemma resolved_call_cases:
  "(\<exists>e code. resolved_call env request p d spec name ro sc = refuse e code ro sc \<and> code \<noteq> CODE_OK) \<or>
   (\<exists>args. resolved_call env request p d spec name ro sc = locked_call env request p d spec name args ro sc \<and>
      (\<not> rq_safe_state request \<longrightarrow> fs_allowed_modes spec \<noteq> [] \<longrightarrow>
         mode_allowed spec (if ro_has_mode_manager ro then mode_to_string (re_mode_allowed env) else ''MANUAL'')) \<and>
      \<not> latch_holds (re_latch env) request spec \<and> \<not> loss_holds (re_loss env) request spec \<and>
      coerce_arguments (fs_args spec) (rq_args request) = Inr args \<and> validate_arguments (fs_args spec) args = None)"
  unfolding resolved_call_def Let_def by (auto split: sum.split option.split)

lemma execute_call_resolved:
  "(\<exists>e code. execute_call env request ro sc = refuse e code ro sc \<and> code \<noteq> CODE_OK) \<or>
   (\<exists>p d device spec name. execute_call env request ro sc = resolved_call env request p d spec name ro sc \<and>
      (\<not> rq_safe_state request \<longrightarrow> ro_has_mode_manager ro \<longrightarrow> re_mode_idle env \<noteq> IDLE \<and>
         (re_mode_auto env = AUTO \<and> ro_manual_gating_policy ro = ''BLOCK'' \<longrightarrow> rq_is_automated request)) \<and>
      parse_device_handle (rq_device_handle request) = Inr (p, d) \<and> re_provider env p = Some True \<and>
      get_device_copy (ro_registry ro) p d = Some device \<and> resolve_function_spec device request = Inr (spec, name))"
proof -
  have "resolve_status e \<noteq> CODE_OK" for e by (simp add: resolve_status_def)
  then show ?thesis
    unfolding execute_call_def by (auto split: sum.split option.split prod.split)
qed

lemma execute_call_cases:
  obtains (refuse) e code where "execute_call env request ro sc = refuse e code ro sc" and "code \<noteq> CODE_OK"
  | (locked) p d device spec name args where
      "execute_call env request ro sc = locked_call env request p d spec name args ro sc"
      and "reaches_lock env request ro p d device spec name args"
  using execute_call_resolved [of env request ro sc]
proof (elim disjE exE conjE)
  fix p d device spec name
  assume pass: "execute_call env request ro sc = resolved_call env request p d spec name ro sc"
    "\<not> rq_safe_state request \<longrightarrow> ro_has_mode_manager ro \<longrightarrow> re_mode_idle env \<noteq> IDLE \<and>
       (re_mode_auto env = AUTO \<and> ro_manual_gating_policy ro = ''BLOCK'' \<longrightarrow> rq_is_automated request)"
    "parse_device_handle (rq_device_handle request) = Inr (p, d)" "re_provider env p = Some True"
    "get_device_copy (ro_registry ro) p d = Some device" "resolve_function_spec device request = Inr (spec, name)"
  show thesis
    using resolved_call_cases [of env request p d spec name ro sc]
  proof (elim disjE exE conjE)
    fix args
    assume "resolved_call env request p d spec name ro sc = locked_call env request p d spec name args ro sc"
      "\<not> rq_safe_state request \<longrightarrow> fs_allowed_modes spec \<noteq> [] \<longrightarrow>
         mode_allowed spec (if ro_has_mode_manager ro then mode_to_string (re_mode_allowed env) else ''MANUAL'')"
      "\<not> latch_holds (re_latch env) request spec" "\<not> loss_holds (re_loss env) request spec"
      "coerce_arguments (fs_args spec) (rq_args request) = Inr args" "validate_arguments (fs_args spec) args = None"
    with pass show thesis by (intro that(2)) (simp_all add: reaches_lock_def mode_open_def)
  qed (use pass(1) that(1) in simp)
qed (rule that(1))

text \<open>A call that was sent got there through the lock, with the latches open for it there too.\<close>

lemma execute_call_sent:
  assumes "oc_dispatch (execute_call env request ro sc) = Some (p, d, fid, name, args)"
  obtains device spec where "reaches_lock env request ro p d device spec name args" and "fid = fs_function_id spec"
    and "execute_call env request ro sc = locked_call env request p d spec name args ro sc"
    and "\<not> latch_holds (re_latch_locked env) request spec" and "\<not> loss_holds (re_loss_locked env) request spec"
proof (cases rule: execute_call_cases [of env request ro sc])
  case refuse
  with assms show thesis by simp
next
  case (locked p' d' device spec name' args')
  show thesis
  proof (cases rule: locked_call_cases [of env request p' d' spec name' args' ro sc])
    case refuse
    with assms locked show thesis by simp
  next
    case (sent ro')
    with assms locked show thesis by (intro that [of device spec]) auto
  qed
qed

lemma reaches_lock_offers:
  assumes "reaches_lock env request ro p d device spec name args"
  shows "rq_device_handle request = p @ ''/'' @ d" and "offers (ro_registry ro) (p @ ''/'' @ d) request spec name"
proof -
  from assms show "rq_device_handle request = p @ ''/'' @ d"
    unfolding reaches_lock_def by (blast dest: parse_device_handle_Inr)
  from assms have "resolve_function_spec device request = Inr (spec, name)"
    "get_device_by_handle_copy (ro_registry ro) (p @ ''/'' @ d) = Some device"
    by (simp_all add: reaches_lock_def get_device_copy_def)
  then show "offers (ro_registry ro) (p @ ''/'' @ d) request spec name"
    unfolding offers_def using resolve_function_spec_Inr by blast
qed

lemma latch_holds_actuating:
  "\<not> latch_holds latch request spec \<Longrightarrow> \<not> rq_safe_state request \<Longrightarrow> is_actuating spec \<Longrightarrow> latch = Some (True, admits) \<Longrightarrow>
     rq_fault_entry_hook request \<and> admits"
  by (simp add: latch_holds_def)

lemma loss_holds_actuating:
  "\<not> loss_holds loss request spec \<Longrightarrow> \<not> rq_safe_state request \<Longrightarrow> is_actuating spec \<Longrightarrow> rq_is_behavior_tree request \<Longrightarrow>
     loss = Some is_lost \<Longrightarrow> \<not> is_lost (rq_device_handle request)"
  by (simp add: loss_holds_def)

section \<open>Properties\<close>

text \<open>C1. A call that reaches a provider is for a function the named device has published and that
  answers to the selectors of the request. Unless it is a safe-state call, the mode admits it, and when the
  function actuates, the e-stop latch read under the provider lock is not engaged (a FAULT-entry
  hook may pass while the latch admits one), and a behaviour-tree call is not for a device held as lost.\<close>

theorem dispatch_admitted:
  assumes "oc_dispatch (execute_call env request ro sc) = Some (p, d, fid, name, args)"
  shows "\<exists>spec. rq_device_handle request = p @ ''/'' @ d \<and> re_provider env p = Some True \<and>
    offers (ro_registry ro) (p @ ''/'' @ d) request spec name \<and> fs_function_id spec = fid \<and>
    (rq_safe_state request \<or>
     mode_open env request ro spec \<and>
     (is_actuating spec \<longrightarrow>
       (\<forall>admits. re_latch_locked env = Some (True, admits) \<longrightarrow> rq_fault_entry_hook request \<and> admits) \<and>
       (\<forall>is_lost. rq_is_behavior_tree request \<longrightarrow> re_loss_locked env = Some is_lost \<longrightarrow> \<not> is_lost (p @ ''/'' @ d))))"
proof -
  from assms obtain device spec where r: "reaches_lock env request ro p d device spec name args"
    and fid: "fid = fs_function_id spec" and latch: "\<not> latch_holds (re_latch_locked env) request spec"
    and loss: "\<not> loss_holds (re_loss_locked env) request spec"
    by (rule execute_call_sent)
  note reach = reaches_lock_offers [OF r]
  have "re_provider env p = Some True" "rq_safe_state request \<or> mode_open env request ro spec"
    using r by (auto simp: reaches_lock_def)
  then show ?thesis
    using reach fid latch_holds_actuating [OF latch] loss_holds_actuating [OF loss] by metis
qed

text \<open>C14. The arguments a provider receives are described by the function's specification: known
  name, declared type, declared range or set of values, none required missing. The range of a double is
  guaranteed when the value and the declared bounds are finite; a NaN or an infinity is only known to have the
  declared type. And every argument stands for the number, or is the value, that the caller gave.\<close>

theorem dispatched_arguments_conform:
  assumes "oc_dispatch (execute_call env request ro sc) = Some (p, d, fid, name, args)"
  shows "\<exists>spec. offers (ro_registry ro) (p @ ''/'' @ d) request spec name \<and>
    (\<forall>(k, v) \<in> set args. \<exists>s \<in> set (fs_args spec). as_name s = k \<and> conforms s v) \<and>
    (\<forall>s \<in> set (fs_args spec). as_required s \<longrightarrow> map_of args (as_name s) \<noteq> None) \<and>
    (\<forall>k. rel_option same_number (map_of (rq_args request) k) (map_of args k))"
proof -
  from assms obtain device spec where r: "reaches_lock env request ro p d device spec name args"
    by (rule execute_call_sent)
  then have "validate_arguments (fs_args spec) args = None" "coerce_arguments (fs_args spec) (rq_args request) = Inr args"
    by (simp_all add: reaches_lock_def)
  then show ?thesis
    using reaches_lock_offers(2) [OF r] validated_arguments_conform coerce_arguments_lookup by blast
qed

text \<open>C30. The result says whether the provider was called. A call that was not dispatched failed
  with an error and a status other than OK, and left the router, the cache and the event streams as they
  were.\<close>

theorem refusal_has_no_effect:
  "let oc = execute_call env request ro sc in
    cr_dispatched (oc_result oc) = (oc_dispatch oc \<noteq> None) \<and>
    (\<not> cr_dispatched (oc_result oc) \<longrightarrow>
       \<not> cr_success (oc_result oc) \<and> cr_error (oc_result oc) \<noteq> None \<and> cr_status_code (oc_result oc) \<noteq> CODE_OK \<and>
       oc_router oc = ro \<and> oc_cache oc = sc \<and> oc_outs oc = [])"
proof (cases rule: execute_call_cases [of env request ro sc])
  case refuse
  then show ?thesis by (simp add: Let_def)
next
  case (locked p d device spec name args)
  then show ?thesis
    by (cases rule: locked_call_cases [of env request p d spec name args ro sc]) (simp_all add: Let_def)
qed

lemma validate_call_None:
  "validate_call request ro = None \<longleftrightarrow>
     (\<exists>p d device spec name args. parse_device_handle (rq_device_handle request) = Inr (p, d) \<and>
        get_device_copy (ro_registry ro) p d = Some device \<and> resolve_function_spec device request = Inr (spec, name) \<and>
        coerce_arguments (fs_args spec) (rq_args request) = Inr args \<and> validate_arguments (fs_args spec) args = None)"
proof -
  have by_handle: "parse_device_handle (rq_device_handle request) = Inr (p, d) \<Longrightarrow>
      get_device_by_handle_copy (ro_registry ro) (rq_device_handle request) = get_device_copy (ro_registry ro) p d" for p d
    by (drule parse_device_handle_Inr) (simp add: get_device_copy_def)
  show ?thesis
    unfolding validate_call_def validate_device_exists_def
    by (auto simp: by_handle split: option.splits sum.splits)
qed

lemma safe_state_dispatched:
  assumes "validate_call request ro = None" and "rq_safe_state request" and "\<And>p. re_provider env p = Some True"
  shows "oc_dispatch (execute_call env request ro sc) \<noteq> None"
proof -
  have "interval_left ro request spec t = None" for spec t
    using assms(2) by (simp add: interval_left_def)
  then show ?thesis
    using assms
    by (auto simp: validate_call_None execute_call_def resolved_call_def locked_call_def latch_holds_def loss_holds_def
        split: option.split)
qed

text \<open>\<open>validate_call\<close> is the dry run of \<open>execute_call\<close>: whatever was dispatched also validates, and
  what validates is dispatched when no gate applies (a safe-state call to an available provider).\<close>

lemma validate_call_is_dry_run:
  "(oc_dispatch (execute_call env request ro sc) \<noteq> None \<longrightarrow> validate_call request ro = None) \<and>
   (validate_call request ro = None \<and> rq_safe_state request \<and> (\<forall>p. re_provider env p = Some True) \<longrightarrow>
      oc_dispatch (execute_call env request ro sc) \<noteq> None)"
proof (intro conjI impI)
  assume "oc_dispatch (execute_call env request ro sc) \<noteq> None"
  then obtain p d fid name args where "oc_dispatch (execute_call env request ro sc) = Some (p, d, fid, name, args)"
    by (metis not_Some_eq prod_cases5)
  then obtain device spec where "reaches_lock env request ro p d device spec name args"
    by (rule execute_call_sent)
  then show "validate_call request ro = None"
    unfolding validate_call_None reaches_lock_def by blast
qed (use safe_state_dispatched in blast)

subsection \<open>Interval limits\<close>

text \<open>A sequence of calls to one router; the registry it reads may change between calls.\<close>

fun run_calls :: "(RouterEnv \<times> CallRequest \<times> DeviceRegistry) list \<Rightarrow> CallRouter \<Rightarrow> StateCache \<Rightarrow> outcome list" where
  "run_calls [] ro sc = []"
| "run_calls ((env, request, registry) # calls) ro sc =
     (let oc = execute_call env request (ro\<lparr> ro_registry := registry \<rparr>) sc
      in oc # run_calls calls (oc_router oc) (oc_cache oc))"

text \<open>Every function a registry publishes under a handle and a function id has the interval \<open>m\<close>.\<close>

definition limited :: "DeviceRegistry \<Rightarrow> string \<Rightarrow> u32 \<Rightarrow> u32 \<Rightarrow> bool" where
  "limited registry handle fid m =
     (case get_device_by_handle_copy registry handle of
        None \<Rightarrow> True
      | Some device \<Rightarrow> list_all (\<lambda>(name, spec). fs_function_id spec = fid \<longrightarrow> fs_min_interval_ms spec = m)
                        (dc_functions_by_id (rd_capabilities device)))"

lemma execute_call_last_dispatch:
  "ro_last_dispatch (oc_router (execute_call env request ro sc)) = ro_last_dispatch ro \<or>
   (\<exists>k. ro_last_dispatch (oc_router (execute_call env request ro sc)) = omap_put k (re_now env) (ro_last_dispatch ro))"
proof (cases rule: execute_call_cases [of env request ro sc])
  case (locked p d device spec name args)
  then show ?thesis
    by (cases rule: locked_call_cases [of env request p d spec name args ro sc])
      (auto simp: dispatch_call_router)
qed simp

lemma sent_limited:
  assumes "oc_dispatch (execute_call env request ro sc) = Some (p, d, fid, name, args)"
    and "limited (ro_registry ro) (p @ ''/'' @ d) fid m" and "m \<noteq> 0"
  defines "key \<equiv> (p @ ''/'' @ d) @ ''/'' @ nat_to_string (unat fid)"
  shows "ro_last_dispatch (oc_router (execute_call env request ro sc)) = omap_put key (re_now env) (ro_last_dispatch ro)"
    and "\<not> rq_safe_state request \<Longrightarrow> map_of (ro_last_dispatch ro) key = Some t \<Longrightarrow> ms_to_ns (uint m) \<le> re_now env - t"
proof -
  from assms(1) obtain device spec where r: "reaches_lock env request ro p d device spec name args"
    and fid: "fid = fs_function_id spec"
    and ex: "execute_call env request ro sc = locked_call env request p d spec name args ro sc"
    by (rule execute_call_sent)
  have key: "dispatch_key request spec = key"
    using reaches_lock_offers(1) [OF r] fid by (simp add: dispatch_key_def key_def)
  have m: "fs_min_interval_ms spec = m"
    using reaches_lock_offers(2) [OF r] assms(2) fid by (auto simp: offers_def limited_def list_all_iff)
  have sent: "interval_left ro request spec (re_now env) = None \<and>
      ro_last_dispatch (oc_router (locked_call env request p d spec name args ro sc)) = omap_put key (re_now env) (ro_last_dispatch ro)"
  proof (cases rule: locked_call_cases [of env request p d spec name args ro sc])
    case refuse
    with assms(1) ex show ?thesis by simp
  next
    case (sent ro')
    with m key assms(3) show ?thesis by (simp add: dispatch_call_router)
  qed
  with ex show "ro_last_dispatch (oc_router (execute_call env request ro sc)) = omap_put key (re_now env) (ro_last_dispatch ro)"
    by simp
  assume "\<not> rq_safe_state request" "map_of (ro_last_dispatch ro) key = Some t"
  with sent m key have "uint m \<le> ns_to_ms (re_now env - t)"
    by (simp add: interval_left_def Let_def split: if_splits)
  moreover have "0 < uint m" using assms(3) uint_nonnegative [of m] by (simp add: less_le uint_0_iff)
  ultimately show "ms_to_ns (uint m) \<le> re_now env - t" by (simp add: ms_le_ns_to_ms)
qed

lemma spacing_after:
  assumes "sorted (t # map (\<lambda>c. re_now (fst c)) calls)" and "\<forall>(env, request, registry) \<in> set calls. limited registry (p @ ''/'' @ d) fid m"
    and "m \<noteq> 0" and "map_of (ro_last_dispatch ro) ((p @ ''/'' @ d) @ ''/'' @ nat_to_string (unat fid)) = Some t"
    and "t0 \<le> t" and "j < length calls"
    and "oc_dispatch (run_calls calls ro sc ! j) = Some (p, d, fid, name, args)" and "\<not> rq_safe_state (fst (snd (calls ! j)))"
  shows "ms_to_ns (uint m) \<le> re_now (fst (calls ! j)) - t0"
  using assms
proof (induction calls arbitrary: t ro sc j)
  case Nil
  then show ?case by simp
next
  case (Cons c calls)
  obtain env request registry where c: "c = (env, request, registry)" by (cases c) auto
  define oc where "oc = execute_call env request (ro\<lparr> ro_registry := registry \<rparr>) sc"
  show ?case
  proof (cases j)
    case 0
    with Cons.prems c have "ms_to_ns (uint m) \<le> re_now env - t"
      by (intro sent_limited(2) [where ro = "ro\<lparr> ro_registry := registry \<rparr>"]) (simp_all add: Let_def)
    with 0 c Cons.prems(5) show ?thesis by simp
  next
    case (Suc i)
    have le: "t \<le> re_now env" "sorted (re_now env # map (\<lambda>c. re_now (fst c)) calls)"
      "sorted (t # map (\<lambda>c. re_now (fst c)) calls)"
      using Cons.prems(1) c by auto
    have "\<exists>t'. map_of (ro_last_dispatch (oc_router oc)) ((p @ ''/'' @ d) @ ''/'' @ nat_to_string (unat fid)) = Some t' \<and>
        (t' = t \<or> t' = re_now env)"
      using execute_call_last_dispatch [of env request "ro\<lparr> ro_registry := registry \<rparr>" sc] Cons.prems(4)
      by (auto simp: oc_def omap_get_put)
    then obtain t' where "map_of (ro_last_dispatch (oc_router oc)) ((p @ ''/'' @ d) @ ''/'' @ nat_to_string (unat fid)) = Some t'"
      and "t' = t \<or> t' = re_now env"
      by blast
    with Cons.prems Suc c le show ?thesis
      by (intro Cons.IH [where t = t' and j = i and ro = "oc_router oc" and sc = "oc_cache oc", THEN order_trans]) (auto simp: oc_def Let_def)
  qed
qed

text \<open>C31. Under a steady clock, two dispatches to one function with a minimum interval are at least that
  interval apart, whatever is called in between, unless the later one is a safe-state call.\<close>

theorem min_interval_spacing:
  assumes "sorted (map (\<lambda>c. re_now (fst c)) calls)"
    and "\<forall>(env, request, registry) \<in> set calls. limited registry (p @ ''/'' @ d) fid m" and "m \<noteq> 0"
    and "i < j" and "j < length calls"
    and "oc_dispatch (run_calls calls ro sc ! i) = Some (p, d, fid, name, args)"
    and "oc_dispatch (run_calls calls ro sc ! j) = Some (p, d, fid, name', args')"
    and "\<not> rq_safe_state (fst (snd (calls ! j)))"
  shows "ms_to_ns (uint m) \<le> re_now (fst (calls ! j)) - re_now (fst (calls ! i))"
  using assms
proof (induction calls arbitrary: i j ro sc)
  case Nil
  then show ?case by simp
next
  case (Cons c calls)
  obtain env request registry where c: "c = (env, request, registry)" by (cases c) auto
  define oc where "oc = execute_call env request (ro\<lparr> ro_registry := registry \<rparr>) sc"
  obtain j' where j: "j = Suc j'" using Cons.prems(4) by (cases j) auto
  show ?case
  proof (cases i)
    case 0
    with Cons.prems c have "ro_last_dispatch (oc_router oc) =
        omap_put ((p @ ''/'' @ d) @ ''/'' @ nat_to_string (unat fid)) (re_now env) (ro_last_dispatch (ro\<lparr> ro_registry := registry \<rparr>))"
      unfolding oc_def by (intro sent_limited(1)) (simp_all add: Let_def)
    then have "map_of (ro_last_dispatch (oc_router oc)) ((p @ ''/'' @ d) @ ''/'' @ nat_to_string (unat fid)) = Some (re_now env)"
      by (simp add: omap_get_put)
    with Cons.prems c j have "ms_to_ns (uint m) \<le> re_now (fst (calls ! j')) - re_now env"
      by (intro spacing_after [where t = "re_now env" and sc = "oc_cache oc"]) (auto simp: oc_def Let_def)
    with 0 c j show ?thesis by simp
  next
    case (Suc i')
    with Cons.prems c j Cons.IH [where i = i' and j = j' and ro = "oc_router oc" and sc = "oc_cache oc"] show ?thesis by (simp add: oc_def Let_def)
  qed
qed

section \<open>Witnesses\<close>

text \<open>One device \<open>p/d\<close> with an actuating function \<open>set\<close> (number 7, one unsigned argument up to 100,
  at most every 500 ms) and a call of it.\<close>

definition level_spec :: ArgSpec where
  "level_spec = \<lparr> as_name = ''level'', as_type = VALUE_TYPE_UINT64, as_required = True, as_min_double = None,
     as_max_double = None, as_min_int64 = None, as_max_int64 = None, as_min_uint64 = None, as_max_uint64 = Some 100,
     as_allowed_values = [], as_description = [], as_unit = [] \<rparr>"

definition level_function :: FunctionSpec where
  "level_function = \<lparr> fs_function_id = 7, fs_function_name = ''set'', fs_label = [], fs_args = [level_spec],
     fs_category = CATEGORY_ACTUATE, fs_allowed_modes = [''manual''], fs_min_interval_ms = 500, fs_requires_lease = False \<rparr>"

definition level_registry :: DeviceRegistry where
  "level_registry = \<lparr> dr_devices = [\<lparr> rd_provider_id = ''p'', rd_device_id = ''d'',
       rd_capabilities = \<lparr> dc_proto = \<lparr> pd_device_id = ''d'', pd_label = [], pd_type_id = [], pd_type_version = [], pd_tags = [] \<rparr>,
         dc_signals_by_id = [], dc_functions_by_id = [(''set'', level_function)] \<rparr> \<rparr>],
     dr_handle_to_index = [(''p/d'', 0)], dr_error = [] \<rparr>"

definition level_request :: CallRequest where
  "level_request = \<lparr> rq_device_handle = ''p/d'', rq_function_id = 0, rq_function_name = ''set'',
     rq_args = [(''level'', \<lparr> v_type = VALUE_TYPE_INT64, v_kind = K_Int64 40 \<rparr>)], rq_is_automated = False,
     rq_is_behavior_tree = False, rq_safe_state = False, rq_fault_entry_hook = False \<rparr>"

definition quiet_poll :: PollEnv where
  "quiet_poll = \<lparr> pe_provider = (\<lambda>_. P_Up), pe_steady = (\<lambda>_. 0), pe_shutting_down = (\<lambda>_. False), pe_read = (\<lambda>_ _. Inr []),
     pe_lost = (\<lambda>_. False), pe_poll_time = (\<lambda>_. 0), pe_clock = (\<lambda>_ _. 0) \<rparr>"

definition open_env :: "bool \<Rightarrow> time_ns \<Rightarrow> RouterEnv" where
  "open_env engaged now = \<lparr> re_mode_idle = MANUAL, re_mode_auto = MANUAL, re_mode_allowed = MANUAL, re_provider = (\<lambda>_. Some True),
     re_latch = Some (False, False), re_loss = None, re_latch_locked = Some (engaged, False), re_loss_locked = None,
     re_now = now, re_call = (\<lambda>_ _ _ _ _. Inr []), re_poll = quiet_poll, re_fmt = (\<lambda>_. []), re_status_name = (\<lambda>_. []) \<rparr>"

lemmas level_defs = level_spec_def level_function_def level_registry_def level_request_def open_env_def quiet_poll_def

definition level_sent :: args_map where
  "level_sent = [(''level'', \<lparr> v_type = VALUE_TYPE_UINT64, v_kind = K_Uint64 40 \<rparr>)]"

lemma level_dispatch:
  "oc_dispatch (execute_call (open_env False 0) level_request (new_router level_registry) (new_cache False False)) =
     Some (''p'', ''d'', 7, ''set'', level_sent)"
  by code_simp

theorem dispatch_admitted_witness:
  "oc_dispatch (execute_call (open_env False 0) level_request (new_router level_registry) (new_cache False False)) =
     Some (''p'', ''d'', 7, ''set'', level_sent) \<and>
   (\<exists>spec. fs_function_id spec = 7 \<and> mode_open (open_env False 0) level_request (new_router level_registry) spec)"
  using dispatch_admitted [OF level_dispatch] level_dispatch by (auto simp: level_request_def)

theorem dispatched_arguments_conform_witness:
  "\<exists>spec. offers level_registry ''p/d'' level_request spec ''set'' \<and> (\<exists>s \<in> set (fs_args spec). conforms s (snd (hd level_sent)))"
  using dispatched_arguments_conform [OF level_dispatch] by (auto simp: level_sent_def new_router_def)

lemma level_latched:
  "\<not> cr_dispatched (oc_result (execute_call (open_env True 0) level_request (new_router level_registry) (new_cache False False)))"
  by code_simp

theorem refusal_has_no_effect_witness:
  "\<not> cr_dispatched (oc_result (execute_call (open_env True 0) level_request (new_router level_registry) (new_cache False False))) \<and>
   cr_error (oc_result (execute_call (open_env True 0) level_request (new_router level_registry) (new_cache False False))) \<noteq> None"
  using refusal_has_no_effect [of "open_env True 0" level_request "new_router level_registry" "new_cache False False"] level_latched
  by (simp add: Let_def)

lemma level_valid: "validate_call (level_request\<lparr> rq_safe_state := True \<rparr>) (new_router level_registry) = None"
  by code_simp

theorem validate_call_is_dry_run_witness:
  "validate_call (level_request\<lparr> rq_safe_state := True \<rparr>) (new_router level_registry) = None \<and>
   oc_dispatch (execute_call (open_env True 0) (level_request\<lparr> rq_safe_state := True \<rparr>) (new_router level_registry)
     (new_cache False False)) \<noteq> None"
proof -
  have "\<forall>p. re_provider (open_env True 0) p = Some True" by (simp add: open_env_def)
  then show ?thesis
    using validate_call_is_dry_run [of "open_env True 0" "level_request\<lparr> rq_safe_state := True \<rparr>" "new_router level_registry"
        "new_cache False False"] level_valid
    by simp
qed

definition level_calls :: "(RouterEnv \<times> CallRequest \<times> DeviceRegistry) list" where
  "level_calls = [(open_env False 0, level_request, level_registry), (open_env False 400000000, level_request, level_registry),
     (open_env False 600000000, level_request, level_registry)]"

lemma level_calls_outcome:
  "map oc_dispatch (run_calls level_calls (new_router level_registry) (new_cache False False)) =
     [Some (''p'', ''d'', 7, ''set'', level_sent), None, Some (''p'', ''d'', 7, ''set'', level_sent)]"
  by code_simp

theorem min_interval_spacing_witness:
  "ms_to_ns 500 \<le> re_now (fst (level_calls ! 2)) - re_now (fst (level_calls ! 0))"
proof -
  have len: "length (run_calls level_calls (new_router level_registry) (new_cache False False)) = 3"
    using arg_cong [OF level_calls_outcome, of length] by simp
  have "oc_dispatch (run_calls level_calls (new_router level_registry) (new_cache False False) ! 0) = Some (''p'', ''d'', 7, ''set'', level_sent)"
    "oc_dispatch (run_calls level_calls (new_router level_registry) (new_cache False False) ! 2) = Some (''p'', ''d'', 7, ''set'', level_sent)"
    using arg_cong [OF level_calls_outcome, of "\<lambda>xs. xs ! 0"] arg_cong [OF level_calls_outcome, of "\<lambda>xs. xs ! 2"] len
    by simp_all
  moreover have "sorted (map (\<lambda>c. re_now (fst c)) level_calls)" by code_simp
  moreover have "\<forall>(env, request, registry) \<in> set level_calls. limited registry (''p'' @ ''/'' @ ''d'') 7 500" by code_simp
  moreover have "\<not> rq_safe_state (fst (snd (level_calls ! 2)))" by code_simp
  moreover have "length level_calls = 3" by (simp add: level_calls_def)
  ultimately have "ms_to_ns (uint (500 :: u32)) \<le> re_now (fst (level_calls ! 2)) - re_now (fst (level_calls ! 0))"
    by (intro min_interval_spacing [where p = "''p''" and d = "''d''" and fid = 7]) simp_all
  then show ?thesis by simp
qed

end
