(* ===== verification/Runtime_Config.thy ===== *)
theory Runtime_Config
  imports Provider_Supervisor Parameter_Manager
begin

text \<open>
  \<open>core/runtime/config.hpp\<close> and the checks of \<open>core/runtime/config.cpp\<close>: the configuration
  records with their defaults, and \<open>validate_config\<close>, which every loaded configuration passes before
  the runtime starts. A check is a pair of its violation and its error; the code returns at the first
  violated one. Warnings are log lines and are left out.
\<close>

section \<open>Configuration records\<close>

datatype GatingPolicy = BLOCK | OVERRIDE

datatype OnTerminal = REPEAT | STOP

record ProviderConfig =
  pv_id :: string
  pv_command :: string
  pv_args :: "string list"
  pv_timeout_ms :: int
  pv_hello_timeout_ms :: int
  pv_ready_timeout_ms :: int
  pv_restart_policy :: RestartPolicyConfig

record RuntimeModeConfig =
  rc_name :: string
  rc_shutdown_timeout_ms :: int
  rc_startup_timeout_ms :: int
  rc_data_dir :: string

record HttpConfig =
  ht_enabled :: bool
  ht_bind :: string
  ht_port :: int
  ht_cors_allowed_origins :: "string list"
  ht_cors_allow_credentials :: bool
  ht_thread_pool_size :: int
  ht_auth_enabled :: bool
  ht_auth_token :: string
  ht_auth_exempt_loopback :: bool
  ht_allow_insecure_bind :: bool
  ht_tls_cert_path :: string
  ht_tls_key_path :: string

record ParameterConfig =
  pa_name :: string
  pa_type :: ParameterType
  pa_default_value :: ParameterValue
  pa_min :: "f64 option"
  pa_max :: "f64 option"
  pa_allowed_values :: "string list"

record ModeTransitionCallConfig =
  cc_device_handle :: string
  cc_function_id :: u32
  cc_function_name :: string
  cc_args :: "(string \<times> ParameterValue) list"

record ModeTransitionHookConfig =
  hk_from :: string
  hk_to :: string
  hk_fail_on_error :: bool
  hk_calls :: "ModeTransitionCallConfig list"

record ModeTransitionHooksConfig =
  hg_before_transition :: "ModeTransitionHookConfig list"
  hg_after_transition :: "ModeTransitionHookConfig list"

record SafeStateConfig =
  sf_hooks :: "ModeTransitionCallConfig list"
  sf_setpoints :: "ModeTransitionCallConfig list"
  sf_zero_is_safe :: bool

datatype StartupOutputs = SU_SafeState | SU_Leave

record StopChainStatusConfig =
  st_signal :: string
  st_active :: bool

datatype StopChainExpect = PowerLoss | ReportsEstop

record StopChainConfig =
  ch_status :: "StopChainStatusConfig option"
  ch_devices :: "string list"
  ch_expectations :: "(string \<times> StopChainExpect) list"

record SafetyConfig =
  sy_safe_state :: SafeStateConfig
  sy_on_startup :: StartupOutputs
  sy_stop_chain :: StopChainConfig

record AutomationConfig =
  au_enabled :: bool
  au_behavior_tree :: string
  au_tick_rate_hz :: int
  au_manual_gating_policy :: GatingPolicy
  au_on_terminal :: OnTerminal
  au_max_consecutive_call_failures :: int
  au_parameters :: "ParameterConfig list"
  au_mode_transition_hooks :: ModeTransitionHooksConfig

record HealthConfig =
  hl_warn_after_ms :: int
  hl_stale_after_ms :: int
  hl_excluded_signals :: "(string \<times> string list) list"

text \<open>The telemetry section is read by the sink only and is not checked here.\<close>

record RuntimeConfig =
  cf_runtime :: RuntimeModeConfig
  cf_http :: HttpConfig
  cf_providers :: "ProviderConfig list"
  cf_polling_interval_ms :: int
  cf_logging_level :: string
  cf_automation :: AutomationConfig
  cf_safety :: SafetyConfig
  cf_health :: HealthConfig
  cf_config_dir :: string

section \<open>Helpers\<close>

definition parse_gating_policy :: "string \<Rightarrow> GatingPolicy option" where
  "parse_gating_policy policy_str =
     (if policy_str = ''BLOCK'' then Some BLOCK else if policy_str = ''OVERRIDE'' then Some OVERRIDE else None)"

fun gating_policy_to_string :: "GatingPolicy \<Rightarrow> string" where
  "gating_policy_to_string BLOCK = ''BLOCK''"
| "gating_policy_to_string OVERRIDE = ''OVERRIDE''"

definition is_valid_mode_name :: "string \<Rightarrow> bool" where
  "is_valid_mode_name mode_name = (mode_name \<in> {''MANUAL'', ''AUTO'', ''IDLE'', ''FAULT'', ''*''})"

definition is_loopback_bind :: "string \<Rightarrow> bool" where
  "is_loopback_bind bind =
     (bind = ''127.0.0.1'' \<or> bind = ''::1'' \<or> bind = ''localhost'' \<or> prefix ''127.'' bind)"

text \<open>\<open>is_handle\<close>: one turn per character and one for the end; \<open>fresh\<close> says that no character of the
  current part has been seen. The count so far, or \<open>None\<close> for an empty part.\<close>

fun count_parts :: "nat \<Rightarrow> bool \<Rightarrow> string \<Rightarrow> nat option" where
  "count_parts n fresh [] = (if fresh then None else Some n)"
| "count_parts n fresh (c # cs) =
     (if c = CHR ''/'' then if fresh then None else count_parts (Suc n) True cs
      else count_parts n False cs)"

definition is_handle :: "string \<Rightarrow> nat \<Rightarrow> bool" where
  "is_handle value parts = (count_parts 1 True value = Some parts)"

section \<open>Validation\<close>

datatype config_error = Bad_Shutdown_Timeout | Bad_Startup_Timeout | Bad_Port | Bad_Thread_Pool | Cors_Wildcard_Credentials
  | Auth_Without_Token | Insecure_Bind string | Tls_Half_Configured | No_Providers | Provider_No_Id
  | Duplicate_Provider string | Provider_No_Command string | Bad_Provider_Timeout | Bad_Hello_Timeout
  | Bad_Ready_Timeout | Bad_Max_Attempts string | Empty_Backoff string | Backoff_Length string nat int
  | Negative_Backoff string | Bad_Restart_Timeout string | Bad_Success_Reset string | Bad_Polling_Interval
  | Negative_Staleness | Staleness_Order | Bad_Log_Level string | No_Behavior_Tree | Bad_Tick_Rate
  | Bad_Max_Call_Failures | Parameter_No_Name | Parameter_Default_Type string string string
  | Parameter_Bounds_Not_Numeric string | Parameter_Min_Above_Max string | Parameter_Values_Not_String string
  | Hook_From string nat | Hook_To string nat | Hook_No_Calls string nat
  | Call_No_Device string nat nat | Call_No_Selector string nat nat

text \<open>The error of the first violated check.\<close>

fun first_violation :: "(bool \<times> 'e) list \<Rightarrow> 'e option" where
  "first_violation [] = None"
| "first_violation ((violated, e) # checks) = (if violated then Some e else first_violation checks)"

definition runtime_checks :: "RuntimeModeConfig \<Rightarrow> (bool \<times> config_error) list" where
  "runtime_checks r =
     [(rc_shutdown_timeout_ms r < 500 \<or> 30000 < rc_shutdown_timeout_ms r, Bad_Shutdown_Timeout),
      (rc_startup_timeout_ms r < 5000 \<or> 300000 < rc_startup_timeout_ms r, Bad_Startup_Timeout)]"

definition http_checks :: "HttpConfig \<Rightarrow> (bool \<times> config_error) list" where
  "http_checks h =
     (if ht_enabled h then
       [(ht_port h < 1 \<or> 65535 < ht_port h, Bad_Port),
        (ht_thread_pool_size h < 1, Bad_Thread_Pool),
        (ht_cors_allow_credentials h \<and> ''*'' \<in> set (ht_cors_allowed_origins h), Cors_Wildcard_Credentials),
        (ht_auth_enabled h \<and> ht_auth_token h = [], Auth_Without_Token),
        (\<not> is_loopback_bind (ht_bind h) \<and> \<not> ht_auth_enabled h \<and> \<not> ht_allow_insecure_bind h, Insecure_Bind (ht_bind h)),
        ((ht_tls_cert_path h = []) \<noteq> (ht_tls_key_path h = []), Tls_Half_Configured)]
      else [])"

definition restart_policy_checks :: "string \<Rightarrow> RestartPolicyConfig \<Rightarrow> (bool \<times> config_error) list" where
  "restart_policy_checks provider_id p =
     (if rp_enabled p then
       [(rp_max_attempts p < 1, Bad_Max_Attempts provider_id),
        (rp_backoff_ms p = [], Empty_Backoff provider_id),
        (int (length (rp_backoff_ms p)) \<noteq> rp_max_attempts p,
           Backoff_Length provider_id (length (rp_backoff_ms p)) (rp_max_attempts p)),
        (\<exists>b \<in> set (rp_backoff_ms p). b < 0, Negative_Backoff provider_id),
        (rp_timeout_ms p < 1000, Bad_Restart_Timeout provider_id),
        (rp_success_reset_ms p < 0, Bad_Success_Reset provider_id)]
      else [])"

text \<open>The loop over the providers, with the ids seen so far.\<close>

fun provider_checks :: "string list \<Rightarrow> ProviderConfig list \<Rightarrow> (bool \<times> config_error) list" where
  "provider_checks seen [] = []"
| "provider_checks seen (p # ps) =
     [(pv_id p = [], Provider_No_Id),
      (pv_id p \<in> set seen, Duplicate_Provider (pv_id p)),
      (pv_command p = [], Provider_No_Command (pv_id p)),
      (pv_timeout_ms p < 100, Bad_Provider_Timeout),
      (pv_hello_timeout_ms p < 100, Bad_Hello_Timeout),
      (pv_ready_timeout_ms p < 1000, Bad_Ready_Timeout)] @
     restart_policy_checks (pv_id p) (pv_restart_policy p) @ provider_checks (pv_id p # seen) ps"

definition health_checks :: "HealthConfig \<Rightarrow> (bool \<times> config_error) list" where
  "health_checks h =
     [(hl_warn_after_ms h < 0 \<or> hl_stale_after_ms h < 0, Negative_Staleness),
      (0 < hl_warn_after_ms h \<and> 0 < hl_stale_after_ms h \<and> hl_stale_after_ms h \<le> hl_warn_after_ms h, Staleness_Order)]"

definition parameter_checks :: "ParameterConfig \<Rightarrow> (bool \<times> config_error) list" where
  "parameter_checks p =
     [(pa_name p = [], Parameter_No_Name),
      (\<not> parameter_value_matches_type (pa_type p) (pa_default_value p),
         Parameter_Default_Type (pa_name p) (parameter_type_to_string (pa_type p))
           (parameter_value_type_name (pa_default_value p))),
      (pa_type p \<noteq> PT_DOUBLE \<and> pa_type p \<noteq> PT_INT64 \<and> (pa_min p \<noteq> None \<or> pa_max p \<noteq> None),
         Parameter_Bounds_Not_Numeric (pa_name p)),
      (case (pa_min p, pa_max p) of (Some lo, Some hi) \<Rightarrow> f64_lt hi lo | _ \<Rightarrow> False, Parameter_Min_Above_Max (pa_name p)),
      (pa_type p \<noteq> PT_STRING \<and> pa_allowed_values p \<noteq> [], Parameter_Values_Not_String (pa_name p))]"

text \<open>Calls are named in errors by the list they are in, the hook and the position.\<close>

fun call_checks :: "string \<Rightarrow> nat \<Rightarrow> nat \<Rightarrow> ModeTransitionCallConfig list \<Rightarrow> (bool \<times> config_error) list" where
  "call_checks path hook i [] = []"
| "call_checks path hook i (c # cs) =
     [(cc_device_handle c = [], Call_No_Device path hook i),
      (cc_function_id c = 0 \<and> cc_function_name c = [], Call_No_Selector path hook i)] @ call_checks path hook (Suc i) cs"

fun hook_checks :: "string \<Rightarrow> nat \<Rightarrow> ModeTransitionHookConfig list \<Rightarrow> (bool \<times> config_error) list" where
  "hook_checks grp i [] = []"
| "hook_checks grp i (h # hs) =
     [(hk_from h \<noteq> [] \<and> \<not> is_valid_mode_name (hk_from h), Hook_From grp i),
      (hk_to h \<noteq> [] \<and> \<not> is_valid_mode_name (hk_to h), Hook_To grp i),
      (hk_calls h = [], Hook_No_Calls grp i)] @ call_checks grp i 0 (hk_calls h) @ hook_checks grp (Suc i) hs"

definition automation_checks :: "AutomationConfig \<Rightarrow> (bool \<times> config_error) list" where
  "automation_checks a =
     (if au_enabled a then
       [(au_behavior_tree a = [], No_Behavior_Tree),
        (au_tick_rate_hz a < 1 \<or> 1000 < au_tick_rate_hz a, Bad_Tick_Rate),
        (au_max_consecutive_call_failures a < 1, Bad_Max_Call_Failures)] @
       concat (map parameter_checks (au_parameters a)) @
       hook_checks ''before_transition'' 0 (hg_before_transition (au_mode_transition_hooks a)) @
       hook_checks ''after_transition'' 0 (hg_after_transition (au_mode_transition_hooks a))
      else [])"

definition validate_config :: "RuntimeConfig \<Rightarrow> config_error option" where
  "validate_config config = first_violation
     (runtime_checks (cf_runtime config) @ http_checks (cf_http config) @
      [(cf_providers config = [], No_Providers)] @ provider_checks [] (cf_providers config) @
      [(cf_polling_interval_ms config < 100, Bad_Polling_Interval)] @ health_checks (cf_health config) @
      [(cf_logging_level config \<notin> {''debug'', ''info'', ''warn'', ''error''}, Bad_Log_Level (cf_logging_level config))] @
      automation_checks (cf_automation config) @
      call_checks ''hooks'' 0 0 (sf_hooks (sy_safe_state (cf_safety config))) @
      call_checks ''setpoints'' 0 0 (sf_setpoints (sy_safe_state (cf_safety config))))"

section \<open>Specification\<close>

text \<open>A call names a device and a function.\<close>

definition call_named :: "ModeTransitionCallConfig \<Rightarrow> bool" where
  "call_named c = (cc_device_handle c \<noteq> [] \<and> (cc_function_id c \<noteq> 0 \<or> cc_function_name c \<noteq> []))"

text \<open>The REST surface: reachable from the network only with a token or on explicit request.\<close>

definition exposure_safe :: "HttpConfig \<Rightarrow> bool" where
  "exposure_safe h = (\<not> ht_enabled h \<or> is_loopback_bind (ht_bind h) \<or> ht_allow_insecure_bind h \<or>
     (ht_auth_enabled h \<and> ht_auth_token h \<noteq> []))"

definition hook_named :: "ModeTransitionHookConfig \<Rightarrow> bool" where
  "hook_named h = ((hk_from h = [] \<or> is_valid_mode_name (hk_from h)) \<and> (hk_to h = [] \<or> is_valid_mode_name (hk_to h)) \<and>
     hk_calls h \<noteq> [] \<and> (\<forall>c \<in> set (hk_calls h). call_named c))"

section \<open>Lemmas\<close>

lemma first_violation_None [simp]: "first_violation checks = None \<longleftrightarrow> (\<forall>(violated, e) \<in> set checks. \<not> violated)"
  by (induction checks rule: first_violation.induct) auto

lemma call_checks_pass: "(\<forall>(violated, e) \<in> set (call_checks path hook i cs). \<not> violated) \<longleftrightarrow> (\<forall>c \<in> set cs. call_named c)"
  by (induction path hook i cs rule: call_checks.induct) (auto simp: call_named_def)

lemma hook_checks_pass: "(\<forall>(violated, e) \<in> set (hook_checks grp i hs). \<not> violated) \<longleftrightarrow> (\<forall>h \<in> set hs. hook_named h)"
proof (induction grp i hs rule: hook_checks.induct)
  case (2 grp i h hs)
  then show ?case
    unfolding hook_checks.simps set_append ball_Un call_checks_pass by (simp add: hook_named_def)
qed simp

lemma restart_policy_checks_pass:
  "(\<forall>(violated, e) \<in> set (restart_policy_checks pid p). \<not> violated) \<Longrightarrow> rp_enabled p \<Longrightarrow> policy_ok p \<and> 1000 \<le> rp_timeout_ms p"
  by (auto simp: restart_policy_checks_def policy_ok_def not_less)

lemma provider_checks_pass:
  "(\<forall>(violated, e) \<in> set (provider_checks seen ps). \<not> violated) \<Longrightarrow>
     distinct (map pv_id ps) \<and> set seen \<inter> pv_id ` set ps = {} \<and>
     (\<forall>p \<in> set ps. pv_id p \<noteq> [] \<and> pv_command p \<noteq> [] \<and>
        (rp_enabled (pv_restart_policy p) \<longrightarrow> policy_ok (pv_restart_policy p)))"
proof (induction seen ps rule: provider_checks.induct)
  case (2 seen p ps)
  from "2.prems" have head: "pv_id p \<noteq> []" "pv_id p \<notin> set seen" "pv_command p \<noteq> []"
    and policy: "\<forall>(violated, e) \<in> set (restart_policy_checks (pv_id p) (pv_restart_policy p)). \<not> violated"
    and rest: "\<forall>(violated, e) \<in> set (provider_checks (pv_id p # seen) ps). \<not> violated"
    unfolding provider_checks.simps set_append ball_Un by simp_all
  from "2.IH" [OF rest] head restart_policy_checks_pass [OF policy] show ?case by auto
qed simp

lemma validate_config_parts:
  assumes "validate_config config = None"
  shows "\<forall>(violated, e) \<in> set (http_checks (cf_http config)). \<not> violated"
    and "cf_providers config \<noteq> []"
    and "\<forall>(violated, e) \<in> set (provider_checks [] (cf_providers config)). \<not> violated"
    and "\<forall>(violated, e) \<in> set (automation_checks (cf_automation config)). \<not> violated"
    and "\<forall>(violated, e) \<in> set (call_checks ''hooks'' 0 0 (sf_hooks (sy_safe_state (cf_safety config)))). \<not> violated"
    and "\<forall>(violated, e) \<in> set (call_checks ''setpoints'' 0 0 (sf_setpoints (sy_safe_state (cf_safety config)))). \<not> violated"
    and "100 \<le> cf_polling_interval_ms config"
  using assms unfolding validate_config_def first_violation_None set_append ball_Un by simp_all

lemma automation_checks_pass:
  assumes "\<forall>(violated, e) \<in> set (automation_checks a). \<not> violated" and "au_enabled a"
  shows "\<forall>h \<in> set (hg_before_transition (au_mode_transition_hooks a)) \<union> set (hg_after_transition (au_mode_transition_hooks a)).
           hook_named h"
    and "\<forall>p \<in> set (au_parameters a). parameter_value_matches_type (pa_type p) (pa_default_value p)"
proof -
  from assms have "\<forall>(violated, e) \<in> set (hook_checks ''before_transition'' 0 (hg_before_transition (au_mode_transition_hooks a))). \<not> violated"
    "\<forall>(violated, e) \<in> set (hook_checks ''after_transition'' 0 (hg_after_transition (au_mode_transition_hooks a))). \<not> violated"
    "\<forall>p \<in> set (au_parameters a). \<forall>(violated, e) \<in> set (parameter_checks p). \<not> violated"
    unfolding automation_checks_def by (simp_all only: if_True set_append ball_Un set_concat set_map) auto
  then show "\<forall>h \<in> set (hg_before_transition (au_mode_transition_hooks a)) \<union> set (hg_after_transition (au_mode_transition_hooks a)).
      hook_named h"
    "\<forall>p \<in> set (au_parameters a). parameter_value_matches_type (pa_type p) (pa_default_value p)"
    by (simp_all only: hook_checks_pass ball_Un) (simp_all add: parameter_checks_def)
qed

section \<open>Properties\<close>

text \<open>A configuration that passes validation has what the other components rely on: at least one
  provider, distinct provider ids, a well-formed schedule in every enabled restart policy, a REST
  surface that is not open to the network without a token (unless that was asked for), and safe-state
  calls and transition hooks that name a device, a function and valid modes.\<close>

lemma validated_config_sound:
  assumes "validate_config config = None"
  shows "cf_providers config \<noteq> [] \<and> distinct (map pv_id (cf_providers config)) \<and>
    (\<forall>p \<in> set (cf_providers config). rp_enabled (pv_restart_policy p) \<longrightarrow> policy_ok (pv_restart_policy p)) \<and>
    exposure_safe (cf_http config) \<and>
    (\<forall>c \<in> set (sf_hooks (sy_safe_state (cf_safety config))) \<union> set (sf_setpoints (sy_safe_state (cf_safety config))).
       call_named c) \<and>
    (au_enabled (cf_automation config) \<longrightarrow>
      (\<forall>h \<in> set (hg_before_transition (au_mode_transition_hooks (cf_automation config))) \<union>
            set (hg_after_transition (au_mode_transition_hooks (cf_automation config))). hook_named h))"
proof -
  note parts = validate_config_parts [OF assms]
  have "exposure_safe (cf_http config)"
    using parts(1) by (auto simp: http_checks_def exposure_safe_def split: if_splits)
  moreover have "\<forall>c \<in> set (sf_hooks (sy_safe_state (cf_safety config))) \<union> set (sf_setpoints (sy_safe_state (cf_safety config))).
      call_named c"
    using parts(5,6) unfolding call_checks_pass ball_Un by blast
  ultimately show ?thesis
    using parts(2) provider_checks_pass [OF parts(3)] automation_checks_pass(1) [OF parts(4)] by blast
qed

text \<open>A minimal configuration: one supervised provider, no automation, one safe-state hook.\<close>

definition small_config :: RuntimeConfig where
  "small_config = \<lparr>
     cf_runtime = \<lparr> rc_name = [], rc_shutdown_timeout_ms = 2000, rc_startup_timeout_ms = 30000, rc_data_dir = [] \<rparr>,
     cf_http = \<lparr> ht_enabled = True, ht_bind = ''127.0.0.1'', ht_port = 8080, ht_cors_allowed_origins = [],
       ht_cors_allow_credentials = False, ht_thread_pool_size = 40, ht_auth_enabled = False, ht_auth_token = [],
       ht_auth_exempt_loopback = False, ht_allow_insecure_bind = False, ht_tls_cert_path = [], ht_tls_key_path = [] \<rparr>,
     cf_providers = [\<lparr> pv_id = ''sim0'', pv_command = ''sim'', pv_args = [], pv_timeout_ms = 5000,
       pv_hello_timeout_ms = 5000, pv_ready_timeout_ms = 60000,
       pv_restart_policy = default_restart_policy\<lparr> rp_enabled := True \<rparr> \<rparr>],
     cf_polling_interval_ms = 500, cf_logging_level = ''info'',
     cf_automation = \<lparr> au_enabled = False, au_behavior_tree = [], au_tick_rate_hz = 10, au_manual_gating_policy = BLOCK,
       au_on_terminal = REPEAT, au_max_consecutive_call_failures = 3, au_parameters = [],
       au_mode_transition_hooks = \<lparr> hg_before_transition = [], hg_after_transition = [] \<rparr> \<rparr>,
     cf_safety = \<lparr> sy_safe_state = \<lparr> sf_hooks = [\<lparr> cc_device_handle = ''sim0/m'', cc_function_id = 0,
         cc_function_name = ''stop'', cc_args = [] \<rparr>], sf_setpoints = [], sf_zero_is_safe = False \<rparr>,
       sy_on_startup = SU_SafeState, sy_stop_chain = \<lparr> ch_status = None, ch_devices = [], ch_expectations = [] \<rparr> \<rparr>,
     cf_health = \<lparr> hl_warn_after_ms = 0, hl_stale_after_ms = 0, hl_excluded_signals = [] \<rparr>, cf_config_dir = ''/etc/anolis'' \<rparr>"

lemma small_config_valid: "validate_config small_config = None"
  by code_simp

theorem validated_config_sound_witness:
  "validate_config small_config = None \<and> exposure_safe (cf_http small_config) \<and>
   policy_ok (pv_restart_policy (hd (cf_providers small_config)))"
  using validated_config_sound [OF small_config_valid] small_config_valid
  by (simp add: small_config_def)

end
