(* ===== verification/Latch_Store.thy ===== *)
theory Latch_Store
  imports Protocol
begin

text \<open>
  \<open>core/control/latch_store.cpp\<close>: the software stop's latch on disk. The file system is a map from
  paths (lists of components) to contents; what the operating system answers (errors of
  \<open>create_directories\<close>, \<open>rename\<close>, \<open>fsync\<close> and so on) is in a record per operation. \<open>save\<close> is the
  list of the file systems it passes through, so that an interruption at any point is covered. A write
  is in the file system at once: the end of the process is covered, a power cut that undoes writes not yet synced is not.
  The JSON library is a parameter: \<open>parse\<close> and \<open>dump\<close>. \<open>dump\<close> may throw (\<open>None\<close>), as the library does
  on a string that is not valid UTF-8.
\<close>

section \<open>Documents and files\<close>

datatype json = JNull | JBool bool | JInteger int | JFloat f64 | JString string | JArray "json list"
  | JObject "(string \<times> json) list"

type_synonym path = "string list"
type_synonym files = "path \<rightharpoonup> string"

record LatchStore =
  la_file :: path
  la_config_dir :: string

datatype latch_state = Absent | Latched | Unreadable

record PersistedLatch =
  pl_state :: latch_state
  pl_latched_at_epoch_ms :: "u64 option"

section \<open>Path\<close>

unbundle bit_operations_syntax

definition fnv_step :: "u8 \<Rightarrow> u64 \<Rightarrow> u64" where
  "fnv_step c hash = (hash XOR ucast c) * 0x100000001b3"

definition fnv1a :: "string \<Rightarrow> u64" where
  "fnv1a s = fold fnv_step (map (\<lambda>c. of_nat (of_char c)) s) 0xcbf29ce484222325"

definition hex_digit :: "nat \<Rightarrow> char" where
  "hex_digit n = (if n < 10 then char_of (48 + n) else char_of (87 + n))"

text \<open>\<open>{:016x}\<close>.\<close>

definition hex16 :: "u64 \<Rightarrow> string" where
  "hex16 w = map (\<lambda>i. hex_digit (unat (take_bit 4 (drop_bit (4 * i) w)))) (rev [0..<16])"

definition path_for :: "path \<Rightarrow> string \<Rightarrow> path" where
  "path_for data_dir config_dir = data_dir @ [''estop'', hex16 (fnv1a config_dir) @ ''.json'']"

definition new_store :: "path \<Rightarrow> string \<Rightarrow> LatchStore" where
  "new_store data_dir config_dir = \<lparr> la_file = path_for data_dir config_dir, la_config_dir = config_dir \<rparr>"

section \<open>Load\<close>

record LoadEnv =
  le_exists_error :: bool
  le_read_ok :: bool

definition unreadable :: PersistedLatch where
  "unreadable = \<lparr> pl_state = Unreadable, pl_latched_at_epoch_ms = None \<rparr>"

text \<open>A document that is a latch record of this configuration.\<close>

definition read_record :: "string \<Rightarrow> json option \<Rightarrow> PersistedLatch" where
  "read_record config_dir doc = (case doc of
     Some (JObject members) \<Rightarrow>
       if map_of members ''latched'' \<noteq> Some (JBool True) then unreadable
       else if map_of members ''config_dir'' \<noteq> Some (JString config_dir) then unreadable
       else \<lparr> pl_state = Latched,
              pl_latched_at_epoch_ms = (case map_of members ''latched_at_epoch_ms'' of
                  Some (JInteger i) \<Rightarrow> Some (word_of_int i) | _ \<Rightarrow> None) \<rparr>
   | _ \<Rightarrow> unreadable)"

definition load :: "(string \<Rightarrow> json option) \<Rightarrow> LoadEnv \<Rightarrow> LatchStore \<Rightarrow> files \<Rightarrow> PersistedLatch" where
  "load parse env st fs =
     (if le_exists_error env then unreadable
      else case fs (la_file st) of
        None \<Rightarrow> \<lparr> pl_state = Absent, pl_latched_at_epoch_ms = None \<rparr>
      | Some content \<Rightarrow> if \<not> le_read_ok env then unreadable else read_record (la_config_dir st) (parse content))"

section \<open>Save and remove\<close>

definition latch_doc :: "LatchStore \<Rightarrow> u64 \<Rightarrow> string \<Rightarrow> json" where
  "latch_doc st latched_at reason = JObject
     [(''config_dir'', JString (la_config_dir st)), (''latched'', JBool True),
      (''latched_at_epoch_ms'', JInteger (sint latched_at)), (''reason'', JString reason), (''schema_version'', JInteger 1)]"

definition tmp_of :: "path \<Rightarrow> path" where
  "tmp_of p = butlast p @ [last p @ ''.tmp'']"

text \<open>What the system does during one \<open>save\<close>. A failed write leaves some prefix of the record.\<close>

record SaveEnv =
  se_create_ok :: bool
  se_open_ok :: bool
  se_written :: nat
  se_write_ok :: bool
  se_tmp_removed :: bool
  se_sync_ok :: bool
  se_rename_ok :: bool
  se_dir_sync_ok :: bool

datatype save_result = Saved | Save_Failed | Save_Throws

definition drop_tmp :: "SaveEnv \<Rightarrow> LatchStore \<Rightarrow> files \<Rightarrow> files" where
  "drop_tmp env st fs = (if se_tmp_removed env then fs(tmp_of (la_file st) := None) else fs)"

text \<open>The result and the file systems passed through, in order.\<close>

definition save :: "(json \<Rightarrow> string option) \<Rightarrow> SaveEnv \<Rightarrow> LatchStore \<Rightarrow> u64 \<Rightarrow> string \<Rightarrow> files \<Rightarrow> save_result \<times> files list" where
  "save dump env st latched_at reason fs =
     (let tmp = tmp_of (la_file st); opened = (if se_open_ok env then fs(tmp \<mapsto> []) else fs) in
      if \<not> se_create_ok env then (Save_Failed, [fs])
      else case dump (latch_doc st latched_at reason) of
        None \<Rightarrow> (Save_Throws, [fs, opened])
      | Some body \<Rightarrow>
          (let content = body @ [CHR 0x0A] in
           if \<not> se_open_ok env then (Save_Failed, [fs, drop_tmp env st fs])
           else if \<not> se_write_ok env
           then (let part = fs(tmp \<mapsto> take (se_written env) content) in (Save_Failed, [fs, opened, part, drop_tmp env st part]))
           else (let full = fs(tmp \<mapsto> content) in
             if \<not> se_sync_ok env then (Save_Failed, [fs, opened, full, drop_tmp env st full])
             else if \<not> se_rename_ok env then (Save_Failed, [fs, opened, full, drop_tmp env st full])
             else (let renamed = full(la_file st \<mapsto> content, tmp := None) in
               (if se_dir_sync_ok env then Saved else Save_Failed, [fs, opened, full, renamed])))))"

text \<open>\<open>filesystem::remove\<close> fails, or removes the file if it is there; the directory is synced after that.\<close>

definition remove_file :: "bool \<Rightarrow> bool \<Rightarrow> LatchStore \<Rightarrow> files \<Rightarrow> bool \<times> files" where
  "remove_file remove_ok dir_sync_ok st fs =
     (if \<not> remove_ok then (False, fs)
      else if fs (la_file st) = None then (True, fs)
      else (dir_sync_ok, fs(la_file st := None)))"

section \<open>Lemmas\<close>

lemma tmp_of_neq [simp]: "p \<noteq> [] \<Longrightarrow> tmp_of p \<noteq> p" "p \<noteq> [] \<Longrightarrow> p \<noteq> tmp_of p"
  by (cases p rule: rev_cases; simp add: tmp_of_def)+

lemma la_file_nonempty [simp]: "la_file (new_store data_dir config_dir) \<noteq> []"
  by (simp add: new_store_def path_for_def)

lemma read_record_doc:
  "read_record (la_config_dir st) (Some (latch_doc st t reason)) = \<lparr> pl_state = Latched, pl_latched_at_epoch_ms = Some t \<rparr>"
  by (simp add: read_record_def latch_doc_def)

text \<open>Whatever interrupts a save, the latch file has its old content or the whole new record.\<close>

lemma save_file:
  assumes "la_file st \<noteq> []" and "fs' \<in> set (snd (save dump env st t reason fs))"
  shows "fs' (la_file st) = fs (la_file st) \<or>
    (\<exists>body. dump (latch_doc st t reason) = Some body \<and> fs' (la_file st) = Some (body @ [CHR 0x0A]))"
  using assms
  by (auto simp: save_def drop_tmp_def Let_def split: if_splits option.splits)

lemma save_other:
  assumes "fs' \<in> set (snd (save dump env st t reason fs))" and "p \<noteq> la_file st" and "p \<noteq> tmp_of (la_file st)"
  shows "fs' p = fs p"
  using assms by (auto simp: save_def drop_tmp_def Let_def split: if_splits option.splits)

lemma save_Saved:
  assumes "la_file st \<noteq> []" and "fst (save dump env st t reason fs) = Saved"
  shows "\<exists>body. dump (latch_doc st t reason) = Some body \<and>
    last (snd (save dump env st t reason fs)) (la_file st) = Some (body @ [CHR 0x0A])"
  using assms by (auto simp: save_def Let_def split: if_splits option.splits)

text \<open>Reading fails toward held: a file that is there never reads as absent.\<close>

lemma load_present: "fs (la_file st) \<noteq> None \<Longrightarrow> pl_state (load parse env st fs) \<noteq> Absent"
  by (auto simp: load_def unreadable_def read_record_def split: option.splits json.splits)

lemma load_absent:
  "pl_state (load parse env st fs) = Absent \<longleftrightarrow> \<not> le_exists_error env \<and> fs (la_file st) = None"
  by (auto simp: load_def unreadable_def read_record_def split: option.splits json.splits)

section \<open>Properties\<close>


text \<open>A codec for one document, and a save whose directory sync fails after the rename.\<close>

definition demo_store :: LatchStore where
  "demo_store = new_store [''data''] ''/cfg''"

definition demo_dump :: "json \<Rightarrow> string option" where
  "demo_dump doc = (if doc = latch_doc demo_store 5 ''x'' then Some ''D'' else None)"

definition demo_parse :: "string \<Rightarrow> json option" where
  "demo_parse body = (if body = ''D'' @ [CHR 0x0A] then Some (latch_doc demo_store 5 ''x'') else None)"

definition demo_save_env :: "bool \<Rightarrow> SaveEnv" where
  "demo_save_env ok = \<lparr> se_create_ok = True, se_open_ok = True, se_written = 0, se_write_ok = ok, se_tmp_removed = False, se_sync_ok = True,
     se_rename_ok = True, se_dir_sync_ok = ok \<rparr>"


end
