(* ===== verification/Safe_State.thy ===== *)
theory Safe_State
  imports Call_Router Runtime_Config Latch_Store
begin

text \<open>
  \<open>core/control/safe_state.cpp\<close>: the software stop. The ladder (which rung is planned, the calls it
  makes through the call router, the verdict) and the controller with its latch, on disk and in
  memory. A ladder run makes its calls one after the other; call number \<open>n\<close> runs in the environment
  \<open>env n\<close>. What the ladder does to the outside is in \<open>LadderState\<close>: the router, the cache, what was sent
  to providers, in order. The registry of the controller is the one the router reads.
\<close>

section \<open>Kinds and results\<close>

datatype SafeStateKind = SK_None | SK_Hooks | SK_Setpoints | SK_Zero

fun safe_state_kind_to_string :: "SafeStateKind \<Rightarrow> string" where
  "safe_state_kind_to_string SK_Hooks = ''hooks''"
| "safe_state_kind_to_string SK_Setpoints = ''setpoints''"
| "safe_state_kind_to_string SK_Zero = ''zero''"
| "safe_state_kind_to_string SK_None = ''none''"

datatype FailureCause = FC_Run | FC_Config

fun failure_cause_to_string :: "FailureCause \<Rightarrow> string" where
  "failure_cause_to_string FC_Run = ''run''"
| "failure_cause_to_string FC_Config = ''config''"

datatype zero_error = ZE_Non_Numeric string | ZE_Nothing_To_Zero

datatype ladder_error = LE_Call "call_error option" | LE_Zero zero_error

record CallOutcome =
  co_device_handle :: string
  co_function :: string
  co_success :: bool
  co_error :: "ladder_error option"
  co_cause :: FailureCause

record SkippedAction =
  sk_device_handle :: string
  sk_function :: string
  sk_reason :: string

type_synonym AbsentDevices = "(string \<times> string) list"

record EstopResult =
  es_kind :: SafeStateKind
  es_actions :: "CallOutcome list"
  es_skipped :: "SkippedAction list"
  es_safe_state_achieved :: bool
  es_fault_requested :: bool
  es_fault_ok :: bool

section \<open>Requests\<close>

definition zero_value :: "ValueType \<Rightarrow> Value option" where
  "zero_value type = (case type of
     VALUE_TYPE_DOUBLE \<Rightarrow> Some \<lparr> v_type = type, v_kind = K_Double 0 \<rparr>
   | VALUE_TYPE_INT64 \<Rightarrow> Some \<lparr> v_type = type, v_kind = K_Int64 0 \<rparr>
   | VALUE_TYPE_UINT64 \<Rightarrow> Some \<lparr> v_type = type, v_kind = K_Uint64 0 \<rparr>
   | _ \<Rightarrow> None)"

fun zero_required :: "ArgSpec list \<Rightarrow> args_map \<Rightarrow> zero_error + args_map" where
  "zero_required [] args = Inr args"
| "zero_required (a # as) args =
     (if \<not> as_required a then zero_required as args
      else case zero_value (as_type a) of
        None \<Rightarrow> Inl (ZE_Non_Numeric (as_name a))
      | Some zero \<Rightarrow> zero_required as (omap_put (as_name a) zero args))"

definition build_zero_args :: "FunctionSpec \<Rightarrow> zero_error + args_map" where
  "build_zero_args spec =
     (case zero_required (fs_args spec) [] of
        Inl e \<Rightarrow> Inl e
      | Inr args \<Rightarrow> if args = [] then Inl ZE_Nothing_To_Zero else Inr args)"

definition safe_request :: "string \<Rightarrow> u32 \<Rightarrow> string \<Rightarrow> args_map \<Rightarrow> CallRequest" where
  "safe_request handle function_id function_name args = \<lparr> rq_device_handle = handle, rq_function_id = function_id,
     rq_function_name = function_name, rq_args = args, rq_is_automated = False, rq_is_behavior_tree = False,
     rq_safe_state = True, rq_fault_entry_hook = False \<rparr>"

definition provider_args :: "(string \<times> ParameterValue) list \<Rightarrow> args_map" where
  "provider_args args = fold (\<lambda>(name, v). omap_put name (to_provider_value v)) args []"

definition to_call_request :: "ModeTransitionCallConfig \<Rightarrow> CallRequest" where
  "to_call_request call =
     safe_request (cc_device_handle call) (cc_function_id call) (cc_function_name call) (provider_args (cc_args call))"

definition setpoint_matches :: "ModeTransitionCallConfig \<Rightarrow> string \<Rightarrow> FunctionSpec \<Rightarrow> bool" where
  "setpoint_matches setpoint handle spec =
     (if cc_device_handle setpoint \<noteq> handle then False
      else if cc_function_id setpoint \<noteq> 0 \<and> cc_function_id setpoint \<noteq> fs_function_id spec then False
      else if cc_function_name setpoint \<noteq> [] \<and> cc_function_name setpoint \<noteq> fs_function_name spec then False
      else cc_function_id setpoint \<noteq> 0 \<or> cc_function_name setpoint \<noteq> [])"

definition actuating_functions_for :: "DeviceRegistry \<Rightarrow> (string \<times> FunctionSpec) list" where
  "actuating_functions_for registry =
     concat (map (\<lambda>device. map (\<lambda>spec. (get_handle device, spec))
       (filter (\<lambda>spec. fs_category spec = CATEGORY_ACTUATE) (map snd (dc_functions_by_id (rd_capabilities device)))))
       (get_all_devices registry))"

definition uncovered_actuating_functions :: "CallRouter \<Rightarrow> ModeTransitionCallConfig list \<Rightarrow> string list" where
  "uncovered_actuating_functions ro calls =
     map (\<lambda>(handle, spec). handle @ ''/'' @ fs_function_name spec)
       (filter (\<lambda>(handle, spec). \<not> list_ex (\<lambda>call. setpoint_matches call handle spec \<and>
            validate_call (to_call_request call) ro = None) calls)
         (actuating_functions_for (ro_registry ro)))"

definition planned_safe_state_kind :: "DeviceRegistry \<Rightarrow> SafetyConfig \<Rightarrow> SafeStateKind" where
  "planned_safe_state_kind registry safety =
     (let uncovered = length (filter (\<lambda>(handle, spec).
            \<not> list_ex (\<lambda>setpoint. setpoint_matches setpoint handle spec) (sf_setpoints (sy_safe_state safety)))
            (actuating_functions_for registry)) in
      if sf_hooks (sy_safe_state safety) \<noteq> [] then SK_Hooks
      else if sf_setpoints (sy_safe_state safety) \<noteq> [] \<and> uncovered = 0 then SK_Setpoints
      else if sf_zero_is_safe (sy_safe_state safety) then SK_Zero
      else SK_None)"

section \<open>The ladder\<close>

definition cause_of :: "CallResult \<Rightarrow> FailureCause" where
  "cause_of res =
     (if \<not> cr_dispatched res \<and> (cr_status_code res = CODE_NOT_FOUND \<or> cr_status_code res = CODE_INVALID_ARGUMENT)
      then FC_Config else FC_Run)"

record LadderState =
  ld_router :: CallRouter
  ld_cache :: StateCache
  ld_outs :: "cache_out list"
  ld_sent :: "dispatch list"
  ld_turn :: nat

definition route :: "(nat \<Rightarrow> RouterEnv) \<Rightarrow> CallRequest \<Rightarrow> LadderState \<Rightarrow> CallResult \<times> LadderState" where
  "route env request ls =
     (let oc = execute_call (env (ld_turn ls)) request (ld_router ls) (ld_cache ls) in
      (oc_result oc, \<lparr> ld_router = oc_router oc, ld_cache = oc_cache oc, ld_outs = ld_outs ls @ oc_outs oc,
         ld_sent = (case oc_dispatch oc of None \<Rightarrow> ld_sent ls | Some sent \<Rightarrow> ld_sent ls @ [sent]), ld_turn = Suc (ld_turn ls) \<rparr>))"

definition function_label :: "u32 \<Rightarrow> string \<Rightarrow> string" where
  "function_label function_id function_name = (if function_name = [] then nat_to_string (unat function_id) else function_name)"

definition outcome_of :: "string \<Rightarrow> string \<Rightarrow> CallResult \<Rightarrow> CallOutcome" where
  "outcome_of handle label res = \<lparr> co_device_handle = handle, co_function = label, co_success = cr_success res,
     co_error = (if cr_success res then None else Some (LE_Call (cr_error res))),
     co_cause = (if cr_success res then FC_Run else cause_of res) \<rparr>"

definition run_call :: "(nat \<Rightarrow> RouterEnv) \<Rightarrow> ModeTransitionCallConfig \<Rightarrow> LadderState \<Rightarrow> CallOutcome \<times> LadderState" where
  "run_call env call ls =
     (let (res, ls) = route env (to_call_request call) ls
      in (outcome_of (cc_device_handle call) (function_label (cc_function_id call) (cc_function_name call)) res, ls))"

definition run_zero_call :: "(nat \<Rightarrow> RouterEnv) \<Rightarrow> string \<times> FunctionSpec \<Rightarrow> LadderState \<Rightarrow> CallOutcome \<times> LadderState" where
  "run_zero_call env target ls =
     (let (handle, spec) = target; label = function_label (fs_function_id spec) (fs_function_name spec) in
      case build_zero_args spec of
        Inl why \<Rightarrow> (\<lparr> co_device_handle = handle, co_function = label, co_success = False, co_error = Some (LE_Zero why),
                      co_cause = FC_Config \<rparr>, ls)
      | Inr args \<Rightarrow>
          (let (res, ls) = route env (safe_request handle (fs_function_id spec) (fs_function_name spec) args) ls
           in (outcome_of handle label res, ls)))"

text \<open>One target after the other: skipped when its device is absent, else run.\<close>

fun run_targets ::
  "('a \<Rightarrow> string) \<Rightarrow> ('a \<Rightarrow> string) \<Rightarrow> ('a \<Rightarrow> LadderState \<Rightarrow> CallOutcome \<times> LadderState) \<Rightarrow> AbsentDevices \<Rightarrow> 'a list \<Rightarrow> LadderState \<Rightarrow>
   CallOutcome list \<times> SkippedAction list \<times> LadderState" where
  "run_targets handle label run absent [] ls = ([], [], ls)"
| "run_targets handle label run absent (t # ts) ls =
     (case map_of absent (handle t) of
        Some reason \<Rightarrow>
          (let (actions, skipped, ls) = run_targets handle label run absent ts ls
           in (actions, \<lparr> sk_device_handle = handle t, sk_function = label t, sk_reason = reason \<rparr> # skipped, ls))
      | None \<Rightarrow>
          (let (action, ls) = run t ls; (actions, skipped, ls) = run_targets handle label run absent ts ls
           in (action # actions, skipped, ls)))"

definition wanted :: "string option \<Rightarrow> string \<Rightarrow> bool" where
  "wanted only_device handle = (case only_device of None \<Rightarrow> True | Some h \<Rightarrow> handle = h)"

definition run_declared ::
  "(nat \<Rightarrow> RouterEnv) \<Rightarrow> string option \<Rightarrow> AbsentDevices \<Rightarrow> ModeTransitionCallConfig list \<Rightarrow> LadderState \<Rightarrow>
   CallOutcome list \<times> SkippedAction list \<times> LadderState" where
  "run_declared env only_device absent calls ls =
     run_targets cc_device_handle (\<lambda>call. function_label (cc_function_id call) (cc_function_name call)) (run_call env) absent
       (filter (\<lambda>call. wanted only_device (cc_device_handle call)) calls) ls"

definition run_zero ::
  "(nat \<Rightarrow> RouterEnv) \<Rightarrow> string option \<Rightarrow> AbsentDevices \<Rightarrow> LadderState \<Rightarrow> CallOutcome list \<times> SkippedAction list \<times> LadderState" where
  "run_zero env only_device absent ls =
     run_targets fst (\<lambda>(handle, spec). fs_function_name spec) (run_zero_call env) absent
       (filter (\<lambda>(handle, spec). wanted only_device handle) (actuating_functions_for (ro_registry (ld_router ls)))) ls"

text \<open>Without an absent map the code never skips: that is the empty one.\<close>

definition run_ladder ::
  "(nat \<Rightarrow> RouterEnv) \<Rightarrow> SafetyConfig \<Rightarrow> string option \<Rightarrow> AbsentDevices \<Rightarrow> LadderState \<Rightarrow> EstopResult \<times> LadderState" where
  "run_ladder env safety only_device absent ls =
     (let kind = planned_safe_state_kind (ro_registry (ld_router ls)) safety;
          (actions, skipped, ls) = (case kind of
              SK_Hooks \<Rightarrow> run_declared env only_device absent (sf_hooks (sy_safe_state safety)) ls
            | SK_Setpoints \<Rightarrow> run_declared env only_device absent (sf_setpoints (sy_safe_state safety)) ls
            | SK_Zero \<Rightarrow> run_zero env only_device absent ls
            | SK_None \<Rightarrow> ([], [], ls))
      in (\<lparr> es_kind = kind, es_actions = actions, es_skipped = skipped,
            es_safe_state_achieved = (kind \<noteq> SK_None \<and> actions \<noteq> [] \<and> list_all co_success actions),
            es_fault_requested = False, es_fault_ok = False \<rparr>, ls))"

definition reassert_for :: "(nat \<Rightarrow> RouterEnv) \<Rightarrow> SafetyConfig \<Rightarrow> string \<Rightarrow> LadderState \<Rightarrow> EstopResult \<times> LadderState" where
  "reassert_for env safety device_handle ls = run_ladder env safety (Some device_handle) [] ls"

section \<open>The controller\<close>

record StartupSafeStateReport =
  sr_ran :: bool
  sr_kind :: SafeStateKind
  sr_safe_state_achieved :: bool
  sr_failed_actions :: "CallOutcome list"
  sr_skipped_actions :: "SkippedAction list"

text \<open>\<open>ec_hooks_admitted\<close>: a thread is inside the FAULT entry of a trigger that planned no rung.\<close>

record SafeStateController =
  ec_latched :: bool
  ec_hooks_admitted :: bool
  ec_latched_at_ms :: "u64 option"
  ec_restored :: bool
  ec_latch_store :: "LatchStore option"
  ec_has_mode_manager :: bool
  ec_startup_report :: StartupSafeStateReport

definition new_controller :: SafeStateController where
  "new_controller = \<lparr> ec_latched = False, ec_hooks_admitted = False, ec_latched_at_ms = None, ec_restored = False,
     ec_latch_store = None, ec_has_mode_manager = False,
     ec_startup_report = \<lparr> sr_ran = False, sr_kind = SK_None, sr_safe_state_achieved = False, sr_failed_actions = [],
       sr_skipped_actions = [] \<rparr> \<rparr>"

definition is_engaged :: "SafeStateController \<Rightarrow> bool" where
  "is_engaged ec = ec_latched ec"

text \<open>Only the thread of the FAULT entry is admitted.\<close>

definition admits_fault_entry_hooks :: "SafeStateController \<Rightarrow> bool \<Rightarrow> bool" where
  "admits_fault_entry_hooks ec on_fault_entry_thread = (ec_hooks_admitted ec \<and> on_fault_entry_thread)"

text \<open>The latch as the call router sees it from a thread.\<close>

definition latch_of :: "SafeStateController \<Rightarrow> bool \<Rightarrow> latch_view" where
  "latch_of ec on_fault_entry_thread = Some (is_engaged ec, admits_fault_entry_hooks ec on_fault_entry_thread)"

record EstopEnv =
  ee_dump :: "json \<Rightarrow> string option"
  ee_parse :: "string \<Rightarrow> json option"
  ee_save :: SaveEnv
  ee_load :: LoadEnv
  ee_remove_ok :: bool
  ee_dir_sync_ok :: bool
  ee_now :: u64

text \<open>Engaging the latch: in memory first, then on disk. \<open>True\<close> when writing the record throws.\<close>

definition engage :: "EstopEnv \<Rightarrow> string \<Rightarrow> SafeStateController \<times> files \<Rightarrow> bool \<times> SafeStateController \<times> files" where
  "engage env reason cf =
     (let (ec, fs) = cf; ec = ec\<lparr> ec_latched := True, ec_latched_at_ms := Some (ee_now env), ec_restored := False \<rparr> in
      case ec_latch_store ec of
        None \<Rightarrow> (False, ec, fs)
      | Some st \<Rightarrow> (let (res, fss) = save (ee_dump env) (ee_save env) st (ee_now env) reason fs in (res = Save_Throws, ec, last fss)))"

text \<open>\<open>set_mode(FAULT)\<close>, with the hooks it runs, is an argument: what it returns and does to the world,
  given whether FAULT-entry hooks are admitted while it runs.\<close>

type_synonym 'w fault_entry = "bool \<Rightarrow> LadderState \<times> 'w \<Rightarrow> bool \<times> LadderState \<times> 'w"

text \<open>\<open>None\<close> is an exception out of \<open>save\<close>: the ladder is then not run.\<close>

definition trigger ::
  "EstopEnv \<Rightarrow> (nat \<Rightarrow> RouterEnv) \<Rightarrow> SafetyConfig \<Rightarrow> 'w fault_entry \<Rightarrow> string \<Rightarrow>
   SafeStateController \<times> files \<Rightarrow> LadderState \<times> 'w \<Rightarrow> EstopResult option \<times> (SafeStateController \<times> files) \<times> LadderState \<times> 'w" where
  "trigger env renv safety set_fault reason cf lw =
     (let (throws, ec, fs) = engage env reason cf in
      if throws then (None, (ec, fs), lw)
      else let (result, ls) = run_ladder renv safety None [] (fst lw) in
        if ec_has_mode_manager ec
        then let (fault_ok, ls, w) = set_fault (es_kind result = SK_None) (ls, snd lw)
             in (Some (result\<lparr> es_fault_requested := True, es_fault_ok := fault_ok \<rparr>),
                 (ec\<lparr> ec_hooks_admitted := False \<rparr>, fs), ls, w)
        else (Some result, (ec, fs), ls, snd lw))"

text \<open>\<open>refusal\<close> is what the clear guard says, \<open>None\<close> also when there is none.\<close>

definition clear_latch :: "EstopEnv \<Rightarrow> string option \<Rightarrow> SafeStateController \<times> files \<Rightarrow> string option \<times> SafeStateController \<times> files" where
  "clear_latch env refusal cf =
     (let (ec, fs) = cf in
      case refusal of
        Some why \<Rightarrow> (Some why, ec, fs)
      | None \<Rightarrow>
          (let ec = ec\<lparr> ec_latched := False, ec_latched_at_ms := None, ec_restored := False \<rparr> in
           case ec_latch_store ec of
             None \<Rightarrow> (None, ec, fs)
           | Some st \<Rightarrow> (None, ec, snd (remove_file (ee_remove_ok env) (ee_dir_sync_ok env) st fs))))"

text \<open>\<open>hold\<close> up to its mode change, which enters FAULT without admitting hooks; \<open>True\<close> as for \<open>engage\<close>.\<close>

definition hold_latch :: "EstopEnv \<Rightarrow> string \<Rightarrow> SafeStateController \<times> files \<Rightarrow> bool \<times> SafeStateController \<times> files" where
  "hold_latch env reason cf = (if ec_latched (fst cf) then (False, cf) else engage env reason cf)"

definition hold ::
  "EstopEnv \<Rightarrow> 'w fault_entry \<Rightarrow> string \<Rightarrow> SafeStateController \<times> files \<Rightarrow> LadderState \<times> 'w \<Rightarrow>
   bool \<times> (SafeStateController \<times> files) \<times> LadderState \<times> 'w" where
  "hold env set_fault reason cf lw =
     (let (throws, cf) = hold_latch env reason cf in
      if throws then (False, cf, lw)
      else if ec_has_mode_manager (fst cf) then (let (fault_ok, lw) = set_fault False lw in (True, cf, lw))
      else (True, cf, lw))"

definition attach_latch_store :: "EstopEnv \<Rightarrow> LatchStore option \<Rightarrow> SafeStateController \<times> files \<Rightarrow> SafeStateController \<times> files" where
  "attach_latch_store env store cf =
     (let (ec, fs) = cf; ec = ec\<lparr> ec_latch_store := store \<rparr> in
      case store of
        None \<Rightarrow> (ec, fs)
      | Some st \<Rightarrow>
          (let persisted = load (ee_parse env) (ee_load env) st fs in
           if pl_state persisted = Absent then (ec, fs)
           else (ec\<lparr> ec_latched := True, ec_restored := True,
                     ec_latched_at_ms := Some (case pl_latched_at_epoch_ms persisted of Some t \<Rightarrow> t | None \<Rightarrow> ee_now env) \<rparr>, fs)))"

definition drive_safe_state ::
  "(nat \<Rightarrow> RouterEnv) \<Rightarrow> SafetyConfig \<Rightarrow> AbsentDevices \<Rightarrow> SafeStateController \<Rightarrow> LadderState \<Rightarrow>
   EstopResult \<times> SafeStateController \<times> LadderState" where
  "drive_safe_state env safety absent ec ls =
     (let (result, ls) = run_ladder env safety None absent ls;
          report = \<lparr> sr_ran = (es_kind result \<noteq> SK_None), sr_kind = es_kind result,
            sr_safe_state_achieved = es_safe_state_achieved result,
            sr_failed_actions = filter (\<lambda>a. \<not> co_success a) (es_actions result), sr_skipped_actions = es_skipped result \<rparr>
      in (result, ec\<lparr> ec_startup_report := report \<rparr>, ls))"

definition uncovered_functions :: "SafetyConfig \<Rightarrow> SafeStateKind \<Rightarrow> CallRouter \<Rightarrow> string list" where
  "uncovered_functions safety kind ro =
     (case kind of
        SK_Hooks \<Rightarrow> uncovered_actuating_functions ro (sf_hooks (sy_safe_state safety))
      | SK_Setpoints \<Rightarrow> uncovered_actuating_functions ro (sf_setpoints (sy_safe_state safety))
      | SK_Zero \<Rightarrow> map (\<lambda>(handle, spec). handle @ ''/'' @ fs_function_name spec)
          (filter (\<lambda>(handle, spec). case build_zero_args spec of
              Inl e \<Rightarrow> True
            | Inr args \<Rightarrow> validate_call ((safe_request handle (fs_function_id spec) (fs_function_name spec) args)\<lparr> rq_safe_state := False \<rparr>) ro \<noteq> None)
            (actuating_functions_for (ro_registry ro)))
      | SK_None \<Rightarrow> map (\<lambda>(handle, spec). handle @ ''/'' @ fs_function_name spec) (actuating_functions_for (ro_registry ro)))"

record EstopCapability =
  ca_latched :: bool
  ca_software_safe_state :: SafeStateKind
  ca_latched_at_epoch_ms :: "u64 option"
  ca_uncovered_functions :: "string list"
  ca_restored :: bool

definition capability :: "SafetyConfig \<Rightarrow> CallRouter \<Rightarrow> SafeStateController \<Rightarrow> EstopCapability" where
  "capability safety ro ec =
     (let kind = planned_safe_state_kind (ro_registry ro) safety in
      \<lparr> ca_latched = ec_latched ec, ca_software_safe_state = kind, ca_latched_at_epoch_ms = ec_latched_at_ms ec,
        ca_uncovered_functions = uncovered_functions safety kind ro, ca_restored = ec_restored ec \<rparr>)"

section \<open>Specification\<close>

text \<open>A sent call that is the one a selector of a device asks for.\<close>

fun serves :: "dispatch \<Rightarrow> string \<times> u32 \<times> string \<Rightarrow> bool" where
  "serves (p, d, fid, name, args) (handle, function_id, function_name) =
     (p @ ''/'' @ d = handle \<and> (function_id \<noteq> 0 \<or> function_name \<noteq> []) \<and>
      (function_id \<noteq> 0 \<longrightarrow> fid = function_id) \<and> (function_name \<noteq> [] \<longrightarrow> name = function_name))"

declare serves.simps [simp del]

text \<open>What the planned rung is to drive.\<close>

definition rung_targets :: "SafetyConfig \<Rightarrow> DeviceRegistry \<Rightarrow> (string \<times> u32 \<times> string) list" where
  "rung_targets safety registry = (case planned_safe_state_kind registry safety of
     SK_Hooks \<Rightarrow> map (\<lambda>c. (cc_device_handle c, cc_function_id c, cc_function_name c)) (sf_hooks (sy_safe_state safety))
   | SK_Setpoints \<Rightarrow> map (\<lambda>c. (cc_device_handle c, cc_function_id c, cc_function_name c)) (sf_setpoints (sy_safe_state safety))
   | SK_Zero \<Rightarrow> map (\<lambda>(handle, spec). (handle, fs_function_id spec, fs_function_name spec)) (actuating_functions_for registry)
   | SK_None \<Rightarrow> [])"

section \<open>Lemmas on routing\<close>

lemma execute_call_flags:
  "cr_dispatched (oc_result (execute_call env request ro sc)) = (oc_dispatch (execute_call env request ro sc) \<noteq> None)"
  "cr_success (oc_result (execute_call env request ro sc)) \<Longrightarrow> oc_dispatch (execute_call env request ro sc) \<noteq> None"
  "same_wiring ro (oc_router (execute_call env request ro sc))"
proof -
  have "cr_dispatched (oc_result (execute_call env request ro sc)) = (oc_dispatch (execute_call env request ro sc) \<noteq> None) \<and>
      (cr_success (oc_result (execute_call env request ro sc)) \<longrightarrow> oc_dispatch (execute_call env request ro sc) \<noteq> None) \<and>
      same_wiring ro (oc_router (execute_call env request ro sc))"
  proof (cases rule: execute_call_cases [of env request ro sc])
    case refuse
    then show ?thesis by (simp add: same_wiring_def)
  next
    case (locked p d device spec name args)
    show ?thesis
    proof (cases rule: locked_call_cases [of env request p d spec name args ro sc])
      case refuse
      with locked show ?thesis by (simp add: same_wiring_def)
    next
      case (sent ro')
      then have "same_wiring ro ro'" by (cases "fs_min_interval_ms spec = 0") (simp_all add: same_wiring_def)
      with sent locked dispatch_call_router(2) [of ro' env request p d spec name args sc] show ?thesis
        by (simp add: same_wiring_def)
    qed
  qed
  then show "cr_dispatched (oc_result (execute_call env request ro sc)) = (oc_dispatch (execute_call env request ro sc) \<noteq> None)"
    "cr_success (oc_result (execute_call env request ro sc)) \<Longrightarrow> oc_dispatch (execute_call env request ro sc) \<noteq> None"
    "same_wiring ro (oc_router (execute_call env request ro sc))"
    by blast+
qed

lemma resolve_needs_selector:
  "resolve_function_spec device request = Inr (spec, name) \<Longrightarrow> rq_function_id request \<noteq> 0 \<or> rq_function_name request \<noteq> []"
  by (auto simp: resolve_function_spec_def split: if_splits)

lemma sent_serves:
  assumes "oc_dispatch (execute_call env request ro sc) = Some sent"
  shows "serves sent (rq_device_handle request, rq_function_id request, rq_function_name request)"
proof -
  obtain p d fid name args where sent: "sent = (p, d, fid, name, args)" by (metis prod_cases5)
  with assms obtain device spec where r: "reaches_lock env request ro p d device spec name args"
    and fid: "fid = fs_function_id spec"
    by (auto elim: execute_call_sent)
  have "rq_function_id request \<noteq> 0 \<or> rq_function_name request \<noteq> []"
    using r resolve_needs_selector unfolding reaches_lock_def by blast
  with reaches_lock_offers [OF r] fid show ?thesis by (auto simp: sent offers_def serves.simps)
qed

lemma validate_call_registry:
  assumes "ro_registry ro = ro_registry ro'"
  shows "validate_call request ro = validate_call request ro'"
  unfolding validate_call_def validate_device_exists_def assms ..

lemma validate_call_safe_state [simp]: "validate_call (request\<lparr> rq_safe_state := b \<rparr>) ro = validate_call request ro"
proof -
  have request: "rq_device_handle (request\<lparr> rq_safe_state := b \<rparr>) = rq_device_handle request"
    "rq_args (request\<lparr> rq_safe_state := b \<rparr>) = rq_args request"
    "rq_function_id (request\<lparr> rq_safe_state := b \<rparr>) = rq_function_id request"
    "rq_function_name (request\<lparr> rq_safe_state := b \<rparr>) = rq_function_name request"
    by simp_all
  show ?thesis unfolding validate_call_def resolve_function_spec_def request ..
qed

text \<open>A later state of a ladder: more was sent, the registry is the same.\<close>

definition extends :: "LadderState \<Rightarrow> LadderState \<Rightarrow> bool" where
  "extends ls ls' = ((\<exists>new. ld_sent ls' = ld_sent ls @ new) \<and> ro_registry (ld_router ls') = ro_registry (ld_router ls))"

lemma extends_refl [simp]: "extends ls ls"
  by (simp add: extends_def)

lemma extends_trans: "extends a b \<Longrightarrow> extends b c \<Longrightarrow> extends a c"
  by (auto simp: extends_def)

lemma route_extends: "extends ls (snd (route env request ls))"
  using execute_call_flags(3) [of "ld_router ls" "env (ld_turn ls)" request "ld_cache ls"]
  by (auto simp: extends_def route_def Let_def same_wiring_def split: option.split)

lemma route_sent:
  "cr_dispatched (fst (route env request ls)) \<Longrightarrow>
     \<exists>sent. ld_sent (snd (route env request ls)) = ld_sent ls @ [sent] \<and>
       serves sent (rq_device_handle request, rq_function_id request, rq_function_name request)"
  using sent_serves by (fastforce simp: route_def Let_def execute_call_flags(1))

lemma route_success: "cr_success (fst (route env request ls)) \<Longrightarrow> cr_dispatched (fst (route env request ls))"
  using execute_call_flags(1,2) by (simp add: route_def Let_def)

lemma route_valid:
  assumes "validate_call request (ld_router ls) = None" and "rq_safe_state request" and "\<And>n p. re_provider (env n) p = Some True"
  shows "cr_dispatched (fst (route env request ls))"
  using safe_state_dispatched [OF assms(1,2), of "env (ld_turn ls)"] assms(3)
  by (simp add: route_def Let_def execute_call_flags(1))

section \<open>Lemmas on the ladder\<close>

lemma run_call_route:
  "fst (run_call env call ls) =
     outcome_of (cc_device_handle call) (function_label (cc_function_id call) (cc_function_name call))
       (fst (route env (to_call_request call) ls))"
  "snd (run_call env call ls) = snd (route env (to_call_request call) ls)"
  by (simp_all add: run_call_def split: prod.split)

lemma run_zero_call_route:
  assumes "build_zero_args spec = Inr args"
  shows "fst (run_zero_call env (handle, spec) ls) = outcome_of handle (function_label (fs_function_id spec) (fs_function_name spec))
      (fst (route env (safe_request handle (fs_function_id spec) (fs_function_name spec) args) ls))"
    and "snd (run_zero_call env (handle, spec) ls) =
      snd (route env (safe_request handle (fs_function_id spec) (fs_function_name spec) args) ls)"
  using assms by (simp_all add: run_zero_call_def split: prod.split)

lemma run_zero_call_refused:
  "build_zero_args spec = Inl why \<Longrightarrow> \<not> co_success (fst (run_zero_call env (handle, spec) ls)) \<and> snd (run_zero_call env (handle, spec) ls) = ls"
  by (simp add: run_zero_call_def)

lemma run_extends: "extends ls (snd (run_call env call ls))" "extends ls (snd (run_zero_call env target ls))"
proof -
  show "extends ls (snd (run_call env call ls))" by (simp add: run_call_route route_extends)
  show "extends ls (snd (run_zero_call env target ls))"
    by (cases target; cases "build_zero_args (snd target)") (simp_all add: run_zero_call_route run_zero_call_refused route_extends)
qed

lemma outcome_of_success [simp]: "co_success (outcome_of handle label res) = cr_success res"
  by (simp add: outcome_of_def)

lemma to_call_request_sel [simp]:
  "rq_device_handle (to_call_request call) = cc_device_handle call" "rq_function_id (to_call_request call) = cc_function_id call"
  "rq_function_name (to_call_request call) = cc_function_name call" "rq_safe_state (to_call_request call)"
  by (simp_all add: to_call_request_def safe_request_def)

lemma safe_request_sel [simp]:
  "rq_device_handle (safe_request h i n args) = h" "rq_function_id (safe_request h i n args) = i"
  "rq_function_name (safe_request h i n args) = n" "rq_safe_state (safe_request h i n args)" "rq_args (safe_request h i n args) = args"
  by (simp_all add: safe_request_def)

text \<open>Every target that is not absent is run, in some state between the first and the last.\<close>

lemma run_targets_runs:
  assumes "\<And>t ls. extends ls (snd (run t ls))" and "run_targets handle label run absent ts ls = (actions, skipped, ls')"
  shows "extends ls ls' \<and> (\<forall>t \<in> set ts. map_of absent (handle t) = None \<longrightarrow>
    (\<exists>ls1. extends ls ls1 \<and> extends (snd (run t ls1)) ls' \<and> fst (run t ls1) \<in> set actions))"
  using assms(2)
proof (induction ts arbitrary: ls actions skipped)
  case Nil
  then show ?case by simp
next
  case (Cons t ts)
  show ?case
  proof (cases "map_of absent (handle t)")
    case (Some reason)
    then obtain skipped' where "run_targets handle label run absent ts ls = (actions, skipped', ls')"
      using Cons.prems by (auto split: prod.splits)
    from Cons.IH [OF this] Some show ?thesis by auto
  next
    case None
    obtain action ls1 where run: "run t ls = (action, ls1)" by fastforce
    with None Cons.prems obtain actions' skipped' where rest: "run_targets handle label run absent ts ls1 = (actions', skipped', ls')"
      and actions: "actions = action # actions'"
      by (auto split: prod.splits)
    have step: "extends ls ls1" using assms(1) [of ls t] run by simp
    note IH = Cons.IH [OF rest]
    have "\<exists>ls1. extends ls ls1 \<and> extends (snd (run u ls1)) ls' \<and> fst (run u ls1) \<in> set actions"
      if "u \<in> set (t # ts)" "map_of absent (handle u) = None" for u
    proof (cases "u = t")
      case True
      with IH run actions show ?thesis by (intro exI [of _ ls]) simp
    next
      case False
      with that IH obtain ls2 where "extends ls1 ls2" "extends (snd (run u ls2)) ls'" "fst (run u ls2) \<in> set actions'" by auto
      with step actions show ?thesis by (auto intro!: exI [of _ ls2] extends_trans [OF step])
    qed
    with IH step show ?thesis using extends_trans by blast
  qed
qed

lemma run_call_success:
  "co_success (fst (run_call env call ls)) \<or> validate_call (to_call_request call) (ld_router ls) = None \<and> (\<forall>n p. re_provider (env n) p = Some True) \<Longrightarrow>
     \<exists>sent. ld_sent (snd (run_call env call ls)) = ld_sent ls @ [sent] \<and>
       serves sent (cc_device_handle call, cc_function_id call, cc_function_name call)"
  using route_sent [of env "to_call_request call" ls] route_success [of env "to_call_request call" ls]
    route_valid [of "to_call_request call" ls env]
  by (auto simp: run_call_route)

lemma run_zero_call_success:
  assumes "co_success (fst (run_zero_call env (handle, spec) ls)) \<or>
    (\<exists>args. build_zero_args spec = Inr args \<and> (\<forall>n p. re_provider (env n) p = Some True) \<and>
       validate_call (safe_request handle (fs_function_id spec) (fs_function_name spec) args) (ld_router ls) = None)"
  shows "\<exists>sent. ld_sent (snd (run_zero_call env (handle, spec) ls)) = ld_sent ls @ [sent] \<and>
    serves sent (handle, fs_function_id spec, fs_function_name spec)"
proof -
  from assms obtain args where args: "build_zero_args spec = Inr args"
    using run_zero_call_refused by (cases "build_zero_args spec") auto
  let ?request = "safe_request handle (fs_function_id spec) (fs_function_name spec) args"
  have "cr_dispatched (fst (route env ?request ls))"
    using assms args route_success [of env ?request ls] route_valid [of ?request ls env] by (auto simp: run_zero_call_route)
  then show ?thesis
    using route_sent [of env ?request ls] by (simp add: run_zero_call_route [OF args])
qed

lemma sent_between:
  assumes "extends ls ls1" and "ld_sent ls2 = ld_sent ls1 @ [sent]" and "extends ls2 ls'"
  shows "\<exists>new. ld_sent ls' = ld_sent ls @ new \<and> sent \<in> set new"
  using assms by (auto simp: extends_def)

lemma run_declared_sends:
  assumes "run_declared env only absent calls ls = (actions, skipped, ls')" and "call \<in> set calls"
    and "wanted only (cc_device_handle call)" and "map_of absent (cc_device_handle call) = None"
    and "list_all co_success actions \<or>
      validate_call (to_call_request call) (ld_router ls) = None \<and> (\<forall>n p. re_provider (env n) p = Some True)"
  shows "\<exists>new. ld_sent ls' = ld_sent ls @ new \<and>
    (\<exists>sent \<in> set new. serves sent (cc_device_handle call, cc_function_id call, cc_function_name call))"
proof -
  from run_targets_runs [OF run_extends(1) assms(1) [unfolded run_declared_def]] assms(2-4)
  obtain ls1 where ls1: "extends ls ls1" "extends (snd (run_call env call ls1)) ls'" "fst (run_call env call ls1) \<in> set actions"
    by auto
  then have "validate_call (to_call_request call) (ld_router ls1) = validate_call (to_call_request call) (ld_router ls)"
    by (intro validate_call_registry) (simp add: extends_def)
  with assms(5) ls1(3) obtain sent where "ld_sent (snd (run_call env call ls1)) = ld_sent ls1 @ [sent]"
    "serves sent (cc_device_handle call, cc_function_id call, cc_function_name call)"
    using run_call_success [of env call ls1] by (auto simp: list_all_iff)
  with sent_between [OF ls1(1) _ ls1(2)] show ?thesis by blast
qed

lemma run_zero_sends:
  assumes "run_zero env only absent ls = (actions, skipped, ls')" and "(handle, spec) \<in> set (actuating_functions_for (ro_registry (ld_router ls)))"
    and "wanted only handle" and "map_of absent handle = None"
    and "list_all co_success actions \<or> (\<exists>args. build_zero_args spec = Inr args \<and> (\<forall>n p. re_provider (env n) p = Some True) \<and>
       validate_call (safe_request handle (fs_function_id spec) (fs_function_name spec) args) (ld_router ls) = None)"
  shows "\<exists>new. ld_sent ls' = ld_sent ls @ new \<and> (\<exists>sent \<in> set new. serves sent (handle, fs_function_id spec, fs_function_name spec))"
proof -
  from run_targets_runs [OF run_extends(2) assms(1) [unfolded run_zero_def]] assms(2-4)
  obtain ls1 where ls1: "extends ls ls1" "extends (snd (run_zero_call env (handle, spec) ls1)) ls'"
    "fst (run_zero_call env (handle, spec) ls1) \<in> set actions"
    by auto
  then have "validate_call request (ld_router ls1) = validate_call request (ld_router ls)" for request
    by (intro validate_call_registry) (simp add: extends_def)
  with assms(5) ls1(3) obtain sent where "ld_sent (snd (run_zero_call env (handle, spec) ls1)) = ld_sent ls1 @ [sent]"
    "serves sent (handle, fs_function_id spec, fs_function_name spec)"
    using run_zero_call_success [of env handle spec ls1] by (auto simp: list_all_iff)
  with sent_between [OF ls1(1) _ ls1(2)] show ?thesis by blast
qed

lemma run_ladder_sends:
  assumes "run_ladder env safety only absent ls = (result, ls')" and "t \<in> set (rung_targets safety (ro_registry (ld_router ls)))"
    and "wanted only (fst t)" and "map_of absent (fst t) = None"
    and "es_safe_state_achieved result"
  shows "\<exists>new. ld_sent ls' = ld_sent ls @ new \<and> (\<exists>sent \<in> set new. serves sent t)"
proof (cases "planned_safe_state_kind (ro_registry (ld_router ls)) safety")
  case SK_None
  with assms(2) show ?thesis by (simp add: rung_targets_def)
next
  case SK_Hooks
  with assms(2) obtain call where call: "call \<in> set (sf_hooks (sy_safe_state safety))"
    "t = (cc_device_handle call, cc_function_id call, cc_function_name call)"
    by (auto simp: rung_targets_def)
  with SK_Hooks assms show ?thesis
    using run_declared_sends [of env only absent "sf_hooks (sy_safe_state safety)" ls _ _ ls' call]
    by (auto simp: run_ladder_def Let_def split: prod.splits)
next
  case SK_Setpoints
  with assms(2) obtain call where call: "call \<in> set (sf_setpoints (sy_safe_state safety))"
    "t = (cc_device_handle call, cc_function_id call, cc_function_name call)"
    by (auto simp: rung_targets_def)
  with SK_Setpoints assms show ?thesis
    using run_declared_sends [of env only absent "sf_setpoints (sy_safe_state safety)" ls _ _ ls' call]
    by (auto simp: run_ladder_def Let_def split: prod.splits)
next
  case SK_Zero
  with assms(2) obtain handle spec where target: "(handle, spec) \<in> set (actuating_functions_for (ro_registry (ld_router ls)))"
    "t = (handle, fs_function_id spec, fs_function_name spec)"
    by (auto simp: rung_targets_def)
  with SK_Zero assms show ?thesis
    using run_zero_sends [of env only absent ls _ _ ls' handle spec]
    by (auto simp: run_ladder_def Let_def split: prod.splits)
qed

text \<open>A sent call that drives a function of a device.\<close>

definition drives :: "dispatch \<Rightarrow> string \<Rightarrow> FunctionSpec \<Rightarrow> bool" where
  "drives sent handle spec = (case sent of (p, d, fid, name, args) \<Rightarrow>
     p @ ''/'' @ d = handle \<and> (fid = fs_function_id spec \<or> name = fs_function_name spec))"

lemma serves_drives:
  "serves sent (handle, fs_function_id spec, fs_function_name spec) \<Longrightarrow> drives sent handle spec"
  "setpoint_matches call handle spec \<Longrightarrow> serves sent (cc_device_handle call, cc_function_id call, cc_function_name call) \<Longrightarrow>
     drives sent handle spec"
  by (cases sent; auto simp: serves.simps drives_def setpoint_matches_def split: if_splits)+

lemma covered_by_call:
  "(handle, spec) \<in> set (actuating_functions_for (ro_registry ro)) \<Longrightarrow>
   handle @ ''/'' @ fs_function_name spec \<notin> set (uncovered_actuating_functions ro calls) \<Longrightarrow>
   \<exists>call \<in> set calls. setpoint_matches call handle spec \<and> validate_call (to_call_request call) ro = None"
  by (force simp: uncovered_actuating_functions_def list_ex_iff)

lemma covered_by_zero:
  assumes "(handle, spec) \<in> set (actuating_functions_for (ro_registry ro))"
    and "handle @ ''/'' @ fs_function_name spec \<notin> set (uncovered_functions safety SK_Zero ro)"
  shows "\<exists>args. build_zero_args spec = Inr args \<and>
    validate_call (safe_request handle (fs_function_id spec) (fs_function_name spec) args) ro = None"
proof (cases "build_zero_args spec")
  case (Inl e)
  with assms show ?thesis by (force simp: uncovered_functions_def)
next
  case (Inr args)
  with assms show ?thesis by (force simp: uncovered_functions_def)
qed

section \<open>Properties of the ladder\<close>

text \<open>C5. The verdict is honest. When a ladder run, on all devices or one, with or without devices left
  out, reports the safe state achieved, then for everything the planned rung is to drive on the wanted,
  present devices a call with those selectors was sent to that device during the run.\<close>

theorem achieved_means_driven:
  assumes "run_ladder env safety only absent ls = (result, ls')" and "es_safe_state_achieved result"
    and "t \<in> set (rung_targets safety (ro_registry (ld_router ls)))" and "wanted only (fst t)" and "map_of absent (fst t) = None"
  shows "\<exists>new. ld_sent ls' = ld_sent ls @ new \<and> (\<exists>sent \<in> set new. serves sent t)"
  using run_ladder_sends assms by blast

text \<open>C4. The coverage report is honest. A run of the ladder during which every provider is available sends a
  call that drives each declared actuating function that the status surface does not list as uncovered.\<close>

theorem covered_functions_driven:
  assumes "run_ladder env safety None [] ls = (result, ls')" and "\<forall>n p. re_provider (env n) p = Some True"
    and "(handle, spec) \<in> set (actuating_functions_for (ro_registry (ld_router ls)))"
    and "handle @ ''/'' @ fs_function_name spec \<notin> set (ca_uncovered_functions (capability safety (ld_router ls) ec))"
  shows "\<exists>new. ld_sent ls' = ld_sent ls @ new \<and> (\<exists>sent \<in> set new. drives sent handle spec)"
proof -
  let ?kind = "planned_safe_state_kind (ro_registry (ld_router ls)) safety"
  have declared: ?thesis
    if "handle @ ''/'' @ fs_function_name spec \<notin> set (uncovered_actuating_functions (ld_router ls) calls)"
      "run_declared env None [] calls ls = (actions, skipped, ls')" for calls actions skipped
  proof -
    from covered_by_call [OF assms(3) that(1)] obtain call where call: "call \<in> set calls" "setpoint_matches call handle spec"
      "validate_call (to_call_request call) (ld_router ls) = None" by blast
    with run_declared_sends [OF that(2) call(1)] assms(2) obtain new sent where "ld_sent ls' = ld_sent ls @ new" "sent \<in> set new"
      "serves sent (cc_device_handle call, cc_function_id call, cc_function_name call)"
      by (auto simp: wanted_def)
    with serves_drives(2) [OF call(2)] show ?thesis by blast
  qed
  have uncovered: "handle @ ''/'' @ fs_function_name spec \<notin> set (uncovered_functions safety ?kind (ld_router ls))"
    using assms(4) by (simp add: capability_def Let_def)
  show ?thesis
  proof (cases ?kind)
    case SK_None
    with uncovered assms(3) show ?thesis by (force simp: uncovered_functions_def)
  next
    case SK_Hooks
    with uncovered assms(1) declared show ?thesis
      by (auto simp: uncovered_functions_def run_ladder_def Let_def split: prod.splits)
  next
    case SK_Setpoints
    with uncovered assms(1) declared show ?thesis
      by (auto simp: uncovered_functions_def run_ladder_def Let_def split: prod.splits)
  next
    case SK_Zero
    with uncovered covered_by_zero [OF assms(3)] obtain args where "build_zero_args spec = Inr args"
      "validate_call (safe_request handle (fs_function_id spec) (fs_function_name spec) args) (ld_router ls) = None" by auto
    moreover from SK_Zero assms(1) obtain actions skipped where "run_zero env None [] ls = (actions, skipped, ls')"
      by (auto simp: run_ladder_def Let_def split: prod.splits)
    ultimately obtain new sent where "ld_sent ls' = ld_sent ls @ new" "sent \<in> set new"
      "serves sent (handle, fs_function_id spec, fs_function_name spec)"
      using run_zero_sends [of env None "[]" ls actions skipped ls' handle spec] assms(2,3) by (auto simp: wanted_def)
    with serves_drives(1) show ?thesis by blast
  qed
qed

subsection \<open>The zero rung\<close>

definition all_zero :: "args_map \<Rightarrow> bool" where
  "all_zero args = (\<forall>(k, v) \<in> set args. value_number v = Some 0)"

lemma all_zero_put: "all_zero args \<Longrightarrow> value_number v = Some 0 \<Longrightarrow> all_zero (omap_put k v args)"
  using set_omap_put [of k v args] by (auto simp: all_zero_def)

lemma zero_value_number: "zero_value type = Some v \<Longrightarrow> value_number v = Some 0"
  by (auto simp: zero_value_def value_number_def f64_finite_def f64_scaled_def f64_mag_def split: ValueType.splits)

lemma zero_required_zero: "zero_required as args = Inr args' \<Longrightarrow> all_zero args \<Longrightarrow> all_zero args'"
  by (induction as args rule: zero_required.induct)
    (auto simp: all_zero_put zero_value_number split: if_splits option.splits)

lemma coerce_arguments_zero:
  "coerce_arguments specs args = Inr args' \<Longrightarrow> all_zero args \<Longrightarrow> all_zero args'"
proof (induction specs args arbitrary: args' rule: coerce_arguments.induct)
  case (2 s specs args)
  show ?case
  proof (cases "map_of args (as_name s)")
    case None
    with 2 show ?thesis by simp
  next
    case (Some v)
    with "2.prems" obtain v' where v': "coerce_value s v = Inr v'" by (auto split: sum.splits)
    have "value_number v = Some 0" using Some "2.prems"(2) by (auto simp: all_zero_def dest: map_of_SomeD)
    then have "value_number v' = Some 0" using coerce_value_number [OF v'] by (simp add: same_number_def)
    with "2.IH"(2) [OF Some v'] "2.prems" Some v' show ?thesis by (simp add: all_zero_put)
  qed
qed simp

definition zero_dispatch :: "DeviceRegistry \<Rightarrow> dispatch \<Rightarrow> bool" where
  "zero_dispatch registry sent = (case sent of (p, d, fid, name, args) \<Rightarrow>
     args \<noteq> [] \<and> all_zero args \<and> (\<exists>spec. (p @ ''/'' @ d, spec) \<in> set (actuating_functions_for registry) \<and> drives sent (p @ ''/'' @ d) spec))"

lemma build_zero_args_zero: "build_zero_args spec = Inr args \<Longrightarrow> args \<noteq> [] \<and> all_zero args"
  by (auto simp: build_zero_args_def all_zero_def [of "[]"] dest: zero_required_zero split: sum.splits if_splits)

lemma sent_arguments:
  assumes "oc_dispatch (execute_call env request ro sc) = Some (p, d, fid, name, args)"
  shows "\<exists>specs. coerce_arguments specs (rq_args request) = Inr args"
  using assms by (auto elim!: execute_call_sent simp: reaches_lock_def)

lemma run_zero_call_zero:
  assumes "(handle, spec) \<in> set (actuating_functions_for registry)"
  shows "\<exists>new. ld_sent (snd (run_zero_call env (handle, spec) ls)) = ld_sent ls @ new \<and> (\<forall>sent \<in> set new. zero_dispatch registry sent)"
proof (cases "build_zero_args spec")
  case (Inl why)
  then show ?thesis by (simp add: run_zero_call_refused)
next
  case (Inr args0)
  let ?request = "safe_request handle (fs_function_id spec) (fs_function_name spec) args0"
  let ?oc = "execute_call (env (ld_turn ls)) ?request (ld_router ls) (ld_cache ls)"
  show ?thesis
  proof (cases "oc_dispatch ?oc")
    case None
    then show ?thesis by (simp add: run_zero_call_route [OF Inr] route_def Let_def)
  next
    case (Some sent)
    obtain p d fid name args where sent: "sent = (p, d, fid, name, args)" by (metis prod_cases5)
    have "serves sent (handle, fs_function_id spec, fs_function_name spec)" using sent_serves [OF Some] by simp
    then have "p @ ''/'' @ d = handle" "drives sent handle spec"
      using serves_drives(1) by (auto simp: sent serves.simps)
    moreover from sent_arguments [OF Some [unfolded sent]] obtain specs where "coerce_arguments specs args0 = Inr args"
      by auto
    then have "all_zero args" "args \<noteq> []"
      using coerce_arguments_zero coerce_arguments_keys [of specs args0 args] build_zero_args_zero [OF Inr] by auto
    ultimately have "zero_dispatch registry sent" using assms by (auto simp: zero_dispatch_def sent)
    with Some show ?thesis by (simp add: run_zero_call_route [OF Inr] route_def Let_def)
  qed
qed

lemma run_targets_all:
  assumes "\<And>t ls. t \<in> set ts \<Longrightarrow> \<exists>new. ld_sent (snd (run t ls)) = ld_sent ls @ new \<and> (\<forall>x \<in> set new. P x)"
    and "run_targets handle label run absent ts ls = (actions, skipped, ls')"
  shows "\<exists>new. ld_sent ls' = ld_sent ls @ new \<and> (\<forall>x \<in> set new. P x)"
  using assms
proof (induction ts arbitrary: ls actions skipped)
  case (Cons t ts)
  show ?case
  proof (cases "map_of absent (handle t)")
    case (Some reason)
    then obtain skipped' where "run_targets handle label run absent ts ls = (actions, skipped', ls')"
      using Cons.prems(2) by (auto split: prod.splits)
    from Cons.IH [OF _ this] Cons.prems(1) show ?thesis by simp
  next
    case None
    obtain action ls1 where run: "run t ls = (action, ls1)" by fastforce
    with None Cons.prems(2) obtain actions' skipped' where rest: "run_targets handle label run absent ts ls1 = (actions', skipped', ls')"
      by (auto split: prod.splits)
    obtain new where "ld_sent ls1 = ld_sent ls @ new" "\<forall>x \<in> set new. P x" using Cons.prems(1) [of t ls] run by auto
    moreover obtain new' where "ld_sent ls' = ld_sent ls1 @ new'" "\<forall>x \<in> set new'. P x" using Cons.IH [OF _ rest] Cons.prems(1) by auto
    ultimately show ?thesis by (intro exI [of _ "new @ new'"]) auto
  qed
qed simp

text \<open>C16. The zero rung only zeroes. Every call it sends goes to a function declared as actuating, has at
  least one argument, and every argument of it is the number zero.\<close>

theorem zero_rung_sends_zeros:
  assumes "run_ladder env safety only absent ls = (result, ls')" and "es_kind result = SK_Zero"
  shows "\<exists>new. ld_sent ls' = ld_sent ls @ new \<and> (\<forall>sent \<in> set new. zero_dispatch (ro_registry (ld_router ls)) sent)"
proof -
  from assms obtain actions skipped where "run_zero env only absent ls = (actions, skipped, ls')"
    by (auto simp: run_ladder_def Let_def split: prod.splits)
  then show ?thesis
    unfolding run_zero_def by (rule run_targets_all [rotated]) (auto intro: run_zero_call_zero)
qed

section \<open>The latch across restarts\<close>

text \<open>What the operations do to the latch and its file: \<open>trigger\<close> engages, \<open>hold\<close> engages an open latch, and
  \<open>clear\<close> opens it unless the guard refuses.\<close>

datatype latch_op = L_Trigger string | L_Hold string | L_Clear "string option"

fun latch_step :: "EstopEnv \<times> latch_op \<Rightarrow> SafeStateController \<times> files \<Rightarrow> SafeStateController \<times> files" where
  "latch_step (env, L_Trigger reason) cf = snd (engage env reason cf)"
| "latch_step (env, L_Hold reason) cf = snd (hold_latch env reason cf)"
| "latch_step (env, L_Clear refusal) cf = snd (clear_latch env refusal cf)"

lemma trigger_latch:
  "\<exists>ec fs. snd (engage env reason cf) = (ec, fs) \<and>
     fst (snd (trigger env renv safety set_fault reason cf lw)) \<in> {(ec, fs), (ec\<lparr> ec_hooks_admitted := False \<rparr>, fs)}"
  by (auto simp: trigger_def Let_def split: prod.splits)

lemma hold_latch_step: "fst (snd (hold env set_fault reason cf lw)) = latch_step (env, L_Hold reason) cf"
  by (auto simp: hold_def Let_def split: prod.splits)

text \<open>The write or removal an operation does succeeds.\<close>

definition step_persists :: "LatchStore \<Rightarrow> EstopEnv \<times> latch_op \<Rightarrow> SafeStateController \<times> files \<Rightarrow> bool" where
  "step_persists st step cf =
     (let env = fst step; saves = (\<lambda>reason. fst (save (ee_dump env) (ee_save env) st (ee_now env) reason (snd cf)) = Saved) in
      case snd step of
        L_Trigger reason \<Rightarrow> saves reason
      | L_Hold reason \<Rightarrow> ec_latched (fst cf) \<or> saves reason
      | L_Clear refusal \<Rightarrow> refusal \<noteq> None \<or> fst (remove_file (ee_remove_ok env) (ee_dir_sync_ok env) st (snd cf)))"

fun run_persists :: "LatchStore \<Rightarrow> (EstopEnv \<times> latch_op) list \<Rightarrow> SafeStateController \<times> files \<Rightarrow> bool" where
  "run_persists st [] cf = True"
| "run_persists st (s # steps) cf = (step_persists st s cf \<and> run_persists st steps (latch_step s cf))"

text \<open>The file is there exactly when the latch is engaged; \<open>on_file\<close> is its record of the engagement.\<close>

definition latch_on_disk :: "LatchStore \<Rightarrow> SafeStateController \<times> files \<Rightarrow> bool" where
  "latch_on_disk st cf = (ec_latch_store (fst cf) = Some st \<and> (ec_latched (fst cf) \<longleftrightarrow> snd cf (la_file st) \<noteq> None))"

definition on_file :: "(string \<Rightarrow> json option) \<Rightarrow> LatchStore \<Rightarrow> SafeStateController \<times> files \<Rightarrow> bool" where
  "on_file parse st cf = (ec_latched (fst cf) \<longrightarrow> (\<exists>content t. snd cf (la_file st) = Some content \<and> ec_latched_at_ms (fst cf) = Some t \<and>
     read_record (la_config_dir st) (parse content) = \<lparr> pl_state = Latched, pl_latched_at_epoch_ms = Some t \<rparr>))"

lemma latch_step_on_disk:
  assumes "latch_on_disk st cf" and "step_persists st s cf" and "la_file st \<noteq> []"
  shows "latch_on_disk st (latch_step s cf)"
proof -
  obtain env op where s: "s = (env, op)" by fastforce
  obtain ec fs where cf: "cf = (ec, fs)" by fastforce
  have saved: "latch_on_disk st (snd (engage env reason cf))"
    if "fst (save (ee_dump env) (ee_save env) st (ee_now env) reason fs) = Saved" for reason
    using save_Saved [OF assms(3) that] assms(1)
    by (auto simp: latch_on_disk_def engage_def cf Let_def split: prod.splits)
  show ?thesis
    using assms(1,2) saved
    by (cases op) (auto simp: s cf step_persists_def hold_latch_def clear_latch_def latch_on_disk_def remove_file_def Let_def
        split: option.splits if_splits)
qed

lemma latch_step_on_file:
  assumes "on_file parse st cf" and "latch_on_disk st cf" and "step_persists st s cf" and "la_file st \<noteq> []"
    and "\<And>doc body. ee_dump (fst s) doc = Some body \<Longrightarrow> parse (body @ [CHR 0x0A]) = Some doc"
  shows "on_file parse st (latch_step s cf)"
proof -
  obtain env op where s: "s = (env, op)" by fastforce
  obtain ec fs where cf: "cf = (ec, fs)" by fastforce
  have saved: "on_file parse st (snd (engage env reason cf))"
    if "fst (save (ee_dump env) (ee_save env) st (ee_now env) reason fs) = Saved" for reason
    using save_Saved [OF assms(4) that] assms(2,5)
    by (auto simp: on_file_def latch_on_disk_def engage_def cf s Let_def read_record_doc split: prod.splits)
  show ?thesis
    using assms(1-3) saved
    by (cases op) (auto simp: s cf step_persists_def hold_latch_def clear_latch_def on_file_def latch_on_disk_def Let_def
        split: option.splits)
qed

lemma run_latch_on_disk:
  "latch_on_disk st cf \<Longrightarrow> run_persists st steps cf \<Longrightarrow> la_file st \<noteq> [] \<Longrightarrow> latch_on_disk st (fold latch_step steps cf)"
  by (induction steps arbitrary: cf) (simp_all add: latch_step_on_disk)

lemma run_latch_on_file:
  "on_file parse st cf \<Longrightarrow> latch_on_disk st cf \<Longrightarrow> run_persists st steps cf \<Longrightarrow> la_file st \<noteq> [] \<Longrightarrow>
   (\<And>s doc body. s \<in> set steps \<Longrightarrow> ee_dump (fst s) doc = Some body \<Longrightarrow> parse (body @ [CHR 0x0A]) = Some doc) \<Longrightarrow>
   on_file parse st (fold latch_step steps cf)"
proof (induction steps arbitrary: cf)
  case (Cons s steps)
  have step: "step_persists st s cf" "run_persists st steps (latch_step s cf)" using Cons.prems(3) by simp_all
  have "on_file parse st (latch_step s cf)"
    by (rule latch_step_on_file [OF Cons.prems(1,2) step(1) Cons.prems(4)]) (rule Cons.prems(5) [of s], simp_all)
  moreover have "latch_on_disk st (latch_step s cf)" by (rule latch_step_on_disk [OF Cons.prems(2) step(1) Cons.prems(4)])
  ultimately have "on_file parse st (fold latch_step steps (latch_step s cf))"
    by (rule Cons.IH) (rule step(2), rule Cons.prems(4), rule Cons.prems(5), simp_all)
  then show ?case by simp
qed simp

lemma attach_on_disk:
  "\<not> le_exists_error (ee_load env) \<Longrightarrow> latch_on_disk st (attach_latch_store env (Some st) (new_controller, fs))"
  using load_absent [of "ee_parse env" "ee_load env" st fs]
  by (auto simp: latch_on_disk_def attach_latch_store_def new_controller_def Let_def)

text \<open>C11. A restart keeps the latch. Take a runtime that attached its latch store, and any sequence of
  triggers, holds and clears whose writes and removals succeeded; whether the file exists can be found out at both
  starts. A runtime started afterwards over the same files is latched exactly when this one is. It also reports the
  same time of engagement, provided that this one started without a latch file, that the later one can read the
  file, and that the JSON library reads back the documents it wrote.\<close>

theorem latch_survives_restart:
  assumes "st = new_store data_dir config_dir" and "\<not> le_exists_error (ee_load env)" and "\<not> le_exists_error (ee_load env')"
    and "start = attach_latch_store env (Some st) (new_controller, fs)" and "run_persists st steps start"
    and "(ec, fs') = fold latch_step steps start" and "ec' = fst (attach_latch_store env' (Some st) (new_controller, fs'))"
  shows "ec_latched ec' = ec_latched ec \<and>
    (fs (la_file st) = None \<and> le_read_ok (ee_load env') \<and>
     (\<forall>s \<in> set steps. \<forall>doc body. ee_dump (fst s) doc = Some body \<longrightarrow> ee_parse env' (body @ [CHR 0x0A]) = Some doc) \<longrightarrow>
       ec_latched_at_ms ec' = (if ec_latched ec then ec_latched_at_ms ec else None))"
proof -
  have ne: "la_file st \<noteq> []" using assms(1) by simp
  have start: "latch_on_disk st start" using attach_on_disk assms(2,4) by blast
  have disk: "latch_on_disk st (ec, fs')" using run_latch_on_disk [OF start assms(5) ne] assms(6) by simp
  then have same: "ec_latched ec' = ec_latched ec"
    using attach_on_disk [OF assms(3), of st fs'] assms(7)
    by (auto simp: latch_on_disk_def attach_latch_store_def Let_def new_controller_def split: if_splits)
  have "ec_latched_at_ms ec' = (if ec_latched ec then ec_latched_at_ms ec else None)"
    if none: "fs (la_file st) = None" and read: "le_read_ok (ee_load env')"
      and codec: "\<forall>s \<in> set steps. \<forall>doc body. ee_dump (fst s) doc = Some body \<longrightarrow> ee_parse env' (body @ [CHR 0x0A]) = Some doc"
  proof -
    have "\<not> ec_latched (fst start)" using none assms(2,4) by (simp add: attach_latch_store_def load_def new_controller_def)
    then have "on_file (ee_parse env') st start" by (simp add: on_file_def)
    then have "on_file (ee_parse env') st (ec, fs')"
      using run_latch_on_file [OF _ start assms(5) ne] codec assms(6) by metis
    then show ?thesis
      using disk assms(3,7) read
      by (auto simp: on_file_def latch_on_disk_def attach_latch_store_def load_def Let_def new_controller_def split: option.splits)
  qed
  with same show ?thesis by blast
qed

section \<open>Examples\<close>

text \<open>One actuating function, with a latched controller: made safe by a declared call, or by zeroing.\<close>

definition level_safety :: "bool \<Rightarrow> SafetyConfig" where
  "level_safety zero = \<lparr> sy_safe_state = \<lparr> sf_hooks = (if zero then [] else
       [\<lparr> cc_device_handle = ''p/d'', cc_function_id = 0, cc_function_name = ''set'', cc_args = [(''level'', PV_Int64 0)] \<rparr>]),
       sf_setpoints = [], sf_zero_is_safe = zero \<rparr>,
     sy_on_startup = SU_SafeState, sy_stop_chain = \<lparr> ch_status = None, ch_devices = [], ch_expectations = [] \<rparr> \<rparr>"

definition level_ladder :: LadderState where
  "level_ladder = \<lparr> ld_router = new_router level_registry, ld_cache = new_cache False False, ld_outs = [], ld_sent = [], ld_turn = 0 \<rparr>"

definition latched_env :: "nat \<Rightarrow> RouterEnv" where
  "latched_env n = open_env True 0"

abbreviation level_run :: "bool \<Rightarrow> EstopResult \<times> LadderState" where
  "level_run zero \<equiv> run_ladder latched_env (level_safety zero) None [] level_ladder"

lemma level_hooks_achieved: "es_safe_state_achieved (fst (level_run False))"
  by code_simp

lemma level_zero_kind: "es_kind (fst (level_run True)) = SK_Zero"
  by code_simp

lemma level_hook_target: "(''p/d'', 0, ''set'') \<in> set (rung_targets (level_safety False) (ro_registry (ld_router level_ladder)))"
  by code_simp

lemma level_actuating: "(''p/d'', level_function) \<in> set (actuating_functions_for (ro_registry (ld_router level_ladder)))"
  by (simp add: level_defs level_ladder_def new_router_def actuating_functions_for_def get_all_devices_def get_handle_def)

lemma level_covered: "ca_uncovered_functions (capability (level_safety True) (ld_router level_ladder) new_controller) = []"
  by code_simp

lemma level_sent_nothing [simp]: "ld_sent level_ladder = []"
  by (simp add: level_ladder_def)

theorem achieved_means_driven_witness:
  "es_safe_state_achieved (fst (level_run False)) \<and>
   (\<exists>sent \<in> set (ld_sent (snd (level_run False))). serves sent (''p/d'', 0, ''set''))"
  using achieved_means_driven [OF prod.collapse [symmetric] level_hooks_achieved level_hook_target] level_hooks_achieved
  by (auto simp: wanted_def)

theorem covered_functions_driven_witness:
  "\<exists>sent \<in> set (ld_sent (snd (level_run True))). drives sent ''p/d'' level_function"
  using covered_functions_driven [OF prod.collapse [symmetric] _ level_actuating, of latched_env "level_safety True" new_controller]
    level_covered
  by (auto simp: latched_env_def open_env_def)

theorem zero_rung_sends_zeros_witness:
  "ld_sent (snd (level_run True)) \<noteq> [] \<and> zero_dispatch level_registry (hd (ld_sent (snd (level_run True))))"
proof -
  have "ld_sent (snd (level_run True)) \<noteq> []" by code_simp
  moreover have "ro_registry (ld_router level_ladder) = level_registry" by (simp add: level_ladder_def new_router_def)
  ultimately show ?thesis
    using zero_rung_sends_zeros [OF prod.collapse [symmetric] level_zero_kind] by simp
qed

text \<open>A trigger, a refused clear, and a restart.\<close>

definition demo_estop_env :: EstopEnv where
  "demo_estop_env = \<lparr> ee_dump = demo_dump, ee_parse = demo_parse, ee_save = demo_save_env True,
     ee_load = \<lparr> le_exists_error = False, le_read_ok = True \<rparr>, ee_remove_ok = True, ee_dir_sync_ok = True, ee_now = 5 \<rparr>"

definition demo_steps :: "(EstopEnv \<times> latch_op) list" where
  "demo_steps = [(demo_estop_env, L_Trigger ''x''), (demo_estop_env, L_Clear (Some ''stop chain held''))]"

theorem latch_survives_restart_witness:
  "let start = attach_latch_store demo_estop_env (Some demo_store) (new_controller, Map.empty);
       (ec, fs') = fold latch_step demo_steps start;
       ec' = fst (attach_latch_store demo_estop_env (Some demo_store) (new_controller, fs'))
   in ec_latched ec' \<and> ec_latched_at_ms ec' = Some 5"
proof -
  let ?start = "attach_latch_store demo_estop_env (Some demo_store) (new_controller, Map.empty)"
  obtain ec fs' where run: "fold latch_step demo_steps ?start = (ec, fs')" by fastforce
  have start: "?start = (new_controller\<lparr> ec_latch_store := Some demo_store \<rparr>, Map.empty)"
    by (simp add: attach_latch_store_def demo_estop_env_def load_def)
  have ran: "ec_latched ec \<and> ec_latched_at_ms ec = Some 5"
    using run unfolding start demo_steps_def
    by (auto simp: engage_def clear_latch_def Let_def new_controller_def demo_estop_env_def split: prod.splits)
  have persists: "run_persists demo_store demo_steps ?start"
    unfolding start demo_steps_def
    by (simp add: step_persists_def demo_estop_env_def save_def demo_save_env_def demo_dump_def Let_def)
  have codec: "\<forall>s \<in> set demo_steps. \<forall>doc body. ee_dump (fst s) doc = Some body \<longrightarrow> ee_parse demo_estop_env (body @ [CHR 0x0A]) = Some doc"
    by (simp add: demo_steps_def demo_estop_env_def demo_dump_def demo_parse_def)
  show ?thesis
    using latch_survives_restart [OF demo_store_def _ _ refl persists run [symmetric] refl, of demo_estop_env] codec ran run
    by (simp add: demo_estop_env_def)
qed

end
