(* ===== verification/Stop_Chain.thy ===== *)
theory Stop_Chain
  imports State_Cache Runtime_Config
begin

text \<open>
  The observer of the emergency stop: \<^verbatim>\<open>core/control/stop_chain.cpp\<close>. It classifies a boolean signal of
  the state cache, keeps the current state with the time it began, and judges the devices that are
  expected to react to the stop. Texts are constructors; the cache and the clocks are arguments.
\<close>

section \<open>State\<close>

datatype StopChainState = SC_NotConfigured | SC_InForce | SC_Clear | SC_Unknown

fun stop_chain_state_to_string :: "StopChainState \<Rightarrow> string" where
  "stop_chain_state_to_string SC_InForce = ''in_force''"
| "stop_chain_state_to_string SC_Clear = ''clear''"
| "stop_chain_state_to_string SC_Unknown = ''unknown''"
| "stop_chain_state_to_string SC_NotConfigured = ''not_configured''"

fun stop_chain_expect_to_string :: "StopChainExpect \<Rightarrow> string" where
  "stop_chain_expect_to_string PowerLoss = ''power_loss''"
| "stop_chain_expect_to_string ReportsEstop = ''reports_estop''"

datatype stop_reason =
    SR_None
  | SR_No_Reading string
  | SR_Stale string duration_ms ProtoQuality
  | SR_Not_Ok string ProtoQuality
  | SR_Not_Bool string
  | SR_Reads string bool

datatype mismatch_reason =
    MR_Still_Answers string string duration_ms
  | MR_Estop_False string
  | MR_As_Expected string
  | MR_Not_In_Force

record StopChainMismatch =
  mm_device :: string
  mm_expect :: StopChainExpect
  mm_reason :: mismatch_reason
  mm_since_epoch_ms :: int

record StopChainMismatchChange =
  mc_mismatch :: StopChainMismatch
  mc_raised :: bool

record StopChainSnapshot =
  sn_state :: StopChainState
  sn_reason :: stop_reason
  sn_since_epoch_ms :: "int option"

record StopChainMonitor =
  mo_config :: StopChainConfig
  mo_stale_after :: duration_ms
  mo_device_handle :: string
  mo_signal_id :: string
  mo_current :: StopChainSnapshot
  mo_mismatches :: "(string \<times> StopChainMismatch) list"

text \<open>Split at the last slash; without one \<open>rfind\<close> gives \<open>npos\<close>, and both parts are the whole string.\<close>

definition split_signal :: "string \<Rightarrow> string \<times> string" where
  "split_signal signal =
     (let tail = rev (takeWhile (\<lambda>c. c \<noteq> CHR ''/'') (rev signal)) in
      if CHR ''/'' \<in> set signal then (take (length signal - length tail - 1) signal, tail) else (signal, signal))"

definition new_monitor :: "StopChainConfig \<Rightarrow> duration_ms \<Rightarrow> StopChainMonitor" where
  "new_monitor config stale_after =
     (let (device_handle, signal_id) = (case ch_status config of None \<Rightarrow> ([], []) | Some status \<Rightarrow> split_signal (st_signal status)) in
      \<lparr> mo_config = config, mo_stale_after = stale_after, mo_device_handle = device_handle, mo_signal_id = signal_id,
        mo_current = \<lparr> sn_state = SC_NotConfigured, sn_reason = SR_None, sn_since_epoch_ms = None \<rparr>, mo_mismatches = [] \<rparr>)"

definition monitor_configured :: "StopChainMonitor \<Rightarrow> bool" where
  "monitor_configured mo = (ch_status (mo_config mo) \<noteq> None)"

section \<open>Operations\<close>

definition is_ok :: "CachedSignalValue \<Rightarrow> bool" where
  "is_ok v = (cv_quality v = QUALITY_OK)"

definition classify :: "StateCache \<Rightarrow> time_ns \<Rightarrow> StopChainMonitor \<Rightarrow> StopChainState \<times> stop_reason" where
  "classify cache now mo =
     (case ch_status (mo_config mo) of
        None \<Rightarrow> (SC_NotConfigured, SR_None)
      | Some status \<Rightarrow>
          (case get_signal_value cache (mo_device_handle mo) (mo_signal_id mo) of
             None \<Rightarrow> (SC_Unknown, SR_No_Reading (st_signal status))
           | Some v \<Rightarrow>
               if cv_is_stale (mo_stale_after mo) now v
               then (SC_Unknown, SR_Stale (st_signal status) (cv_age now v) (cv_quality v))
               else if \<not> is_ok v then (SC_Unknown, SR_Not_Ok (st_signal status) (cv_quality v))
               else (case v_kind (cv_value v) of
                   K_Bool b \<Rightarrow> (if b = st_active status then SC_InForce else SC_Clear, SR_Reads (st_signal status) b)
                 | _ \<Rightarrow> (SC_Unknown, SR_Not_Bool (st_signal status)))))"

definition update_monitor ::
  "StateCache \<Rightarrow> time_ns \<Rightarrow> int \<Rightarrow> StopChainMonitor \<Rightarrow> (StopChainSnapshot \<times> StopChainSnapshot) option \<times> StopChainMonitor" where
  "update_monitor cache now epoch_ms mo =
     (if \<not> monitor_configured mo then (None, mo)
      else let (state, reason) = classify cache now mo in
        if state = sn_state (mo_current mo) \<and> sn_since_epoch_ms (mo_current mo) \<noteq> None
        then (None, mo\<lparr> mo_current := (mo_current mo)\<lparr> sn_reason := reason \<rparr> \<rparr>)
        else let after = \<lparr> sn_state = state, sn_reason = reason, sn_since_epoch_ms = Some epoch_ms \<rparr>
             in (Some (mo_current mo, after), mo\<lparr> mo_current := after \<rparr>))"

text \<open>\<open>clock\<close> is the time at which the age of a signal of the device is taken.\<close>

definition contradiction ::
  "StateCache \<Rightarrow> (string \<Rightarrow> time_ns) \<Rightarrow> StopChainMonitor \<Rightarrow> string \<Rightarrow> StopChainExpect \<Rightarrow> mismatch_reason option" where
  "contradiction cache clock mo device_handle expect =
     (case expect of
        PowerLoss \<Rightarrow>
          Option.bind (get_device_state cache device_handle) (\<lambda>device.
            map_option (\<lambda>(signal_id, v). MR_Still_Answers device_handle signal_id (cv_age (clock signal_id) v))
              (find (\<lambda>(signal_id, v). \<not> cv_is_stale (mo_stale_after mo) (clock signal_id) v) (ds_signals device)))
      | ReportsEstop \<Rightarrow>
          (case get_signal_value cache device_handle ''estop'' of
             None \<Rightarrow> None
           | Some v \<Rightarrow>
               if \<not> is_ok v \<or> cv_is_stale (mo_stale_after mo) (clock ''estop'') v \<or> v_kind (cv_value v) \<noteq> K_Bool False
               then None else Some (MR_Estop_False device_handle)))"

definition found_mismatches :: "StateCache \<Rightarrow> (string \<Rightarrow> string \<Rightarrow> time_ns) \<Rightarrow> int \<Rightarrow> StopChainMonitor \<Rightarrow> (string \<times> StopChainMismatch) list" where
  "found_mismatches cache clock now mo =
     (case sn_since_epoch_ms (mo_current mo) of
        Some since \<Rightarrow>
          if sn_state (mo_current mo) = SC_InForce \<and> mo_stale_after mo \<le> now - since
          then List.map_filter (\<lambda>(handle, expect).
                 map_option (\<lambda>reason. (handle, \<lparr> mm_device = handle, mm_expect = expect, mm_reason = reason, mm_since_epoch_ms = now \<rparr>))
                   (contradiction cache (clock handle) mo handle expect))
               (ch_expectations (mo_config mo))
          else []
      | None \<Rightarrow> [])"

definition resolve_mismatch :: "StopChainState \<Rightarrow> int \<Rightarrow> StopChainMismatch \<Rightarrow> StopChainMismatchChange" where
  "resolve_mismatch state now mismatch = \<lparr> mc_mismatch = mismatch\<lparr>
       mm_reason := (if state = SC_InForce then MR_As_Expected (mm_device mismatch) else MR_Not_In_Force),
       mm_since_epoch_ms := now \<rparr>, mc_raised = False \<rparr>"

fun raise_found :: "(string \<times> StopChainMismatch) list \<Rightarrow> (string \<times> StopChainMismatch) list \<Rightarrow>
    StopChainMismatchChange list \<times> (string \<times> StopChainMismatch) list" where
  "raise_found [] standing = ([], standing)"
| "raise_found ((handle, mismatch) # found) standing =
     (case map_of standing handle of
        Some old \<Rightarrow> raise_found found (omap_put handle (old\<lparr> mm_reason := mm_reason mismatch \<rparr>) standing)
      | None \<Rightarrow>
          (let (changes, standing) = raise_found found (omap_put handle mismatch standing)
           in (\<lparr> mc_mismatch = mismatch, mc_raised = True \<rparr> # changes, standing)))"

definition update_mismatches ::
  "StateCache \<Rightarrow> (string \<Rightarrow> string \<Rightarrow> time_ns) \<Rightarrow> int \<Rightarrow> StopChainMonitor \<Rightarrow> StopChainMismatchChange list \<times> StopChainMonitor" where
  "update_mismatches cache clock now mo =
     (if \<not> monitor_configured mo \<or> ch_expectations (mo_config mo) = [] then ([], mo)
      else let found = found_mismatches cache clock now mo;
               resolved = filter (\<lambda>(handle, mismatch). map_of found handle = None) (mo_mismatches mo);
               kept = filter (\<lambda>(handle, mismatch). map_of found handle \<noteq> None) (mo_mismatches mo);
               (raised, standing) = raise_found found kept
           in (map (\<lambda>(handle, mismatch). resolve_mismatch (sn_state (mo_current mo)) now mismatch) resolved @ raised,
               mo\<lparr> mo_mismatches := standing \<rparr>))"

definition mismatches :: "StopChainMonitor \<Rightarrow> StopChainMismatch list" where
  "mismatches mo = map snd (mo_mismatches mo)"

definition holds :: "StopChainMonitor \<Rightarrow> bool" where
  "holds mo = (sn_state (mo_current mo) = SC_InForce \<or> sn_state (mo_current mo) = SC_Unknown)"

datatype refusal_reason = CR_In_Force stop_reason | CR_Status_Unavailable stop_reason

definition clear_refusal :: "StopChainMonitor \<Rightarrow> refusal_reason option" where
  "clear_refusal mo =
     (if sn_state (mo_current mo) = SC_InForce then Some (CR_In_Force (sn_reason (mo_current mo)))
      else if sn_state (mo_current mo) = SC_Unknown then Some (CR_Status_Unavailable (sn_reason (mo_current mo)))
      else None)"

definition in_scope :: "StopChainMonitor \<Rightarrow> string \<Rightarrow> bool" where
  "in_scope mo device_handle = (device_handle \<in> set (ch_devices (mo_config mo)))"

text \<open>One turn of the main loop: the status is read again, then the expectations are judged.\<close>

record observation =
  ob_cache :: StateCache
  ob_now :: time_ns
  ob_clock :: "string \<Rightarrow> string \<Rightarrow> time_ns"
  ob_epoch_ms :: int
  ob_judged_ms :: int

definition observe :: "observation \<Rightarrow> StopChainMonitor \<Rightarrow> StopChainMismatchChange list \<times> StopChainMonitor" where
  "observe ob mo = update_mismatches (ob_cache ob) (ob_clock ob) (ob_judged_ms ob)
     (snd (update_monitor (ob_cache ob) (ob_now ob) (ob_epoch_ms ob) mo))"

fun observe_all :: "observation list \<Rightarrow> StopChainMonitor \<Rightarrow> StopChainMismatchChange list \<times> StopChainMonitor" where
  "observe_all [] mo = ([], mo)"
| "observe_all (ob # obs) mo =
     (let (changes, mo) = observe ob mo; (changes', mo) = observe_all obs mo in (changes @ changes', mo))"

section \<open>Lemmas\<close>

lemma count_parts_no_slash: "CHR ''/'' \<notin> set s \<Longrightarrow> count_parts n fresh s = Some m \<Longrightarrow> m = n"
  by (induction n fresh s rule: count_parts.induct) (auto split: if_splits)

lemma is_handle_slash: "is_handle s n \<Longrightarrow> 1 < n \<Longrightarrow> CHR ''/'' \<in> set s"
  unfolding is_handle_def using count_parts_no_slash [of s 1 True n] by auto

lemma takeWhile_rev_slash:
  assumes "CHR ''/'' \<notin> set b"
  shows "takeWhile (\<lambda>c. c \<noteq> CHR ''/'') (rev (a @ ''/'' @ b)) = rev b"
proof -
  have "\<And>c. c \<in> set (rev b) \<Longrightarrow> c \<noteq> CHR ''/''" using assms by auto
  then show ?thesis using takeWhile_append2 [of "rev b" "\<lambda>c. c \<noteq> CHR ''/''"] by simp
qed

lemma last_slash_unique:
  assumes "a @ ''/'' @ b = a' @ ''/'' @ b'" and "CHR ''/'' \<notin> set b" and "CHR ''/'' \<notin> set b'"
  shows "a = a' \<and> b = b'"
proof -
  have "rev b = rev b'"
    using takeWhile_rev_slash [OF assms(2), of a] takeWhile_rev_slash [OF assms(3), of a'] by (simp only: assms(1))
  then show ?thesis using assms(1) by simp
qed

lemma split_signal_append:
  assumes "CHR ''/'' \<in> set s"
  shows "s = fst (split_signal s) @ ''/'' @ snd (split_signal s) \<and> CHR ''/'' \<notin> set (snd (split_signal s))"
proof -
  obtain a b where s: "s = a @ ''/'' @ b" and b: "CHR ''/'' \<notin> set b" using split_list_last [OF assms] by auto
  have "split_signal (a @ ''/'' @ b) = (a, b)"
    unfolding split_signal_def takeWhile_rev_slash [OF b] by simp
  then show ?thesis using b unfolding s by simp
qed

lemma update_monitor_frame [simp]:
  "mo_config (snd (update_monitor cache now t mo)) = mo_config mo"
  "mo_stale_after (snd (update_monitor cache now t mo)) = mo_stale_after mo"
  "mo_device_handle (snd (update_monitor cache now t mo)) = mo_device_handle mo"
  "mo_signal_id (snd (update_monitor cache now t mo)) = mo_signal_id mo"
  "mo_mismatches (snd (update_monitor cache now t mo)) = mo_mismatches mo"
  by (auto simp: update_monitor_def Let_def split: prod.splits)

lemma update_mismatches_frame [simp]:
  "mo_config (snd (update_mismatches cache clock t mo)) = mo_config mo"
  "mo_stale_after (snd (update_mismatches cache clock t mo)) = mo_stale_after mo"
  "mo_device_handle (snd (update_mismatches cache clock t mo)) = mo_device_handle mo"
  "mo_signal_id (snd (update_mismatches cache clock t mo)) = mo_signal_id mo"
  "mo_current (snd (update_mismatches cache clock t mo)) = mo_current mo"
  by (auto simp: update_mismatches_def Let_def split: prod.splits)

lemma observe_frame [simp]:
  "mo_config (snd (observe ob mo)) = mo_config mo"
  "mo_stale_after (snd (observe ob mo)) = mo_stale_after mo"
  "mo_device_handle (snd (observe ob mo)) = mo_device_handle mo"
  "mo_signal_id (snd (observe ob mo)) = mo_signal_id mo"
  by (simp_all add: observe_def)

lemma observe_all_Cons:
  "snd (observe_all (ob # obs) mo) = snd (observe_all obs (snd (observe ob mo)))"
  "fst (observe_all (ob # obs) mo) = fst (observe ob mo) @ fst (observe_all obs (snd (observe ob mo)))"
  by (simp_all add: Let_def split_beta)

declare observe_all.simps(2) [simp del]

lemma observe_all_frame:
  "mo_config (snd (observe_all obs mo)) = mo_config mo \<and> mo_stale_after (snd (observe_all obs mo)) = mo_stale_after mo \<and>
   mo_device_handle (snd (observe_all obs mo)) = mo_device_handle mo \<and> mo_signal_id (snd (observe_all obs mo)) = mo_signal_id mo"
  by (induction obs arbitrary: mo) (simp_all add: observe_all_Cons)

lemma observe_all_snoc: "snd (observe_all (obs @ [ob]) mo) = snd (observe ob (snd (observe_all obs mo)))"
  by (induction obs arbitrary: mo) (simp_all add: observe_all_Cons)

text \<open>The state after an update is that of the reading.\<close>

lemma update_monitor_state:
  "monitor_configured mo \<Longrightarrow> sn_state (mo_current (snd (update_monitor cache now t mo))) = fst (classify cache now mo)"
  by (auto simp: update_monitor_def Let_def split: prod.splits)

lemma classify_clear:
  assumes "ch_status (mo_config mo) = Some status"
  shows "fst (classify cache now mo) = SC_Clear \<longleftrightarrow>
    (\<exists>v. get_signal_value cache (mo_device_handle mo) (mo_signal_id mo) = Some v \<and> cv_quality v = QUALITY_OK \<and>
       cv_age now v \<le> mo_stale_after mo \<and> v_kind (cv_value v) = K_Bool (\<not> st_active status))"
  using assms
  by (auto simp: classify_def cv_is_stale_def is_ok_def split: option.splits ValueKind.splits)

lemma classify_configured: "monitor_configured mo \<Longrightarrow> fst (classify cache now mo) \<noteq> SC_NotConfigured"
  by (auto simp: classify_def monitor_configured_def split: option.splits ValueKind.splits)

lemma clear_refusal_holds: "clear_refusal mo = None \<longleftrightarrow> \<not> holds mo"
  by (simp add: clear_refusal_def holds_def)

section \<open>Properties\<close>

text \<open>C9. The stop fails held. Once the monitor of a configured stop has read its status, a latch clear is
  let through, and the stop does not hold, exactly when the last reading of the declared signal was there,
  asserted good by its provider, not older than the stale bound, a boolean, and the value that means
  released; a missing, stale, doubtful or malformed reading holds.\<close>

theorem stop_status_fails_held:
  assumes "ch_status config = Some status" and "is_handle (st_signal status) 3"
    and "mo = snd (observe_all (obs @ [ob]) (new_monitor config stale_after))"
  shows "holds mo = (clear_refusal mo \<noteq> None) \<and>
    (clear_refusal mo = None \<longleftrightarrow>
      (\<exists>device signal v. st_signal status = device @ ''/'' @ signal \<and> CHR ''/'' \<notin> set signal \<and>
         get_signal_value (ob_cache ob) device signal = Some v \<and> cv_quality v = QUALITY_OK \<and>
         cv_age (ob_now ob) v \<le> stale_after \<and> v_kind (cv_value v) = K_Bool (\<not> st_active status)))"
proof -
  let ?mo = "snd (observe_all obs (new_monitor config stale_after))"
  have frame: "mo_config ?mo = config" "mo_stale_after ?mo = stale_after"
      "(mo_device_handle ?mo, mo_signal_id ?mo) = split_signal (st_signal status)"
    using observe_all_frame [of obs "new_monitor config stale_after"] assms(1)
    by (auto simp: new_monitor_def split: prod.splits)
  have configured: "monitor_configured ?mo" by (simp add: monitor_configured_def frame assms(1))
  have state: "sn_state (mo_current mo) = fst (classify (ob_cache ob) (ob_now ob) ?mo)"
    using update_monitor_state [OF configured] by (simp add: assms(3) observe_all_snoc observe_def)
  have split: "st_signal status = mo_device_handle ?mo @ ''/'' @ mo_signal_id ?mo" "CHR ''/'' \<notin> set (mo_signal_id ?mo)"
    using split_signal_append [OF is_handle_slash [OF assms(2)]] unfolding frame(3) [symmetric] by simp_all
  have unique: "device = mo_device_handle ?mo \<and> signal = mo_signal_id ?mo"
    if "st_signal status = device @ ''/'' @ signal" "CHR ''/'' \<notin> set signal" for device signal
    by (rule last_slash_unique [OF trans [OF that(1) [symmetric] split(1)] that(2) split(2)])
  have "clear_refusal mo = None \<longleftrightarrow> sn_state (mo_current mo) = SC_Clear"
    using classify_configured [OF configured, of "ob_cache ob" "ob_now ob"] state
    by (cases "sn_state (mo_current mo)") (auto simp: clear_refusal_def)
  with classify_clear [of ?mo status "ob_cache ob" "ob_now ob"] frame(1,2) assms(1) state
  have "clear_refusal mo = None \<longleftrightarrow> (\<exists>v. get_signal_value (ob_cache ob) (mo_device_handle ?mo) (mo_signal_id ?mo) = Some v \<and>
      cv_quality v = QUALITY_OK \<and> cv_age (ob_now ob) v \<le> stale_after \<and> v_kind (cv_value v) = K_Bool (\<not> st_active status))"
    by simp
  moreover have "holds mo = (clear_refusal mo \<noteq> None)" by (simp add: clear_refusal_holds)
  ultimately show ?thesis using split unique by blast
qed

subsection \<open>The alarm\<close>

definition keyed :: "(string \<times> StopChainMismatch) list \<Rightarrow> bool" where
  "keyed xs = (\<forall>(handle, mismatch) \<in> set xs. mm_device mismatch = handle)"

text \<open>The changes reported for one device, as a word of \<open>True\<close> for resolved and \<open>False\<close> for raised.\<close>

definition changes_of :: "string \<Rightarrow> StopChainMismatchChange list \<Rightarrow> bool list" where
  "changes_of device changes = map (Not \<circ> mc_raised) (filter (\<lambda>c. mm_device (mc_mismatch c) = device) changes)"

definition standing_for :: "StopChainMonitor \<Rightarrow> string \<Rightarrow> bool" where
  "standing_for mo device = (map_of (mo_mismatches mo) device \<noteq> None)"

lemma changes_of_append [simp]: "changes_of d (xs @ ys) = changes_of d xs @ changes_of d ys"
  by (simp add: changes_of_def)

lemma changes_of_Nil [simp]: "changes_of d [] = []"
  by (simp add: changes_of_def)

lemma keyed_put: "keyed xs \<Longrightarrow> mm_device mismatch = k \<Longrightarrow> keyed (omap_put k mismatch xs)"
  by (induction k mismatch xs rule: omap_put.induct) (auto simp: keyed_def)

lemma keyed_get: "keyed xs \<Longrightarrow> map_of xs k = Some mismatch \<Longrightarrow> mm_device mismatch = k"
  by (auto simp: keyed_def dest: map_of_SomeD)

lemma omap_ok_filter: "omap_ok xs \<Longrightarrow> omap_ok (filter P xs)"
  by (induction xs) (auto simp: omap_ok_def)

lemma raise_found_ok:
  assumes "distinct (map fst found)" and "keyed found" and "keyed standing" and "omap_ok standing"
  shows "keyed (snd (raise_found found standing)) \<and> omap_ok (snd (raise_found found standing)) \<and>
    changes_of d (fst (raise_found found standing)) = (if map_of standing d = None \<and> map_of found d \<noteq> None then [False] else []) \<and>
    ((map_of (snd (raise_found found standing)) d \<noteq> None) = (map_of found d \<noteq> None \<or> map_of standing d \<noteq> None))"
  using assms
proof (induction found standing rule: raise_found.induct)
  case (1 standing)
  then show ?case by simp
next
  case (2 handle mismatch found standing)
  have rest: "distinct (map fst found)" "keyed found" "mm_device mismatch = handle" "map_of found handle = None"
    using "2.prems"(1,2) by (auto simp: keyed_def map_of_eq_None_iff)
  show ?case
  proof (cases "map_of standing handle")
    case None
    have "keyed (omap_put handle mismatch standing)" using keyed_put rest(3) "2.prems"(3) by blast
    note ih = "2.IH"(1) [OF None rest(1,2) this omap_ok_put [OF "2.prems"(4)]]
    obtain cs st where r: "raise_found found (omap_put handle mismatch standing) = (cs, st)" by fastforce
    show ?thesis
      using ih rest(3,4) None by (auto simp: r omap_get_put changes_of_def)
  next
    case (Some old)
    have "keyed (omap_put handle (old\<lparr> mm_reason := mm_reason mismatch \<rparr>) standing)"
      using keyed_put keyed_get [OF "2.prems"(3) Some] "2.prems"(3) by simp
    note ih = "2.IH"(2) [OF Some rest(1,2) this omap_ok_put [OF "2.prems"(4)]]
    show ?thesis
      using ih rest(4) Some by (auto simp: omap_get_put)
  qed
qed

lemma found_mismatches_ok:
  assumes "distinct (map fst (ch_expectations (mo_config mo)))"
  shows "distinct (map fst (found_mismatches cache clock now mo)) \<and> keyed (found_mismatches cache clock now mo) \<and>
    ((map_of (found_mismatches cache clock now mo) d \<noteq> None) =
      (sn_state (mo_current mo) = SC_InForce \<and> (\<exists>since. sn_since_epoch_ms (mo_current mo) = Some since \<and> mo_stale_after mo \<le> now - since) \<and>
       (\<exists>expect. map_of (ch_expectations (mo_config mo)) d = Some expect \<and> contradiction cache (clock d) mo d expect \<noteq> None)))"
proof -
  have fm: "distinct (map fst (List.map_filter (\<lambda>(h, e). map_option (\<lambda>r. (h, g h e r)) (f h e)) xs)) \<and>
      fst ` set (List.map_filter (\<lambda>(h, e). map_option (\<lambda>r. (h, g h e r)) (f h e)) xs) = {h. \<exists>e. map_of xs h = Some e \<and> f h e \<noteq> None}"
    if "distinct (map fst xs)" for xs :: "(string \<times> StopChainExpect) list" and f :: "_ \<Rightarrow> _ \<Rightarrow> mismatch_reason option"
      and g :: "_ \<Rightarrow> _ \<Rightarrow> _ \<Rightarrow> StopChainMismatch"
    using that
  proof (induction xs)
    case (Cons x xs)
    obtain h e where x: "x = (h, e)" by fastforce
    have "map_of xs h = None" using Cons.prems by (auto simp: x map_of_eq_None_iff)
    then show ?case using Cons by (cases "f h e") (auto simp: x map_filter_simps)
  qed (simp add: map_filter_simps)
  show ?thesis
  proof (cases "\<exists>since. sn_since_epoch_ms (mo_current mo) = Some since \<and> sn_state (mo_current mo) = SC_InForce \<and> mo_stale_after mo \<le> now - since")
    case True
    then have "found_mismatches cache clock now mo = List.map_filter (\<lambda>(handle, expect).
        map_option (\<lambda>reason. (handle, \<lparr> mm_device = handle, mm_expect = expect, mm_reason = reason, mm_since_epoch_ms = now \<rparr>))
          (contradiction cache (clock handle) mo handle expect)) (ch_expectations (mo_config mo))" (is "_ = ?found")
      by (auto simp: found_mismatches_def)
    moreover have "keyed ?found" by (auto simp: keyed_def map_filter_def)
    ultimately show ?thesis using fm [OF assms] True by (auto simp: map_of_eq_None_iff image_iff)
  next
    case False
    then have "found_mismatches cache clock now mo = []" by (auto simp: found_mismatches_def split: option.splits)
    with False show ?thesis by (auto simp: keyed_def)
  qed
qed

definition mismatch_inv :: "StopChainMonitor \<Rightarrow> bool" where
  "mismatch_inv mo = (keyed (mo_mismatches mo) \<and> omap_ok (mo_mismatches mo))"

definition stop_in_force_for :: "int \<Rightarrow> StopChainMonitor \<Rightarrow> duration_ms \<Rightarrow> bool" where
  "stop_in_force_for now mo ms = (sn_state (mo_current mo) = SC_InForce \<and>
     (\<exists>since. sn_since_epoch_ms (mo_current mo) = Some since \<and> ms \<le> now - since))"

lemma filter_key:
  "distinct (map fst xs) \<Longrightarrow> filter (\<lambda>(k, v). k = d) xs = (case map_of xs d of None \<Rightarrow> [] | Some v \<Rightarrow> [(d, v)])"
proof (induction xs)
  case (Cons x xs)
  have "fst x = d \<Longrightarrow> map_of xs d = None" using Cons.prems by (auto simp: map_of_eq_None_iff)
  with Cons show ?case by (cases x) auto
qed simp

lemma resolved_changes:
  assumes "keyed xs" and "omap_ok xs"
  shows "changes_of d (map (\<lambda>(handle, mismatch). resolve_mismatch state now mismatch) (filter (\<lambda>(handle, mismatch). P handle) xs)) =
    (if map_of xs d \<noteq> None \<and> P d then [True] else [])"
proof -
  have dist: "distinct (map fst (filter (\<lambda>(handle, mismatch). P handle) xs))"
    by (rule omap.ok_distinct [OF omap_ok_filter [OF assms(2)]])
  have changes: "changes_of d (map (\<lambda>(handle, mismatch). resolve_mismatch state now mismatch) ys) =
      map (\<lambda>_. True) (filter (\<lambda>(handle, mismatch). handle = d) ys)" if "keyed ys" for ys
    using that
  proof (induction ys)
    case (Cons y ys)
    then show ?case by (cases y) (simp add: changes_of_def keyed_def resolve_mismatch_def)
  qed simp
  have "keyed (filter (\<lambda>(handle, mismatch). P handle) xs)" using assms(1) by (auto simp: keyed_def)
  from changes [OF this] have "changes_of d (map (\<lambda>(handle, mismatch). resolve_mismatch state now mismatch) (filter (\<lambda>(handle, mismatch). P handle) xs)) =
      map (\<lambda>_. True) (case map_of (filter (\<lambda>(handle, mismatch). P handle) xs) d of None \<Rightarrow> [] | Some v \<Rightarrow> [(d, v)])"
    unfolding filter_key [OF dist] .
  then show ?thesis
    unfolding map_of_filter_key by (cases "map_of xs d") simp_all
qed

lemma update_mismatches_ok:
  assumes "mismatch_inv mo" and "distinct (map fst (ch_expectations (mo_config mo)))" and "monitor_configured mo"
  shows "mismatch_inv (snd (update_mismatches cache clock now mo)) \<and>
    alternates (standing_for mo d) (changes_of d (fst (update_mismatches cache clock now mo)))
      (standing_for (snd (update_mismatches cache clock now mo)) d) \<and>
    (ch_expectations (mo_config mo) \<noteq> [] \<longrightarrow>
      standing_for (snd (update_mismatches cache clock now mo)) d =
       (stop_in_force_for now mo (mo_stale_after mo) \<and>
        (\<exists>expect. map_of (ch_expectations (mo_config mo)) d = Some expect \<and> contradiction cache (clock d) mo d expect \<noteq> None)))"
proof (cases "ch_expectations (mo_config mo) = []")
  case True
  with assms(1) show ?thesis by (simp add: update_mismatches_def)
next
  case False
  let ?found = "found_mismatches cache clock now mo"
  let ?kept = "filter (\<lambda>(handle, mismatch). map_of ?found handle \<noteq> None) (mo_mismatches mo)"
  note found = found_mismatches_ok [OF assms(2), of cache clock now d]
  have inv: "keyed (mo_mismatches mo)" "omap_ok (mo_mismatches mo)" using assms(1) by (simp_all add: mismatch_inv_def)
  have kept: "keyed ?kept" "omap_ok ?kept" using inv omap_ok_filter by (auto simp: keyed_def)
  have ok: "keyed (snd (raise_found ?found ?kept))" "omap_ok (snd (raise_found ?found ?kept))"
      "changes_of d (fst (raise_found ?found ?kept)) = (if map_of ?kept d = None \<and> map_of ?found d \<noteq> None then [False] else [])"
      "(map_of (snd (raise_found ?found ?kept)) d \<noteq> None) = (map_of ?found d \<noteq> None \<or> map_of ?kept d \<noteq> None)"
    using raise_found_ok [OF _ _ kept, of ?found d] found by blast+
  have upd: "update_mismatches cache clock now mo =
      (map (\<lambda>(handle, mismatch). resolve_mismatch (sn_state (mo_current mo)) now mismatch)
         (filter (\<lambda>(handle, mismatch). map_of ?found handle = None) (mo_mismatches mo)) @ fst (raise_found ?found ?kept),
       mo\<lparr> mo_mismatches := snd (raise_found ?found ?kept) \<rparr>)"
    using False assms(3) by (simp add: update_mismatches_def Let_def split_beta)
  have st: "standing_for (snd (update_mismatches cache clock now mo)) d = (map_of ?found d \<noteq> None)"
    using ok(4) by (auto simp: upd standing_for_def map_of_filter_key)
  have "changes_of d (fst (update_mismatches cache clock now mo)) =
      (if standing_for mo d \<and> map_of ?found d = None then [True] else []) @
      (if \<not> standing_for mo d \<and> map_of ?found d \<noteq> None then [False] else [])"
    using ok(3) resolved_changes [OF inv, of d "sn_state (mo_current mo)" now "\<lambda>h. map_of ?found h = None"]
    by (auto simp: upd standing_for_def map_of_filter_key)
  with st have alt: "alternates (standing_for mo d) (changes_of d (fst (update_mismatches cache clock now mo)))
      (standing_for (snd (update_mismatches cache clock now mo)) d)"
    by (cases "standing_for mo d"; cases "map_of ?found d") simp_all
  have "mismatch_inv (snd (update_mismatches cache clock now mo))" using ok(1,2) by (simp add: upd mismatch_inv_def)
  moreover have "standing_for (snd (update_mismatches cache clock now mo)) d = (stop_in_force_for now mo (mo_stale_after mo) \<and>
      (\<exists>expect. map_of (ch_expectations (mo_config mo)) d = Some expect \<and> contradiction cache (clock d) mo d expect \<noteq> None))"
    unfolding st stop_in_force_for_def found [THEN conjunct2, THEN conjunct2] by (simp add: conj_assoc)
  ultimately show ?thesis using alt by simp
qed

lemma observe_ok:
  assumes "mismatch_inv mo" and "distinct (map fst (ch_expectations (mo_config mo)))" and "monitor_configured mo"
  shows "mismatch_inv (snd (observe ob mo)) \<and>
    alternates (standing_for mo d) (changes_of d (fst (observe ob mo))) (standing_for (snd (observe ob mo)) d)"
proof -
  let ?mo = "snd (update_monitor (ob_cache ob) (ob_now ob) (ob_epoch_ms ob) mo)"
  have "mismatch_inv ?mo" "monitor_configured ?mo" "standing_for ?mo d = standing_for mo d"
    using assms(1,3) by (simp_all add: mismatch_inv_def monitor_configured_def standing_for_def)
  with update_mismatches_ok [of ?mo "ob_cache ob" "ob_clock ob" "ob_judged_ms ob" d] assms(2) show ?thesis
    by (simp add: observe_def)
qed

lemma observe_all_ok:
  assumes "mismatch_inv mo" and "distinct (map fst (ch_expectations (mo_config mo)))" and "monitor_configured mo"
  shows "mismatch_inv (snd (observe_all obs mo)) \<and>
    alternates (standing_for mo d) (changes_of d (fst (observe_all obs mo))) (standing_for (snd (observe_all obs mo)) d)"
  using assms
proof (induction obs arbitrary: mo)
  case (Cons ob obs)
  note step = observe_ok [OF Cons.prems, of ob d]
  have "monitor_configured (snd (observe ob mo))" using Cons.prems(3) by (simp add: monitor_configured_def)
  with Cons.IH [of "snd (observe ob mo)"] step Cons.prems(2) show ?case
    by (auto simp: observe_all_Cons intro: alternates_append)
qed simp

lemma observe_all_no_expectations:
  "ch_expectations (mo_config mo) = [] \<Longrightarrow> mo_mismatches (snd (observe_all obs mo)) = mo_mismatches mo"
proof (induction obs arbitrary: mo)
  case (Cons ob obs)
  have "mo_mismatches (snd (observe ob mo)) = mo_mismatches mo"
    using Cons.prems by (simp add: observe_def update_mismatches_def)
  with Cons show ?case by (simp add: observe_all_Cons)
qed simp

text \<open>C27. The alarm that the stop does not reach a device is exact. In any sequence of observations by the
  monitor of a configured stop, the reports for one device alternate, raised first, and the device is
  listed as standing exactly while its last report is a raise. After an observation it is listed exactly
  when it has a declared expectation, the stop has been in force for the stale bound, and what the cache
  holds contradicts the expectation.\<close>

theorem mismatch_alarm_exact:
  assumes "ch_status config \<noteq> None" and "distinct (map fst (ch_expectations config))"
    and "(changes, mo) = observe_all (obs @ [ob]) (new_monitor config stale_after)"
  shows "alternates False (changes_of device changes) (standing_for mo device) \<and>
    (standing_for mo device \<longleftrightarrow> stop_in_force_for (ob_judged_ms ob) mo stale_after \<and>
      (\<exists>expect. map_of (ch_expectations config) device = Some expect \<and>
         contradiction (ob_cache ob) (ob_clock ob device) mo device expect \<noteq> None))"
proof -
  let ?new = "new_monitor config stale_after"
  let ?pre = "snd (observe_all obs ?new)"
  let ?mid = "snd (update_monitor (ob_cache ob) (ob_now ob) (ob_epoch_ms ob) ?pre)"
  have new: "mismatch_inv ?new" "mo_config ?new = config" "mo_stale_after ?new = stale_after" "monitor_configured ?new" "\<not> standing_for ?new device"
    using assms(1) by (auto simp: new_monitor_def mismatch_inv_def keyed_def omap_ok_def standing_for_def monitor_configured_def split: prod.splits)
  have run: "changes = fst (observe_all (obs @ [ob]) ?new)" "mo = snd (observe_all (obs @ [ob]) ?new)"
    by (simp_all flip: assms(3))
  have pre: "mismatch_inv ?pre" "mo_config ?pre = config" "mo_stale_after ?pre = stale_after"
    using observe_all_ok [of ?new obs device] observe_all_frame [of obs ?new] new assms(2) by simp_all
  have mid: "mismatch_inv ?mid" "monitor_configured ?mid" using pre assms(1) by (simp_all add: mismatch_inv_def monitor_configured_def)
  have mo: "mo = snd (update_mismatches (ob_cache ob) (ob_clock ob) (ob_judged_ms ob) ?mid)"
    by (simp add: run observe_all_snoc observe_def)
  have same: "contradiction cache clock mo device expect = contradiction cache clock ?mid device expect" for cache clock expect
    unfolding contradiction_def mo update_mismatches_frame ..
  have "standing_for mo device \<longleftrightarrow> stop_in_force_for (ob_judged_ms ob) mo stale_after \<and>
      (\<exists>expect. map_of (ch_expectations config) device = Some expect \<and>
         contradiction (ob_cache ob) (ob_clock ob device) mo device expect \<noteq> None)"
  proof (cases "ch_expectations config = []")
    case True
    with new have "\<not> standing_for mo device"
      using observe_all_no_expectations [of ?new "obs @ [ob]"] by (simp add: run standing_for_def)
    with True show ?thesis by simp
  next
    case False
    have "mo_config ?mid = config" "mo_stale_after ?mid = stale_after" using pre by simp_all
    moreover have "stop_in_force_for now mo ms = stop_in_force_for now ?mid ms" for now ms
      unfolding stop_in_force_for_def mo update_mismatches_frame ..
    ultimately show ?thesis
      using update_mismatches_ok [OF mid(1) _ mid(2), of "ob_cache ob" "ob_clock ob" "ob_judged_ms ob" device] False assms(2)
      unfolding same mo [symmetric] by metis
  qed
  moreover have "alternates False (changes_of device changes) (standing_for mo device)"
    using observe_all_ok [of ?new "obs @ [ob]" device] new assms(2) by (simp add: run)
  ultimately show ?thesis by blast
qed

text \<open>A stop wired to a signal, and a pump that is to report it: released, pressed, and still pressed two
  seconds later with the pump not reporting.\<close>

definition demo_chain :: StopChainConfig where
  "demo_chain = \<lparr> ch_status = Some \<lparr> st_signal = ''io/panel/stop'', st_active = True \<rparr>, ch_devices = [''io/pump''],
     ch_expectations = [(''io/pump'', ReportsEstop)] \<rparr>"

definition demo_reading :: "time_ns \<Rightarrow> bool \<Rightarrow> CachedSignalValue" where
  "demo_reading t b = \<lparr> cv_value = \<lparr> v_type = VALUE_TYPE_BOOL, v_kind = K_Bool b \<rparr>, cv_timestamp = t, cv_quality = QUALITY_OK \<rparr>"

definition demo_state :: "string \<Rightarrow> string \<Rightarrow> CachedSignalValue \<Rightarrow> string \<times> DeviceState" where
  "demo_state handle signal v = (handle, \<lparr> ds_device_handle = handle, ds_signals = [(signal, v)], ds_last_poll_time = 0,
     ds_provider_available = True, ds_loss_reported = False, ds_unavailable_emitted = False \<rparr>)"

definition demo_observation :: "time_ns \<Rightarrow> bool \<Rightarrow> observation" where
  "demo_observation t pressed = \<lparr> ob_cache = (new_cache False False)\<lparr> sc_device_states :=
       [demo_state ''io/panel'' ''stop'' (demo_reading t pressed), demo_state ''io/pump'' ''estop'' (demo_reading t False)] \<rparr>,
     ob_now = t, ob_clock = (\<lambda>_ _. t), ob_epoch_ms = ns_to_ms t, ob_judged_ms = ns_to_ms t \<rparr>"

theorem stop_status_fails_held_witness:
  "clear_refusal (snd (observe_all ([] @ [demo_observation 0 False]) (new_monitor demo_chain 1000))) = None \<and>
   holds (snd (observe_all ([demo_observation 0 False] @ [demo_observation 0 True]) (new_monitor demo_chain 1000)))"
proof -
  let ?status = "\<lparr> st_signal = ''io/panel/stop'', st_active = True \<rparr>"
  have chain: "ch_status demo_chain = Some ?status" "is_handle (st_signal ?status) 3" by (simp_all add: demo_chain_def is_handle_def)
  have "\<exists>device signal v. st_signal ?status = device @ ''/'' @ signal \<and> CHR ''/'' \<notin> set signal \<and>
      get_signal_value (ob_cache (demo_observation 0 False)) device signal = Some v \<and> cv_quality v = QUALITY_OK \<and>
      cv_age (ob_now (demo_observation 0 False)) v \<le> 1000 \<and> v_kind (cv_value v) = K_Bool (\<not> st_active ?status)"
    by (intro exI [of _ "''io/panel''"] exI [of _ "''stop''"] exI [of _ "demo_reading 0 False"])
      (simp add: demo_observation_def demo_state_def get_signal_value_def demo_reading_def cv_age_def ns_to_ms_def)
  with stop_status_fails_held [OF chain refl, of "[]" "demo_observation 0 False" 1000]
  have "clear_refusal (snd (observe_all ([] @ [demo_observation 0 False]) (new_monitor demo_chain 1000))) = None" by blast
  moreover have "clear_refusal (snd (observe_all ([demo_observation 0 False] @ [demo_observation 0 True]) (new_monitor demo_chain 1000))) \<noteq> None"
    by code_simp
  ultimately show ?thesis
    using stop_status_fails_held [OF chain refl, of "[demo_observation 0 False]" "demo_observation 0 True" 1000] by blast
qed

theorem mismatch_alarm_exact_witness:
  "standing_for (snd (observe_all ([demo_observation 0 False, demo_observation 0 True] @ [demo_observation 2000000000 True])
     (new_monitor demo_chain 1000))) ''io/pump''"
proof -
  let ?run = "observe_all ([demo_observation 0 False, demo_observation 0 True] @ [demo_observation 2000000000 True]) (new_monitor demo_chain 1000)"
  have "ch_status demo_chain \<noteq> None" "distinct (map fst (ch_expectations demo_chain))"
    "map_of (ch_expectations demo_chain) ''io/pump'' = Some ReportsEstop" by (simp_all add: demo_chain_def)
  moreover have "stop_in_force_for 2000 (snd ?run) 1000"
  proof -
    have "mo_current (snd ?run) = \<lparr> sn_state = SC_InForce, sn_reason = SR_Reads ''io/panel/stop'' True, sn_since_epoch_ms = Some 0 \<rparr>"
      by code_simp
    then show ?thesis by (simp add: stop_in_force_for_def)
  qed
  moreover have "contradiction (ob_cache (demo_observation 2000000000 True)) (ob_clock (demo_observation 2000000000 True) ''io/pump'')
      (snd ?run) ''io/pump'' ReportsEstop = Some (MR_Estop_False ''io/pump'')"
    by code_simp
  moreover have "ob_judged_ms (demo_observation 2000000000 True) = 2000" by code_simp
  ultimately show ?thesis
    using mismatch_alarm_exact [where config = demo_chain and device = "''io/pump''", OF _ _ prod.collapse,
        of "[demo_observation 0 False, demo_observation 0 True]" "demo_observation 2000000000 True" 1000] by auto
qed

end
