(* ===== verification/Actuation_Gate.thy ===== *)
theory Actuation_Gate
  imports Safe_State Stop_Chain
begin

text \<open>
  \<^verbatim>\<open>core/runtime/actuation_gate.cpp\<close>: what keeps the runtime out of AUTO. The gate refuses AUTO when actuating
  functions are published and no hook makes them safe on a fault; a second gate refuses it while the
  e-stop latch is engaged. Both are asked before the hooks of a transition and again as the mode is
  written. The second part interleaves the threads that take part: callers of \<open>set_mode\<close>, the restart
  worker that swaps an inventory and then re-checks the gate, the e-stop with its latch, and the main
  loop that watches the stop chain.
\<close>

section \<open>The gates\<close>

definition hook_covers_auto_to_fault :: "ModeTransitionHookConfig \<Rightarrow> bool" where
  "hook_covers_auto_to_fault hook =
     ((hk_from hook = [] \<or> hk_from hook = ''*'' \<or> hk_from hook = ''AUTO'') \<and>
      (hk_to hook = [] \<or> hk_to hook = ''*'' \<or> hk_to hook = ''FAULT''))"

definition mode_hook_request :: "ModeTransitionCallConfig \<Rightarrow> RuntimeMode \<Rightarrow> CallRequest" where
  "mode_hook_request call next_mode = \<lparr> rq_device_handle = cc_device_handle call, rq_function_id = cc_function_id call,
     rq_function_name = cc_function_name call, rq_args = provider_args (cc_args call), rq_is_automated = True,
     rq_is_behavior_tree = False, rq_safe_state = False, rq_fault_entry_hook = (next_mode = FAULT) \<rparr>"

definition has_fault_safe_state_hook :: "AutomationConfig \<Rightarrow> bool" where
  "has_fault_safe_state_hook automation =
     (list_ex hook_covers_auto_to_fault (hg_before_transition (au_mode_transition_hooks automation)) \<or>
      list_ex hook_covers_auto_to_fault (hg_after_transition (au_mode_transition_hooks automation)))"

definition fault_hook_uncovered_functions :: "CallRouter \<Rightarrow> AutomationConfig \<Rightarrow> string list" where
  "fault_hook_uncovered_functions ro automation =
     (if \<not> au_enabled automation \<or> \<not> has_fault_safe_state_hook automation then []
      else uncovered_actuating_functions ro (concat (map hk_calls (filter hook_covers_auto_to_fault
        (hg_before_transition (au_mode_transition_hooks automation) @ hg_after_transition (au_mode_transition_hooks automation))))))"

text \<open>The message is the list of functions and whether the note on the e-stop is appended.\<close>

record HooklessAutoGate =
  ga_refused :: bool
  ga_actuating_functions :: "string list"
  ga_estop_note :: bool

definition evaluate_hookless_auto_gate :: "DeviceRegistry \<Rightarrow> AutomationConfig \<Rightarrow> SafetyConfig \<Rightarrow> HooklessAutoGate" where
  "evaluate_hookless_auto_gate registry automation safety =
     (let open_gate = \<lparr> ga_refused = False, ga_actuating_functions = [], ga_estop_note = False \<rparr> in
      if \<not> au_enabled automation then open_gate
      else if has_fault_safe_state_hook automation then open_gate
      else let functions = concat (map (\<lambda>device. map (\<lambda>(name, spec). get_handle device @ ''/'' @ fs_function_name spec)
                 (filter (\<lambda>(name, spec). is_actuating spec) (dc_functions_by_id (rd_capabilities device))))
                 (get_all_devices registry)) in
        if functions = [] then open_gate
        else \<lparr> ga_refused = True, ga_actuating_functions = functions,
               ga_estop_note = (planned_safe_state_kind registry safety = SK_None) \<rparr>)"

text \<open>The callback and commit guard of each gate; \<open>say\<close> renders the message.\<close>

definition hookless_check ::
  "(HooklessAutoGate \<Rightarrow> string) \<Rightarrow> DeviceRegistry \<Rightarrow> AutomationConfig \<Rightarrow> SafetyConfig \<Rightarrow> RuntimeMode \<Rightarrow> verdict" where
  "hookless_check say registry automation safety next_mode =
     (if next_mode \<noteq> AUTO then Allow
      else let gate = evaluate_hookless_auto_gate registry automation safety in
        if ga_refused gate then Reject (say gate) else Allow)"

definition estop_check :: "SafeStateController \<Rightarrow> RuntimeMode \<Rightarrow> verdict" where
  "estop_check ec next_mode =
     (if next_mode \<noteq> AUTO \<or> \<not> is_engaged ec then Allow
      else Reject ''refusing AUTO: the software stop's latch is engaged. Clear it (POST /v0/estop/clear) once the machine is safe, then enter AUTO.'')"

text \<open>The re-check after an inventory swap, with \<open>set_fault\<close> for \<open>set_mode(FAULT)\<close>.\<close>

definition enforce_hookless_gate_in_auto ::
  "DeviceRegistry \<Rightarrow> AutomationConfig \<Rightarrow> SafetyConfig \<Rightarrow> (ModeManager \<Rightarrow> ModeManager) \<Rightarrow> ModeManager \<Rightarrow> bool \<times> ModeManager" where
  "enforce_hookless_gate_in_auto registry automation safety set_fault mm =
     (if current_mode mm \<noteq> AUTO then (False, mm)
      else if \<not> ga_refused (evaluate_hookless_auto_gate registry automation safety) then (False, mm)
      else (True, set_fault mm))"

section \<open>The threads\<close>

text \<open>A \<open>set_mode(AUTO)\<close> in its second critical section holds the mode lock while it asks the guards in turn;
  the controller's mutex is held by a trigger until its FAULT entry is done, and by a clear; the main loop
  watches the stop chain; the restart worker swaps inventories. A write of the latch record can throw
  (\<open>latch_store.cpp\<close>, \<open>doc.dump()\<close>): the latch is then engaged in memory and the FAULT entry is skipped;
  a trigger answers its request with the exception, a hold takes the main loop down with it.\<close>

datatype auto_phase = No_Commit | Asked_Hookless RuntimeMode verdict | Asked_Both RuntimeMode verdict verdict

datatype mutex_phase = Mutex_Free | Triggering | Clearing

datatype loop_phase = Watching | To_Hold | To_Fault | Loop_Left

datatype restart_phase = Settled | To_Check | To_Force_Fault

record gate_sys =
  gs_mode :: ModeManager
  gs_registry :: DeviceRegistry
  gs_latch :: "SafeStateController \<times> files"
  gs_monitor :: StopChainMonitor
  gs_auto :: auto_phase
  gs_mutex :: mutex_phase
  gs_loop :: loop_phase
  gs_restart :: restart_phase
  gs_threw :: bool

text \<open>A step that reads or writes the mode needs the mode lock, so it waits while a commit is under way.
  \<open>ac\<close> and \<open>sc\<close> are the automation and safety configuration.
  \<open>gs_threw\<close> is not state of the program: it records that an engagement threw before its FAULT entry, and that
  since then no FAULT entry and no clear has taken place.\<close>

inductive gate_step :: "AutomationConfig \<Rightarrow> SafetyConfig \<Rightarrow> gate_sys \<Rightarrow> gate_sys \<Rightarrow> bool" for ac sc where
  ask_hookless: "gs_auto s = No_Commit \<Longrightarrow>
    gate_step ac sc s (s\<lparr> gs_auto := Asked_Hookless prev (hookless_check say (gs_registry s) ac sc AUTO) \<rparr>)"
| ask_estop: "gs_auto s = Asked_Hookless prev v \<Longrightarrow>
    gate_step ac sc s (s\<lparr> gs_auto := Asked_Both prev v (estop_check (fst (gs_latch s)) AUTO) \<rparr>)"
| write_auto: "gs_auto s = Asked_Both prev v v' \<Longrightarrow> commit_set_mode AUTO prev [v, v'] (gs_mode s) = (res, mm) \<Longrightarrow>
    gate_step ac sc s (s\<lparr> gs_auto := No_Commit, gs_mode := mm \<rparr>)"
| write_other: "gs_auto s = No_Commit \<Longrightarrow> new_mode \<noteq> AUTO \<Longrightarrow> commit_set_mode new_mode prev guards (gs_mode s) = (res, mm) \<Longrightarrow>
    gate_step ac sc s (s\<lparr> gs_mode := mm \<rparr>)"
| trigger_latch: "gs_mutex s = Mutex_Free \<Longrightarrow> engage env reason (gs_latch s) = (False, cf) \<Longrightarrow>
    gate_step ac sc s (s\<lparr> gs_latch := cf, gs_mutex := Triggering \<rparr>)"
| trigger_throws: "gs_mutex s = Mutex_Free \<Longrightarrow> engage env reason (gs_latch s) = (True, cf) \<Longrightarrow>
    gate_step ac sc s (s\<lparr> gs_latch := cf, gs_threw := True \<rparr>)"
| trigger_fault: "gs_mutex s = Triggering \<Longrightarrow> gs_auto s = No_Commit \<Longrightarrow>
    gate_step ac sc s (s\<lparr> gs_mode := snd (commit_set_mode FAULT prev guards (gs_mode s)), gs_mutex := Mutex_Free, gs_threw := False \<rparr>)"
| clear_guard: "gs_mutex s = Mutex_Free \<Longrightarrow> clear_refusal (gs_monitor s) = None \<Longrightarrow>
    gate_step ac sc s (s\<lparr> gs_mutex := Clearing \<rparr>)"
| clear_commit: "gs_mutex s = Clearing \<Longrightarrow>
    gate_step ac sc s (s\<lparr> gs_latch := snd (clear_latch env None (gs_latch s)), gs_mutex := Mutex_Free, gs_threw := False \<rparr>)"
| watch: "gs_loop s = Watching \<Longrightarrow> update_monitor cache now t (gs_monitor s) = (change, mo) \<Longrightarrow>
    gate_step ac sc s (s\<lparr> gs_monitor := mo, gs_loop := (if change \<noteq> None \<and> holds mo then To_Hold else Watching) \<rparr>)"
| hold_engage: "gs_loop s = To_Hold \<Longrightarrow> gs_mutex s = Mutex_Free \<Longrightarrow> hold_latch env reason (gs_latch s) = (False, cf) \<Longrightarrow>
    gate_step ac sc s (s\<lparr> gs_latch := cf, gs_loop := To_Fault \<rparr>)"
| hold_throws: "gs_loop s = To_Hold \<Longrightarrow> gs_mutex s = Mutex_Free \<Longrightarrow> hold_latch env reason (gs_latch s) = (True, cf) \<Longrightarrow>
    gate_step ac sc s (s\<lparr> gs_latch := cf, gs_loop := Loop_Left, gs_threw := True \<rparr>)"
| hold_fault: "gs_loop s = To_Fault \<Longrightarrow> gs_auto s = No_Commit \<Longrightarrow>
    gate_step ac sc s (s\<lparr> gs_mode := snd (commit_set_mode FAULT prev guards (gs_mode s)), gs_loop := Watching, gs_threw := False \<rparr>)"
| swap: "gs_restart s = Settled \<Longrightarrow> gate_step ac sc s (s\<lparr> gs_registry := registry, gs_restart := To_Check \<rparr>)"
| check: "gs_restart s = To_Check \<Longrightarrow> gs_auto s = No_Commit \<Longrightarrow>
    gate_step ac sc s (s\<lparr> gs_restart :=
      (if fst (enforce_hookless_gate_in_auto (gs_registry s) ac sc (\<lambda>mm. mm) (gs_mode s)) then To_Force_Fault else Settled) \<rparr>)"
| force_fault: "gs_restart s = To_Force_Fault \<Longrightarrow> gs_auto s = No_Commit \<Longrightarrow>
    gate_step ac sc s (s\<lparr> gs_mode := snd (commit_set_mode FAULT prev guards (gs_mode s)), gs_restart := Settled, gs_threw := False \<rparr>)"

text \<open>Before the first provider is watched: IDLE, and the latch as its file left it.\<close>

definition gate_init :: "DeviceRegistry \<Rightarrow> SafeStateController \<times> files \<Rightarrow> StopChainConfig \<Rightarrow> duration_ms \<Rightarrow> gate_sys" where
  "gate_init registry latch chain stale_after = \<lparr> gs_mode = new_mode_manager IDLE, gs_registry = registry, gs_latch = latch,
     gs_monitor = new_monitor chain stale_after, gs_auto = No_Commit, gs_mutex = Mutex_Free, gs_loop = Watching, gs_restart = Settled, gs_threw = False \<rparr>"

section \<open>Invariants\<close>

definition gate_shut :: "AutomationConfig \<Rightarrow> SafetyConfig \<Rightarrow> gate_sys \<Rightarrow> bool" where
  "gate_shut ac sc s = ga_refused (evaluate_hookless_auto_gate (gs_registry s) ac sc)"

abbreviation in_auto :: "gate_sys \<Rightarrow> bool" where
  "in_auto s \<equiv> current_mode (gs_mode s) = AUTO"

abbreviation engaged :: "gate_sys \<Rightarrow> bool" where
  "engaged s \<equiv> is_engaged (fst (gs_latch s))"

text \<open>A trigger or a hold has engaged the latch and is on its way into FAULT.\<close>

definition stop_entering_fault :: "gate_sys \<Rightarrow> bool" where
  "stop_entering_fault s = (gs_mutex s = Triggering \<or> gs_loop s = To_Fault)"

fun passed_hookless :: "auto_phase \<Rightarrow> bool" where
  "passed_hookless (Asked_Hookless p v) = (v = Allow)"
| "passed_hookless (Asked_Both p v v') = (v = Allow)"
| "passed_hookless No_Commit = False"

fun passed_estop :: "auto_phase \<Rightarrow> bool" where
  "passed_estop (Asked_Both p v v') = (v' = Allow)"
| "passed_estop _ = False"

definition hookless_inv :: "AutomationConfig \<Rightarrow> SafetyConfig \<Rightarrow> gate_sys \<Rightarrow> bool" where
  "hookless_inv ac sc s =
     ((in_auto s \<and> gate_shut ac sc s \<longrightarrow> gs_restart s \<noteq> Settled) \<and>
      (passed_hookless (gs_auto s) \<and> gate_shut ac sc s \<longrightarrow> gs_restart s = To_Check))"

definition estop_inv :: "gate_sys \<Rightarrow> bool" where
  "estop_inv s = ((in_auto s \<or> passed_estop (gs_auto s)) \<and> engaged s \<longrightarrow> stop_entering_fault s \<or> gs_threw s)"

definition hold_inv :: "gate_sys \<Rightarrow> bool" where
  "hold_inv s = (holds (gs_monitor s) \<and> gs_loop s \<noteq> To_Hold \<longrightarrow> engaged s \<and> gs_mutex s \<noteq> Clearing)"

lemma commit_auto:
  "commit_set_mode AUTO prev [v, v'] mm = (res, mm') \<Longrightarrow> current_mode mm' = AUTO \<Longrightarrow> current_mode mm = AUTO \<or> v = Allow \<and> v' = Allow"
  by (cases v; cases v') (auto simp: commit_set_mode_def Let_def current_mode_def split: if_splits)

lemma commit_other:
  "commit_set_mode m prev guards mm = (res, mm') \<Longrightarrow> m \<noteq> AUTO \<Longrightarrow> current_mode mm' = AUTO \<Longrightarrow> current_mode mm = AUTO"
  by (auto simp: commit_set_mode_def Let_def current_mode_def split: if_splits option.splits)

lemma commit_to_fault [simp]: "mm_current_mode (snd (commit_set_mode FAULT prev guards mm)) = FAULT"
  by (auto simp: commit_set_mode_def Let_def)

lemma engage_engaged: "engage env reason cf = (throws, cf') \<Longrightarrow> is_engaged (fst cf')"
  by (auto simp: engage_def is_engaged_def Let_def split: prod.splits option.splits)

lemma hold_engaged: "hold_latch env reason cf = (throws, cf') \<Longrightarrow> is_engaged (fst cf')"
  by (auto simp: hold_latch_def is_engaged_def split: if_splits dest: engage_engaged)

lemma clear_not_engaged: "\<not> is_engaged (fst (snd (clear_latch env None cf)))"
  by (auto simp: clear_latch_def is_engaged_def Let_def split: prod.splits option.splits)

lemma hookless_Allow: "hookless_check say registry ac sc AUTO = Allow \<longleftrightarrow> \<not> ga_refused (evaluate_hookless_auto_gate registry ac sc)"
  by (simp add: hookless_check_def Let_def)

lemma estop_Allow: "estop_check ec AUTO = Allow \<longleftrightarrow> \<not> is_engaged ec"
  by (simp add: estop_check_def)

lemma update_monitor_unchanged: "update_monitor cache now t mo = (None, mo') \<Longrightarrow> holds mo' = holds mo"
  by (auto simp: update_monitor_def holds_def Let_def split: if_splits prod.splits)

lemmas gate_inv_defs = hookless_inv_def estop_inv_def hold_inv_def gate_shut_def stop_entering_fault_def

lemma hookless_inv_step: "gate_step ac sc s s' \<Longrightarrow> hookless_inv ac sc s \<Longrightarrow> hookless_inv ac sc s'"
  by (induction rule: gate_step.induct)
    (auto simp: hookless_inv_def gate_shut_def hookless_Allow current_mode_def enforce_hookless_gate_in_auto_def
      dest!: commit_auto [unfolded current_mode_def] commit_other [unfolded current_mode_def])

lemma estop_inv_step: "gate_step ac sc s s' \<Longrightarrow> estop_inv s \<Longrightarrow> estop_inv s'"
  by (induction rule: gate_step.induct)
    (auto simp: estop_inv_def stop_entering_fault_def estop_Allow current_mode_def clear_not_engaged
      dest!: commit_auto [unfolded current_mode_def] commit_other [unfolded current_mode_def])

lemma hold_inv_step: "gate_step ac sc s s' \<Longrightarrow> hold_inv s \<Longrightarrow> hold_inv s'"
proof (induction rule: gate_step.induct)
  case (watch s cache now t change mo)
  then show ?case by (cases change) (auto simp: hold_inv_def dest: update_monitor_unchanged)
next
  case (trigger_latch s env reason cf)
  then show ?case by (auto simp: hold_inv_def dest: engage_engaged)
next
  case (trigger_throws s env reason cf)
  then show ?case by (auto simp: hold_inv_def dest: engage_engaged)
next
  case (hold_engage s env reason cf)
  then show ?case by (auto simp: hold_inv_def dest: hold_engaged)
next
  case (hold_throws s env reason cf)
  then show ?case by (auto simp: hold_inv_def dest: hold_engaged)
qed (auto simp: hold_inv_def clear_refusal_holds)

lemma gate_reach_inv:
  assumes "(gate_step ac sc)\<^sup>*\<^sup>* (gate_init registry latch chain stale_after) s"
  shows "hookless_inv ac sc s \<and> estop_inv s \<and> hold_inv s"
  using assms
proof induction
  case base
  have "\<not> holds (new_monitor chain stale_after)" by (auto simp: new_monitor_def holds_def split: prod.splits)
  then show ?case
    by (simp add: gate_init_def hookless_inv_def estop_inv_def hold_inv_def current_mode_def new_mode_manager_def)
next
  case (step s s')
  then show ?case using hookless_inv_step estop_inv_step hold_inv_step by blast
qed

section \<open>Properties\<close>

text \<open>C3. AUTO is gated. Whatever the interleaving of mode changes, provider restarts that swap the
  inventory, e-stops, clears and the stop chain, with writes of the latch record that succeed, fail or throw:
  when the runtime is in AUTO, an engaged latch means that a trigger or a hold is between engaging it and its
  FAULT entry, or that writing the latch record threw out of one, with no FAULT entry and no clear since; and
  unless the restart worker is between swapping an inventory and the check that follows it, the gate is open:
  automation is off, or a declared hook covers the transition from AUTO to FAULT, or no actuating function is
  published.\<close>

theorem auto_is_gated:
  assumes "(gate_step ac sc)\<^sup>*\<^sup>* (gate_init registry latch chain stale_after) s"
    and "current_mode (gs_mode s) = AUTO"
  shows "(is_engaged (fst (gs_latch s)) \<longrightarrow> gs_mutex s = Triggering \<or> gs_loop s = To_Fault \<or> gs_threw s) \<and>
    (gs_restart s = Settled \<and> au_enabled ac \<longrightarrow> has_fault_safe_state_hook ac \<or>
      (\<forall>device \<in> set (get_all_devices (gs_registry s)). \<forall>(name, spec) \<in> set (dc_functions_by_id (rd_capabilities device)). \<not> is_actuating spec))"
proof -
  have inv: "hookless_inv ac sc s" "estop_inv s" using gate_reach_inv [OF assms(1)] by simp_all
  have "is_engaged (fst (gs_latch s)) \<longrightarrow> gs_mutex s = Triggering \<or> gs_loop s = To_Fault \<or> gs_threw s"
    using inv(2) assms by (auto simp: estop_inv_def stop_entering_fault_def)
  moreover have "gs_restart s = Settled \<Longrightarrow> \<not> ga_refused (evaluate_hookless_auto_gate (gs_registry s) ac sc)"
    using inv(1) assms by (auto simp: hookless_inv_def gate_shut_def)
  then have "gs_restart s = Settled \<Longrightarrow> au_enabled ac \<Longrightarrow> \<not> has_fault_safe_state_hook ac \<Longrightarrow>
      device \<in> set (get_all_devices (gs_registry s)) \<Longrightarrow> (name, spec) \<in> set (dc_functions_by_id (rd_capabilities device)) \<Longrightarrow>
      \<not> is_actuating spec" for device name spec
    by (auto simp: evaluate_hookless_auto_gate_def Let_def filter_empty_conv split: if_splits)
  ultimately show ?thesis by blast
qed

text \<open>C6. The stop chain holds the latch. In the same interleavings, while the stop is in force or its
  status unknown, and the main loop is not still on its way to engage the latch for it, the e-stop latch is
  engaged, and no clear that passed its guard can still open it.\<close>

theorem stop_chain_holds_latch:
  assumes "(gate_step ac sc)\<^sup>*\<^sup>* (gate_init registry latch chain stale_after) s"
    and "holds (gs_monitor s)" and "gs_loop s \<noteq> To_Hold"
  shows "is_engaged (fst (gs_latch s)) \<and> gs_mutex s \<noteq> Clearing"
  using gate_reach_inv [OF assms(1)] assms(2,3) by (simp add: hold_inv_def)

text \<open>An automation machine with no device enters AUTO, and a pressed stop holds the latch.\<close>

definition demo_automation :: AutomationConfig where
  "demo_automation = (cf_automation small_config)\<lparr> au_enabled := True \<rparr>"

definition demo_gate :: gate_sys where
  "demo_gate = gate_init new_registry (new_controller, Map.empty) demo_chain 1000"

theorem auto_is_gated_witness:
  "\<exists>s. (gate_step demo_automation (level_safety True))\<^sup>*\<^sup>* demo_gate s \<and> current_mode (gs_mode s) = AUTO \<and> \<not> is_engaged (fst (gs_latch s))"
proof -
  let ?step = "gate_step demo_automation (level_safety True)"
  let ?s1 = "demo_gate\<lparr> gs_mode := \<lparr> mm_current_mode = MANUAL \<rparr> \<rparr>"
  let ?s2 = "?s1\<lparr> gs_auto := Asked_Hookless MANUAL Allow \<rparr>"
  let ?s3 = "?s2\<lparr> gs_auto := Asked_Both MANUAL Allow Allow \<rparr>"
  let ?s4 = "?s3\<lparr> gs_auto := No_Commit, gs_mode := \<lparr> mm_current_mode = AUTO \<rparr> \<rparr>"
  have "?step demo_gate ?s1"
    by (rule write_other [where new_mode = MANUAL and prev = IDLE and guards = "[]"])
      (auto simp: demo_gate_def gate_init_def commit_set_mode_def Let_def new_mode_manager_def is_valid_transition_def)
  moreover have "hookless_check say (gs_registry ?s1) demo_automation (level_safety True) AUTO = Allow" for say
    by (simp add: hookless_Allow demo_gate_def gate_init_def evaluate_hookless_auto_gate_def get_all_devices_def new_registry_def Let_def)
  then have "?step ?s1 ?s2"
    using ask_hookless [of ?s1 demo_automation "level_safety True" MANUAL] by (simp add: demo_gate_def gate_init_def)
  moreover have "estop_check (fst (gs_latch ?s2)) AUTO = Allow"
    by (simp add: estop_Allow is_engaged_def demo_gate_def gate_init_def new_controller_def)
  then have "?step ?s2 ?s3" using ask_estop [of ?s2 MANUAL Allow demo_automation "level_safety True"] by simp
  moreover have "?step ?s3 ?s4"
    by (rule write_auto [where v = Allow and v' = Allow and prev = MANUAL])
      (auto simp: commit_set_mode_def Let_def is_valid_transition_def)
  ultimately have "?step\<^sup>*\<^sup>* demo_gate ?s4" by (meson rtranclp.rtrancl_into_rtrancl rtranclp.rtrancl_refl)
  moreover have "current_mode (gs_mode ?s4) = AUTO" "gs_mutex ?s4 = Mutex_Free" "gs_loop ?s4 = Watching" "\<not> gs_threw ?s4"
    by (simp_all add: current_mode_def demo_gate_def gate_init_def)
  ultimately show ?thesis using auto_is_gated [of demo_automation "level_safety True" _ _ _ _ ?s4] unfolding demo_gate_def
    by (metis mutex_phase.distinct(1) loop_phase.distinct(3))
qed

theorem stop_chain_holds_latch_witness:
  "\<exists>s. (gate_step demo_automation (level_safety True))\<^sup>*\<^sup>* demo_gate s \<and> holds (gs_monitor s) \<and> is_engaged (fst (gs_latch s))"
proof -
  let ?step = "gate_step demo_automation (level_safety True)"
  let ?ob = "demo_observation 0 True"
  let ?upd = "update_monitor (ob_cache ?ob) 0 0 (new_monitor demo_chain 1000)"
  let ?s1 = "demo_gate\<lparr> gs_monitor := snd ?upd, gs_loop := To_Hold \<rparr>"
  let ?latch = "(new_controller\<lparr> ec_latched := True, ec_latched_at_ms := Some 5, ec_restored := False \<rparr>, Map.empty)"
  let ?s2 = "?s1\<lparr> gs_latch := ?latch, gs_loop := To_Fault \<rparr>"
  have upd: "fst ?upd \<noteq> None" "holds (snd ?upd)" by code_simp+
  have "?step demo_gate ?s1"
    using watch [of demo_gate "ob_cache ?ob" 0 0 "fst ?upd" "snd ?upd" demo_automation "level_safety True"] upd
    by (simp add: demo_gate_def gate_init_def)
  moreover have "hold_latch demo_estop_env ''x'' (gs_latch ?s1) = (False, ?latch)"
    by (simp add: demo_gate_def gate_init_def hold_latch_def engage_def new_controller_def demo_estop_env_def)
  then have "?step ?s1 ?s2"
    using hold_engage [of ?s1 demo_estop_env "''x''" ?latch demo_automation "level_safety True"] by (simp add: demo_gate_def gate_init_def)
  ultimately have "?step\<^sup>*\<^sup>* demo_gate ?s2" by (meson rtranclp.rtrancl_into_rtrancl rtranclp.rtrancl_refl)
  moreover have "holds (gs_monitor ?s2)" "gs_loop ?s2 \<noteq> To_Hold" using upd by simp_all
  ultimately show ?thesis using stop_chain_holds_latch [of demo_automation "level_safety True" _ _ _ _ ?s2] unfolding demo_gate_def by blast
qed

end
