(* ===== verification/Ownership_Validation.thy ===== *)
theory Ownership_Validation
  imports Device_Registry
begin

text \<open>
  \<^verbatim>\<open>core/runtime/ownership_validation.cpp\<close>: devices may publish a tag with opaque claim keys, and a key must
  belong to one device. The whole inventory is validated at startup, and at a provider restart the
  inventory as it would be after the replacement. An error is the list of conflicting keys, each with its
  owners, in the order the message names them.
\<close>

section \<open>Validation\<close>

definition kClaimTag :: string where
  "kClaimTag = ''anolis.claim''"

definition kLegacyOwnershipTags :: "string list" where
  "kLegacyOwnershipTags = [''hw.bus_path'', ''hw.i2c_address'', ''bus_path'', ''i2c_address'']"

definition is_space :: "char \<Rightarrow> bool" where
  "is_space c = (c \<in> {CHR '' '', CHR 0x09, CHR 0x0A, CHR 0x0B, CHR 0x0C, CHR 0x0D})"

text \<open>The words that repeated \<open>in >> key\<close> reads.\<close>

function read_words :: "string \<Rightarrow> string list" where
  "read_words cs =
     (let rest = dropWhile is_space cs in
      if rest = [] then []
      else takeWhile (\<lambda>c. \<not> is_space c) rest # read_words (dropWhile (\<lambda>c. \<not> is_space c) rest))"
  by pat_completeness auto
termination
proof (relation "measure length")
  fix cs rest :: string
  assume rest: "rest = dropWhile is_space cs" "rest \<noteq> []"
  have "\<not> is_space (hd rest)" using hd_dropWhile rest by blast
  then have "length (dropWhile (\<lambda>c. \<not> is_space c) rest) < length rest"
    using rest(2) by (cases rest) (auto simp: le_imp_less_Suc length_dropWhile_le)
  then show "(dropWhile (\<lambda>c. \<not> is_space c) rest, cs) \<in> measure length"
    using length_dropWhile_le [of is_space cs] rest(1) by simp
qed simp

declare read_words.simps [simp del]

definition claim_keys :: "RegisteredDevice \<Rightarrow> string list" where
  "claim_keys device =
     (case map_of (pd_tags (dc_proto (rd_capabilities device))) kClaimTag of
        None \<Rightarrow> []
      | Some tag \<Rightarrow> fold oset_put (read_words tag) [])"

type_synonym ownership_error = "(string \<times> string list) list"

definition add_owner :: "string \<Rightarrow> string \<Rightarrow> (string \<times> string list) list \<Rightarrow> (string \<times> string list) list" where
  "add_owner owner key owners_by_key =
     omap_put key (oset_put owner (case map_of owners_by_key key of None \<Rightarrow> [] | Some owners \<Rightarrow> owners)) owners_by_key"

definition owners_by_key :: "RegisteredDevice list \<Rightarrow> (string \<times> string list) list" where
  "owners_by_key devices = fold (\<lambda>device. fold (add_owner (rd_provider_id device @ ''/'' @ rd_device_id device)) (claim_keys device)) devices []"

definition validate_ownership_claims :: "RegisteredDevice list \<Rightarrow> ownership_error option" where
  "validate_ownership_claims devices =
     (let conflicts = filter (\<lambda>(key, owners). \<not> length owners < 2) (owners_by_key devices)
      in if conflicts = [] then None else Some conflicts)"

definition validate_ownership_claims_after_provider_replacement ::
  "RegisteredDevice list \<Rightarrow> string \<Rightarrow> RegisteredDevice list \<Rightarrow> ownership_error option" where
  "validate_ownership_claims_after_provider_replacement current_devices provider_id replacement_devices =
     validate_ownership_claims (filter (\<lambda>device. rd_provider_id device \<noteq> provider_id) current_devices @ replacement_devices)"

definition providers_with_unchecked_legacy_ownership :: "RegisteredDevice list \<Rightarrow> string list" where
  "providers_with_unchecked_legacy_ownership devices =
     fold (\<lambda>device providers.
         let tags = pd_tags (dc_proto (rd_capabilities device)) in
         if map_of tags kClaimTag \<noteq> None then providers
         else if list_ex (\<lambda>tag. map_of tags tag \<noteq> None) kLegacyOwnershipTags then oset_put (rd_provider_id device) providers
         else providers)
       devices []"

section \<open>Lemmas\<close>

text \<open>The devices, by handle, that claim a key.\<close>

definition owners_of :: "RegisteredDevice list \<Rightarrow> string \<Rightarrow> string set" where
  "owners_of devices key = {get_handle device | device. device \<in> set devices \<and> key \<in> set (claim_keys device)}"

definition owner_set :: "(string \<times> string list) list \<Rightarrow> string \<Rightarrow> string set" where
  "owner_set m key = (case map_of m key of None \<Rightarrow> {} | Some owners \<Rightarrow> set owners)"

definition owners_ok :: "(string \<times> string list) list \<Rightarrow> bool" where
  "owners_ok m = (omap_ok m \<and> (\<forall>(key, owners) \<in> set m. sorted_wrt (<) owners \<and> owners \<noteq> []))"

lemma sorted_oset_put: "sorted_wrt (<) xs \<Longrightarrow> sorted_wrt (<) (oset_put (k :: string) xs)"
  by (induction k xs rule: oset_put.induct) (auto intro: less_trans)

lemma oset_put_nonempty [simp]: "oset_put k xs \<noteq> []"
  by (cases xs) (auto split: if_splits)

lemma owner_set_add: "owner_set (add_owner owner key m) key' = (if key' = key then insert owner (owner_set m key) else owner_set m key')"
  by (auto simp: owner_set_def add_owner_def omap_get_put split: option.splits)

lemma owners_ok_add:
  assumes "owners_ok m"
  shows "owners_ok (add_owner owner key m)"
proof -
  let ?old = "case map_of m key of None \<Rightarrow> [] | Some owners \<Rightarrow> owners"
  let ?new = "oset_put owner ?old"
  have old: "sorted_wrt (<) ?old" using assms by (auto simp: owners_ok_def split: option.splits dest!: map_of_SomeD)
  have "sorted_wrt (<) owners \<and> owners \<noteq> []" if "(k, owners) \<in> set (omap_put key ?new m)" for k owners
  proof -
    have "owners = ?new \<or> (k, owners) \<in> set m" using set_omap_put [of key ?new m] that by auto
    then show ?thesis using assms sorted_oset_put [OF old, of owner] by (auto simp: owners_ok_def)
  qed
  then show ?thesis using assms omap_ok_put [of m key ?new] by (auto simp: owners_ok_def add_owner_def)
qed

lemma owner_set_fold_keys: "owner_set (fold (add_owner owner) keys m) key = (if key \<in> set keys then insert owner (owner_set m key) else owner_set m key)"
  by (induction keys arbitrary: m) (auto simp: owner_set_add)

lemma owners_ok_fold_keys: "owners_ok m \<Longrightarrow> owners_ok (fold (add_owner owner) keys m)"
  by (induction keys arbitrary: m) (auto simp: owners_ok_add)

lemma owners_by_key_fold:
  assumes "owners_ok m"
  shows "owners_ok (fold (\<lambda>device. fold (add_owner (rd_provider_id device @ ''/'' @ rd_device_id device)) (claim_keys device)) devices m) \<and>
    owner_set (fold (\<lambda>device. fold (add_owner (rd_provider_id device @ ''/'' @ rd_device_id device)) (claim_keys device)) devices m) key =
      owner_set m key \<union> owners_of devices key"
  using assms
proof (induction devices arbitrary: m)
  case Nil
  then show ?case by (simp add: owners_of_def)
next
  case (Cons device devices)
  have "owners_of (device # devices) key = (if key \<in> set (claim_keys device) then {get_handle device} else {}) \<union> owners_of devices key"
    by (auto simp: owners_of_def)
  with Cons.IH [OF owners_ok_fold_keys [OF Cons.prems]] show ?case
    by (auto simp: owner_set_fold_keys get_handle_def)
qed

lemma owners_by_key_ok: "owners_ok (owners_by_key devices)" "owner_set (owners_by_key devices) key = owners_of devices key"
  using owners_by_key_fold [of "[]" devices key] by (simp_all add: owners_by_key_def owners_ok_def omap_ok_def owner_set_def)

lemma owners_entry:
  "(key, owners) \<in> set (owners_by_key devices) \<longleftrightarrow> owners_of devices key \<noteq> {} \<and> sorted_wrt (<) owners \<and> set owners = owners_of devices key"
proof
  assume entry: "(key, owners) \<in> set (owners_by_key devices)"
  have "map_of (owners_by_key devices) key = Some owners"
    using map_of_is_SomeI [OF omap.ok_distinct entry] owners_by_key_ok(1) [of devices] by (simp add: owners_ok_def)
  then have "owners_of devices key = set owners" using owners_by_key_ok(2) [of devices key] by (simp add: owner_set_def)
  moreover have "sorted_wrt (<) owners" "owners \<noteq> []" using entry owners_by_key_ok(1) [of devices] by (auto simp: owners_ok_def)
  ultimately show "owners_of devices key \<noteq> {} \<and> sorted_wrt (<) owners \<and> set owners = owners_of devices key" by simp
next
  assume set: "owners_of devices key \<noteq> {} \<and> sorted_wrt (<) owners \<and> set owners = owners_of devices key"
  then obtain owners' where entry: "map_of (owners_by_key devices) key = Some owners'"
    using owners_by_key_ok(2) [of devices key] by (auto simp: owner_set_def split: option.splits)
  have "set owners' = set owners" using set owners_by_key_ok(2) [of devices key] entry by (simp add: owner_set_def)
  moreover have "sorted_wrt (<) owners'" using owners_by_key_ok(1) [of devices] map_of_SomeD [OF entry] by (auto simp: owners_ok_def)
  ultimately have "owners' = owners" using set strict_sorted_equal by metis
  with entry show "(key, owners) \<in> set (owners_by_key devices)" by (auto dest: map_of_SomeD)
qed

definition conflicts_of :: "RegisteredDevice list \<Rightarrow> ownership_error" where
  "conflicts_of devices = filter (\<lambda>(key, owners). \<not> length owners < 2) (owners_by_key devices)"

lemma finite_owners [simp]: "finite (owners_of devices key)"
  unfolding owners_of_def by (rule finite_subset [of _ "get_handle ` set devices"]) auto

lemma conflict_iff:
  "(key, owners) \<in> set (conflicts_of devices) \<longleftrightarrow>
     sorted_wrt (<) owners \<and> set owners = owners_of devices key \<and> 2 \<le> card (owners_of devices key)"
proof (cases "sorted_wrt (<) owners \<and> set owners = owners_of devices key")
  case True
  then have "length owners = card (owners_of devices key)" by (metis distinct_card strict_sorted_iff)
  with True show ?thesis by (auto simp: conflicts_of_def owners_entry)
next
  case False
  then show ?thesis by (auto simp: conflicts_of_def owners_entry)
qed

lemma no_conflict_iff: "conflicts_of devices = [] \<longleftrightarrow> (\<forall>key. card (owners_of devices key) < 2)"
proof
  assume none: "conflicts_of devices = []"
  show "\<forall>key. card (owners_of devices key) < 2"
  proof
    fix key
    have "(key, sorted_list_of_set (owners_of devices key)) \<notin> set (conflicts_of devices)" using none by simp
    then show "card (owners_of devices key) < 2" by (auto simp: conflict_iff)
  qed
next
  assume "\<forall>key. card (owners_of devices key) < 2"
  then have "(key, owners) \<notin> set (conflicts_of devices)" for key owners by (auto simp: conflict_iff not_le)
  then show "conflicts_of devices = []" by (cases "conflicts_of devices") auto
qed

lemma single_owner_iff:
  "(\<forall>key. card (owners_of devices key) < 2) \<longleftrightarrow>
     (\<forall>a \<in> set devices. \<forall>b \<in> set devices. set (claim_keys a) \<inter> set (claim_keys b) \<noteq> {} \<longrightarrow> get_handle a = get_handle b)"
proof -
  have single: "card (owners_of devices key) < 2 \<longleftrightarrow> (\<forall>x \<in> owners_of devices key. \<forall>y \<in> owners_of devices key. x = y)" for key
    using card_le_Suc0_iff_eq [OF finite_owners, of devices key] by (simp add: less_Suc_eq_le numeral_2_eq_2)
  have "(\<forall>key. card (owners_of devices key) < 2) \<longleftrightarrow>
      (\<forall>key. \<forall>a \<in> set devices. \<forall>b \<in> set devices. key \<in> set (claim_keys a) \<longrightarrow> key \<in> set (claim_keys b) \<longrightarrow> get_handle a = get_handle b)"
    unfolding single unfolding owners_of_def by blast
  then show ?thesis by blast
qed

text \<open>Validation is exact: it accepts an inventory exactly when no claim key is held by two different device
  handles, and when it refuses it names exactly the keys held more than once, each with exactly its holders.\<close>

lemma ownership_validation_exact:
  "(validate_ownership_claims devices = None \<longleftrightarrow>
      (\<forall>a \<in> set devices. \<forall>b \<in> set devices. set (claim_keys a) \<inter> set (claim_keys b) \<noteq> {} \<longrightarrow> get_handle a = get_handle b)) \<and>
    (\<forall>conflicts. validate_ownership_claims devices = Some conflicts \<longrightarrow>
      (\<forall>key owners. (key, owners) \<in> set conflicts \<longleftrightarrow>
         sorted_wrt (<) owners \<and> set owners = owners_of devices key \<and> 2 \<le> card (owners_of devices key)))"
proof -
  have "validate_ownership_claims devices = (if conflicts_of devices = [] then None else Some (conflicts_of devices))"
    by (simp add: validate_ownership_claims_def conflicts_of_def Let_def)
  then show ?thesis using no_conflict_iff single_owner_iff conflict_iff by simp
qed

text \<open>Two devices of different providers on one bus address.\<close>

definition claiming :: "string \<Rightarrow> string \<Rightarrow> RegisteredDevice" where
  "claiming p tag = \<lparr> rd_provider_id = p, rd_device_id = ''m'', rd_capabilities =
     \<lparr> dc_proto = \<lparr> pd_device_id = ''m'', pd_label = [], pd_type_id = [], pd_type_version = [], pd_tags = [(kClaimTag, tag)] \<rparr>,
       dc_signals_by_id = [], dc_functions_by_id = [] \<rparr> \<rparr>"

lemma ownership_conflict_example:
  "validate_ownership_claims [claiming ''a'' ''i2c:8 gpio:1'', claiming ''b'' ''i2c:8''] = Some [(''i2c:8'', [''a/m'', ''b/m''])] \<and>
   2 \<le> card (owners_of [claiming ''a'' ''i2c:8 gpio:1'', claiming ''b'' ''i2c:8''] ''i2c:8'')"
proof -
  let ?devices = "[claiming ''a'' ''i2c:8 gpio:1'', claiming ''b'' ''i2c:8'']"
  have "validate_ownership_claims ?devices = Some [(''i2c:8'', [''a/m'', ''b/m''])]" by code_simp
  moreover have "(''i2c:8'', [''a/m'', ''b/m'']) \<in> set [(''i2c:8'', [''a/m'', ''b/m''])]" by simp
  ultimately show ?thesis using ownership_validation_exact [of ?devices] by blast
qed

end
