(* ===== verification/Runtime_Hooks.thy ===== *)
theory Runtime_Hooks
  imports Actuation_Gate
begin

text \<open>
  The mode transitions of a running machine, as \<open>Runtime::init_automation\<close> of \<^verbatim>\<open>core/runtime/runtime.cpp\<close> wires
  them: the gates and the declared calls before a transition, the commit, then the re-arming of lost devices,
  the declared calls after it and the event. \<open>change_mode\<close> is \<open>ModeManager::set_mode\<close> with these callbacks in it,
  and the e-stop of \<open>Safe_State\<close> enters FAULT through it. As in the ladder, call number n runs in \<open>env n\<close>. What
  other threads do to the mode between the two critical sections of \<open>set_mode\<close> is \<open>te_others\<close>; a later transition of
  another thread, while the callbacks after the commit run without the lock, is a \<open>change_mode\<close> of its own, and the
  mode recorded when this one returns is the one it left.
\<close>

section \<open>Hooks\<close>

definition hook_mode_matches :: "string \<Rightarrow> RuntimeMode \<Rightarrow> bool" where
  "hook_mode_matches filter_text actual = (filter_text = [] \<or> filter_text = ''*'' \<or> filter_text = mode_to_string actual)"

text \<open>The calls of the hooks that match a transition, each with its hook, in the order they are made.\<close>

definition matching_calls ::
  "RuntimeMode \<Rightarrow> RuntimeMode \<Rightarrow> ModeTransitionHookConfig list \<Rightarrow> (ModeTransitionHookConfig \<times> ModeTransitionCallConfig) list" where
  "matching_calls prev_mode next_mode hooks =
     concat (map (\<lambda>hook. map (Pair hook) (hk_calls hook))
       (filter (\<lambda>hook. hook_mode_matches (hk_from hook) prev_mode \<and> hook_mode_matches (hk_to hook) next_mode) hooks))"

datatype hook_outcome = Hook_Held | Hook_Ran CallResult

definition hook_error :: "(call_error option \<Rightarrow> string) \<Rightarrow> RuntimeMode \<Rightarrow> RuntimeMode \<Rightarrow> ModeTransitionCallConfig \<Rightarrow> CallResult \<Rightarrow> string" where
  "hook_error say prev_mode next_mode call res =
     ''Before-transition hook failed ('' @ mode_to_string prev_mode @ '' -> '' @ mode_to_string next_mode @ ''): '' @
     cc_device_handle call @ '' '' @ function_label (cc_function_id call) (cc_function_name call) @ '' - '' @ say (cr_error res)"

text \<open>\<open>pre k\<close> is the latch as read before the k-th call.\<close>

fun run_before_hooks ::
  "(call_error option \<Rightarrow> string) \<Rightarrow> (nat \<Rightarrow> latch_view) \<Rightarrow> (nat \<Rightarrow> RouterEnv) \<Rightarrow> RuntimeMode \<Rightarrow> RuntimeMode \<Rightarrow> nat \<Rightarrow>
   (ModeTransitionHookConfig \<times> ModeTransitionCallConfig) list \<Rightarrow> LadderState \<Rightarrow>
   (ModeTransitionCallConfig \<times> hook_outcome) list \<times> verdict \<times> LadderState" where
  "run_before_hooks say pre env prev_mode next_mode k [] ls = ([], Allow, ls)"
| "run_before_hooks say pre env prev_mode next_mode k ((hook, call) # rest) ls =
     (let request = mode_hook_request call next_mode in
      if rq_fault_entry_hook request \<and> latch_refuses (pre k) request (ld_router ls)
      then let (trace, v, ls) = run_before_hooks say pre env prev_mode next_mode (Suc k) rest ls in ((call, Hook_Held) # trace, v, ls)
      else let (res, ls) = route env request ls in
        if \<not> cr_success res \<and> next_mode \<noteq> FAULT \<and> hk_fail_on_error hook
        then ([(call, Hook_Ran res)], Reject (hook_error say prev_mode next_mode call res), ls)
        else let (trace, v, ls) = run_before_hooks say pre env prev_mode next_mode (Suc k) rest ls
             in ((call, Hook_Ran res) # trace, v, ls))"

fun run_after_hooks ::
  "(nat \<Rightarrow> latch_view) \<Rightarrow> (nat \<Rightarrow> RouterEnv) \<Rightarrow> RuntimeMode \<Rightarrow> nat \<Rightarrow>
   (ModeTransitionHookConfig \<times> ModeTransitionCallConfig) list \<Rightarrow> LadderState \<Rightarrow> (ModeTransitionCallConfig \<times> hook_outcome) list \<times> LadderState" where
  "run_after_hooks pre env next_mode k [] ls = ([], ls)"
| "run_after_hooks pre env next_mode k ((hook, call) # rest) ls =
     (let request = mode_hook_request call next_mode in
      if rq_fault_entry_hook request \<and> latch_refuses (pre k) request (ld_router ls)
      then let (trace, ls) = run_after_hooks pre env next_mode (Suc k) rest ls in ((call, Hook_Held) # trace, ls)
      else let (res, ls) = route env request ls; (trace, ls) = run_after_hooks pre env next_mode (Suc k) rest ls
           in ((call, Hook_Ran res) # trace, ls))"

definition rearm_on_auto :: "RuntimeMode \<Rightarrow> RuntimeMode \<Rightarrow> DeviceLossLatch \<Rightarrow> DeviceLossLatch" where
  "rearm_on_auto prev_mode next_mode loss = (if prev_mode \<noteq> MANUAL \<or> next_mode \<noteq> AUTO then loss else snd (release_all loss))"

section \<open>A transition\<close>

text \<open>The mode, the loss latch, the mode events sent, and what became of the calls of the hooks, in order: a call the code
  skips because the latch refuses it makes no request and is entered as \<open>Hook_Held\<close>.\<close>

record ModeWorld =
  mw_mode :: ModeManager
  mw_loss :: DeviceLossLatch
  mw_events :: "(string \<times> string) list"
  mw_trace :: "(ModeTransitionCallConfig \<times> hook_outcome) list"

text \<open>What one transition reads: the gates before the hooks and at the commit, the latch before each
  hook call, and what others do to the mode while the callbacks run.\<close>

record TransitionEnv =
  te_say :: "call_error option \<Rightarrow> string"
  te_gates :: "verdict list"
  te_guards :: "verdict list"
  te_pre :: "nat \<Rightarrow> latch_view"
  te_env :: "nat \<Rightarrow> RouterEnv"
  te_others :: "ModeManager \<Rightarrow> ModeManager"

definition after_change ::
  "TransitionEnv \<Rightarrow> ModeTransitionHooksConfig \<Rightarrow> nat \<Rightarrow> RuntimeMode \<Rightarrow> RuntimeMode \<Rightarrow> LadderState \<times> ModeWorld \<Rightarrow> LadderState \<times> ModeWorld" where
  "after_change te hooks k prev_mode next_mode lw =
     (let (ls, w) = lw;
          w = w\<lparr> mw_loss := rearm_on_auto prev_mode next_mode (mw_loss w) \<rparr>;
          (trace, ls) = run_after_hooks (te_pre te) (te_env te) next_mode k (matching_calls prev_mode next_mode (hg_after_transition hooks)) ls
      in (ls, w\<lparr> mw_trace := mw_trace w @ trace, mw_events := mw_events w @ [(mode_to_string prev_mode, mode_to_string next_mode)] \<rparr>))"

definition change_mode ::
  "TransitionEnv \<Rightarrow> ModeTransitionHooksConfig \<Rightarrow> RuntimeMode \<Rightarrow> LadderState \<times> ModeWorld \<Rightarrow> string option \<times> LadderState \<times> ModeWorld" where
  "change_mode te hooks new_mode lw =
     (let (ls, w) = lw in
      case begin_set_mode new_mode (mw_mode w) of
        Already \<Rightarrow> (None, ls, w)
      | Refused e \<Rightarrow> (Some e, ls, w)
      | Pending previous_mode \<Rightarrow>
          (case run_before new_mode (te_gates te) of
             Some e \<Rightarrow> (Some e, ls, w\<lparr> mw_mode := te_others te (mw_mode w) \<rparr>)
           | None \<Rightarrow>
               (let calls = matching_calls previous_mode new_mode (hg_before_transition hooks);
                    (trace, v, ls) = run_before_hooks (te_say te) (te_pre te) (te_env te) previous_mode new_mode 0 calls ls;
                    w = w\<lparr> mw_mode := te_others te (mw_mode w), mw_trace := mw_trace w @ trace \<rparr> in
                case run_before new_mode [v] of
                  Some e \<Rightarrow> (Some e, ls, w)
                | None \<Rightarrow>
                    (case commit_set_mode new_mode previous_mode (te_guards te) (mw_mode w) of
                       (Committed prev, mm) \<Rightarrow> (None, after_change te hooks (length calls) prev new_mode (ls, w\<lparr> mw_mode := mm \<rparr>))
                     | (Joined, mm) \<Rightarrow> (None, ls, w\<lparr> mw_mode := mm \<rparr>)
                     | (Commit_Refused e, mm) \<Rightarrow> (Some e, ls, w\<lparr> mw_mode := mm \<rparr>)))))"

text \<open>The FAULT entry of a trigger or a hold. \<open>te admit\<close> is what the transition reads when hooks are admitted.\<close>

definition enter_fault :: "(bool \<Rightarrow> TransitionEnv) \<Rightarrow> ModeTransitionHooksConfig \<Rightarrow> ModeWorld fault_entry" where
  "enter_fault te hooks admit lw = (let (err, lw) = change_mode (te admit) hooks FAULT lw in (err = None, lw))"

section \<open>Lemmas\<close>

lemma run_targets_extends:
  assumes "\<And>t ls. extends ls (snd (run t ls))" and "run_targets handle label run absent ts ls = (actions, skipped, ls')"
  shows "extends ls ls'"
  using assms(2)
proof (induction ts arbitrary: ls actions skipped)
  case (Cons t ts)
  show ?case
  proof (cases "map_of absent (handle t)")
    case None
    with Cons.prems obtain actions' skipped' where "run_targets handle label run absent ts (snd (run t ls)) = (actions', skipped', ls')"
      by (auto split: prod.splits)
    then show ?thesis using Cons.IH assms(1) extends_trans by blast
  next
    case (Some reason)
    with Cons.prems obtain skipped' where "run_targets handle label run absent ts ls = (actions, skipped', ls')"
      by (auto split: prod.splits)
    then show ?thesis using Cons.IH by blast
  qed
qed simp

lemma run_ladder_extends: "run_ladder env safety only absent ls = (result, ls') \<Longrightarrow> extends ls ls'"
  by (auto simp: run_ladder_def run_declared_def run_zero_def Let_def intro: run_targets_extends run_extends
      split: prod.splits SafeStateKind.splits)

text \<open>A sent call that is for a published function that does not actuate.\<close>

definition nonactuating :: "DeviceRegistry \<Rightarrow> dispatch \<Rightarrow> bool" where
  "nonactuating registry sent = (case sent of (p, d, fid, name, args) \<Rightarrow>
     \<exists>device spec. get_device_by_handle_copy registry (p @ ''/'' @ d) = Some device \<and>
       (name, spec) \<in> set (dc_functions_by_id (rd_capabilities device)) \<and> fs_function_id spec = fid \<and> \<not> is_actuating spec)"

definition only_passive :: "LadderState \<Rightarrow> LadderState \<Rightarrow> bool" where
  "only_passive ls ls' = (ro_registry (ld_router ls') = ro_registry (ld_router ls) \<and>
     (\<exists>new. ld_sent ls' = ld_sent ls @ new \<and> (\<forall>sent \<in> set new. nonactuating (ro_registry (ld_router ls)) sent)))"

lemma only_passive_refl [simp]: "only_passive ls ls"
  by (simp add: only_passive_def)

lemma only_passive_trans: "only_passive a b \<Longrightarrow> only_passive b c \<Longrightarrow> only_passive a c"
  by (force simp: only_passive_def)

lemma route_passive:
  assumes "re_latch_locked (env (ld_turn ls)) = Some (True, False)" and "\<not> rq_safe_state request"
  shows "only_passive ls (snd (route env request ls))"
proof (cases "oc_dispatch (execute_call (env (ld_turn ls)) request (ld_router ls) (ld_cache ls))")
  case None
  then show ?thesis using route_extends [of ls env request] by (auto simp: only_passive_def extends_def route_def Let_def)
next
  case (Some sent)
  obtain p d fid name args where sent: "sent = (p, d, fid, name, args)" by (metis prod_cases5)
  with Some obtain device spec where r: "reaches_lock (env (ld_turn ls)) request (ld_router ls) p d device spec name args"
    and fid: "fid = fs_function_id spec" and latch: "\<not> latch_holds (re_latch_locked (env (ld_turn ls))) request spec"
    by (auto elim: execute_call_sent)
  have "\<not> is_actuating spec" using latch_holds_actuating [OF latch assms(2)] assms(1) by auto
  then have "nonactuating (ro_registry (ld_router ls)) sent"
    using reaches_lock_offers [OF r] fid by (auto simp: nonactuating_def sent offers_def)
  with Some show ?thesis using route_extends [of ls env request] by (auto simp: only_passive_def extends_def route_def Let_def)
qed

lemma mode_hook_request_sel [simp]:
  "\<not> rq_safe_state (mode_hook_request call m)" "rq_fault_entry_hook (mode_hook_request call m) = (m = FAULT)"
  by (simp_all add: mode_hook_request_def)

lemma run_before_hooks_Cons:
  "run_before_hooks say pre env p m k ((hook, call) # rest) ls =
     (if m = FAULT \<and> latch_refuses (pre k) (mode_hook_request call m) (ld_router ls)
      then let r = run_before_hooks say pre env p m (Suc k) rest ls in ((call, Hook_Held) # fst r, snd r)
      else let (res, ls) = route env (mode_hook_request call m) ls in
        if \<not> cr_success res \<and> m \<noteq> FAULT \<and> hk_fail_on_error hook
        then ([(call, Hook_Ran res)], Reject (hook_error say p m call res), ls)
        else let r = run_before_hooks say pre env p m (Suc k) rest ls in ((call, Hook_Ran res) # fst r, snd r))"
  by (auto simp: Let_def split_beta)

lemma run_after_hooks_Cons:
  "run_after_hooks pre env m k ((hook, call) # rest) ls =
     (if m = FAULT \<and> latch_refuses (pre k) (mode_hook_request call m) (ld_router ls)
      then let r = run_after_hooks pre env m (Suc k) rest ls in ((call, Hook_Held) # fst r, snd r)
      else let (res, ls) = route env (mode_hook_request call m) ls; r = run_after_hooks pre env m (Suc k) rest ls
           in ((call, Hook_Ran res) # fst r, snd r))"
  by (auto simp: Let_def split_beta)

declare run_before_hooks.simps(2) [simp del] run_after_hooks.simps(2) [simp del]

lemma run_hooks_passive:
  assumes "\<And>n. re_latch_locked (env n) = Some (True, False)"
  shows "only_passive ls (snd (snd (run_before_hooks say pre env p m k calls ls)))"
    and "only_passive ls (snd (run_after_hooks pre env m k calls ls))"
proof -
  have route: "only_passive ls (snd (route env (mode_hook_request call m) ls))" for call ls
    by (rule route_passive) (simp_all add: assms)
  show "only_passive ls (snd (snd (run_before_hooks say pre env p m k calls ls)))"
  proof (induction calls arbitrary: k ls)
    case (Cons c calls)
    obtain hook call where c: "c = (hook, call)" by fastforce
    have rest: "only_passive ls (snd (snd (run_before_hooks say pre env p m (Suc k) calls (snd (route env (mode_hook_request call m) ls)))))"
      by (rule only_passive_trans [OF route Cons.IH])
    show ?case
      unfolding c run_before_hooks_Cons Let_def split_beta using rest route [of ls call] Cons.IH [of ls "Suc k"] by auto
  qed simp
  show "only_passive ls (snd (run_after_hooks pre env m k calls ls))"
  proof (induction calls arbitrary: k ls)
    case (Cons c calls)
    obtain hook call where c: "c = (hook, call)" by fastforce
    have rest: "only_passive ls (snd (run_after_hooks pre env m (Suc k) calls (snd (route env (mode_hook_request call m) ls))))"
      by (rule only_passive_trans [OF route Cons.IH])
    show ?case
      unfolding c run_after_hooks_Cons Let_def split_beta using rest Cons.IH [of ls "Suc k"] by auto
  qed simp
qed

text \<open>No call is left out: neither before a FAULT entry nor after any transition.\<close>

lemma run_hooks_attempted:
  "map fst (fst (run_before_hooks say pre env p FAULT k calls ls)) = map snd calls"
  "fst (snd (run_before_hooks say pre env p FAULT k calls ls)) = Allow"
  "map fst (fst (run_after_hooks pre env m k calls ls)) = map snd calls"
proof -
  show "map fst (fst (run_before_hooks say pre env p FAULT k calls ls)) = map snd calls"
    "fst (snd (run_before_hooks say pre env p FAULT k calls ls)) = Allow"
  proof (induction calls arbitrary: k ls)
    case (Cons c calls)
    case 1
    from Cons show ?case by (cases c) (simp add: run_before_hooks_Cons Let_def split_beta)
    case 2
    from Cons show ?case by (cases c) (simp add: run_before_hooks_Cons Let_def split_beta)
  qed simp_all
  show "map fst (fst (run_after_hooks pre env m k calls ls)) = map snd calls"
  proof (induction calls arbitrary: k ls)
    case (Cons c calls)
    then show ?case by (cases c) (auto simp: run_after_hooks_Cons Let_def split_beta)
  qed simp
qed

text \<open>The specification of a FAULT entry's calls: each one, in turn, is skipped when the latch as read before it refuses it,
  and otherwise routed, its outcome being what the router answered.\<close>

fun fault_calls_done ::
  "(nat \<Rightarrow> latch_view) \<Rightarrow> (nat \<Rightarrow> RouterEnv) \<Rightarrow> nat \<Rightarrow> (ModeTransitionCallConfig \<times> hook_outcome) list \<Rightarrow> LadderState \<Rightarrow> LadderState \<Rightarrow> bool" where
  "fault_calls_done pre env k [] ls ls' = (ls' = ls)"
| "fault_calls_done pre env k ((call, outcome) # trace) ls ls' =
     (if latch_refuses (pre k) (mode_hook_request call FAULT) (ld_router ls)
      then outcome = Hook_Held \<and> fault_calls_done pre env (Suc k) trace ls ls'
      else outcome = Hook_Ran (fst (route env (mode_hook_request call FAULT) ls)) \<and>
        fault_calls_done pre env (Suc k) trace (snd (route env (mode_hook_request call FAULT) ls)) ls')"

lemma fault_calls_append:
  "fault_calls_done pre env k trace ls ls1 \<Longrightarrow> fault_calls_done pre env (k + length trace) trace' ls1 ls2 \<Longrightarrow>
     fault_calls_done pre env k (trace @ trace') ls ls2"
  by (induction pre env k trace ls ls1 rule: fault_calls_done.induct) (auto split: if_splits)

lemma run_hooks_done:
  "fault_calls_done pre env k (fst (run_before_hooks say pre env p FAULT k calls ls)) ls (snd (snd (run_before_hooks say pre env p FAULT k calls ls)))"
  "fault_calls_done pre env k (fst (run_after_hooks pre env FAULT k calls ls)) ls (snd (run_after_hooks pre env FAULT k calls ls))"
proof -
  show "fault_calls_done pre env k (fst (run_before_hooks say pre env p FAULT k calls ls)) ls (snd (snd (run_before_hooks say pre env p FAULT k calls ls)))"
  proof (induction calls arbitrary: k ls)
    case (Cons c calls)
    then show ?case by (cases c) (simp add: run_before_hooks_Cons Let_def split_beta)
  qed simp
  show "fault_calls_done pre env k (fst (run_after_hooks pre env FAULT k calls ls)) ls (snd (run_after_hooks pre env FAULT k calls ls))"
  proof (induction calls arbitrary: k ls)
    case (Cons c calls)
    then show ?case by (cases c) (simp add: run_after_hooks_Cons Let_def split_beta)
  qed simp
qed

lemma change_to_fault:
  assumes "change_mode te hooks FAULT (ls, w) = (err, ls', w')"
  shows "err = None" and "current_mode (mw_mode w') = FAULT"
proof -
  show "err = None"
    using assms run_hooks_attempted(2)
    by (auto simp: change_mode_def commit_set_mode_def Let_def begin_fault split_beta split: begin_result.splits if_splits)
  show "current_mode (mw_mode w') = FAULT"
    using assms run_hooks_attempted(2)
    by (auto simp: change_mode_def commit_set_mode_def begin_set_mode_def after_change_def current_mode_def Let_def split_beta
        split: begin_result.splits if_splits)
qed

lemma change_mode_passive:
  assumes "\<And>n. re_latch_locked (te_env te n) = Some (True, False)" and "change_mode te hooks m (ls, w) = (err, ls', w')"
  shows "only_passive ls ls'"
proof -
  have before: "only_passive ls (snd (snd (run_before_hooks (te_say te) (te_pre te) (te_env te) p m k calls ls)))" for p k calls
    by (rule run_hooks_passive(1) [OF assms(1)])
  have "only_passive ls1 (fst (after_change te hooks k p m (ls1, w1)))" for ls1 w1 k p
    using run_hooks_passive(2) [OF assms(1)] by (simp add: after_change_def Let_def split_beta)
  from only_passive_trans [OF before this] before show ?thesis
    using assms(2)
    by (auto simp: change_mode_def Let_def split_beta split: begin_result.splits option.splits commit_result.splits prod.splits)
      (metis fst_conv)+
qed

section \<open>Properties\<close>

text \<open>C2. What an e-stop does. When a trigger returns, the latch is engaged; on a machine with modes the mode is
  FAULT and the trigger reports so, whatever the hooks answered and whatever other threads did to the mode; and
  if the ladder had a rung to run, no call sent by the hooks of the FAULT entry, on the triggering thread, is
  for an actuating function: only the ladder drove outputs.\<close>

theorem estop_effect:
  assumes "trigger env renv safety (enter_fault te hooks) reason cf (ls, w) = (Some result, cf', ls', w')"
    and "\<And>n. re_latch_locked (te_env (te False) n) = Some (True, False)"
  shows "is_engaged (fst cf') \<and>
    (ec_has_mode_manager (fst cf) \<longrightarrow> es_fault_requested result \<and> es_fault_ok result \<and> current_mode (mw_mode w') = FAULT) \<and>
    (es_kind result \<noteq> SK_None \<longrightarrow>
      (\<exists>ls1 new. ls1 = snd (run_ladder renv safety None [] ls) \<and> ld_sent ls' = ld_sent ls1 @ new \<and>
         (\<forall>sent \<in> set new. nonactuating (ro_registry (ld_router ls)) sent)))"
proof -
  obtain ec fs where en: "engage env reason cf = (False, ec, fs)"
    using assms(1) by (cases "engage env reason cf") (auto simp: trigger_def Let_def split: prod.splits if_splits)
  obtain r1 ls1 where lad: "run_ladder renv safety None [] ls = (r1, ls1)" by fastforce
  have reg: "ro_registry (ld_router ls1) = ro_registry (ld_router ls)" using run_ladder_extends [OF lad] by (simp add: extends_def)
  have has: "ec_has_mode_manager ec = ec_has_mode_manager (fst cf)"
    using en by (auto simp: engage_def Let_def split: prod.splits option.splits)
  have eng: "is_engaged ec" using engage_engaged [OF en] by simp
  show ?thesis
  proof (cases "ec_has_mode_manager (fst cf)")
    case False
    with assms(1) en lad has have "result = r1" "ls' = ls1" "cf' = (ec, fs)" by (auto simp: trigger_def Let_def)
    with False eng lad show ?thesis by simp
  next
    case True
    obtain err ls2 w2 where ch: "change_mode (te (es_kind r1 = SK_None)) hooks FAULT (ls1, w) = (err, ls2, w2)"
      by (metis prod_cases3)
    have res: "result = r1\<lparr> es_fault_requested := True, es_fault_ok := (err = None) \<rparr>" "cf' = (ec\<lparr> ec_hooks_admitted := False \<rparr>, fs)"
        "ls' = ls2" "w' = w2"
      using assms(1) en lad has True ch by (auto simp: trigger_def enter_fault_def Let_def)
    have "es_kind result \<noteq> SK_None \<Longrightarrow> only_passive ls1 ls2"
      using change_mode_passive [OF assms(2)] ch res(1) by auto
    with change_to_fault [OF ch] eng lad reg res show ?thesis by (auto simp: is_engaged_def only_passive_def)
  qed
qed

text \<open>C15. A fault runs every hook. When the mode changes to FAULT and no other thread changes it before the commit, the
  calls of every declared hook that matches the transition are gone through, before and then after the commit, in the
  declared order, even when earlier ones fail: a call is skipped exactly when the e-stop latch, as read before it, refuses
  it, and every other one is routed to its device. The change succeeds and is announced once.\<close>

theorem fault_runs_every_hook:
  assumes "change_mode te hooks FAULT (ls, w) = (err, ls', w')" and "te_others te (mw_mode w) = mw_mode w"
    and "current_mode (mw_mode w) = m" and "m \<noteq> FAULT"
  shows "err = None \<and> current_mode (mw_mode w') = FAULT \<and>
    mw_events w' = mw_events w @ [(mode_to_string m, ''FAULT'')] \<and>
    (\<exists>trace. mw_trace w' = mw_trace w @ trace \<and> fault_calls_done (te_pre te) (te_env te) 0 trace ls ls' \<and>
       map fst trace = map snd (matching_calls m FAULT (hg_before_transition hooks)) @ map snd (matching_calls m FAULT (hg_after_transition hooks)))"
proof -
  let ?before = "matching_calls m FAULT (hg_before_transition hooks)"
  let ?b = "run_before_hooks (te_say te) (te_pre te) (te_env te) m FAULT 0 ?before ls"
  let ?a = "run_after_hooks (te_pre te) (te_env te) FAULT (length ?before) (matching_calls m FAULT (hg_after_transition hooks)) (snd (snd ?b))"
  have pend: "begin_set_mode FAULT (mw_mode w) = Pending m"
    using assms(3,4) by (simp add: begin_set_mode_def current_mode_def)
  have commit: "commit_set_mode FAULT m (te_guards te) (mw_mode w) = (Committed m, (mw_mode w)\<lparr> mm_current_mode := FAULT \<rparr>)"
    using assms(3,4) by (simp add: commit_set_mode_def Let_def current_mode_def)
  have change: "mw_trace w' = mw_trace w @ (fst ?b @ fst ?a)" "mw_events w' = mw_events w @ [(mode_to_string m, ''FAULT'')]" "ls' = snd ?a"
    using assms(1,2) by (auto simp: change_mode_def pend commit Let_def split_beta after_change_def)
  have length: "length (fst ?b) = length ?before" by (metis length_map run_hooks_attempted(1))
  have "fault_calls_done (te_pre te) (te_env te) 0 (fst ?b @ fst ?a) ls (snd ?a)"
    by (rule fault_calls_append [OF run_hooks_done(1)]) (simp add: length run_hooks_done(2))
  moreover have "map fst (fst ?b @ fst ?a) = map snd ?before @ map snd (matching_calls m FAULT (hg_after_transition hooks))"
    by (simp add: run_hooks_attempted)
  ultimately show ?thesis using change change_to_fault [OF assms(1)] by blast
qed

text \<open>A machine in MANUAL with a hook on FAULT that would drive its output, stopped while a rung is planned, and
  faulted without a latch.\<close>

definition level_hooks :: ModeTransitionHooksConfig where
  "level_hooks = \<lparr> hg_before_transition = [\<lparr> hk_from = [], hk_to = ''FAULT'', hk_fail_on_error = True,
     hk_calls = [\<lparr> cc_device_handle = ''p/d'', cc_function_id = 0, cc_function_name = ''set'', cc_args = [(''level'', PV_Int64 0)] \<rparr>] \<rparr>],
     hg_after_transition = [] \<rparr>"

definition level_world :: ModeWorld where
  "level_world = \<lparr> mw_mode = new_mode_manager MANUAL, mw_loss = new_loss_latch, mw_events = [], mw_trace = [] \<rparr>"

definition level_te :: "bool \<Rightarrow> bool \<Rightarrow> TransitionEnv" where
  "level_te held admit = \<lparr> te_say = (\<lambda>_. []), te_gates = [], te_guards = [], te_pre = (\<lambda>_. Some (held, admit)),
     te_env = (\<lambda>_. (open_env held 0)\<lparr> re_latch := Some (held, admit), re_latch_locked := Some (held, admit) \<rparr>), te_others = (\<lambda>mm. mm) \<rparr>"

abbreviation level_estop :: "EstopResult option \<times> (SafeStateController \<times> files) \<times> LadderState \<times> ModeWorld" where
  "level_estop \<equiv> trigger demo_estop_env latched_env (level_safety True) (enter_fault (level_te True) level_hooks) ''x''
     (new_controller\<lparr> ec_has_mode_manager := True \<rparr>, Map.empty) (level_ladder, level_world)"

theorem estop_effect_witness:
  "is_engaged (fst (fst (snd level_estop))) \<and> current_mode (mw_mode (snd (snd (snd level_estop)))) = FAULT \<and>
   mw_trace (snd (snd (snd level_estop))) = [(hd (hk_calls (hd (hg_before_transition level_hooks))), Hook_Held)]"
proof -
  have "\<not> Option.is_none (fst level_estop)" by code_simp
  then have "\<exists>result. fst level_estop = Some result" by (cases "fst level_estop") simp_all
  then obtain result cf' ls' w' where run: "level_estop = (Some result, cf', ls', w')" by (metis prod.collapse)
  have "re_latch_locked (te_env (level_te True False) n) = Some (True, False)" for n by (simp add: level_te_def)
  from estop_effect [OF run this] have "is_engaged (fst cf') \<and> current_mode (mw_mode w') = FAULT" by simp
  moreover have "mw_trace (snd (snd (snd level_estop))) = [(hd (hk_calls (hd (hg_before_transition level_hooks))), Hook_Held)]"
    by code_simp
  ultimately show ?thesis by (simp add: run)
qed

theorem fault_runs_every_hook_witness:
  "let (err, ls', w') = change_mode (level_te False False) level_hooks FAULT (level_ladder, level_world)
   in err = None \<and> current_mode (mw_mode w') = FAULT \<and> map fst (mw_trace w') = hk_calls (hd (hg_before_transition level_hooks)) \<and>
     fault_calls_done (\<lambda>_. Some (False, False)) (te_env (level_te False False)) 0 (mw_trace w') level_ladder ls'"
proof -
  obtain err ls' w' where run: "change_mode (level_te False False) level_hooks FAULT (level_ladder, level_world) = (err, ls', w')"
    by (metis prod_cases3)
  have "te_others (level_te False False) (mw_mode level_world) = mw_mode level_world" "current_mode (mw_mode level_world) = MANUAL"
    and pre: "te_pre (level_te False False) = (\<lambda>_. Some (False, False))"
    by (simp_all add: level_te_def level_world_def current_mode_def new_mode_manager_def)
  from fault_runs_every_hook [OF run this(1,2)] show ?thesis
    unfolding run pre by (auto simp: level_world_def level_hooks_def matching_calls_def hook_mode_matches_def)
qed

end
