(* ===== verification/Runtime_Lifecycle.thy ===== *)
theory Runtime_Lifecycle
  imports Runtime_Hooks Ownership_Validation Supervision_Loop
begin

text \<open>
  \<^verbatim>\<open>core/runtime/runtime.cpp\<close>: bringing providers up, the dry run of every declared call, the safe state at
  startup, the stop chain on the main loop, and the replacement of a provider. What processes and clocks do is in
  environment records. A log line is a constructor where it carries a verdict and left out otherwise.
\<close>

section \<open>State\<close>

text \<open>The parts of the runtime a restart touches; a provider handle is a number. \<open>rt_stopped\<close> are the handles that were
  stopped, in order: by \<open>stop()\<close>, or by their destructor when a start is given up. A stopped handle takes no
  request any more and is never started again.\<close>

record RuntimeState =
  rt_registry :: DeviceRegistry
  rt_cache :: StateCache
  rt_providers :: "(string \<times> nat) list"
  rt_supervisor :: ProviderSupervisor
  rt_stopped :: "nat list"

section \<open>Starting the providers\<close>

datatype init_error = IE_Start string | IE_Discovery string string | IE_Ownership ownership_error

text \<open>For each provider: whether its process starts, its answer to the listing, and its handle.\<close>

record StartEnv =
  sx_start_ok :: bool
  sx_answer :: list_answer
  sx_handle :: nat

fun start_providers :: "(ProviderConfig \<times> StartEnv) list \<Rightarrow> RuntimeState \<Rightarrow> init_error option \<times> RuntimeState" where
  "start_providers [] rt = (None, rt)"
| "start_providers ((config, sx) # rest) rt =
     (if \<not> sx_start_ok sx then (Some (IE_Start (pv_id config)), rt\<lparr> rt_stopped := rt_stopped rt @ [sx_handle sx] \<rparr>)
      else let rt = rt\<lparr> rt_supervisor := register_provider (rt_supervisor rt) (pv_id config) (pv_restart_policy config) \<rparr>;
               (ok, registry) = discover_provider (pv_id config) (sx_answer sx) False (rt_registry rt);
               rt = rt\<lparr> rt_registry := registry \<rparr> in
        if \<not> ok then (Some (IE_Discovery (pv_id config) (dr_error registry)), rt\<lparr> rt_stopped := rt_stopped rt @ [sx_handle sx] \<rparr>)
        else start_providers rest (rt\<lparr> rt_providers := AList.update (pv_id config) (sx_handle sx) (rt_providers rt) \<rparr>))"

definition init_providers :: "(ProviderConfig \<times> StartEnv) list \<Rightarrow> RuntimeState \<Rightarrow> init_error option \<times> RuntimeState" where
  "init_providers providers rt =
     (case start_providers providers rt of
        (Some e, rt) \<Rightarrow> (Some e, rt)
      | (None, rt) \<Rightarrow> (map_option IE_Ownership (validate_ownership_claims (get_all_devices (rt_registry rt))), rt))"

section \<open>Preflight\<close>

text \<open>What providers report: a provider is unavailable or does not answer, or lists devices with their state.\<close>

record MissingReport =
  dh_device_id :: string
  dh_unreachable :: bool
  dh_message :: string

definition devices_reported_missing :: "DeviceRegistry \<Rightarrow> (string \<times> MissingReport list option) list \<Rightarrow> AbsentDevices" where
  "devices_reported_missing registry health =
     fold (\<lambda>(provider_id, answer) absent. case answer of None \<Rightarrow> absent
         | Some devices \<Rightarrow> fold (\<lambda>device absent.
             if \<not> dh_unreachable device \<or> get_device_copy registry provider_id (dh_device_id device) \<noteq> None then absent
             else omap_put (provider_id @ ''/'' @ dh_device_id device)
                    (if dh_message device = [] then ''reported unreachable by its provider'' else dh_message device) absent) devices absent)
       health []"

datatype preflight_verdict = PF_Dispatchable | PF_Absent string | PF_Failed call_error | PF_Unused call_error

definition preflight_request :: "ModeTransitionCallConfig \<Rightarrow> CallRequest" where
  "preflight_request call = \<lparr> rq_device_handle = cc_device_handle call, rq_function_id = cc_function_id call,
     rq_function_name = cc_function_name call, rq_args = provider_args (cc_args call), rq_is_automated = False,
     rq_is_behavior_tree = False, rq_safe_state = False, rq_fault_entry_hook = False \<rparr>"

definition preflight_check :: "CallRouter \<Rightarrow> AbsentDevices \<Rightarrow> bool \<Rightarrow> ModeTransitionCallConfig \<Rightarrow> preflight_verdict" where
  "preflight_check ro absent active call =
     (case validate_call (preflight_request call) ro of
        None \<Rightarrow> PF_Dispatchable
      | Some err \<Rightarrow>
          (case map_of absent (cc_device_handle call) of
             Some reason \<Rightarrow> PF_Absent reason
           | None \<Rightarrow> if active then PF_Failed err else PF_Unused err))"

record PreflightReport =
  pf_checks :: "(ModeTransitionCallConfig \<times> preflight_verdict) list"
  pf_active_rung :: SafeStateKind
  pf_fault_uncovered :: "string list"

definition preflight_declared_calls ::
  "AutomationConfig \<Rightarrow> SafetyConfig \<Rightarrow> CallRouter \<Rightarrow> SafeStateController \<Rightarrow> AbsentDevices \<Rightarrow> PreflightReport" where
  "preflight_declared_calls automation safety ro ec absent =
     (let rung = ca_software_safe_state (capability safety ro ec);
          check = (\<lambda>active call. (call, preflight_check ro absent active call));
          hook_calls = (\<lambda>hooks. concat (map hk_calls hooks)) in
      \<lparr> pf_checks = map (check (rung = SK_Hooks)) (sf_hooks (sy_safe_state safety)) @
          map (check (rung = SK_Setpoints)) (sf_setpoints (sy_safe_state safety)) @
          (if au_enabled automation
           then map (check True) (hook_calls (hg_before_transition (au_mode_transition_hooks automation))) @
             map (check True) (hook_calls (hg_after_transition (au_mode_transition_hooks automation)))
           else []),
        pf_active_rung = rung,
        pf_fault_uncovered = (if au_enabled automation then fault_hook_uncovered_functions ro automation else []) \<rparr>)"

fun is_failed :: "preflight_verdict \<Rightarrow> bool" where
  "is_failed (PF_Failed e) = True"
| "is_failed _ = False"

fun is_absent :: "preflight_verdict \<Rightarrow> bool" where
  "is_absent (PF_Absent reason) = True"
| "is_absent _ = False"

text \<open>The summary line.\<close>

datatype preflight_summary = PS_Failed nat nat | PS_Absent nat nat | PS_All_Dispatchable nat | PS_Nothing

definition summarize :: "PreflightReport \<Rightarrow> preflight_summary" where
  "summarize report =
     (let checked = length (pf_checks report); failed = length (filter (is_failed \<circ> snd) (pf_checks report));
          absent = length (filter (is_absent \<circ> snd) (pf_checks report)) in
      if 0 < failed then PS_Failed failed checked
      else if 0 < absent then PS_Absent absent checked
      else if 0 < checked then PS_All_Dispatchable checked
      else PS_Nothing)"

section \<open>Outputs at startup\<close>

definition emplace :: "string \<Rightarrow> string \<Rightarrow> AbsentDevices \<Rightarrow> AbsentDevices" where
  "emplace k v m = (if map_of m k = None then omap_put k v m else m)"

definition startup_skip :: "SafetyConfig \<Rightarrow> StopChainMonitor \<Rightarrow> AbsentDevices \<Rightarrow> AbsentDevices" where
  "startup_skip safety mo missing =
     (if sn_state (mo_current mo) = SC_InForce
      then fold (\<lambda>handle. emplace handle ''stop chain in force'') (ch_devices (sy_stop_chain safety)) missing
      else missing)"

definition apply_startup_outputs ::
  "(nat \<Rightarrow> RouterEnv) \<Rightarrow> SafetyConfig \<Rightarrow> StopChainMonitor \<Rightarrow> AbsentDevices \<Rightarrow> SafeStateController \<Rightarrow> LadderState \<Rightarrow>
   EstopResult option \<times> SafeStateController \<times> LadderState" where
  "apply_startup_outputs env safety mo missing ec ls =
     (if sy_on_startup safety = SU_Leave then (None, ec, ls)
      else let (result, ec, ls) = drive_safe_state env safety (startup_skip safety mo missing) ec ls in (Some result, ec, ls))"

section \<open>The stop chain on the main loop\<close>

datatype stop_event =
    Stop_Changed StopChainState StopChainState stop_reason "int option"
  | Mismatch_Changed StopChainMismatchChange

definition wire_stale_after :: "int \<Rightarrow> duration_ms" where
  "wire_stale_after interval_ms = max 1000 (3 * interval_ms)"

definition update_stop_chain ::
  "observation \<Rightarrow> EstopEnv \<Rightarrow> (StopChainSnapshot \<Rightarrow> string) \<Rightarrow> 'w fault_entry \<Rightarrow> StopChainMonitor \<Rightarrow> SafeStateController \<times> files \<Rightarrow>
   LadderState \<times> 'w \<Rightarrow> stop_event list \<times> StopChainMonitor \<times> (SafeStateController \<times> files) \<times> LadderState \<times> 'w" where
  "update_stop_chain ob env say set_fault mo cf lw =
     (if \<not> monitor_configured mo then ([], mo, cf, lw)
      else let (change, mo) = update_monitor (ob_cache ob) (ob_now ob) (ob_epoch_ms ob) mo;
               (events, cf, lw) = (case change of
                   None \<Rightarrow> ([], cf, lw)
                 | Some (before, after) \<Rightarrow>
                     (let (cf, lw) = (if holds mo then snd (hold env set_fault (say after) cf lw) else (cf, lw))
                      in ([Stop_Changed (sn_state before) (sn_state after) (sn_reason after) (sn_since_epoch_ms after)], cf, lw)));
               (changes, mo) = update_mismatches (ob_cache ob) (ob_clock ob) (ob_judged_ms ob) mo
           in (events @ map Mismatch_Changed changes, mo, cf, lw))"

section \<open>Replacing a provider\<close>

text \<open>\<open>ry_old_stop\<close>: the old handle, if one is registered, stops completely. The times are those since the start of the
  replacement.\<close>

record RestartEnv =
  ry_old_stop :: bool
  ry_start_ok :: bool
  ry_elapsed_start :: duration_ms
  ry_answer :: list_answer
  ry_elapsed_listed :: duration_ms
  ry_handle :: nat
  ry_clock :: "string \<Rightarrow> time_ns"

datatype restart_error = RS_Old_Running | RS_Start | RS_Start_Late | RS_Discovery | RS_Discovery_Late | RS_Ownership ownership_error

definition restart_provider ::
  "RestartEnv \<Rightarrow> string \<Rightarrow> ProviderConfig \<Rightarrow> RuntimeState \<Rightarrow> restart_error option \<times> RuntimeState \<times> cache_out list" where
  "restart_provider env provider_id config rt =
     (let timeout = rp_timeout_ms (pv_restart_policy config);
          old = map_of (rt_providers rt) provider_id;
          rt = (case old of None \<Rightarrow> rt | Some handle \<Rightarrow> rt\<lparr> rt_stopped := rt_stopped rt @ [handle] \<rparr>);
          fail = (\<lambda>why rt. (Some why, rt\<lparr> rt_stopped := rt_stopped rt @ [ry_handle env] \<rparr>, [])) in
      if old \<noteq> None \<and> \<not> ry_old_stop env then (Some RS_Old_Running, rt, [])
      else if \<not> ry_start_ok env then fail RS_Start rt
      else if timeout \<le> ry_elapsed_start env then fail RS_Start_Late rt
      else case inspect_provider_devices provider_id (ry_answer env) (rt_registry rt) of
        (None, registry) \<Rightarrow> fail RS_Discovery (rt\<lparr> rt_registry := registry \<rparr>)
      | (Some devices, registry) \<Rightarrow>
          if timeout \<le> ry_elapsed_listed env then fail RS_Discovery_Late (rt\<lparr> rt_registry := registry \<rparr>)
          else case validate_ownership_claims_after_provider_replacement (get_all_devices registry) provider_id devices of
            Some e \<Rightarrow> fail (RS_Ownership e) (rt\<lparr> rt_registry := registry \<rparr>)
          | None \<Rightarrow>
              (let registry = commit_provider_devices provider_id devices True registry;
                   (cache, outs) = rebuild_poll_configs provider_id (get_all_devices registry) (ry_clock env) (rt_cache rt)
               in (None, rt\<lparr> rt_registry := registry, rt_cache := cache,
                             rt_providers := AList.update provider_id (ry_handle env) (rt_providers rt) \<rparr>, outs)))"

text \<open>What a restart stops: the registered handle first, then the replacement if the restart is given up after its start.\<close>

definition restart_stops :: "RestartEnv \<Rightarrow> string \<Rightarrow> RuntimeState \<Rightarrow> restart_error option \<Rightarrow> nat list" where
  "restart_stops env pid rt err =
     (case map_of (rt_providers rt) pid of None \<Rightarrow> [] | Some handle \<Rightarrow> [handle]) @
     (if err = None \<or> err = Some RS_Old_Running then [] else [ry_handle env])"

section \<open>Lemmas\<close>

text \<open>No claim key is held by two device handles.\<close>

definition claims_unique :: "RegisteredDevice list \<Rightarrow> bool" where
  "claims_unique devices = (\<forall>a \<in> set devices. \<forall>b \<in> set devices. set (claim_keys a) \<inter> set (claim_keys b) \<noteq> {} \<longrightarrow> get_handle a = get_handle b)"

lemma validated_claims_unique: "validate_ownership_claims devices = None \<longleftrightarrow> claims_unique devices"
  unfolding claims_unique_def using ownership_validation_exact [of devices] by blast

lemma restart_frame:
  assumes "restart_provider env pid config rt = (err, rt', outs)"
  shows "rt_stopped rt' = rt_stopped rt @ restart_stops env pid rt err" and "rt_supervisor rt' = rt_supervisor rt"
    and "err = None \<Longrightarrow> map_of (rt_providers rt) pid = None \<or> ry_old_stop env"
  using assms unfolding restart_provider_def restart_stops_def Let_def
  by (auto split: if_splits option.splits prod.splits)

lemma restart_cases:
  assumes "restart_provider env pid config rt = (err, rt', outs)"
  obtains (failed) "err \<noteq> None" "get_all_devices (rt_registry rt') = get_all_devices (rt_registry rt)" "rt_cache rt' = rt_cache rt"
      "rt_providers rt' = rt_providers rt" "outs = []"
  | (replaced) listed where "err = None" "ry_answer env = Inr listed"
      "get_all_devices (rt_registry rt') =
         filter (\<lambda>d. rd_provider_id d \<noteq> pid) (get_all_devices (rt_registry rt)) @ describe_all pid listed"
      "claims_unique (get_all_devices (rt_registry rt'))" "rt_providers rt' = AList.update pid (ry_handle env) (rt_providers rt)"
      "(rt_cache rt', outs) = rebuild_poll_configs pid (get_all_devices (rt_registry rt')) (ry_clock env) (rt_cache rt)"
proof (cases "ry_answer env")
  case (Inl e)
  then have "inspect_provider_devices pid (ry_answer env) r = (None, r\<lparr> dr_error := ''ListDevices failed: '' @ e \<rparr>)" for r
    by (simp add: inspect_provider_devices_def)
  then show thesis
    using assms by (intro failed) (auto simp: restart_provider_def get_all_devices_def Let_def split: if_splits option.splits)
next
  case (Inr listed)
  have inspect: "inspect_provider_devices pid (Inr listed) r = (Some (describe_all pid listed), r)" for r
    by (simp add: inspect_provider_devices_def)
  have devices: "get_all_devices (commit_provider_devices pid ds True r) = filter (\<lambda>d. rd_provider_id d \<noteq> pid) (get_all_devices r) @ ds" for ds r
    by (simp add: commit_provider_devices_def get_all_devices_def Let_def)
  show thesis
  proof (cases err)
    case None
    then show thesis
      using assms
      by (intro replaced [OF None Inr])
        (auto simp: restart_provider_def Inr inspect devices validate_ownership_claims_after_provider_replacement_def
          validated_claims_unique Let_def split: if_splits option.splits prod.splits)
  next
    case (Some e)
    then show thesis
      using assms
      by (intro failed) (auto simp: restart_provider_def Inr inspect Let_def split: if_splits option.splits prod.splits)
  qed
qed

definition restarts :: "(RestartEnv \<times> string \<times> ProviderConfig) list \<Rightarrow> RuntimeState \<Rightarrow> RuntimeState" where
  "restarts rs = fold (\<lambda>(env, pid, config) rt. fst (snd (restart_provider env pid config rt))) rs"

lemma restarts_claims_unique:
  "claims_unique (get_all_devices (rt_registry rt)) \<Longrightarrow> claims_unique (get_all_devices (rt_registry (restarts rs rt)))"
proof (induction rs arbitrary: rt)
  case (Cons r rs)
  obtain env pid config where r: "r = (env, pid, config)" by (metis prod_cases3)
  obtain err rt' outs where run: "restart_provider env pid config rt = (err, rt', outs)" by (metis prod_cases3)
  have "claims_unique (get_all_devices (rt_registry rt'))"
    using run Cons.prems by (cases rule: restart_cases) simp_all
  from Cons.IH [OF this] show ?case by (simp add: restarts_def r run)
qed (simp add: restarts_def)

lemma init_claims_unique: "init_providers providers rt = (None, rt') \<Longrightarrow> claims_unique (get_all_devices (rt_registry rt'))"
  by (auto simp: init_providers_def validated_claims_unique split: prod.splits option.splits)

lemma preflight_request_valid: "validate_call (preflight_request call) ro = validate_call (to_call_request call) ro"
proof -
  have "to_call_request call = (preflight_request call)\<lparr> rq_safe_state := True \<rparr>"
    by (simp add: to_call_request_def preflight_request_def safe_request_def)
  then show ?thesis by simp
qed

lemma clean_active_call:
  "\<not> is_failed (preflight_check ro absent True call) \<Longrightarrow> \<not> is_absent (preflight_check ro absent True call) \<Longrightarrow>
     validate_call (to_call_request call) ro = None"
  by (auto simp: preflight_check_def preflight_request_valid split: option.splits)

lemma summarize_clean:
  assumes "summarize report = PS_All_Dispatchable n" and "(call, v) \<in> set (pf_checks report)"
  shows "\<not> is_failed v \<and> \<not> is_absent v"
  using assms by (auto simp: summarize_def Let_def filter_empty_conv split: if_splits)

text \<open>A sent call that is a declared one: its device, its selectors and its arguments.\<close>

definition carries_out :: "dispatch \<Rightarrow> ModeTransitionCallConfig \<Rightarrow> bool" where
  "carries_out sent call =
     (serves sent (cc_device_handle call, cc_function_id call, cc_function_name call) \<and>
      (case sent of (p, d, fid, name, args) \<Rightarrow>
         \<forall>k. rel_option same_number (map_of (provider_args (cc_args call)) k) (map_of args k)))"

lemma sent_argument_numbers:
  assumes "oc_dispatch (execute_call env request ro sc) = Some (p, d, fid, name, args)"
  shows "rel_option same_number (map_of (rq_args request) k) (map_of args k)"
proof -
  from assms obtain device spec where "reaches_lock env request ro p d device spec name args"
    by (rule execute_call_sent)
  then have "coerce_arguments (fs_args spec) (rq_args request) = Inr args" by (simp add: reaches_lock_def)
  then show ?thesis using coerce_arguments_lookup by blast
qed

lemma run_call_carries:
  assumes "validate_call (to_call_request call) (ld_router ls) = None" and "\<forall>n p. re_provider (env n) p = Some True"
  shows "\<exists>sent. ld_sent (snd (run_call env call ls)) = ld_sent ls @ [sent] \<and> carries_out sent call"
proof -
  let ?oc = "execute_call (env (ld_turn ls)) (to_call_request call) (ld_router ls) (ld_cache ls)"
  from route_valid [OF assms(1), of env] assms(2) obtain p d fid name args where sent: "oc_dispatch ?oc = Some (p, d, fid, name, args)"
    by (auto simp: route_def Let_def execute_call_flags(1))
  have "rq_args (to_call_request call) = provider_args (cc_args call)" by (simp add: to_call_request_def)
  with sent_argument_numbers [OF sent] sent_serves [OF sent] have "carries_out (p, d, fid, name, args) call" by (simp add: carries_out_def)
  then show ?thesis by (simp add: run_call_route route_def Let_def sent)
qed

lemma run_declared_in_order:
  assumes "run_declared env None [] calls ls = (actions, skipped, ls')"
    and "\<And>call. call \<in> set calls \<Longrightarrow> validate_call (to_call_request call) (ld_router ls) = None"
    and "\<forall>n p. re_provider (env n) p = Some True"
  shows "\<exists>new. ld_sent ls' = ld_sent ls @ new \<and> list_all2 carries_out new calls"
  using assms(1,2)
proof (induction calls arbitrary: ls actions skipped)
  case Nil
  then show ?case by (simp add: run_declared_def)
next
  case (Cons call calls)
  let ?ls = "snd (run_call env call ls)"
  obtain sent where sent: "ld_sent ?ls = ld_sent ls @ [sent]" "carries_out sent call"
    using run_call_carries assms(3) Cons.prems(2) by (metis list.set_intros(1))
  have same: "validate_call request (ld_router ?ls) = validate_call request (ld_router ls)" for request
    using run_extends(1) [of ls env call] by (intro validate_call_registry) (simp add: extends_def)
  obtain actions' skipped' where "run_declared env None [] calls ?ls = (actions', skipped', ls')"
    using Cons.prems(1) by (auto simp: run_declared_def wanted_def split: prod.splits)
  from Cons.IH [OF this] Cons.prems(2) same obtain new where "ld_sent ls' = ld_sent ?ls @ new" "list_all2 carries_out new calls" by auto
  with sent show ?case by (intro exI [of _ "sent # new"]) simp
qed

section \<open>Properties\<close>

text \<open>C10. Replacing a provider is all or nothing for what the runtime publishes, and claims stay unique. After a successful
  start and any sequence of provider restarts, successful or not, no claim key is held by two device handles. A restart first
  stops the handle registered for the provider, and gives up if that leaves a process running. One that fails leaves
  the published devices, the poll plan and the registered handles as they were, the old one stopped, and stops
  the replacement it had started. One that succeeds replaces exactly the devices of that provider by those the new one listed,
  rebuilds the poll plan, publishes the new handle for it and keeps the handles of the other providers; the old
  provider had stopped completely.\<close>

theorem restart_all_or_nothing:
  assumes "init_providers providers rt0 = (None, rt1)" and "rt = restarts rs rt1"
    and "restart_provider env pid config rt = (err, rt', outs)"
  shows "claims_unique (get_all_devices (rt_registry rt')) \<and>
    rt_stopped rt' = rt_stopped rt @ restart_stops env pid rt err \<and> rt_supervisor rt' = rt_supervisor rt \<and>
    (if err = None
     then (\<exists>listed. ry_answer env = Inr listed \<and>
        get_all_devices (rt_registry rt') = filter (\<lambda>d. rd_provider_id d \<noteq> pid) (get_all_devices (rt_registry rt)) @ describe_all pid listed) \<and>
        (\<forall>p. map_of (rt_providers rt') p = (if p = pid then Some (ry_handle env) else map_of (rt_providers rt) p)) \<and>
        (map_of (rt_providers rt) pid = None \<or> ry_old_stop env) \<and>
        (rt_cache rt', outs) = rebuild_poll_configs pid (get_all_devices (rt_registry rt')) (ry_clock env) (rt_cache rt)
     else get_all_devices (rt_registry rt') = get_all_devices (rt_registry rt) \<and> rt_cache rt' = rt_cache rt \<and>
        rt_providers rt' = rt_providers rt \<and> outs = [])"
proof -
  have unique: "claims_unique (get_all_devices (rt_registry rt))"
    using restarts_claims_unique [OF init_claims_unique [OF assms(1)]] assms(2) by blast
  show ?thesis
    using assms(3)
  proof (cases rule: restart_cases)
    case failed
    with unique restart_frame(1,2) [OF assms(3)] show ?thesis by auto
  next
    case (replaced listed)
    then show ?thesis using restart_frame [OF assms(3)] by (auto simp: update_conv)
  qed
qed

text \<open>C23. A clean preflight means the e-stop can be carried out. When the dry run against an inventory reports all
  declared calls dispatchable and the e-stop would run a declared rung, then a ladder run on that inventory, during which
  every provider is available, sends one call for each call of that rung, in the declared order: to the declared device,
  of a function with the declared selectors, and with the declared arguments, each the value or the number declared.\<close>

theorem clean_preflight_ladder_sends:
  assumes "summarize (preflight_declared_calls automation safety (ld_router ls) ec absent) = PS_All_Dispatchable n"
    and "planned_safe_state_kind (ro_registry (ld_router ls)) safety \<in> {SK_Hooks, SK_Setpoints}"
    and "run_ladder env safety None [] ls = (result, ls')" and "\<forall>n p. re_provider (env n) p = Some True"
  shows "\<exists>new. ld_sent ls' = ld_sent ls @ new \<and>
    list_all2 carries_out new (if planned_safe_state_kind (ro_registry (ld_router ls)) safety = SK_Hooks
      then sf_hooks (sy_safe_state safety) else sf_setpoints (sy_safe_state safety))"
proof -
  let ?kind = "planned_safe_state_kind (ro_registry (ld_router ls)) safety"
  let ?calls = "if ?kind = SK_Hooks then sf_hooks (sy_safe_state safety) else sf_setpoints (sy_safe_state safety)"
  have rung: "ca_software_safe_state (capability safety (ld_router ls) ec) = ?kind" by (simp add: capability_def Let_def)
  have valid: "validate_call (to_call_request call) (ld_router ls) = None" if "call \<in> set ?calls" for call
  proof -
    have "(call, preflight_check (ld_router ls) absent True call) \<in> set (pf_checks (preflight_declared_calls automation safety (ld_router ls) ec absent))"
      using assms(2) that by (auto simp: preflight_declared_calls_def rung Let_def)
    from summarize_clean [OF assms(1) this] show ?thesis using clean_active_call by blast
  qed
  from assms(2,3) obtain actions skipped where "run_declared env None [] ?calls ls = (actions, skipped, ls')"
    by (auto simp: run_ladder_def Let_def split: prod.splits)
  from run_declared_in_order [OF this] valid assms(4) show ?thesis by (auto simp: wanted_def)
qed

subsection \<open>Supervision of a validated configuration\<close>

definition register_all :: "ProviderConfig list \<Rightarrow> ProviderSupervisor \<Rightarrow> ProviderSupervisor" where
  "register_all = fold (\<lambda>c sv. register_provider sv (pv_id c) (pv_restart_policy c))"

lemma start_providers_supervisor:
  "start_providers ps rt = (None, rt') \<Longrightarrow> rt_supervisor rt' = register_all (map fst ps) (rt_supervisor rt)"
  by (induction ps rt rule: start_providers.induct) (auto simp: register_all_def Let_def split: prod.splits if_splits)

lemma register_all_other: "pid \<notin> pv_id ` set cs \<Longrightarrow>
    ps_policies (register_all cs sv) pid = ps_policies sv pid \<and> ps_states (register_all cs sv) pid = ps_states sv pid"
  by (induction cs arbitrary: sv) (auto simp: register_all_def register_provider_def)

lemma register_all_own:
  "distinct (map pv_id cs) \<Longrightarrow> c \<in> set cs \<Longrightarrow>
     ps_policies (register_all cs sv) (pv_id c) = Some (pv_restart_policy c) \<and>
     ps_states (register_all cs sv) (pv_id c) = Some initial_restart_state"
proof (induction cs arbitrary: sv)
  case (Cons c' cs)
  have step: "register_all (c' # cs) sv = register_all cs (register_provider sv (pv_id c') (pv_restart_policy c'))"
    by (simp add: register_all_def)
  show ?case
  proof (cases "c = c'")
    case True
    with Cons.prems register_all_other [of "pv_id c" cs] show ?thesis unfolding step by (simp add: register_provider_def)
  next
    case False
    with Cons show ?thesis unfolding step by simp
  qed
qed simp

lemma register_all_ok:
  "all_policies_ok sv \<Longrightarrow> \<forall>c \<in> set cs. rp_enabled (pv_restart_policy c) \<longrightarrow> policy_ok (pv_restart_policy c) \<Longrightarrow> all_policies_ok (register_all cs sv)"
proof (induction cs arbitrary: sv)
  case (Cons c cs)
  have "all_policies_ok (register_provider sv (pv_id c) (pv_restart_policy c))"
    using Cons.prems by (auto simp: all_policies_ok_def register_provider_def initial_restart_state_def policy_ok_def)
  with Cons show ?case by (simp add: register_all_def)
qed (simp add: register_all_def)

text \<open>C22. A configuration that validates can be supervised. Once every provider of a validated configuration has been
  started, the supervision loop completes every run, with any interleaving of crashes, restart results and clock
  readings, and restarts each provider that has an enabled policy from its budget at most as often as configured
  between two recoveries.\<close>

theorem validated_config_supervised:
  assumes "validate_config config = None" and "map fst providers = cf_providers config"
    and "init_providers providers rt = (None, rt')" and "rt_supervisor rt = new_supervisor probe_interval"
    and "c \<in> set (cf_providers config)" and "rp_enabled (pv_restart_policy c)"
  shows "\<exists>l' as. run_loop \<lparr> sl_supervisor = rt_supervisor rt', sl_restart = None \<rparr> its = Some (l', as) \<and>
    budget_used_from (pv_id c) 0 as \<le> rp_max_attempts (pv_restart_policy c)"
proof -
  let ?l = "\<lparr> sl_supervisor = rt_supervisor rt', sl_restart = None \<rparr>"
  note valid = provider_checks_pass [OF validate_config_parts(3) [OF assms(1)]]
  have "start_providers providers rt = (None, rt')"
    using assms(3) by (auto simp: init_providers_def split: prod.splits option.splits)
  then have sv: "rt_supervisor rt' = register_all (cf_providers config) (new_supervisor probe_interval)"
    using start_providers_supervisor assms(2,4) by metis
  have "all_policies_ok (new_supervisor probe_interval)" by (simp add: all_policies_ok_def new_supervisor_def)
  then have "all_policies_ok (sl_supervisor ?l)" using register_all_ok valid by (simp add: sv)
  from run_loop_total [OF this] obtain l' as where run: "run_loop ?l its = Some (l', as)" by blast
  have ok: "policy_ok (pv_restart_policy c)" "distinct (map pv_id (cf_providers config))" using valid assms(5,6) by blast+
  have "loop_inv (pv_id c) (pv_restart_policy c) 0 ?l"
    using register_all_own [OF ok(2) assms(5)] budget_inv_register [OF ok(1)] by (simp add: loop_inv_def sv)
  from run_loop_inv [OF this assms(6) _ run] ok(1) run show ?thesis
    by (auto simp: loop_inv_def budget_inv_def policy_ok_def)
qed

text \<open>One provider that starts with one device, and is replaced.\<close>

definition demo_runtime :: RuntimeState where
  "demo_runtime = \<lparr> rt_registry = new_registry, rt_cache = new_cache False False, rt_providers = [],
     rt_supervisor = new_supervisor 60000, rt_stopped = [] \<rparr>"

definition demo_start :: StartEnv where
  "demo_start = \<lparr> sx_start_ok = True, sx_answer = Inr [], sx_handle = 1 \<rparr>"

definition demo_providers :: "(ProviderConfig \<times> StartEnv) list" where
  "demo_providers = map (\<lambda>c. (c, demo_start)) (cf_providers small_config)"

definition demo_restart :: "list_answer \<Rightarrow> RestartEnv" where
  "demo_restart answer = \<lparr> ry_old_stop = True, ry_start_ok = True, ry_elapsed_start = 10, ry_answer = answer, ry_elapsed_listed = 20,
     ry_handle = 2, ry_clock = (\<lambda>_. 0) \<rparr>"

lemma demo_init: "init_providers demo_providers demo_runtime = (None, snd (init_providers demo_providers demo_runtime))"
proof -
  have "Option.is_none (fst (init_providers demo_providers demo_runtime))" by code_simp
  then show ?thesis by (cases "init_providers demo_providers demo_runtime") (auto simp: Option.is_none_def split: option.splits)
qed

theorem restart_all_or_nothing_witness:
  "let rt = snd (init_providers demo_providers demo_runtime);
       rt' = fst (snd (restart_provider (demo_restart (Inr [])) ''sim0'' (hd (cf_providers small_config)) rt));
       rt'' = fst (snd (restart_provider (demo_restart (Inl ''gone'')) ''sim0'' (hd (cf_providers small_config)) rt))
   in map_of (rt_providers rt') ''sim0'' = Some 2 \<and> rt_providers rt'' = rt_providers rt \<and> rt_stopped rt' = [1] \<and> rt_stopped rt'' = [1, 2]"
proof -
  let ?rt = "snd (init_providers demo_providers demo_runtime)"
  let ?config = "hd (cf_providers small_config)"
  have ok: "fst (restart_provider (demo_restart (Inr [])) ''sim0'' ?config ?rt) = None"
    and failed: "fst (restart_provider (demo_restart (Inl ''gone'')) ''sim0'' ?config ?rt) = Some RS_Discovery"
    and old: "map_of (rt_providers ?rt) ''sim0'' = Some 1" "rt_stopped ?rt = []" by code_simp+
  obtain rt' outs where r': "restart_provider (demo_restart (Inr [])) ''sim0'' ?config ?rt = (None, rt', outs)"
    using ok by (metis prod.collapse)
  obtain rt'' outs' where r'': "restart_provider (demo_restart (Inl ''gone'')) ''sim0'' ?config ?rt = (Some RS_Discovery, rt'', outs')"
    using failed by (metis prod.collapse)
  have same: "?rt = restarts [] ?rt" by (simp add: restarts_def)
  have "ry_handle (demo_restart answer) = 2" for answer by (simp add: demo_restart_def)
  then show ?thesis
    using restart_all_or_nothing [OF demo_init same r'] restart_all_or_nothing [OF demo_init same r'']
    by (simp add: r' r'' restart_stops_def old)
qed

theorem clean_preflight_ladder_sends_witness:
  "summarize (preflight_declared_calls demo_automation (level_safety False) (ld_router level_ladder) new_controller []) = PS_All_Dispatchable 1 \<and>
   list_all2 carries_out (ld_sent (snd (level_run False))) (sf_hooks (sy_safe_state (level_safety False)))"
proof -
  have clean: "summarize (preflight_declared_calls demo_automation (level_safety False) (ld_router level_ladder) new_controller []) = PS_All_Dispatchable 1"
    and kind: "planned_safe_state_kind (ro_registry (ld_router level_ladder)) (level_safety False) = SK_Hooks" by code_simp+
  then show ?thesis
    using clean_preflight_ladder_sends [OF clean _ prod.collapse [symmetric], of latched_env]
    by (auto simp: latched_env_def open_env_def kind)
qed

theorem validated_config_supervised_witness:
  "\<exists>l' as. run_loop \<lparr> sl_supervisor = rt_supervisor (snd (init_providers demo_providers demo_runtime)), sl_restart = None \<rparr>
      [(None, 5, [(''sim0'', Some False, 6, 200000000)])] = Some (l', as) \<and> budget_used_from ''sim0'' 0 as \<le> 3"
proof -
  let ?c = "hd (cf_providers small_config)"
  have "map fst demo_providers = cf_providers small_config" "rt_supervisor demo_runtime = new_supervisor 60000"
    "?c \<in> set (cf_providers small_config)" "rp_enabled (pv_restart_policy ?c)" "pv_id ?c = ''sim0''" "rp_max_attempts (pv_restart_policy ?c) = 3"
    by (simp_all add: demo_providers_def demo_runtime_def small_config_def default_restart_policy_def)
  then show ?thesis
    using validated_config_supervised [OF small_config_valid _ demo_init, of 60000 ?c, where its = "[(None, 5, [(''sim0'', Some False, 6, 200000000)])]"]
    by metis
qed

end
