(* ===== verification/Run_Types.thy ===== *)
theory Run_Types
  imports Latch_Store "HOL-Library.Monad_Syntax"
begin

text \<open>
  \<open>core/runs/run_types.hpp\<close> and the encoders of \<open>core/runs/run_journal.cpp\<close>: runs, run events and their JSON
  records. The JSON library is a parameter \<open>JsonLib\<close>: \<open>parse\<close>, \<open>dump\<close> and the numeric conversions of \<open>get<T>\<close>,
  \<open>None\<close> where the library throws. \<open>json_lib_ok\<close> states what the journal relies on: a document reads back, a dump
  is one line, no proper prefix of an object's dump parses, a number in range converts to
  itself, what is parsed is such a document, and an \<open>int\<close> has 32 bits. A decoder
  that throws and one that answers \<open>nullopt\<close> are both \<open>None\<close>: every caller skips the line in either case.
\<close>

section \<open>The JSON library\<close>

record JsonLib =
  jl_parse :: "string \<Rightarrow> json option"
  jl_dump :: "json \<Rightarrow> string option"
  jl_u64 :: "json \<Rightarrow> u64 option"
  jl_u32 :: "json \<Rightarrow> u32 option"
  jl_int :: "json \<Rightarrow> int option"

text \<open>What a document of the library can be: object keys in order and distinct, integers of 64 bits, finite
  floating-point numbers (the library writes the others as \<open>null\<close>).\<close>

fun json_wf :: "json \<Rightarrow> bool" where
  "json_wf JNull = True"
| "json_wf (JBool b) = True"
| "json_wf (JInteger i) = (- (2 ^ 63) \<le> i \<and> i < 2 ^ 64)"
| "json_wf (JFloat f) = f64_finite f"
| "json_wf (JString s) = True"
| "json_wf (JArray xs) = (\<forall>x \<in> set xs. json_wf x)"
| "json_wf (JObject ms) = (sorted_wrt (<) (map fst ms) \<and> (\<forall>(k, v) \<in> set ms. json_wf v))"

fun is_object :: "json \<Rightarrow> bool" where
  "is_object (JObject ms) = True"
| "is_object _ = False"

definition newline :: char where
  "newline = CHR 0x0A"

definition dump_ok :: "JsonLib \<Rightarrow> json \<Rightarrow> bool" where
  "dump_ok lib doc \<longleftrightarrow> (case jl_dump lib doc of
     None \<Rightarrow> True
   | Some s \<Rightarrow> s \<noteq> [] \<and> newline \<notin> set s \<and> jl_parse lib s = Some doc \<and> (\<forall>k < length s. jl_parse lib (take k s) = None))"

definition json_lib_ok :: "JsonLib \<Rightarrow> bool" where
  "json_lib_ok lib \<longleftrightarrow>
     (\<forall>doc. json_wf doc \<and> is_object doc \<longrightarrow> dump_ok lib doc) \<and>
     (\<forall>n :: u64. jl_u64 lib (JInteger (uint n)) = Some n) \<and>
     (\<forall>n :: u32. jl_u32 lib (JInteger (uint n)) = Some n) \<and>
     (\<forall>i. - (2 ^ 31) \<le> i \<and> i < 2 ^ 31 \<longrightarrow> jl_int lib (JInteger i) = Some i) \<and>
     (\<forall>s doc. jl_parse lib s = Some doc \<longrightarrow> json_wf doc) \<and>
     (\<forall>doc i. jl_int lib doc = Some i \<longrightarrow> - (2 ^ 31) \<le> i \<and> i < 2 ^ 31)"

text \<open>\<open>j.value(key, default)\<close>: the default for a missing key, an exception for a value of another type.\<close>

definition value_or :: "(json \<Rightarrow> 'a option) \<Rightarrow> (string \<times> json) list \<Rightarrow> string \<Rightarrow> 'a \<Rightarrow> 'a option" where
  "value_or get ms key dflt = (case map_of ms key of None \<Rightarrow> Some dflt | Some v \<Rightarrow> get v)"

fun json_string :: "json \<Rightarrow> string option" where
  "json_string (JString s) = Some s"
| "json_string _ = None"

definition string_member :: "(string \<times> json) list \<Rightarrow> string \<Rightarrow> string option" where
  "string_member ms key = Option.bind (map_of ms key) json_string"

section \<open>Runs and events\<close>

datatype RunState = Run_Open | Run_Closed

datatype CloseReason = OperatorStop | Completed | Close_Failed | Superseded | Abandoned

datatype RunEventCategory = RunOpened | RunClosed | ModeChange | ParameterChange | AutomationFault | Annotation

record TagScope =
  tg_provider_ids :: "string list"
  tg_device_ids :: "string list"
  tg_signal_ids :: "string list"

record AutomationVersionRecord =
  av_engine_kind :: string
  av_id :: string
  av_digest :: string
  av_digest_scope :: string

record Run =
  rn_run_id :: string
  rn_label :: "string option"
  rn_state :: RunState
  rn_close_reason :: "CloseReason option"
  rn_started_at_epoch_ms :: u64
  rn_ended_at_epoch_ms :: "u64 option"
  rn_automation_version :: "AutomationVersionRecord option"
  rn_runtime_version :: string
  rn_polling_interval_ms :: int
  rn_params :: json
  rn_tag_scope :: TagScope
  rn_schema_version :: u32

record RunOpenSpec =
  op_label :: "string option"
  op_params :: json
  op_tag_scope :: TagScope

record RunEvent =
  ev_run_id :: string
  ev_sequence :: u64
  ev_category :: RunEventCategory
  ev_type :: string
  ev_occurred_at_epoch_ms :: u64
  ev_recorded_at_epoch_ms :: u64
  ev_payload :: json
  ev_schema_version :: u32

definition no_scope :: TagScope where
  "no_scope = \<lparr> tg_provider_ids = [], tg_device_ids = [], tg_signal_ids = [] \<rparr>"

fun run_state_to_string :: "RunState \<Rightarrow> string" where
  "run_state_to_string Run_Open = ''open''"
| "run_state_to_string Run_Closed = ''closed''"

fun close_reason_to_string :: "CloseReason \<Rightarrow> string" where
  "close_reason_to_string OperatorStop = ''operator_stop''"
| "close_reason_to_string Completed = ''completed''"
| "close_reason_to_string Close_Failed = ''failed''"
| "close_reason_to_string Superseded = ''superseded''"
| "close_reason_to_string Abandoned = ''abandoned''"

definition close_reason_from_string :: "string \<Rightarrow> CloseReason option" where
  "close_reason_from_string s =
     (if s = ''operator_stop'' then Some OperatorStop
      else if s = ''completed'' then Some Completed
      else if s = ''failed'' then Some Close_Failed
      else if s = ''superseded'' then Some Superseded
      else if s = ''abandoned'' then Some Abandoned
      else None)"

fun category_to_string :: "RunEventCategory \<Rightarrow> string" where
  "category_to_string RunOpened = ''run_opened''"
| "category_to_string RunClosed = ''run_closed''"
| "category_to_string ModeChange = ''mode_change''"
| "category_to_string ParameterChange = ''parameter_change''"
| "category_to_string AutomationFault = ''automation_fault''"
| "category_to_string Annotation = ''annotation''"

definition run_event_category_from_string :: "string \<Rightarrow> RunEventCategory option" where
  "run_event_category_from_string s =
     (if s = ''run_opened'' then Some RunOpened
      else if s = ''run_closed'' then Some RunClosed
      else if s = ''mode_change'' then Some ModeChange
      else if s = ''parameter_change'' then Some ParameterChange
      else if s = ''automation_fault'' then Some AutomationFault
      else if s = ''annotation'' then Some Annotation
      else None)"

section \<open>Records\<close>

text \<open>An object literal: \<open>nlohmann::json\<close> keeps its members in key order.\<close>

definition json_object :: "(string \<times> json) list \<Rightarrow> json" where
  "json_object ms = JObject (fold (\<lambda>(k, v). omap_put k v) ms [])"

definition string_array :: "string list \<Rightarrow> json" where
  "string_array xs = JArray (map JString xs)"

definition tag_scope_to_json :: "TagScope \<Rightarrow> json" where
  "tag_scope_to_json scope = json_object
     [(''provider_ids'', string_array (tg_provider_ids scope)), (''device_ids'', string_array (tg_device_ids scope)),
      (''signal_ids'', string_array (tg_signal_ids scope))]"

definition run_event_to_json :: "RunEvent \<Rightarrow> json" where
  "run_event_to_json event = json_object
     [(''schema_version'', JInteger (uint (ev_schema_version event))),
      (''run_id'', JString (ev_run_id event)),
      (''sequence'', JInteger (uint (ev_sequence event))),
      (''category'', JString (category_to_string (ev_category event))),
      (''type'', JString (ev_type event)),
      (''occurred_at_epoch_ms'', JInteger (uint (ev_occurred_at_epoch_ms event))),
      (''recorded_at_epoch_ms'', JInteger (uint (ev_recorded_at_epoch_ms event))),
      (''payload'', ev_payload event)]"

definition object_member :: "(string \<times> json) list \<Rightarrow> string \<Rightarrow> json option" where
  "object_member ms key = (case map_of ms key of Some v \<Rightarrow> if is_object v then Some v else None | None \<Rightarrow> None)"

definition run_event_from_json :: "JsonLib \<Rightarrow> json \<Rightarrow> RunEvent option" where
  "run_event_from_json lib j = (case j of
     JObject ms \<Rightarrow> do {
       run_id \<leftarrow> string_member ms ''run_id'';
       name \<leftarrow> value_or json_string ms ''category'' ''annotation'';
       category \<leftarrow> run_event_category_from_string name;
       schema_version \<leftarrow> value_or (jl_u32 lib) ms ''schema_version'' 1;
       seq \<leftarrow> value_or (jl_u64 lib) ms ''sequence'' 0;
       type \<leftarrow> value_or json_string ms ''type'' [];
       occurred \<leftarrow> value_or (jl_u64 lib) ms ''occurred_at_epoch_ms'' 0;
       recorded \<leftarrow> value_or (jl_u64 lib) ms ''recorded_at_epoch_ms'' 0;
       Some \<lparr> ev_run_id = run_id, ev_sequence = seq, ev_category = category, ev_type = type,
              ev_occurred_at_epoch_ms = occurred, ev_recorded_at_epoch_ms = recorded,
              ev_payload = (case object_member ms ''payload'' of Some p \<Rightarrow> p | None \<Rightarrow> JObject []),
              ev_schema_version = schema_version \<rparr>
     }
   | _ \<Rightarrow> None)"

definition or_null :: "('a \<Rightarrow> json) \<Rightarrow> 'a option \<Rightarrow> json" where
  "or_null enc x = (case x of Some v \<Rightarrow> enc v | None \<Rightarrow> JNull)"

definition version_to_json :: "AutomationVersionRecord \<Rightarrow> json" where
  "version_to_json v = json_object
     [(''engine_kind'', JString (av_engine_kind v)), (''id'', JString (av_id v)), (''digest'', JString (av_digest v)),
      (''digest_scope'', JString (av_digest_scope v))]"

definition run_to_json :: "Run \<Rightarrow> json" where
  "run_to_json run = json_object
     [(''schema_version'', JInteger (uint (rn_schema_version run))),
      (''run_id'', JString (rn_run_id run)),
      (''state'', JString (run_state_to_string (rn_state run))),
      (''started_at_epoch_ms'', JInteger (uint (rn_started_at_epoch_ms run))),
      (''runtime_version'', JString (rn_runtime_version run)),
      (''polling_interval_ms'', JInteger (rn_polling_interval_ms run)),
      (''params'', rn_params run),
      (''tag_scope'', tag_scope_to_json (rn_tag_scope run)),
      (''label'', or_null JString (rn_label run)),
      (''experiment_label'', or_null JString (rn_label run)),
      (''close_reason'', or_null (\<lambda>r. JString (close_reason_to_string r)) (rn_close_reason run)),
      (''ended_at_epoch_ms'', or_null (\<lambda>t. JInteger (uint t)) (rn_ended_at_epoch_ms run)),
      (''automation_version'', or_null version_to_json (rn_automation_version run))]"

text \<open>\<open>Inl\<close>: the two spellings of the label differ. \<open>body.contains\<close> is false for a body that is no object.\<close>

definition label_from_open_request :: "json \<Rightarrow> string + string option" where
  "label_from_open_request body =
     (let ms = (case body of JObject ms \<Rightarrow> ms | _ \<Rightarrow> []);
          current = string_member ms ''label''; deprecated = string_member ms ''experiment_label'' in
      if current \<noteq> None \<and> deprecated \<noteq> None \<and> current \<noteq> deprecated
      then Inl ''label and experiment_label differ; send label only (experiment_label is deprecated)''
      else Inr (if current \<noteq> None then current else deprecated))"

definition to_str_vec :: "json \<Rightarrow> string list" where
  "to_str_vec arr = (case arr of JArray vs \<Rightarrow> List.map_filter json_string vs | _ \<Rightarrow> [])"

definition str_vec_member :: "(string \<times> json) list \<Rightarrow> string \<Rightarrow> string list" where
  "str_vec_member ms key = (case map_of ms key of Some v \<Rightarrow> to_str_vec v | None \<Rightarrow> [])"

definition tag_scope_from_json :: "(string \<times> json) list \<Rightarrow> TagScope" where
  "tag_scope_from_json ms = (case map_of ms ''tag_scope'' of
     Some (JObject scope) \<Rightarrow>
       \<lparr> tg_provider_ids = str_vec_member scope ''provider_ids'', tg_device_ids = str_vec_member scope ''device_ids'',
         tg_signal_ids = str_vec_member scope ''signal_ids'' \<rparr>
   | _ \<Rightarrow> no_scope)"

definition version_from_json :: "(string \<times> json) list \<Rightarrow> AutomationVersionRecord option option" where
  "version_from_json ms = (case map_of ms ''automation_version'' of
     Some (JObject v) \<Rightarrow> do {
       engine_kind \<leftarrow> value_or json_string v ''engine_kind'' [];
       id \<leftarrow> value_or json_string v ''id'' [];
       digest \<leftarrow> value_or json_string v ''digest'' [];
       digest_scope \<leftarrow> value_or json_string v ''digest_scope'' [];
       Some (Some \<lparr> av_engine_kind = engine_kind, av_id = id, av_digest = digest, av_digest_scope = digest_scope \<rparr>)
     }
   | _ \<Rightarrow> Some None)"

text \<open>\<open>is_number_unsigned\<close>: a parsed integer that is not negative.\<close>

definition unsigned_member :: "JsonLib \<Rightarrow> (string \<times> json) list \<Rightarrow> string \<Rightarrow> u64 option" where
  "unsigned_member lib ms key = (case map_of ms key of
     Some (JInteger i) \<Rightarrow> if 0 \<le> i then jl_u64 lib (JInteger i) else None
   | _ \<Rightarrow> None)"

definition run_from_json :: "JsonLib \<Rightarrow> json \<Rightarrow> Run option" where
  "run_from_json lib j = (case j of
     JObject ms \<Rightarrow> do {
       run_id \<leftarrow> string_member ms ''run_id'';
       schema_version \<leftarrow> value_or (jl_u32 lib) ms ''schema_version'' 1;
       state \<leftarrow> value_or json_string ms ''state'' ''open'';
       started \<leftarrow> value_or (jl_u64 lib) ms ''started_at_epoch_ms'' 0;
       runtime_version \<leftarrow> value_or json_string ms ''runtime_version'' [];
       polling \<leftarrow> value_or (jl_int lib) ms ''polling_interval_ms'' 0;
       version \<leftarrow> version_from_json ms;
       Some \<lparr> rn_run_id = run_id,
              rn_label = (case string_member ms ''label'' of Some l \<Rightarrow> Some l | None \<Rightarrow> string_member ms ''experiment_label''),
              rn_state = (if state = ''closed'' then Run_Closed else Run_Open),
              rn_close_reason = Option.bind (string_member ms ''close_reason'') close_reason_from_string,
              rn_started_at_epoch_ms = started,
              rn_ended_at_epoch_ms = unsigned_member lib ms ''ended_at_epoch_ms'',
              rn_automation_version = version,
              rn_runtime_version = runtime_version,
              rn_polling_interval_ms = polling,
              rn_params = (case object_member ms ''params'' of Some p \<Rightarrow> p | None \<Rightarrow> JObject []),
              rn_tag_scope = tag_scope_from_json ms,
              rn_schema_version = schema_version \<rparr>
     }
   | _ \<Rightarrow> None)"

section \<open>Round trips\<close>

text \<open>A run or event the journal builds: \<open>int\<close> values of 32 bits and object-valued payloads.\<close>

definition run_wf :: "Run \<Rightarrow> bool" where
  "run_wf r \<longleftrightarrow> json_wf (rn_params r) \<and> is_object (rn_params r) \<and>
     - (2 ^ 31) \<le> rn_polling_interval_ms r \<and> rn_polling_interval_ms r < 2 ^ 31"

definition event_wf :: "RunEvent \<Rightarrow> bool" where
  "event_wf e \<longleftrightarrow> json_wf (ev_payload e) \<and> is_object (ev_payload e)"

lemma close_reason_roundtrip [simp]: "close_reason_from_string (close_reason_to_string r) = Some r"
  by (cases r) (simp_all add: close_reason_from_string_def)

lemma category_roundtrip [simp]: "run_event_category_from_string (category_to_string c) = Some c"
  by (cases c) (simp_all add: run_event_category_from_string_def)

lemma str_vec_roundtrip [simp]: "to_str_vec (string_array xs) = xs"
  by (induction xs) (simp_all add: to_str_vec_def string_array_def List.map_filter_simps)

lemma uint_64_wf [simp]: "json_wf (JInteger (uint (w :: u64)))"
  using uint_lt2p [of w] by (simp add: order_trans [OF _ uint_ge_0])

lemma uint_32_wf [simp]: "json_wf (JInteger (uint (w :: u32)))"
  using uint_lt2p [of w] by (simp add: order_trans [OF _ uint_ge_0])

lemma json_object_wf:
  assumes "\<forall>(k, v) \<in> set ms. json_wf v"
  shows "json_wf (json_object ms)"
proof -
  have "json_wf (JObject m) \<Longrightarrow> json_wf (JObject (fold (\<lambda>(k, v). omap_put k v) ms m))" for m
    using assms
  proof (induction ms arbitrary: m)
    case (Cons a ms)
    then show ?case using omap_ok_put [of m "fst a" "snd a"] set_omap_put [of "fst a" "snd a" m]
      by (fastforce simp: omap_ok_def)
  qed simp
  from this [of "[]"] show ?thesis by (simp add: json_object_def)
qed

lemma or_null_wf: "(\<And>v. x = Some v \<Longrightarrow> json_wf (enc v)) \<Longrightarrow> json_wf (or_null enc x)"
  by (cases x) (simp_all add: or_null_def)

lemma string_array_wf [simp]: "json_wf (string_array xs)"
  by (simp add: string_array_def)

lemma tag_scope_wf [simp]: "json_wf (tag_scope_to_json scope)"
  unfolding tag_scope_to_json_def by (rule json_object_wf) simp

lemma version_wf [simp]: "json_wf (version_to_json v)"
  unfolding version_to_json_def by (rule json_object_wf) simp

lemma run_doc_wf: "run_wf r \<Longrightarrow> json_wf (run_to_json r)"
  unfolding run_to_json_def by (rule json_object_wf) (simp add: run_wf_def or_null_wf del: json_wf.simps(3), simp)

lemma event_doc_wf: "event_wf e \<Longrightarrow> json_wf (run_event_to_json e)"
  unfolding run_event_to_json_def by (rule json_object_wf) (simp add: event_wf_def del: json_wf.simps(3))

lemma is_object_json_object [simp]: "is_object (json_object ms)"
  by (simp add: json_object_def)

lemmas member_simps = json_object_def omap_get_put value_or_def string_member_def object_member_def unsigned_member_def
  or_null_def str_vec_member_def

lemma scope_roundtrip: "map_of ms ''tag_scope'' = Some (tag_scope_to_json scope) \<Longrightarrow> tag_scope_from_json ms = scope"
  by (simp add: tag_scope_from_json_def tag_scope_to_json_def member_simps)

lemma version_roundtrip:
  "map_of ms ''automation_version'' = Some (or_null version_to_json v) \<Longrightarrow> version_from_json ms = Some v"
  by (cases v) (simp_all add: version_from_json_def version_to_json_def member_simps)

text \<open>Encoding and decoding are inverse, whatever the optional parts are.\<close>

lemma run_roundtrip:
  assumes "json_lib_ok lib" "run_wf r"
  shows "run_from_json lib (run_to_json r) = Some r"
proof -
  have num: "jl_u64 lib (JInteger (uint a)) = Some a" "jl_u32 lib (JInteger (uint b)) = Some b"
      "jl_int lib (JInteger (rn_polling_interval_ms r)) = Some (rn_polling_interval_ms r)" for a b
    using assms by (simp_all add: json_lib_ok_def run_wf_def)
  show ?thesis
    using assms(2) unfolding run_from_json_def run_to_json_def run_wf_def
    by (cases "rn_label r"; cases "rn_close_reason r"; cases "rn_ended_at_epoch_ms r"; cases "rn_state r")
      (simp_all add: member_simps num scope_roundtrip version_roundtrip)
qed

lemma event_roundtrip:
  assumes "json_lib_ok lib" "event_wf e"
  shows "run_event_from_json lib (run_event_to_json e) = Some e"
  using assms unfolding run_event_from_json_def run_event_to_json_def event_wf_def
  by (simp add: member_simps json_lib_ok_def)

text \<open>A run and an event are written as one line that reads back as themselves and as nothing else when it is cut.\<close>

definition read_run :: "JsonLib \<Rightarrow> string \<Rightarrow> Run option" where
  "read_run lib line = Option.bind (jl_parse lib line) (run_from_json lib)"

definition read_event :: "JsonLib \<Rightarrow> string \<Rightarrow> RunEvent option" where
  "read_event lib line = Option.bind (jl_parse lib line) (run_event_from_json lib)"

lemma run_line:
  assumes "json_lib_ok lib" "run_wf r" "jl_dump lib (run_to_json r) = Some s"
  shows "s \<noteq> []" "newline \<notin> set s" "read_run lib s = Some r" "\<And>k. k < length s \<Longrightarrow> read_run lib (take k s) = None"
proof -
  have "dump_ok lib (run_to_json r)" using assms(1) run_doc_wf [OF assms(2)] by (auto simp: json_lib_ok_def run_to_json_def)
  then show "s \<noteq> []" "newline \<notin> set s" "read_run lib s = Some r" "\<And>k. k < length s \<Longrightarrow> read_run lib (take k s) = None"
    using run_roundtrip [OF assms(1,2)] assms(3) by (simp_all add: dump_ok_def read_run_def)
qed

lemma event_line:
  assumes "json_lib_ok lib" "event_wf e" "jl_dump lib (run_event_to_json e) = Some s"
  shows "s \<noteq> []" "newline \<notin> set s" "read_event lib s = Some e" "\<And>k. k < length s \<Longrightarrow> read_event lib (take k s) = None"
proof -
  have "dump_ok lib (run_event_to_json e)" using assms(1) event_doc_wf [OF assms(2)] by (auto simp: json_lib_ok_def run_event_to_json_def)
  then show "s \<noteq> []" "newline \<notin> set s" "read_event lib s = Some e" "\<And>k. k < length s \<Longrightarrow> read_event lib (take k s) = None"
    using event_roundtrip [OF assms(1,2)] assms(3) by (simp_all add: dump_ok_def read_event_def)
qed


text \<open>What is read from a log line is well formed.\<close>

lemma map_of_json_wf: "json_wf (JObject ms) \<Longrightarrow> map_of ms k = Some v \<Longrightarrow> json_wf v"
  by (auto dest: map_of_SomeD)

lemma read_run_wf:
  assumes "json_lib_ok lib" "read_run lib s = Some r"
  shows "run_wf r"
proof -
  from assms(2) obtain doc where doc: "jl_parse lib s = Some doc" "run_from_json lib doc = Some r"
    by (auto simp: read_run_def bind_eq_Some_conv)
  then obtain ms where ms: "doc = JObject ms" by (cases doc) (simp_all add: run_from_json_def)
  have wf: "json_wf (JObject ms)" using assms(1) doc(1) ms by (auto simp: json_lib_ok_def simp del: json_wf.simps)
  have poll: "value_or (jl_int lib) ms ''polling_interval_ms'' 0 = Some (rn_polling_interval_ms r)"
    and params: "rn_params r = (case object_member ms ''params'' of Some p \<Rightarrow> p | None \<Rightarrow> JObject [])"
    using doc(2) unfolding ms run_from_json_def by (auto simp: bind_eq_Some_conv)
  have "jl_int lib v = Some i \<Longrightarrow> - (2 ^ 31) \<le> i \<and> i < 2 ^ 31" for v i using assms(1) unfolding json_lib_ok_def by blast
  then have "- (2 ^ 31) \<le> rn_polling_interval_ms r \<and> rn_polling_interval_ms r < 2 ^ 31"
    using poll by (cases "map_of ms ''polling_interval_ms''") (auto simp: value_or_def)
  moreover have "json_wf (rn_params r) \<and> is_object (rn_params r)"
    using map_of_json_wf [OF wf, of "''params''"] by (auto simp: params object_member_def split: option.splits)
  ultimately show ?thesis by (simp add: run_wf_def)
qed


section \<open>A library over a table\<close>

text \<open>A JSON library that writes the documents of a list, each as one character, and throws on every other one: an
  instance of what the journal asks of its library.\<close>

fun code_of :: "json list \<Rightarrow> nat \<Rightarrow> json \<Rightarrow> string option" where
  "code_of [] n doc = None"
| "code_of (x # xs) n doc = (if x = doc then Some [char_of n] else code_of xs (Suc n) doc)"

fun doc_of :: "json list \<Rightarrow> nat \<Rightarrow> string \<Rightarrow> json option" where
  "doc_of [] n s = None"
| "doc_of (x # xs) n s = (if s = [char_of n] then Some x else doc_of xs (Suc n) s)"

definition table_json :: "json list \<Rightarrow> JsonLib" where
  "table_json docs =
     \<lparr> jl_parse = doc_of docs 65, jl_dump = code_of docs 65,
       jl_u64 = (\<lambda>doc. case doc of JInteger i \<Rightarrow> Some (word_of_int i) | _ \<Rightarrow> None),
       jl_u32 = (\<lambda>doc. case doc of JInteger i \<Rightarrow> Some (word_of_int i) | _ \<Rightarrow> None),
       jl_int = (\<lambda>doc. case doc of JInteger i \<Rightarrow> if - (2 ^ 31) \<le> i \<and> i < 2 ^ 31 then Some i else None | _ \<Rightarrow> None) \<rparr>"

lemma char_of_inj: "m < 256 \<Longrightarrow> n < 256 \<Longrightarrow> char_of m = char_of n \<longleftrightarrow> m = (n :: nat)"
  by (metis of_char_of mod_less)

lemma code_of_doc_of:
  "n + length docs \<le> 256 \<Longrightarrow> code_of docs n doc = Some s \<Longrightarrow>
   \<exists>k. s = [char_of k] \<and> n \<le> k \<and> k < n + length docs \<and> doc_of docs n s = Some doc"
proof (induction docs arbitrary: n)
  case (Cons x docs)
  show ?case
  proof (cases "x = doc")
    case True
    then show ?thesis using Cons.prems by auto
  next
    case False
    with Cons.IH [of "Suc n"] Cons.prems obtain k where
      "s = [char_of k]" "Suc n \<le> k" "k < Suc n + length docs" "doc_of docs (Suc n) s = Some doc" by auto
    with Cons.prems(1) show ?thesis using char_of_inj [of k n] by (intro exI [of _ k]) auto
  qed
qed simp

lemma doc_of_in: "doc_of docs n s = Some doc \<Longrightarrow> doc \<in> set docs \<and> s \<noteq> []"
  by (induction docs arbitrary: n) (auto split: if_splits)

lemma table_json_ok:
  assumes "list_all json_wf docs" "length docs \<le> 100"
  shows "json_lib_ok (table_json docs)"
proof -
  have "dump_ok (table_json docs) doc" for doc
  proof (cases "code_of docs 65 doc")
    case None
    then show ?thesis by (simp add: dump_ok_def table_json_def)
  next
    case (Some s)
    obtain k where k: "s = [char_of k]" "65 \<le> k" "k < 65 + length docs" "doc_of docs 65 s = Some doc"
      using code_of_doc_of [OF _ Some] assms(2) by auto
    have "char_of k \<noteq> newline"
    proof
      assume "char_of k = newline"
      then have "of_char (char_of k) = (of_char newline :: nat)" by simp
      then show False using k assms(2) by (simp add: newline_def)
    qed
    moreover have "doc_of docs 65 [] = None" using doc_of_in by (cases "doc_of docs 65 []") auto
    ultimately show ?thesis using Some k by (simp add: dump_ok_def table_json_def)
  qed
  moreover have "jl_parse (table_json docs) s = Some doc \<Longrightarrow> json_wf doc" for s doc
    using assms(1) doc_of_in by (fastforce simp: table_json_def list_all_iff)
  moreover have "jl_u64 (table_json docs) (JInteger (uint n)) = Some n" "jl_u32 (table_json docs) (JInteger (uint m)) = Some m" for n m
    by (simp_all add: table_json_def)
  moreover have "- (2 ^ 31) \<le> i \<and> i < 2 ^ 31 \<Longrightarrow> jl_int (table_json docs) (JInteger i) = Some i"
      "jl_int (table_json docs) doc = Some i \<Longrightarrow> - (2 ^ 31) \<le> i \<and> i < 2 ^ 31" for i doc
    by (auto simp: table_json_def split: json.splits if_splits)
  ultimately show ?thesis unfolding json_lib_ok_def by blast
qed

end
