(* ===== verification/Run_Log.thy ===== *)
theory Run_Log
  imports Run_Types
begin

text \<open>
  The append-only line log under \<open>core/runs/run_journal.cpp\<close>: reading with \<open>std::getline\<close>, the append that
  \<open>append_record\<close> and \<open>append_event_locked\<close> share, and what a power cut leaves. A \<open>Disk\<close> is the files as
  processes see them, with, per file, how many bytes a sync has put on storage and whether its directory entry
  is there too. A write that fails leaves any number of its bytes; a power cut leaves any number of bytes, but at
  least the synced ones.
\<close>

section \<open>Lines\<close>

text \<open>The lines \<open>getline\<close> yields: a last line without a newline counts when it is not empty.\<close>

fun read_lines :: "string \<Rightarrow> string list" where
  "read_lines [] = []"
| "read_lines (c # cs) =
     (if c = newline then [] # read_lines cs
      else case read_lines cs of [] \<Rightarrow> [[c]] | l # ls \<Rightarrow> (c # l) # ls)"

text \<open>Every reader of a log skips the empty lines.\<close>

definition log_lines :: "string \<Rightarrow> string list" where
  "log_lines s = filter (\<lambda>l. l \<noteq> []) (read_lines s)"

definition log_records :: "(string \<Rightarrow> 'a option) \<Rightarrow> string \<Rightarrow> 'a list" where
  "log_records read s = List.map_filter read (log_lines s)"

definition ends_without_newline :: "string \<Rightarrow> bool" where
  "ends_without_newline s \<longleftrightarrow> s \<noteq> [] \<and> last s \<noteq> newline"

section \<open>Disk\<close>

record Disk =
  dk_files :: files
  dk_data :: "path \<Rightarrow> nat"
  dk_entry :: "path \<Rightarrow> bool"

text \<open>The answers of the operating system to one append. \<open>ap_read_ok\<close>: the file, where there is one, can be read;
  \<open>ap_missing\<close>: the bytes at the end
  that a failing write leaves out.\<close>

record AppendEnv =
  ap_read_ok :: bool
  ap_open_ok :: bool
  ap_write_ok :: bool
  ap_missing :: nat
  ap_sync_ok :: bool
  ap_dir_sync_ok :: bool
  ap_now_occurred :: u64
  ap_now_recorded :: u64

datatype append_outcome = Synced | Dir_Sync_Failed | Sync_Failed | Write_Failed | Cannot_Open | Append_Throws

text \<open>The line is in the file.\<close>

definition is_written :: "append_outcome \<Rightarrow> bool" where
  "is_written res \<longleftrightarrow> res = Synced \<or> res = Dir_Sync_Failed \<or> res = Sync_Failed"

definition content :: "files \<Rightarrow> path \<Rightarrow> string" where
  "content fs p = (case fs p of Some s \<Rightarrow> s | None \<Rightarrow> [])"

text \<open>\<open>body\<close>: the record's \<open>dump()\<close>, \<open>None\<close> when it throws with the stream open.\<close>

definition append_line :: "AppendEnv \<Rightarrow> path \<Rightarrow> string option \<Rightarrow> Disk \<Rightarrow> append_outcome \<times> Disk" where
  "append_line env p body disk =
     (let old = content (dk_files disk) p; created = (dk_files disk p = None);
          lead = (if ap_read_ok env \<and> ends_without_newline old then [newline] else []) in
      if \<not> ap_open_ok env then (Cannot_Open, disk)
      else case body of
        None \<Rightarrow> (Append_Throws, disk\<lparr> dk_files := (dk_files disk)(p \<mapsto> old @ lead) \<rparr>)
      | Some s \<Rightarrow>
          (let new = lead @ s @ [newline] in
           if \<not> ap_write_ok env then (Write_Failed, disk\<lparr> dk_files := (dk_files disk)(p \<mapsto> old @ take (length new - ap_missing env) new) \<rparr>)
           else let disk = disk\<lparr> dk_files := (dk_files disk)(p \<mapsto> old @ new) \<rparr> in
             if \<not> ap_sync_ok env then (Sync_Failed, disk)
             else let disk = disk\<lparr> dk_data := (dk_data disk)(p := length (old @ new)) \<rparr> in
               if created \<and> \<not> ap_dir_sync_ok env then (Dir_Sync_Failed, disk)
               else (Synced, if created then disk\<lparr> dk_entry := (dk_entry disk)(p := True) \<rparr> else disk)))"

text \<open>The bytes of a file a power cut cannot take.\<close>

definition guaranteed :: "Disk \<Rightarrow> path \<Rightarrow> nat" where
  "guaranteed disk p = (if dk_entry disk p then dk_data disk p else 0)"

definition surviving :: "(path \<Rightarrow> nat) \<Rightarrow> Disk \<Rightarrow> files" where
  "surviving left disk p =
     (case dk_files disk p of
        None \<Rightarrow> None
      | Some s \<Rightarrow> if \<not> dk_entry disk p \<and> left p = 0 then None else Some (take (max (left p) (guaranteed disk p)) s))"

definition power_cut :: "(path \<Rightarrow> nat) \<Rightarrow> Disk \<Rightarrow> Disk" where
  "power_cut left disk =
     (let fs = surviving left disk in
      \<lparr> dk_files = fs, dk_data = (\<lambda>p. length (content fs p)), dk_entry = (\<lambda>p. fs p \<noteq> None) \<rparr>)"

section \<open>Lines of a log\<close>

lemma read_lines_Nil_iff [simp]: "read_lines s = [] \<longleftrightarrow> s = []"
  by (cases s) (auto split: list.splits)

lemma read_lines_append:
  "s = [] \<or> last s = newline \<Longrightarrow> read_lines (s @ t) = read_lines s @ read_lines t"
  by (induction s) (auto split: list.splits if_splits)

lemma read_lines_no_newline: "newline \<notin> set s \<Longrightarrow> read_lines s = (if s = [] then [] else [s])"
  by (induction s) (auto split: list.splits)

lemma read_lines_line: "newline \<notin> set s \<Longrightarrow> read_lines (s @ [newline]) = [s]"
  by (induction s) (auto split: list.splits)

lemma read_lines_end: "read_lines (s @ [newline]) = (if ends_without_newline s then read_lines s else read_lines s @ [[]])"
  by (induction s) (auto simp: ends_without_newline_def split: list.splits)

lemma log_lines_empty [simp]: "log_lines [] = []"
  by (simp add: log_lines_def)

lemma log_lines_end [simp]: "log_lines (s @ [newline]) = log_lines s"
  by (simp add: log_lines_def read_lines_end)

lemma log_lines_append:
  "\<not> ends_without_newline s \<Longrightarrow> log_lines (s @ t) = log_lines s @ log_lines t"
  by (simp add: log_lines_def read_lines_append ends_without_newline_def)

text \<open>An append never joins a torn last line: whatever part of the new line is written stands on its own.\<close>

lemma log_lines_torn: "log_lines (s @ newline # t) = log_lines s @ log_lines t"
proof -
  have "s @ newline # t = (s @ [newline]) @ t" by simp
  then show ?thesis using log_lines_append [of "s @ [newline]" t] by (simp add: ends_without_newline_def)
qed

lemma log_lines_no_newline: "newline \<notin> set s \<Longrightarrow> log_lines s = (if s = [] then [] else [s])"
  by (simp add: log_lines_def read_lines_no_newline)

lemma log_lines_lead:
  "log_lines (s @ (if ends_without_newline s then [newline] else []) @ t) = log_lines s @ log_lines t"
  using log_lines_torn [of s t] log_lines_append [of s t] by simp

lemma log_lines_take_line:
  assumes "newline \<notin> set s"
  shows "log_lines (take k (s @ [newline])) = log_lines (take k s)"
  using assms by (cases "k \<le> length s") simp_all

lemma log_records_empty [simp]: "log_records read [] = []"
  by (simp add: log_records_def List.map_filter_simps)

lemma map_filter_append: "List.map_filter f (xs @ ys) = List.map_filter f xs @ List.map_filter f ys"
  by (simp add: List.map_filter_def)

section \<open>Cut lines\<close>

text \<open>No proper prefix of a line is a record: what a cut leaves of a line is skipped.\<close>

definition cut_safe :: "(string \<Rightarrow> 'a option) \<Rightarrow> string \<Rightarrow> bool" where
  "cut_safe read s \<longleftrightarrow> (\<forall>l \<in> set (log_lines s). \<forall>k < length l. read (take k l) = None)"

lemma cut_safe_empty [simp]: "cut_safe read []"
  by (simp add: cut_safe_def)

lemma read_lines_torn:
  "ends_without_newline a \<Longrightarrow>
   \<exists>b' rest. read_lines a \<noteq> [] \<and> read_lines (a @ b) = butlast (read_lines a) @ (List.last (read_lines a) @ b') # rest"
proof (induction a)
  case (Cons c a)
  show ?case
  proof (cases "a = []")
    case True
    then show ?thesis using Cons.prems by (auto simp: ends_without_newline_def split: list.splits)
  next
    case False
    with Cons.prems have "ends_without_newline a" by (simp add: ends_without_newline_def)
    from Cons.IH [OF this] obtain b' rest where r: "read_lines a \<noteq> []"
        "read_lines (a @ b) = butlast (read_lines a) @ (List.last (read_lines a) @ b') # rest" by blast
    then show ?thesis by (cases "read_lines a") (auto split: list.splits)
  qed
qed (simp add: ends_without_newline_def)

lemma read_lines_last_nonempty: "ends_without_newline a \<Longrightarrow> List.last (read_lines a) \<noteq> []"
  by (induction a) (auto simp: ends_without_newline_def split: list.splits if_splits)

lemma nonempty_snoc: "read_lines a = ls @ [l] \<Longrightarrow> l \<noteq> [] \<Longrightarrow> log_lines a = filter (\<lambda>l. l \<noteq> []) ls @ [l]"
  by (simp add: log_lines_def)

text \<open>What a cut leaves of a log reads as the first records of the log.\<close>

lemma log_records_prefix:
  assumes "cut_safe read (a @ b)"
  shows "prefix (log_records read a) (log_records read (a @ b))"
proof (cases "ends_without_newline a")
  case False
  then show ?thesis by (simp add: log_records_def log_lines_append map_filter_append)
next
  case True
  let ?l = "List.last (read_lines a)"
  obtain b' rest where r: "read_lines a \<noteq> []" "read_lines (a @ b) = butlast (read_lines a) @ (?l @ b') # rest"
    using read_lines_torn [OF True] by blast
  have ne: "?l \<noteq> []" using read_lines_last_nonempty [OF True] .
  let ?init = "filter (\<lambda>l. l \<noteq> []) (butlast (read_lines a))"
  have "read_lines a = butlast (read_lines a) @ [?l]" using r(1) by simp
  then have la: "log_lines a = ?init @ [?l]" using ne by (rule nonempty_snoc)
  have lab: "log_lines (a @ b) = ?init @ (?l @ b') # filter (\<lambda>l. l \<noteq> []) rest" using ne r(2) by (simp add: log_lines_def)
  have "\<forall>k < length (?l @ b'). read (take k (?l @ b')) = None" using assms lab by (simp add: cut_safe_def)
  from spec [OF this, of "length ?l"] have "b' \<noteq> [] \<Longrightarrow> read ?l = None" by simp
  then show ?thesis by (cases "b' = []") (simp_all add: log_records_def la lab map_filter_append List.map_filter_simps prefix_def split: option.split)
qed

lemma cut_safe_prefix:
  assumes "cut_safe read (a @ b)"
  shows "cut_safe read a"
proof (cases "ends_without_newline a")
  case False
  then show ?thesis using assms by (simp add: cut_safe_def log_lines_append)
next
  case True
  let ?l = "List.last (read_lines a)"
  obtain b' rest where r: "read_lines a \<noteq> []" "read_lines (a @ b) = butlast (read_lines a) @ (?l @ b') # rest"
    using read_lines_torn [OF True] by blast
  have ne: "?l \<noteq> []" using read_lines_last_nonempty [OF True] .
  have "read_lines a = butlast (read_lines a) @ [?l]" using r(1) by simp
  then have la: "log_lines a = filter (\<lambda>l. l \<noteq> []) (butlast (read_lines a)) @ [?l]" using ne by (rule nonempty_snoc)
  have whole: "\<forall>k < length (?l @ b'). read (take k (?l @ b')) = None" "\<forall>l \<in> set (butlast (read_lines a)). l \<noteq> [] \<longrightarrow> (\<forall>k < length l. read (take k l) = None)"
    using assms ne by (auto simp: cut_safe_def log_lines_def r(2))
  have "\<forall>k < length ?l. read (take k ?l) = None"
  proof (intro allI impI)
    fix k assume "k < length ?l"
    then show "read (take k ?l) = None" using whole(1) [rule_format, of k] by simp
  qed
  with whole(2) la show ?thesis by (auto simp: cut_safe_def)
qed

lemma log_records_take: "cut_safe read s \<Longrightarrow> prefix (log_records read (take n s)) (log_records read s)"
  using log_records_prefix [of read "take n s" "drop n s"] by simp

lemma cut_safe_take: "cut_safe read s \<Longrightarrow> cut_safe read (take n s)"
  using cut_safe_prefix [of read "take n s" "drop n s"] by simp

section \<open>Appends\<close>

definition line_ok :: "(string \<Rightarrow> 'a option) \<Rightarrow> 'a \<Rightarrow> string \<Rightarrow> bool" where
  "line_ok read r s \<longleftrightarrow> s \<noteq> [] \<and> newline \<notin> set s \<and> read s = Some r \<and> (\<forall>k < length s. read (take k s) = None)"

lemma log_lines_part:
  assumes "newline \<notin> set s" and "lead = (if ends_without_newline old then [newline] else [])"
  shows "log_lines (old @ take k (lead @ s @ [newline])) =
           log_lines old @ (if take (k - length lead) s = [] then [] else [take (k - length lead) s])"
proof -
  have nn: "newline \<notin> set (take n s)" for n using assms(1) by (auto dest: in_set_takeD)
  have part: "log_lines (take k (s @ [newline])) = (if take k s = [] then [] else [take k s])" for k
    using log_lines_take_line [OF assms(1)] log_lines_no_newline [OF nn] by simp
  show ?thesis
  proof (cases "ends_without_newline old")
    case True
    with assms(2) part show ?thesis by (cases k) (simp_all add: log_lines_torn)
  next
    case False
    with assms(2) part [of k] show ?thesis by (simp add: log_lines_append del: take_append)
  qed
qed

lemma part_of_line:
  assumes "line_ok read r s" and "log_lines new = log_lines old @ (if take k s = [] then [] else [take k s])"
  shows "cut_safe read old \<Longrightarrow> cut_safe read new"
    and "log_records read new = log_records read old @ (if length s \<le> k then [r] else [])"
proof -
  show "cut_safe read old \<Longrightarrow> cut_safe read new"
    using assms by (auto simp: line_ok_def cut_safe_def min_def split: if_splits)
  show "log_records read new = log_records read old @ (if length s \<le> k then [r] else [])"
    using assms by (auto simp: line_ok_def log_records_def map_filter_append List.map_filter_simps)
qed

lemma append_line_content:
  assumes "append_line env p body d = (out, d')" and "ap_read_ok env"
    and "lead = (if ends_without_newline (content (dk_files d) p) then [newline] else [])"
  shows "(out = Cannot_Open \<and> d' = d) \<or>
    (body = None \<and> out = Append_Throws \<and> content (dk_files d') p = content (dk_files d) p @ lead) \<or>
    (\<exists>s k. body = Some s \<and> content (dk_files d') p = content (dk_files d) p @ take k (lead @ s @ [newline]) \<and>
       (is_written out \<and> k = length lead + length s + 1 \<or>
        out = Write_Failed \<and> k = length lead + length s + 1 - ap_missing env))"
  using assms by (auto simp: append_line_def Let_def content_def is_written_def simp del: take_append split: option.splits if_splits)

text \<open>What one append does to a log: a record that is reported written is its new last record; otherwise the
  log's records are as they were, or the failing write left out at most the newline.\<close>

lemma append_line_records:
  assumes "append_line env p body d = (out, d')" and "ap_read_ok env" and "\<And>s. body = Some s \<Longrightarrow> line_ok read r s"
  shows "log_records read (content (dk_files d') p) = log_records read (content (dk_files d) p) @
      (if is_written out \<or> out = Write_Failed \<and> ap_missing env \<le> 1 then [r] else [])" (is ?rec)
    and "cut_safe read (content (dk_files d) p) \<Longrightarrow> cut_safe read (content (dk_files d') p)" (is "?safe \<Longrightarrow> ?safe'")
    and "prefix (content (dk_files d) p) (content (dk_files d') p)"
proof -
  define lead where "lead = (if ends_without_newline (content (dk_files d) p) then [newline] else [])"
  note c = append_line_content [OF assms(1,2) lead_def]
  show "prefix (content (dk_files d) p) (content (dk_files d') p)" using c by auto
  have "?rec \<and> (?safe \<longrightarrow> ?safe')" using c
  proof (elim disjE exE conjE)
    assume "body = None" "out = Append_Throws" "content (dk_files d') p = content (dk_files d) p @ lead"
    then show ?thesis using log_lines_lead [of "content (dk_files d) p" "[]"]
      by (simp add: log_records_def cut_safe_def is_written_def lead_def)
  next
    fix s k
    assume b: "body = Some s" and t: "content (dk_files d') p = content (dk_files d) p @ take k (lead @ s @ [newline])"
    have ok: "line_ok read r s" by (rule assms(3) [OF b])
    have ll: "log_lines (content (dk_files d') p) = log_lines (content (dk_files d) p) @
        (if take (k - length lead) s = [] then [] else [take (k - length lead) s])"
      unfolding t using ok lead_def by (intro log_lines_part) (simp_all add: line_ok_def)
    note p = part_of_line [OF ok ll]
    have ne: "0 < length s" using ok by (simp add: line_ok_def)
    { assume "is_written out" "k = length lead + length s + 1"
      then show ?thesis using p by simp }
    { assume "out = Write_Failed" "k = length lead + length s + 1 - ap_missing env"
      moreover have "length s \<le> length lead + length s + 1 - ap_missing env - length lead \<longleftrightarrow> ap_missing env \<le> 1" using ne by arith
      ultimately show ?thesis using p by (simp add: is_written_def) }
  qed (simp add: is_written_def)
  then show ?rec "?safe \<Longrightarrow> ?safe'" by simp_all
qed

lemma append_line_elsewhere:
  "append_line env p body d = (out, d') \<Longrightarrow> q \<noteq> p \<Longrightarrow>
   dk_files d' q = dk_files d q \<and> dk_data d' q = dk_data d q \<and> dk_entry d' q = dk_entry d q"
  by (auto simp: append_line_def Let_def split: option.splits if_splits)

section \<open>Storage\<close>

definition disk_ok :: "Disk \<Rightarrow> path \<Rightarrow> bool" where
  "disk_ok d p \<longleftrightarrow> dk_data d p \<le> length (content (dk_files d) p) \<and> (dk_entry d p \<longrightarrow> dk_files d p \<noteq> None)"

lemma append_line_disk:
  assumes "append_line env p body d = (out, d')" "disk_ok d p"
  shows "disk_ok d' p" "guaranteed d p \<le> guaranteed d' p" "dk_entry d p \<Longrightarrow> dk_entry d' p"
    and "out = Synced \<Longrightarrow> dk_entry d p \<or> dk_files d p = None \<Longrightarrow>
      guaranteed d' p = length (content (dk_files d') p) \<and> dk_entry d' p"
  using assms by (auto simp: append_line_def Let_def disk_ok_def guaranteed_def content_def split: option.splits if_splits)

lemma power_cut_content:
  assumes "disk_ok d p"
  shows "\<exists>n \<ge> guaranteed d p. content (dk_files (power_cut left d)) p = take n (content (dk_files d) p) \<and>
    guaranteed (power_cut left d) p = length (content (dk_files (power_cut left d)) p)"
  using assms
  by (auto simp: power_cut_def surviving_def content_def guaranteed_def disk_ok_def Let_def split: option.splits
      intro: exI [of _ 0] exI [of _ "max (left p) (dk_data d p)"])

lemma power_cut_disk: "disk_ok (power_cut left d) p"
  by (simp add: power_cut_def disk_ok_def Let_def)

end
