(* ===== verification/Run_Journal.thy ===== *)
theory Run_Journal
  imports Run_Log
begin

text \<open>
  \<open>core/runs/run_journal.cpp\<close>: the run registry. \<open>RunJournal\<close> is the object's memory, \<open>Disk\<close> its files; each
  operation maps the pair to a result and the pair after it. An id is one path component. \<open>Append_Throws\<close>
  stands for the exception of \<open>dump()\<close>, which leaves the operation at that point. \<open>JournalSession\<close> is the
  runtime's view (\<open>Runtime::init_runs\<close>): a journal that failed to initialise is dropped.
\<close>

section \<open>State\<close>

record QueuedEvent =
  qe_category :: RunEventCategory
  qe_type :: string
  qe_payload :: json
  qe_occurred_at_epoch_ms :: u64

record RunJournal =
  rj_data_dir :: path
  rj_runtime_name :: string
  rj_polling_interval_ms :: int
  rj_runs :: "(string \<times> Run) list"
  rj_order :: "string list"
  rj_open_run_id :: "string option"
  rj_mint_counter :: u64
  rj_next_seq :: "(string \<times> u64) list"
  rj_fault_queue :: "QueuedEvent list"
  rj_events_dropped :: u64

definition new_journal :: "path \<Rightarrow> string \<Rightarrow> int \<Rightarrow> RunJournal" where
  "new_journal data_dir runtime_name polling_interval_ms =
     \<lparr> rj_data_dir = data_dir, rj_runtime_name = runtime_name, rj_polling_interval_ms = polling_interval_ms, rj_runs = [],
       rj_order = [], rj_open_run_id = None, rj_mint_counter = 0, rj_next_seq = [], rj_fault_queue = [], rj_events_dropped = 0 \<rparr>"

definition index_path :: "RunJournal \<Rightarrow> path" where
  "index_path j = rj_data_dir j @ [''runs'', ''index.jsonl'']"

definition events_path :: "RunJournal \<Rightarrow> string \<Rightarrow> path" where
  "events_path j run_id = rj_data_dir j @ [''runs'', run_id @ ''.events.jsonl'']"

definition kMaxFaultQueue :: nat where
  "kMaxFaultQueue = 512"

section \<open>Appending\<close>

definition append_record :: "JsonLib \<Rightarrow> AppendEnv \<Rightarrow> Run \<Rightarrow> RunJournal \<times> Disk \<Rightarrow> append_outcome \<times> Disk" where
  "append_record lib env run jd = append_line env (index_path (fst jd)) (jl_dump lib (run_to_json run)) (snd jd)"

text \<open>The largest sequence in an event log.\<close>

definition max_sequence :: "JsonLib \<Rightarrow> string \<Rightarrow> u64" where
  "max_sequence lib s =
     foldl (\<lambda>max_seq e. if max_seq < ev_sequence e then ev_sequence e else max_seq) 0 (log_records (read_event lib) s)"

definition next_sequence :: "JsonLib \<Rightarrow> AppendEnv \<Rightarrow> string \<Rightarrow> RunJournal \<times> Disk \<Rightarrow> u64" where
  "next_sequence lib env run_id jd =
     (case map_of (rj_next_seq (fst jd)) run_id of
        Some n \<Rightarrow> n
      | None \<Rightarrow> max_sequence lib (if ap_read_ok env then content (dk_files (snd jd)) (events_path (fst jd) run_id) else []) + 1)"

datatype AppendEventResult = Event_Ok RunEvent | Event_Failed append_outcome | Event_Unknown_Run | Event_Run_Closed

definition append_event_locked ::
  "JsonLib \<Rightarrow> AppendEnv \<Rightarrow> string \<Rightarrow> RunEventCategory \<Rightarrow> string \<Rightarrow> json \<Rightarrow> u64 \<Rightarrow> RunJournal \<times> Disk \<Rightarrow>
   AppendEventResult \<times> RunJournal \<times> Disk" where
  "append_event_locked lib env run_id category type payload occurred_at jd =
     (let seq = next_sequence lib env run_id jd;
          event = \<lparr> ev_run_id = run_id, ev_sequence = seq, ev_category = category, ev_type = type,
                    ev_occurred_at_epoch_ms = (if occurred_at \<noteq> 0 then occurred_at else ap_now_occurred env),
                    ev_recorded_at_epoch_ms = ap_now_recorded env,
                    ev_payload = (if is_object payload then payload else JObject []), ev_schema_version = 1 \<rparr>;
          (out, disk) = append_line env (events_path (fst jd) run_id) (jl_dump lib (run_event_to_json event)) (snd jd);
          j = (if is_written out then (fst jd)\<lparr> rj_next_seq := AList.update run_id (seq + 1) (rj_next_seq (fst jd)) \<rparr> else fst jd) in
      (if out = Synced then Event_Ok event else Event_Failed out, j, disk))"

definition append_event ::
  "JsonLib \<Rightarrow> AppendEnv \<Rightarrow> string \<Rightarrow> RunEventCategory \<Rightarrow> string \<Rightarrow> json \<Rightarrow> u64 \<Rightarrow> RunJournal \<times> Disk \<Rightarrow>
   AppendEventResult \<times> RunJournal \<times> Disk" where
  "append_event lib env run_id category type payload occurred_at jd =
     (case map_of (rj_runs (fst jd)) run_id of
        None \<Rightarrow> (Event_Unknown_Run, jd)
      | Some run \<Rightarrow>
          if rn_state run = Run_Closed then (Event_Run_Closed, jd)
          else append_event_locked lib env run_id category type payload occurred_at jd)"

section \<open>Start\<close>

definition add_record :: "(string \<times> Run) list \<times> string list \<Rightarrow> Run \<Rightarrow> (string \<times> Run) list \<times> string list" where
  "add_record ro run =
     (AList.update (rn_run_id run) run (fst ro),
      if map_of (fst ro) (rn_run_id run) = None then snd ro @ [rn_run_id run] else snd ro)"

definition abandon :: "u64 \<Rightarrow> Run \<Rightarrow> Run" where
  "abandon t run = run\<lparr> rn_state := Run_Closed, rn_close_reason := Some Abandoned, rn_ended_at_epoch_ms := Some t \<rparr>"

record RecoverEnv =
  rv_now :: u64
  rv_record :: AppendEnv
  rv_event :: AppendEnv

definition drop_seq :: "string \<Rightarrow> RunJournal \<Rightarrow> RunJournal" where
  "drop_seq run_id j = j\<lparr> rj_next_seq := AList.delete run_id (rj_next_seq j) \<rparr>"

text \<open>The runs left open are closed in order. \<open>Some\<close>: a record could not be persisted, or an exception was thrown.\<close>

fun recover_runs :: "JsonLib \<Rightarrow> (string \<Rightarrow> RecoverEnv) \<Rightarrow> string list \<Rightarrow> RunJournal \<times> Disk \<Rightarrow> append_outcome option \<times> RunJournal \<times> Disk" where
  "recover_runs lib env [] jd = (None, jd)"
| "recover_runs lib env (run_id # ids) (j, disk) =
     (case map_of (rj_runs j) run_id of
        None \<Rightarrow> recover_runs lib env ids (j, disk)
      | Some run \<Rightarrow>
          if rn_state run = Run_Closed then recover_runs lib env ids (j, disk)
          else let run = abandon (rv_now (env run_id)) run;
                   j = j\<lparr> rj_runs := AList.update run_id run (rj_runs j) \<rparr>;
                   (out, disk) = append_record lib (rv_record (env run_id)) run (j, disk) in
            if out \<noteq> Synced then (Some out, j, disk)
            else let (res, j, disk) = append_event_locked lib (rv_event (env run_id)) run_id RunClosed ''abandoned''
                       (json_object [(''recovery'', JBool True)]) (rv_now (env run_id)) (j, disk) in
              if res = Event_Failed Append_Throws then (Some Append_Throws, j, disk)
              else recover_runs lib env ids (drop_seq run_id j, disk))"

record InitEnv =
  in_create_ok :: bool
  in_read_ok :: bool
  in_recover :: "string \<Rightarrow> RecoverEnv"

datatype journal_init_error = Init_No_Directory | Init_Not_Persisted append_outcome

definition init_journal :: "JsonLib \<Rightarrow> InitEnv \<Rightarrow> RunJournal \<times> Disk \<Rightarrow> journal_init_error option \<times> RunJournal \<times> Disk" where
  "init_journal lib env jd =
     (let (j, disk) = jd in
      if \<not> in_create_ok env then (Some Init_No_Directory, j, disk)
      else let (runs, order) = foldl add_record (rj_runs j, rj_order j)
                 (log_records (read_run lib) (if in_read_ok env then content (dk_files disk) (index_path j) else []));
               (res, jd) = recover_runs lib (in_recover env) order (j\<lparr> rj_runs := runs, rj_order := order, rj_open_run_id := None \<rparr>, disk)
           in (map_option Init_Not_Persisted res, jd))"

section \<open>Opening and closing\<close>

record OpenEnv =
  oe_run_id :: string
  oe_now :: u64
  oe_version :: string
  oe_record :: AppendEnv
  oe_event :: AppendEnv

datatype OpenResult = Open_Ok Run | Open_Already string | Open_Failed append_outcome

text \<open>\<open>oe_run_id\<close>: the ULID minted for the run.\<close>

definition new_run :: "OpenEnv \<Rightarrow> RunOpenSpec \<Rightarrow> AutomationVersionRecord option \<Rightarrow> RunJournal \<Rightarrow> Run" where
  "new_run env spec version j =
     \<lparr> rn_run_id = rj_runtime_name j @ ''-'' @ oe_run_id env, rn_label = op_label spec, rn_state = Run_Open, rn_close_reason = None,
       rn_started_at_epoch_ms = oe_now env, rn_ended_at_epoch_ms = None, rn_automation_version = version,
       rn_runtime_version = oe_version env, rn_polling_interval_ms = rj_polling_interval_ms j,
       rn_params = op_params spec, rn_tag_scope = op_tag_scope spec, rn_schema_version = 1 \<rparr>"

definition open_run :: "JsonLib \<Rightarrow> OpenEnv \<Rightarrow> RunOpenSpec \<Rightarrow> AutomationVersionRecord option \<Rightarrow> RunJournal \<times> Disk \<Rightarrow> OpenResult \<times> RunJournal \<times> Disk" where
  "open_run lib env spec version jd =
     (let (j, disk) = jd in
      case rj_open_run_id j of
        Some other \<Rightarrow> (Open_Already other, j, disk)
      | None \<Rightarrow>
          (let j = j\<lparr> rj_mint_counter := rj_mint_counter j + 1 \<rparr>;
               run = new_run env spec version j; run_id = rn_run_id run;
               (out, disk) = append_record lib (oe_record env) run (j, disk) in
           if out \<noteq> Synced then (Open_Failed out, j, disk)
           else let j = j\<lparr> rj_runs := AList.update run_id run (rj_runs j), rj_order := rj_order j @ [run_id],
                            rj_open_run_id := Some run_id \<rparr>;
                    (res, j, disk) = append_event_locked lib (oe_event env) run_id RunOpened [] (JObject []) (oe_now env) (j, disk) in
             if res = Event_Failed Append_Throws then (Open_Failed Append_Throws, j, disk) else (Open_Ok run, j, disk)))"

record CloseEnv =
  cl_now :: u64
  cl_record :: AppendEnv
  cl_event :: AppendEnv

datatype CloseResult = Close_Ok Run | Close_Unknown | Close_Not_Persisted append_outcome

definition closed_as :: "CloseReason \<Rightarrow> u64 \<Rightarrow> Run \<Rightarrow> Run" where
  "closed_as reason t run = run\<lparr> rn_state := Run_Closed, rn_close_reason := Some reason, rn_ended_at_epoch_ms := Some t \<rparr>"

definition close_run :: "JsonLib \<Rightarrow> CloseEnv \<Rightarrow> string \<Rightarrow> CloseReason \<Rightarrow> RunJournal \<times> Disk \<Rightarrow> CloseResult \<times> RunJournal \<times> Disk" where
  "close_run lib env run_id reason jd =
     (let (j, disk) = jd in
      case map_of (rj_runs j) run_id of
        None \<Rightarrow> (Close_Unknown, j, disk)
      | Some run \<Rightarrow>
          if rn_state run = Run_Closed then (Close_Ok run, j, disk)
          else let updated = closed_as reason (cl_now env) run;
                   (out, disk) = append_record lib (cl_record env) updated (j, disk) in
            if out \<noteq> Synced then (Close_Not_Persisted out, j, disk)
            else let j = j\<lparr> rj_runs := AList.update run_id updated (rj_runs j) \<rparr>;
                     (res, j, disk) = append_event_locked lib (cl_event env) run_id RunClosed (close_reason_to_string reason)
                       (JObject []) (cl_now env) (j, disk) in
              if res = Event_Failed Append_Throws then (Close_Not_Persisted Append_Throws, j, disk)
              else let j = drop_seq run_id j in
                (Close_Ok updated, if rj_open_run_id j = Some run_id then j\<lparr> rj_open_run_id := None \<rparr> else j, disk))"

section \<open>The queue of the tick thread\<close>

definition enqueue_event :: "QueuedEvent \<Rightarrow> RunJournal \<Rightarrow> RunJournal" where
  "enqueue_event event j =
     (if kMaxFaultQueue \<le> length (rj_fault_queue j) then j\<lparr> rj_events_dropped := rj_events_dropped j + 1 \<rparr>
      else j\<lparr> rj_fault_queue := rj_fault_queue j @ [event] \<rparr>)"

definition enqueue_fault :: "string \<Rightarrow> string \<Rightarrow> u64 \<Rightarrow> RunJournal \<Rightarrow> RunJournal" where
  "enqueue_fault locus message occurred_at =
     enqueue_event \<lparr> qe_category = AutomationFault, qe_type = locus, qe_payload = json_object [(''message'', JString message)],
                     qe_occurred_at_epoch_ms = occurred_at \<rparr>"

text \<open>\<open>now\<close>: the clock read on the tick thread.\<close>

definition record_mode_change :: "JsonLib \<Rightarrow> AppendEnv \<Rightarrow> u64 \<Rightarrow> string \<Rightarrow> string \<Rightarrow> bool \<Rightarrow> RunJournal \<times> Disk \<Rightarrow> RunJournal \<times> Disk" where
  "record_mode_change lib env now previous_mode new_mode from_tick_thread jd =
     (let payload = json_object [(''previous_mode'', JString previous_mode), (''new_mode'', JString new_mode)] in
      if from_tick_thread
      then (enqueue_event \<lparr> qe_category = ModeChange, qe_type = [], qe_payload = payload, qe_occurred_at_epoch_ms = now \<rparr> (fst jd), snd jd)
      else case rj_open_run_id (fst jd) of
        None \<Rightarrow> jd
      | Some open_id \<Rightarrow> snd (append_event lib env open_id ModeChange [] payload 0 jd))"

text \<open>One turn of \<open>writer_loop\<close> on a queue that is not empty.\<close>

definition writer_turn :: "JsonLib \<Rightarrow> AppendEnv \<Rightarrow> RunJournal \<times> Disk \<Rightarrow> RunJournal \<times> Disk" where
  "writer_turn lib env jd =
     (case rj_fault_queue (fst jd) of
        [] \<Rightarrow> jd
      | item # rest \<Rightarrow>
          (let j = (fst jd)\<lparr> rj_fault_queue := rest \<rparr> in
           case rj_open_run_id j of
             None \<Rightarrow> (if qe_category item = AutomationFault then j\<lparr> rj_events_dropped := rj_events_dropped j + 1 \<rparr> else j, snd jd)
           | Some open_id \<Rightarrow>
               snd (append_event_locked lib env open_id (qe_category item) (qe_type item) (qe_payload item)
                      (qe_occurred_at_epoch_ms item) (j, snd jd))))"

section \<open>Queries\<close>

definition list_events :: "JsonLib \<Rightarrow> string \<Rightarrow> nat \<Rightarrow> nat \<Rightarrow> RunJournal \<times> Disk \<Rightarrow> RunEvent list" where
  "list_events lib run_id limit offset jd =
     take limit (drop offset (log_records (read_event lib) (content (dk_files (snd jd)) (events_path (fst jd) run_id))))"

definition get_run :: "string \<Rightarrow> RunJournal \<Rightarrow> Run option" where
  "get_run run_id j = map_of (rj_runs j) run_id"

definition list_runs :: "nat \<Rightarrow> nat \<Rightarrow> RunJournal \<Rightarrow> Run list" where
  "list_runs limit offset j =
     take limit (List.map_filter (\<lambda>run_id. map_of (rj_runs j) run_id) (drop offset (rev (rj_order j))))"

section \<open>Sessions\<close>

text \<open>\<open>Runtime::init_runs\<close>: a journal that cannot be initialised is dropped.\<close>

record RunsConfig =
  ru_data_dir :: path
  ru_name :: string
  ru_polling_interval_ms :: int

definition runs_dir :: "RunsConfig \<Rightarrow> path" where
  "runs_dir cfg = (if ru_data_dir cfg = [] then [''anolis-data''] else ru_data_dir cfg)"

definition init_runs :: "JsonLib \<Rightarrow> RunsConfig \<Rightarrow> InitEnv \<Rightarrow> Disk \<Rightarrow> RunJournal option \<times> Disk" where
  "init_runs lib cfg env disk =
     (let runtime_name = (if ru_name cfg = [] then ''default'' else ru_name cfg);
          (error, j, disk) = init_journal lib env (new_journal (runs_dir cfg) runtime_name (ru_polling_interval_ms cfg), disk)
      in (if error = None then Some j else None, disk))"

text \<open>The operations of a runtime's life, with restarts of the process and power cuts between them.\<close>

datatype journal_op =
    J_Open OpenEnv RunOpenSpec "AutomationVersionRecord option"
  | J_Close CloseEnv string CloseReason
  | J_Event AppendEnv string RunEventCategory string json u64
  | J_Mode AppendEnv u64 string string bool
  | J_Fault string string u64
  | J_Writer AppendEnv
  | J_Restart InitEnv
  | J_Power_Cut "path \<Rightarrow> nat" InitEnv

fun journal_op_on :: "JsonLib \<Rightarrow> journal_op \<Rightarrow> RunJournal \<times> Disk \<Rightarrow> RunJournal \<times> Disk" where
  "journal_op_on lib (J_Open env spec version) jd = snd (open_run lib env spec version jd)"
| "journal_op_on lib (J_Close env run_id reason) jd = snd (close_run lib env run_id reason jd)"
| "journal_op_on lib (J_Event env run_id category type payload t) jd = snd (append_event lib env run_id category type payload t jd)"
| "journal_op_on lib (J_Mode env now prv nxt tick) jd = record_mode_change lib env now prv nxt tick jd"
| "journal_op_on lib (J_Fault locus message t) jd = (enqueue_fault locus message t (fst jd), snd jd)"
| "journal_op_on lib (J_Writer env) jd = writer_turn lib env jd"
| "journal_op_on lib (J_Restart env) jd = jd"
| "journal_op_on lib (J_Power_Cut left env) jd = jd"

definition journal_step :: "JsonLib \<Rightarrow> RunsConfig \<Rightarrow> RunJournal option \<times> Disk \<Rightarrow> journal_op \<Rightarrow> RunJournal option \<times> Disk" where
  "journal_step lib cfg s op =
     (case op of
        J_Restart env \<Rightarrow> init_runs lib cfg env (snd s)
      | J_Power_Cut left env \<Rightarrow> init_runs lib cfg env (power_cut left (snd s))
      | _ \<Rightarrow> (case fst s of None \<Rightarrow> s | Some j \<Rightarrow> map_prod Some id (journal_op_on lib op (j, snd s))))"

definition journal_run :: "JsonLib \<Rightarrow> RunsConfig \<Rightarrow> journal_op list \<Rightarrow> RunJournal option \<times> Disk \<Rightarrow> RunJournal option \<times> Disk" where
  "journal_run lib cfg ops s = foldl (journal_step lib cfg) s ops"

lemma journal_step_cases:
  "journal_step lib cfg s op = (case fst s of None \<Rightarrow> s | Some j \<Rightarrow> map_prod Some id (journal_op_on lib op (j, snd s))) \<or>
   (\<exists>env. op = J_Restart env) \<or> (\<exists>left env. op = J_Power_Cut left env)"
  by (cases op; cases "fst s") (simp_all add: journal_step_def)

text \<open>An invariant of the journal and its files, established by every start and kept by every operation, holds
  at every point of a session. The index counts the operations so far.\<close>

locale journal_invariant =
  fixes lib :: JsonLib and cfg :: RunsConfig and ok :: "journal_op \<Rightarrow> bool"
    and kept :: "nat \<Rightarrow> RunJournal \<times> Disk \<Rightarrow> bool" and on_disk :: "nat \<Rightarrow> Disk \<Rightarrow> bool"
  assumes disk: "kept n (j, d) \<Longrightarrow> on_disk n d"
    and more: "on_disk n d \<Longrightarrow> on_disk (Suc n) d"
    and by_op: "kept n (j, d) \<Longrightarrow> ok op \<Longrightarrow> kept (Suc n) (journal_op_on lib op (j, d))"
    and by_cut: "on_disk n d \<Longrightarrow> on_disk n (power_cut left d)"
    and by_start: "on_disk n d \<Longrightarrow> ok (J_Restart env) \<Longrightarrow> init_runs lib cfg env d = (m, d') \<Longrightarrow>
      on_disk (Suc n) d' \<and> (\<forall>j. m = Some j \<longrightarrow> kept (Suc n) (j, d'))"
    and ok_cut: "ok (J_Power_Cut left env) \<Longrightarrow> ok (J_Restart env)"
begin

definition session :: "nat \<Rightarrow> RunJournal option \<times> Disk \<Rightarrow> bool" where
  "session n s \<longleftrightarrow> on_disk n (snd s) \<and> (\<forall>j. fst s = Some j \<longrightarrow> kept n (j, snd s))"

lemma session_start: "on_disk n d \<Longrightarrow> ok (J_Restart env) \<Longrightarrow> session (Suc n) (init_runs lib cfg env d)"
  using by_start [of n d env] by (cases "init_runs lib cfg env d") (simp add: session_def)

lemma session_op:
  assumes "session n s" "ok op"
  shows "session (Suc n) (case fst s of None \<Rightarrow> s | Some j \<Rightarrow> map_prod Some id (journal_op_on lib op (j, snd s)))"
proof (cases "fst s")
  case None
  then show ?thesis using assms more by (simp add: session_def)
next
  case (Some j)
  obtain j' d' where r: "journal_op_on lib op (j, snd s) = (j', d')" by fastforce
  then have "kept (Suc n) (j', d')" using by_op [OF _ assms(2), of n j "snd s"] assms(1) Some by (simp add: session_def)
  then show ?thesis using Some r disk by (simp add: session_def)
qed

lemma session_step: "session n s \<Longrightarrow> ok op \<Longrightarrow> session (Suc n) (journal_step lib cfg s op)"
proof -
  assume s: "session n s" "ok op"
  have d: "on_disk n (snd s)" using s by (simp add: session_def)
  have restart: "op = J_Restart env \<Longrightarrow> ?thesis" for env using session_start [OF d] s(2) by (simp add: journal_step_def)
  have cut: "op = J_Power_Cut left env \<Longrightarrow> ?thesis" for left env
    using session_start [OF by_cut [OF d]] ok_cut s(2) by (simp add: journal_step_def)
  show ?thesis using session_op [OF s] restart cut journal_step_cases [of lib cfg s op] by metis
qed

lemma session_run: "session n s \<Longrightarrow> list_all ok ops \<Longrightarrow> session (n + length ops) (journal_run lib cfg ops s)"
  unfolding journal_run_def by (induction ops arbitrary: n s) (use session_step in fastforce)+

end

section \<open>Durability\<close>

text \<open>The record a replay of a log leaves for a run.\<close>

definition latest :: "string \<Rightarrow> Run list \<Rightarrow> Run option" where
  "latest run_id rs = map_of (map (\<lambda>r. (rn_run_id r, r)) (rev rs)) run_id"

lemma latest_append [simp]:
  "latest run_id (rs @ [r]) = (if rn_run_id r = run_id then Some r else latest run_id rs)"
  by (simp add: latest_def)

lemma latest_in: "latest run_id rs = Some r \<Longrightarrow> r \<in> set rs \<and> rn_run_id r = run_id"
  by (auto simp: latest_def dest!: map_of_SomeD)

lemma replay_latest:
  "map_of (fst (foldl add_record (runs, order) rs)) run_id = (case latest run_id rs of Some r \<Rightarrow> Some r | None \<Rightarrow> map_of runs run_id)"
proof (induction rs rule: rev_induct)
  case (snoc r rs)
  then show ?case by (cases "foldl add_record (runs, order) rs") (simp add: add_record_def update_conv' split: option.splits)
qed (simp add: latest_def)

text \<open>What may become of a run on record: a closed run stays as it is, an open one may be closed.\<close>

definition evolves :: "Run \<Rightarrow> Run \<Rightarrow> bool" where
  "evolves r0 r \<longleftrightarrow> r = r0 \<or> rn_state r0 = Run_Open \<and> (\<exists>reason t. r = closed_as reason t r0)"

lemma evolves_refl [simp]: "evolves r r"
  by (simp add: evolves_def)

lemma evolves_closed: "rn_state r0 = Run_Closed \<Longrightarrow> evolves r0 r \<longleftrightarrow> r = r0"
  by (auto simp: evolves_def)

lemma evolves_close: "evolves r0 r \<Longrightarrow> rn_state r = Run_Open \<Longrightarrow> evolves r0 (closed_as reason t r)"
  by (auto simp: evolves_def closed_as_def)

lemma abandon_closed_as: "abandon t r = closed_as Abandoned t r"
  by (simp add: abandon_def closed_as_def)

lemma closed_as_simps [simp]:
  "rn_run_id (closed_as reason t r) = rn_run_id r" "rn_state (closed_as reason t r) = Run_Closed"
  "run_wf (closed_as reason t r) = run_wf r"
  by (simp_all add: closed_as_def run_wf_def)

text \<open>What is known of a run, or of there being none, and stays true when the run is closed.\<close>

definition closing :: "(Run option \<Rightarrow> bool) \<Rightarrow> bool" where
  "closing good \<longleftrightarrow> (\<forall>r reason t. good (Some r) \<and> rn_state r = Run_Open \<longrightarrow> good (Some (closed_as reason t r)))"

text \<open>Whatever a power cut leaves of the log, it is known of the run a replay finds.\<close>

definition durable :: "JsonLib \<Rightarrow> path \<Rightarrow> string \<Rightarrow> (Run option \<Rightarrow> bool) \<Rightarrow> Disk \<Rightarrow> bool" where
  "durable lib p run_id good d \<longleftrightarrow> closing good \<and> disk_ok d p \<and> cut_safe (read_run lib) (content (dk_files d) p) \<and>
     (\<forall>n \<ge> guaranteed d p. good (latest run_id (log_records (read_run lib) (take n (content (dk_files d) p)))))"

lemma durable_whole:
  assumes "durable lib p run_id good d"
  shows "good (latest run_id (log_records (read_run lib) (content (dk_files d) p)))"
proof -
  let ?n = "max (guaranteed d p) (length (content (dk_files d) p))"
  have "take ?n (content (dk_files d) p) = content (dk_files d) p" by simp
  moreover have "good (latest run_id (log_records (read_run lib) (take ?n (content (dk_files d) p))))"
    using assms unfolding durable_def by (elim conjE allE [of _ ?n] impE) simp_all
  ultimately show ?thesis by (simp only:)
qed

lemma durable_allI:
  assumes "closing good" "disk_ok d p" "cut_safe (read_run lib) (content (dk_files d) p)" "guaranteed d p = length (content (dk_files d) p)"
    and "good (latest run_id (log_records (read_run lib) (content (dk_files d) p)))"
  shows "durable lib p run_id good d"
  using assms unfolding durable_def by auto

lemma durable_power_cut:
  assumes "durable lib p run_id good d"
  shows "durable lib p run_id good (power_cut left d)"
proof -
  obtain n where n: "guaranteed d p \<le> n" "content (dk_files (power_cut left d)) p = take n (content (dk_files d) p)"
      "guaranteed (power_cut left d) p = length (content (dk_files (power_cut left d)) p)"
    using power_cut_content [of d p left] assms by (auto simp: durable_def)
  then have "good (latest run_id (log_records (read_run lib) (take n (content (dk_files d) p))))"
    using assms unfolding durable_def by blast
  with n show ?thesis using assms power_cut_disk
    by (intro durable_allI) (simp_all add: durable_def cut_safe_take)
qed

lemma run_line_ok: "json_lib_ok lib \<Longrightarrow> run_wf r \<Longrightarrow> jl_dump lib (run_to_json r) = Some s \<Longrightarrow> line_ok (read_run lib) r s"
  using run_line [of lib r s] by (simp add: line_ok_def)


lemma append_record_durable:
  assumes lib: "json_lib_ok lib" "run_wf r" "ap_read_ok env"
    and app: "append_record lib env r (j, d) = (out, d')" and p: "p = index_path j"
    and dur: "durable lib p run_id good d" and ev: "rn_run_id r = run_id \<Longrightarrow> good (Some r)"
  shows "durable lib p run_id good d'"
proof -
  let ?c = "content (dk_files d) p" and ?c' = "content (dk_files d') p" and ?rd = "read_run lib"
  have app': "append_line env p (jl_dump lib (run_to_json r)) d = (out, d')" using app p by (simp add: append_record_def)
  note a = append_line_records [OF app' lib(3) run_line_ok [OF lib(1,2)]]
  have safe': "cut_safe ?rd ?c'" and ok: "disk_ok d p" using a(2) dur by (simp_all add: durable_def)
  obtain t where t: "?c' = ?c @ t" using a(3) by (auto simp: prefix_def)
  have "good (latest run_id (log_records ?rd (take n ?c')))" if n: "guaranteed d' p \<le> n" for n
  proof (cases "n \<le> length ?c")
    case True
    then have "take n ?c' = take n ?c" using t by simp
    moreover have "guaranteed d p \<le> n" using append_line_disk(2) [OF app' ok] n by simp
    ultimately show ?thesis using dur by (auto simp: durable_def)
  next
    case False
    then have "take n ?c' = ?c @ take (n - length ?c) t" using t by simp
    then have "prefix (log_records ?rd ?c) (log_records ?rd (take n ?c'))"
      using log_records_prefix cut_safe_take [OF safe', of n] by metis
    moreover have "prefix (log_records ?rd (take n ?c')) (log_records ?rd ?c')" by (rule log_records_take [OF safe'])
    ultimately have "log_records ?rd (take n ?c') = log_records ?rd ?c \<or> log_records ?rd (take n ?c') = log_records ?rd ?c @ [r]"
      using a(1) by (auto simp: prefix_def append_eq_append_conv2 Cons_eq_append_conv split: if_splits)
    then show ?thesis using durable_whole [OF dur] ev by auto
  qed
  with safe' append_line_disk(1) [OF app' ok] dur show ?thesis by (simp add: durable_def)
qed

text \<open>A record that is reported on storage is durable, provided the log's directory entry is on storage or is
  created by this append.\<close>

lemma append_record_synced:
  assumes "json_lib_ok lib" "run_wf r" "ap_read_ok env" "append_record lib env r (j, d) = (Synced, d')" "p = index_path j"
    and "disk_ok d p" "cut_safe (read_run lib) (content (dk_files d) p)" "dk_entry d p \<or> dk_files d p = None"
    and "closing good" "good (Some r)"
  shows "durable lib p (rn_run_id r) good d'"
proof -
  have app: "append_line env p (jl_dump lib (run_to_json r)) d = (Synced, d')" using assms(4,5) by (simp add: append_record_def)
  note a = append_line_records [OF app assms(3) run_line_ok [OF assms(1,2)]]
  show ?thesis using a(1,2) append_line_disk(1,4) [OF app assms(6)] assms(7-10)
    by (intro durable_allI) (simp_all add: is_written_def)
qed


definition runs_ok :: "RunJournal \<Rightarrow> bool" where
  "runs_ok j \<longleftrightarrow> (\<forall>run_id r. map_of (rj_runs j) run_id = Some r \<longrightarrow> run_wf r \<and> rn_run_id r = run_id) \<and>
     - (2 ^ 31) \<le> rj_polling_interval_ms j \<and> rj_polling_interval_ms j < 2 ^ 31"

text \<open>The journal knows the run, and so will every later one.\<close>

definition holds_run :: "JsonLib \<Rightarrow> path \<Rightarrow> string \<Rightarrow> (Run option \<Rightarrow> bool) \<Rightarrow> RunJournal \<times> Disk \<Rightarrow> bool" where
  "holds_run lib p run_id good jd \<longleftrightarrow> index_path (fst jd) = p \<and> runs_ok (fst jd) \<and> durable lib p run_id good (snd jd) \<and>
     good (map_of (rj_runs (fst jd)) run_id)"

lemma events_path_not_index: "events_path j run_id \<noteq> index_path j"
proof
  assume "events_path j run_id = index_path j"
  then have "length (run_id @ ''.events.jsonl'') = length ''index.jsonl''" by (simp add: events_path_def index_path_def)
  then show False by simp
qed

lemma append_event_locked_frame:
  assumes "append_event_locked lib env run_id category type payload t (j, d) = (res, j', d')"
  shows "\<exists>ns. j' = j\<lparr> rj_next_seq := ns \<rparr>" and "q \<noteq> events_path j run_id \<Longrightarrow>
    dk_files d' q = dk_files d q \<and> dk_data d' q = dk_data d q \<and> dk_entry d' q = dk_entry d q"
proof -
  obtain e out where app: "append_line env (events_path j run_id) (jl_dump lib (run_event_to_json e)) d = (out, d')"
    and j': "j' = (if is_written out then j\<lparr> rj_next_seq := AList.update run_id (next_sequence lib env run_id (j, d) + 1) (rj_next_seq j) \<rparr> else j)"
    using assms by (auto simp: append_event_locked_def Let_def split: prod.splits)
  have "j = j\<lparr> rj_next_seq := rj_next_seq j \<rparr>" by simp
  with j' show "\<exists>ns. j' = j\<lparr> rj_next_seq := ns \<rparr>" by (metis (full_types))
  show "q \<noteq> events_path j run_id \<Longrightarrow> dk_files d' q = dk_files d q \<and> dk_data d' q = dk_data d q \<and> dk_entry d' q = dk_entry d q"
    using append_line_elsewhere [OF app] by blast
qed

lemma durable_cong:
  "dk_files d' p = dk_files d p \<Longrightarrow> dk_data d' p = dk_data d p \<Longrightarrow> dk_entry d' p = dk_entry d p \<Longrightarrow>
   durable lib p run_id good d' = durable lib p run_id good d"
  by (simp add: durable_def disk_ok_def guaranteed_def content_def)

lemma index_path_update [simp]:
  "index_path (j\<lparr> rj_next_seq := ns \<rparr>) = index_path j" "index_path (j\<lparr> rj_runs := rs \<rparr>) = index_path j"
  "index_path (j\<lparr> rj_open_run_id := x \<rparr>) = index_path j" "index_path (j\<lparr> rj_order := ids \<rparr>) = index_path j"
  "index_path (j\<lparr> rj_mint_counter := n \<rparr>) = index_path j" "index_path (j\<lparr> rj_fault_queue := q \<rparr>) = index_path j"
  "index_path (j\<lparr> rj_events_dropped := n \<rparr>) = index_path j"
  by (simp_all add: index_path_def)

lemma runs_ok_cong: "rj_runs j' = rj_runs j \<Longrightarrow> rj_polling_interval_ms j' = rj_polling_interval_ms j \<Longrightarrow> runs_ok j' = runs_ok j"
  by (simp add: runs_ok_def)

lemma holds_run_memory:
  "holds_run lib p run_id good (j, d) \<Longrightarrow> rj_runs j' = rj_runs j \<Longrightarrow> rj_polling_interval_ms j' = rj_polling_interval_ms j \<Longrightarrow>
   index_path j' = index_path j \<Longrightarrow> holds_run lib p run_id good (j', d)"
  using runs_ok_cong [of j' j] by (simp add: holds_run_def)

lemma holds_run_event:
  assumes "append_event_locked lib env id' category type payload t (j, d) = (res, j', d')" "holds_run lib p run_id good (j, d)"
  shows "holds_run lib p run_id good (j', d')"
proof -
  note f = append_event_locked_frame [OF assms(1)]
  obtain ns where j': "j' = j\<lparr> rj_next_seq := ns \<rparr>" using f(1) by blast
  have p: "p = index_path j" using assms(2) by (simp add: holds_run_def)
  have "durable lib p run_id good d' = durable lib p run_id good d"
    using f(2) [of p] events_path_not_index [of j id'] p by (intro durable_cong) auto
  then have "holds_run lib p run_id good (j, d')" using assms(2) by (simp add: holds_run_def)
  then show ?thesis using j' holds_run_memory by fastforce
qed

lemma holds_run_record:
  assumes "json_lib_ok lib" "run_wf r" "ap_read_ok env" "append_record lib env r (j, d) = (out, d')"
    and "holds_run lib p run_id good (j, d)" and "rn_run_id r = run_id \<Longrightarrow> good (Some r)"
  shows "holds_run lib p run_id good (j, d')"
  using assms append_record_durable [OF assms(1-4) refl, of run_id good] by (auto simp: holds_run_def)

lemma holds_run_put:
  assumes "holds_run lib p run_id good (j, d)" "run_wf r" "rn_run_id r = run_id \<Longrightarrow> good (Some r)"
  shows "holds_run lib p run_id good (j\<lparr> rj_runs := AList.update (rn_run_id r) r (rj_runs j) \<rparr>, d)"
  using assms by (auto simp: holds_run_def runs_ok_def update_conv')


lemma holds_run_closed_as:
  assumes "holds_run lib p run_id good (j, d)" "map_of (rj_runs j) id' = Some run" "rn_state run \<noteq> Run_Closed"
  shows "run_wf (closed_as reason t run)" "rn_run_id (closed_as reason t run) = id'"
    and "rn_run_id (closed_as reason t run) = run_id \<Longrightarrow> good (Some (closed_as reason t run))"
proof -
  have st: "rn_state run = Run_Open" using assms(3) by (cases "rn_state run") simp_all
  show wf: "run_wf (closed_as reason t run)" and i: "rn_run_id (closed_as reason t run) = id'"
    using assms(1,2) by (auto simp: holds_run_def runs_ok_def)
  show "rn_run_id (closed_as reason t run) = run_id \<Longrightarrow> good (Some (closed_as reason t run))"
    using assms(1,2) i st by (auto simp: holds_run_def durable_def closing_def)
qed

lemma holds_run_drop_seq: "holds_run lib p run_id good (j, d) \<Longrightarrow> holds_run lib p run_id good (drop_seq id' j, d)"
  by (erule holds_run_memory) (simp_all add: drop_seq_def)

lemma close_run_holds:
  assumes "json_lib_ok lib" "ap_read_ok (cl_record env)" and h: "holds_run lib p run_id good (j, d)"
  shows "holds_run lib p run_id good (snd (close_run lib env id' reason (j, d)))"
proof (cases "map_of (rj_runs j) id'")
  case None
  then show ?thesis using h by (simp add: close_run_def)
next
  case (Some run)
  show ?thesis
  proof (cases "rn_state run = Run_Closed")
    case True
    then show ?thesis using Some h by (simp add: close_run_def)
  next
    case False
    let ?r = "closed_as reason (cl_now env) run"
    note c = holds_run_closed_as [OF h Some False, of reason "cl_now env"]
    obtain out d1 where rec: "append_record lib (cl_record env) ?r (j, d) = (out, d1)" by fastforce
    have h1: "holds_run lib p run_id good (j, d1)" by (rule holds_run_record [OF assms(1) c(1) assms(2) rec h c(3)])
    let ?j = "j\<lparr> rj_runs := AList.update id' ?r (rj_runs j) \<rparr>"
    have h2: "holds_run lib p run_id good (?j, d1)" using holds_run_put [OF h1 c(1) c(3)] c(2) by simp
    obtain res j3 d3 where ev: "append_event_locked lib (cl_event env) id' RunClosed (close_reason_to_string reason)
        (JObject []) (cl_now env) (?j, d1) = (res, j3, d3)" by (metis prod_cases3)
    have h3: "holds_run lib p run_id good (j3, d3)" by (rule holds_run_event [OF ev h2])
    have h4: "holds_run lib p run_id good (drop_seq id' j3, d3)" by (rule holds_run_drop_seq [OF h3])
    then have "holds_run lib p run_id good ((drop_seq id' j3)\<lparr> rj_open_run_id := None \<rparr>, d3)" by (rule holds_run_memory) simp_all
    with h1 h3 h4 Some False rec ev show ?thesis by (simp add: close_run_def Let_def)
  qed
qed

lemma open_run_holds:
  assumes "json_lib_ok lib" "ap_read_ok (oe_record env)" "json_wf (op_params spec)" "is_object (op_params spec)"
    and h: "holds_run lib p run_id good (j, d)" and fresh: "rj_runtime_name j @ ''-'' @ oe_run_id env \<noteq> run_id"
  shows "holds_run lib p run_id good (snd (open_run lib env spec version (j, d)))"
proof (cases "rj_open_run_id j")
  case (Some other)
  then show ?thesis using h by (simp add: open_run_def)
next
  case None
  let ?j = "j\<lparr> rj_mint_counter := rj_mint_counter j + 1 \<rparr>"
  define r where "r = new_run env spec version ?j"
  have h0: "holds_run lib p run_id good (?j, d)" using h by (rule holds_run_memory) simp_all
  have wf: "run_wf r" and ne: "rn_run_id r \<noteq> run_id"
    using assms h fresh by (simp_all add: r_def new_run_def run_wf_def holds_run_def runs_ok_def)
  obtain out d1 where rec: "append_record lib (oe_record env) r (?j, d) = (out, d1)" by fastforce
  have h1: "holds_run lib p run_id good (?j, d1)" using holds_run_record [OF assms(1) wf assms(2) rec h0] ne by simp
  let ?j2 = "?j\<lparr> rj_runs := AList.update (rn_run_id r) r (rj_runs ?j), rj_order := rj_order ?j @ [rn_run_id r],
                  rj_open_run_id := Some (rn_run_id r) \<rparr>"
  have "holds_run lib p run_id good (?j\<lparr> rj_runs := AList.update (rn_run_id r) r (rj_runs ?j) \<rparr>, d1)"
    using holds_run_put [OF h1 wf] ne by simp
  then have h2: "holds_run lib p run_id good (?j2, d1)" by (rule holds_run_memory) simp_all
  obtain res j3 d3 where ev: "append_event_locked lib (oe_event env) (rn_run_id r) RunOpened [] (JObject []) (oe_now env) (?j2, d1) = (res, j3, d3)"
    by (metis prod_cases3)
  have h3: "holds_run lib p run_id good (j3, d3)" by (rule holds_run_event [OF ev h2])
  show ?thesis using None h1 h3 rec ev by (simp add: open_run_def Let_def r_def)
qed

text \<open>The recovery of the open runs.\<close>

declare recover_runs.simps(2) [simp del]

lemma recover_runs_holds:
  assumes "json_lib_ok lib" "\<And>i. ap_read_ok (rv_record (env i))" and "holds_run lib p run_id good (j, d)"
  shows "holds_run lib p run_id good (snd (recover_runs lib env ids (j, d)))"
  using assms(3)
proof (induction ids arbitrary: j d)
  case (Cons id' ids)
  note h = Cons.prems
  show ?case
  proof (cases "map_of (rj_runs j) id'")
    case None
    then show ?thesis using Cons.IH [OF h] by (simp add: recover_runs.simps(2))
  next
    case (Some run)
    show ?thesis
    proof (cases "rn_state run = Run_Closed")
      case True
      then show ?thesis using Cons.IH [OF h] Some by (simp add: recover_runs.simps(2))
    next
      case False
      let ?r = "closed_as Abandoned (rv_now (env id')) run"
      note c = holds_run_closed_as [OF h Some False, of Abandoned "rv_now (env id')"]
      let ?j = "j\<lparr> rj_runs := AList.update id' ?r (rj_runs j) \<rparr>"
      have h1: "holds_run lib p run_id good (?j, d)" using holds_run_put [OF h c(1) c(3)] c(2) by simp
      obtain out d1 where rec: "append_record lib (rv_record (env id')) ?r (?j, d) = (out, d1)" by fastforce
      have h2: "holds_run lib p run_id good (?j, d1)" by (rule holds_run_record [OF assms(1) c(1) assms(2) rec h1 c(3)])
      obtain res j3 d3 where ev: "append_event_locked lib (rv_event (env id')) id' RunClosed ''abandoned''
          (json_object [(''recovery'', JBool True)]) (rv_now (env id')) (?j, d1) = (res, j3, d3)" by (metis prod_cases3)
      have h3: "holds_run lib p run_id good (j3, d3)" by (rule holds_run_event [OF ev h2])
      note h4 = Cons.IH [OF holds_run_drop_seq [OF h3, of id']]
      show ?thesis using h2 h3 h4 Some False rec ev by (simp add: recover_runs.simps(2) Let_def abandon_closed_as)
    qed
  qed
qed simp


lemma log_records_in: "r \<in> set (log_records read s) \<Longrightarrow> \<exists>line. read line = Some r"
  by (auto simp: log_records_def List.map_filter_def)

definition index_of :: "RunsConfig \<Rightarrow> path" where
  "index_of cfg = runs_dir cfg @ [''runs'', ''index.jsonl'']"

definition config_ok :: "RunsConfig \<Rightarrow> bool" where
  "config_ok cfg \<longleftrightarrow> - (2 ^ 31) \<le> ru_polling_interval_ms cfg \<and> ru_polling_interval_ms cfg < 2 ^ 31"

definition init_reads :: "InitEnv \<Rightarrow> bool" where
  "init_reads env \<longleftrightarrow> in_read_ok env \<and> (\<forall>run_id. ap_read_ok (rv_record (in_recover env run_id)) \<and> ap_read_ok (rv_event (in_recover env run_id)))"

text \<open>The journal that the log alone gives.\<close>

definition replayed :: "JsonLib \<Rightarrow> RunJournal \<Rightarrow> Disk \<Rightarrow> RunJournal" where
  "replayed lib j d =
     (let (runs, order) = foldl add_record (rj_runs j, rj_order j) (log_records (read_run lib) (content (dk_files d) (index_path j)))
      in j\<lparr> rj_runs := runs, rj_order := order, rj_open_run_id := None \<rparr>)"

lemma init_journal_replayed:
  "in_create_ok env \<Longrightarrow> in_read_ok env \<Longrightarrow> init_journal lib env (j, d) =
     (let (res, jd) = recover_runs lib (in_recover env) (rj_order (replayed lib j d)) (replayed lib j d, d) in (map_option Init_Not_Persisted res, jd))"
  by (simp add: init_journal_def replayed_def Let_def split: prod.splits)

lemma replayed_runs:
  assumes "rj_runs j = []"
  shows "map_of (rj_runs (replayed lib j d)) run_id = latest run_id (log_records (read_run lib) (content (dk_files d) (index_path j)))"
  using replay_latest [of "rj_runs j" "rj_order j" "log_records (read_run lib) (content (dk_files d) (index_path j))" run_id] assms
  by (auto simp: replayed_def case_prod_beta split: option.splits)

lemma replayed_simps [simp]:
  "index_path (replayed lib j d) = index_path j" "rj_polling_interval_ms (replayed lib j d) = rj_polling_interval_ms j"
  "rj_runtime_name (replayed lib j d) = rj_runtime_name j" "rj_next_seq (replayed lib j d) = rj_next_seq j"
  "rj_fault_queue (replayed lib j d) = rj_fault_queue j" "rj_open_run_id (replayed lib j d) = None"
  "rj_data_dir (replayed lib j d) = rj_data_dir j"
  by (simp_all add: replayed_def split: prod.splits)

lemma replayed_ok:
  assumes "json_lib_ok lib" "rj_runs j = []" "- (2 ^ 31) \<le> rj_polling_interval_ms j" "rj_polling_interval_ms j < 2 ^ 31"
  shows "runs_ok (replayed lib j d)"
  using assms unfolding runs_ok_def
  by (auto simp: replayed_runs dest!: latest_in log_records_in intro: read_run_wf)

definition fresh_journal :: "RunsConfig \<Rightarrow> RunJournal" where
  "fresh_journal cfg = new_journal (runs_dir cfg) (if ru_name cfg = [] then ''default'' else ru_name cfg) (ru_polling_interval_ms cfg)"

lemma init_runs_cases:
  assumes "init_reads env"
  shows "init_runs lib cfg env d =
    (if \<not> in_create_ok env then (None, d)
     else let (res, j, d') = recover_runs lib (in_recover env) (rj_order (replayed lib (fresh_journal cfg) d)) (replayed lib (fresh_journal cfg) d, d)
          in (if res = None then Some j else None, d'))"
  using assms init_journal_replayed [of env lib "fresh_journal cfg" d]
  by (simp add: init_runs_def fresh_journal_def init_reads_def init_journal_def [of lib env] Let_def split: prod.splits)

lemma fresh_journal_simps [simp]:
  "rj_runs (fresh_journal cfg) = []" "index_path (fresh_journal cfg) = index_of cfg" "rj_data_dir (fresh_journal cfg) = runs_dir cfg"
  "rj_polling_interval_ms (fresh_journal cfg) = ru_polling_interval_ms cfg" "rj_next_seq (fresh_journal cfg) = []"
  "rj_fault_queue (fresh_journal cfg) = []" "rj_order (fresh_journal cfg) = []"
  by (simp_all add: fresh_journal_def new_journal_def index_path_def index_of_def)

lemma init_runs_holds:
  assumes "json_lib_ok lib" "config_ok cfg" "init_reads env" "durable lib (index_of cfg) run_id good d"
    and "init_runs lib cfg env d = (m, d')"
  shows "durable lib (index_of cfg) run_id good d' \<and> (\<forall>j. m = Some j \<longrightarrow> holds_run lib (index_of cfg) run_id good (j, d'))"
proof -
  let ?j = "replayed lib (fresh_journal cfg) d"
  have "holds_run lib (index_of cfg) run_id good (?j, d)"
    using assms(1,2,4) durable_whole [OF assms(4)] replayed_ok [of lib "fresh_journal cfg" d]
    by (simp add: holds_run_def replayed_runs config_ok_def)
  then have "holds_run lib (index_of cfg) run_id good (snd (recover_runs lib (in_recover env) (rj_order ?j) (?j, d)))"
    using assms(1,3) by (intro recover_runs_holds) (simp_all add: init_reads_def)
  then show ?thesis using assms(4,5) unfolding init_runs_cases [OF assms(3)]
    by (auto simp: Let_def holds_run_def split: if_splits prod.splits)
qed

lemma append_event_holds:
  "holds_run lib p run_id good (j, d) \<Longrightarrow> holds_run lib p run_id good (snd (append_event lib env id' category type payload t (j, d)))"
  using holds_run_event [of lib env id' category type payload t j d] 
  by (cases "append_event_locked lib env id' category type payload t (j, d)") (auto simp: append_event_def split: option.split)

lemma enqueue_event_holds: "holds_run lib p run_id good (j, d) \<Longrightarrow> holds_run lib p run_id good (enqueue_event e j, d)"
  by (erule holds_run_memory) (simp_all add: enqueue_event_def)

lemma writer_turn_holds:
  assumes "holds_run lib p run_id good (j, d)"
  shows "holds_run lib p run_id good (writer_turn lib env (j, d))"
proof (cases "rj_fault_queue j")
  case (Cons item rest)
  let ?j = "j\<lparr> rj_fault_queue := rest \<rparr>"
  have h: "holds_run lib p run_id good (?j, d)" using assms by (rule holds_run_memory) simp_all
  then have "holds_run lib p run_id good (?j\<lparr> rj_events_dropped := rj_events_dropped j + 1 \<rparr>, d)" by (rule holds_run_memory) simp_all
  moreover have "holds_run lib p run_id good (snd (append_event_locked lib env open_id c (qe_type item) (qe_payload item)
      (qe_occurred_at_epoch_ms item) (?j, d)))" for open_id c
    by (cases "append_event_locked lib env open_id c (qe_type item) (qe_payload item) (qe_occurred_at_epoch_ms item) (?j, d)")
      (simp add: holds_run_event [OF _ h])
  ultimately show ?thesis using Cons h by (simp add: writer_turn_def Let_def split: option.split)
qed (use assms in \<open>simp add: writer_turn_def\<close>)

text \<open>What is asked of the environment of an operation: files that exist can be read, and parameters and payloads
  are documents of the library (parameters are objects, as the run handler checks).\<close>

fun op_reads :: "journal_op \<Rightarrow> bool" where
  "op_reads (J_Open env spec version) = (ap_read_ok (oe_record env) \<and> ap_read_ok (oe_event env) \<and>
     json_wf (op_params spec) \<and> is_object (op_params spec))"
| "op_reads (J_Close env run_id reason) = (ap_read_ok (cl_record env) \<and> ap_read_ok (cl_event env))"
| "op_reads (J_Event env run_id category type payload t) = (ap_read_ok env \<and> json_wf payload)"
| "op_reads (J_Mode env now prv nxt tick) = ap_read_ok env"
| "op_reads (J_Fault locus message t) = True"
| "op_reads (J_Writer env) = ap_read_ok env"
| "op_reads (J_Restart env) = init_reads env"
| "op_reads (J_Power_Cut left env) = init_reads env"

fun mints :: "RunsConfig \<Rightarrow> string \<Rightarrow> journal_op \<Rightarrow> bool" where
  "mints cfg run_id (J_Open env spec version) = (rj_runtime_name (fresh_journal cfg) @ ''-'' @ oe_run_id env = run_id)"
| "mints cfg run_id _ = False"


text \<open>The journal's directory, name and interval never change.\<close>

definition identity :: "RunJournal \<Rightarrow> path \<times> string \<times> int" where
  "identity j = (rj_data_dir j, rj_runtime_name j, rj_polling_interval_ms j)"

lemma append_event_locked_identity [simp]:
  "identity (fst (snd (append_event_locked lib env run_id category type payload t jd))) = identity (fst jd)"
  by (auto simp: append_event_locked_def identity_def Let_def split: prod.splits)

lemma identity_update [simp]:
  "identity (j\<lparr> rj_next_seq := ns \<rparr>) = identity j" "identity (j\<lparr> rj_runs := rs \<rparr>) = identity j"
  "identity (j\<lparr> rj_open_run_id := x \<rparr>) = identity j" "identity (j\<lparr> rj_order := ids \<rparr>) = identity j"
  "identity (j\<lparr> rj_mint_counter := n \<rparr>) = identity j" "identity (j\<lparr> rj_fault_queue := q \<rparr>) = identity j"
  "identity (j\<lparr> rj_events_dropped := n \<rparr>) = identity j" "identity (drop_seq i j) = identity j"
  "identity (replayed lib j d) = identity j" "identity (enqueue_event e j) = identity j"
  by (simp_all add: identity_def drop_seq_def enqueue_event_def)

lemma append_event_locked_identityD:
  "append_event_locked lib env run_id category type payload t (j, d) = (res, j', d') \<Longrightarrow> identity j' = identity j"
  using append_event_locked_identity [of lib env run_id category type payload t "(j, d)"] by simp

lemma journal_op_identity: "identity (fst (journal_op_on lib op (j, d))) = identity j"
proof (cases op)
  case (J_Open env spec version)
  then show ?thesis
    by (auto simp: open_run_def Let_def dest!: append_event_locked_identityD split: option.splits prod.splits)
next
  case (J_Close env run_id reason)
  then show ?thesis
    by (auto simp: close_run_def Let_def dest!: append_event_locked_identityD split: option.splits prod.splits)
next
  case (J_Event env run_id category type payload t)
  then show ?thesis by (simp add: append_event_def split: option.splits)
next
  case (J_Mode env now prv nxt tick)
  then show ?thesis by (simp add: record_mode_change_def append_event_def Let_def split: option.splits)
next
  case (J_Writer env)
  then show ?thesis by (simp add: writer_turn_def Let_def split: option.splits list.splits)
qed (simp_all add: enqueue_fault_def)

lemma recover_runs_identity: "identity (fst (snd (recover_runs lib env ids (j, d)))) = identity j"
proof (induction ids arbitrary: j d)
  case (Cons id' ids)
  then show ?case
    by (auto simp: recover_runs.simps(2) Let_def dest!: append_event_locked_identityD split: option.splits prod.splits)
qed simp

lemma init_runs_identity:
  assumes "init_reads env" "init_runs lib cfg env d = (Some j, d')"
  shows "identity j = identity (fresh_journal cfg)"
  using assms(2) recover_runs_identity [of lib "in_recover env" "rj_order (replayed lib (fresh_journal cfg) d)" "replayed lib (fresh_journal cfg) d" d]
  unfolding init_runs_cases [OF assms(1)] by (auto simp: Let_def split: if_splits prod.splits)

section \<open>A run that was acknowledged\<close>

lemma journal_op_holds:
  assumes "json_lib_ok lib" "op_reads op" "\<not> mints cfg run_id op" "identity j = identity (fresh_journal cfg)"
    and h: "holds_run lib p run_id good (j, d)"
  shows "holds_run lib p run_id good (journal_op_on lib op (j, d))"
proof (cases op)
  case (J_Open env spec version)
  then have "rj_runtime_name j @ ''-'' @ oe_run_id env \<noteq> run_id" using assms(3,4) by (simp add: identity_def)
  with J_Open assms(2) open_run_holds [OF assms(1) _ _ _ h] show ?thesis by simp
next
  case (J_Close env i reason)
  then show ?thesis using assms by (simp add: close_run_holds)
next
  case (J_Event env i category type payload t)
  then show ?thesis using h by (simp add: append_event_holds)
next
  case (J_Mode env now prv nxt tick)
  then show ?thesis using h
    by (auto simp: record_mode_change_def Let_def append_event_holds enqueue_event_holds split: option.splits)
qed (use h in \<open>simp_all add: enqueue_fault_def enqueue_event_holds writer_turn_holds\<close>)

lemma durable_invariant:
  assumes "json_lib_ok lib" "config_ok cfg"
  shows "journal_invariant lib cfg (\<lambda>op. op_reads op \<and> \<not> mints cfg run_id op)
    (\<lambda>n jd. holds_run lib (index_of cfg) run_id good jd \<and> identity (fst jd) = identity (fresh_journal cfg))
    (\<lambda>n d. durable lib (index_of cfg) run_id good d)"
proof unfold_locales
  fix n j d op
  assume "holds_run lib (index_of cfg) run_id good (j, d) \<and> identity (fst (j, d)) = identity (fresh_journal cfg)"
    and "op_reads op \<and> \<not> mints cfg run_id op"
  then show "holds_run lib (index_of cfg) run_id good (journal_op_on lib op (j, d)) \<and>
      identity (fst (journal_op_on lib op (j, d))) = identity (fresh_journal cfg)"
    using journal_op_holds [OF assms(1), of op cfg run_id j] journal_op_identity [of lib op j d] by simp
next
  fix n d env m d'
  assume "durable lib (index_of cfg) run_id good d" "op_reads (J_Restart env) \<and> \<not> mints cfg run_id (J_Restart env)"
    and i: "init_runs lib cfg env d = (m, d')"
  then have a: "init_reads env" "durable lib (index_of cfg) run_id good d" by simp_all
  show "durable lib (index_of cfg) run_id good d' \<and> (\<forall>j. m = Some j \<longrightarrow> holds_run lib (index_of cfg) run_id good (j, d') \<and>
      identity (fst (j, d')) = identity (fresh_journal cfg))"
    using init_runs_holds [OF assms a i] init_runs_identity [OF a(1)] i by auto
qed (auto simp: holds_run_def intro: durable_power_cut)


definition empty_disk :: Disk where
  "empty_disk = \<lparr> dk_files = Map.empty, dk_data = (\<lambda>_. 0), dk_entry = (\<lambda>_. False) \<rparr>"

text \<open>The journals of a session on an empty disk.\<close>

lemma session_base:
  assumes "json_lib_ok lib" "config_ok cfg" "list_all op_reads ops" "journal_run lib cfg ops (None, empty_disk) = (Some j, d)"
  shows "holds_run lib (index_of cfg) [] (\<lambda>_. True) (j, d)" "identity j = identity (fresh_journal cfg)"
proof -
  note inv = durable_invariant [OF assms(1,2), of "[]" "\<lambda>_. True"]
  have m: "\<not> mints cfg [] op" for op by (cases op) simp_all
  have "journal_invariant.session (\<lambda>n jd. holds_run lib (index_of cfg) [] (\<lambda>_. True) jd \<and> identity (fst jd) = identity (fresh_journal cfg))
      (\<lambda>n d. durable lib (index_of cfg) [] (\<lambda>_. True) d) 0 (None, empty_disk)"
    unfolding journal_invariant.session_def [OF inv]
    by (simp add: durable_def closing_def empty_disk_def disk_ok_def content_def)
  from journal_invariant.session_run [OF inv this, of ops] m assms(3,4)
  show "holds_run lib (index_of cfg) [] (\<lambda>_. True) (j, d)" "identity j = identity (fresh_journal cfg)"
    by (simp_all add: journal_invariant.session_def [OF inv])
qed

text \<open>The run an operation reports as opened, or as closed by it.\<close>

definition acknowledged :: "JsonLib \<Rightarrow> journal_op \<Rightarrow> RunJournal \<times> Disk \<Rightarrow> Run option" where
  "acknowledged lib op jd =
     (case op of
        J_Open env spec version \<Rightarrow> (case fst (open_run lib env spec version jd) of Open_Ok r \<Rightarrow> Some r | _ \<Rightarrow> None)
      | J_Close env run_id reason \<Rightarrow>
          (case fst (close_run lib env run_id reason jd) of
             Close_Ok r \<Rightarrow> (if map_option rn_state (get_run run_id (fst jd)) = Some Run_Open then Some r else None)
           | _ \<Rightarrow> None)
      | _ \<Rightarrow> None)"

definition run_since :: "Run \<Rightarrow> Run option \<Rightarrow> bool" where
  "run_since r0 x \<longleftrightarrow> (\<exists>r. x = Some r \<and> evolves r0 r)"

lemma run_since_Some [simp]: "run_since r (Some r)"
  by (simp add: run_since_def)

lemma run_since_closing: "closing (run_since r0)"
  by (auto simp: closing_def run_since_def intro: evolves_close)

lemma holds_run_new:
  assumes "json_lib_ok lib" "run_wf r" "ap_read_ok env" "append_record lib env r (j, d) = (Synced, d')"
    and h: "holds_run lib p run_id good (j, d)" and "dk_entry d p \<or> dk_files d p = None"
  shows "holds_run lib p (rn_run_id r) (run_since r) (j\<lparr> rj_runs := AList.update (rn_run_id r) r (rj_runs j) \<rparr>, d')"
proof -
  have h': "p = index_path j" "disk_ok d p" "cut_safe (read_run lib) (content (dk_files d) p)" "runs_ok j"
    using h by (simp_all add: holds_run_def durable_def)
  have "durable lib p (rn_run_id r) (run_since r) d'"
    by (rule append_record_synced [OF assms(1-4) h'(1-3) assms(6) run_since_closing run_since_Some])
  then show ?thesis using h' assms(2) by (auto simp: holds_run_def runs_ok_def update_conv')
qed

lemma open_acknowledged:
  assumes "json_lib_ok lib" "op_reads (J_Open env spec version)" "holds_run lib p run_id good (j, d)"
    and "dk_entry d p \<or> dk_files d p = None" "open_run lib env spec version (j, d) = (Open_Ok r0, j', d')"
  shows "holds_run lib p (rn_run_id r0) (run_since r0) (j', d')"
proof -
  let ?j = "j\<lparr> rj_mint_counter := rj_mint_counter j + 1 \<rparr>"
  let ?j2 = "\<lambda>r. ?j\<lparr> rj_runs := AList.update (rn_run_id r) r (rj_runs ?j), rj_order := rj_order ?j @ [rn_run_id r],
                     rj_open_run_id := Some (rn_run_id r) \<rparr>"
  have h0: "holds_run lib p run_id good (?j, d)" using assms(3) by (rule holds_run_memory) simp_all
  obtain d1 res where r0: "r0 = new_run env spec version ?j" and rec: "append_record lib (oe_record env) r0 (?j, d) = (Synced, d1)"
    and ev: "append_event_locked lib (oe_event env) (rn_run_id r0) RunOpened [] (JObject []) (oe_now env) (?j2 r0, d1) = (res, j', d')"
    using assms(5) by (auto simp: open_run_def Let_def split: option.splits prod.splits if_splits)
  have wf: "run_wf r0" using r0 assms(2,3) by (simp add: new_run_def run_wf_def holds_run_def runs_ok_def)
  have "holds_run lib p (rn_run_id r0) (run_since r0) (?j\<lparr> rj_runs := AList.update (rn_run_id r0) r0 (rj_runs ?j) \<rparr>, d1)"
    using assms(2,4) by (intro holds_run_new [OF assms(1) wf _ rec h0]) simp_all
  then have "holds_run lib p (rn_run_id r0) (run_since r0) (?j2 r0, d1)" by (rule holds_run_memory) simp_all
  then show ?thesis by (rule holds_run_event [OF ev])
qed

lemma close_acknowledged:
  assumes "json_lib_ok lib" "op_reads (J_Close env id' reason)" "holds_run lib p run_id good (j, d)"
    and "dk_entry d p \<or> dk_files d p = None" "close_run lib env id' reason (j, d) = (Close_Ok r0, j', d')"
    and "map_option rn_state (get_run id' j) = Some Run_Open"
  shows "holds_run lib p (rn_run_id r0) (run_since r0) (j', d')"
proof -
  obtain run where run: "map_of (rj_runs j) id' = Some run" "rn_state run \<noteq> Run_Closed" using assms(6) by (auto simp: get_run_def)
  note c = holds_run_closed_as [OF assms(3) run, of reason "cl_now env"]
  obtain d1 res j3 where r0: "r0 = closed_as reason (cl_now env) run"
    and rec: "append_record lib (cl_record env) r0 (j, d) = (Synced, d1)"
    and ev: "append_event_locked lib (cl_event env) id' RunClosed (close_reason_to_string reason) (JObject []) (cl_now env)
      (j\<lparr> rj_runs := AList.update id' r0 (rj_runs j) \<rparr>, d1) = (res, j3, d')"
    and j': "j' = (let j = drop_seq id' j3 in if rj_open_run_id j = Some id' then j\<lparr> rj_open_run_id := None \<rparr> else j)"
    using assms(5) run by (auto simp: close_run_def Let_def split: prod.splits if_splits)
  have "holds_run lib p (rn_run_id r0) (run_since r0) (j\<lparr> rj_runs := AList.update id' r0 (rj_runs j) \<rparr>, d1)"
    using holds_run_new [OF assms(1) c(1) _ rec [unfolded r0] assms(3,4)] assms(2) c(2) r0 by simp
  from holds_run_drop_seq [OF holds_run_event [OF ev this]]
  have h: "holds_run lib p (rn_run_id r0) (run_since r0) (drop_seq id' j3, d')" .
  then have "holds_run lib p (rn_run_id r0) (run_since r0) ((drop_seq id' j3)\<lparr> rj_open_run_id := None \<rparr>, d')"
    by (rule holds_run_memory) simp_all
  with h show ?thesis by (simp add: j' Let_def)
qed

lemma acknowledged_holds:
  assumes "json_lib_ok lib" "op_reads op" "holds_run lib p run_id good (j, d)" "dk_entry d p \<or> dk_files d p = None"
    and "acknowledged lib op (j, d) = Some r0"
  shows "holds_run lib p (rn_run_id r0) (run_since r0) (journal_op_on lib op (j, d))"
proof (cases op)
  case (J_Open env spec version)
  obtain res j' d' where r: "open_run lib env spec version (j, d) = (res, j', d')" by (metis prod_cases3)
  then have "res = Open_Ok r0" using assms(5) J_Open by (auto simp: acknowledged_def split: OpenResult.splits)
  with r J_Open open_acknowledged [OF assms(1) _ assms(3,4)] assms(2) show ?thesis by simp
next
  case (J_Close env id' reason)
  obtain res j' d' where r: "close_run lib env id' reason (j, d) = (res, j', d')" by (metis prod_cases3)
  then have "res = Close_Ok r0" "map_option rn_state (get_run id' j) = Some Run_Open"
    using assms(5) J_Close by (auto simp: acknowledged_def split: CloseResult.splits if_splits)
  with r J_Close close_acknowledged [OF assms(1) _ assms(3,4)] assms(2) show ?thesis by simp
qed (use assms(5) in \<open>simp_all add: acknowledged_def\<close>)


text \<open>C13. A run the journal acknowledged is never lost and a closed run never changes. In any session on a fresh data
  directory, with failing and torn writes, restarts and power cuts anywhere, let an operation report a run as
  opened or closed while the log's directory entry is on storage (or is created by it). Then every journal that
  later starts or continues knows that run: unchanged if it was closed, and otherwise unchanged or closed since.
  Files that exist are assumed readable, later ids to differ from this one, and the JSON library to read back what
  it wrote.\<close>

theorem acknowledged_run_kept:
  assumes "json_lib_ok lib" and "config_ok cfg" and "list_all op_reads (earlier @ op # later)"
    and "journal_run lib cfg earlier (None, empty_disk) = (Some j, d)"
    and "dk_entry d (index_of cfg) \<or> dk_files d (index_of cfg) = None"
    and "acknowledged lib op (j, d) = Some r0" and "list_all (\<lambda>op. \<not> mints cfg (rn_run_id r0) op) later"
    and "journal_run lib cfg (earlier @ op # later) (None, empty_disk) = (Some j', d')"
  shows "\<exists>r. get_run (rn_run_id r0) j' = Some r \<and> evolves r0 r"
proof -
  let ?id = "rn_run_id r0"
  have early: "list_all op_reads earlier" and now: "op_reads op"
    and late: "list_all (\<lambda>op. op_reads op \<and> \<not> mints cfg ?id op) later"
    using assms(3,7) by (simp_all add: list_all_iff)
  note b = session_base [OF assms(1,2) early assms(4)]
  note h = acknowledged_holds [OF assms(1) now b(1) assms(5,6)]
  have id: "identity (fst (journal_op_on lib op (j, d))) = identity (fresh_journal cfg)"
    using journal_op_identity [of lib op j d] b(2) by simp
  obtain j1 d1 where o: "journal_op_on lib op (j, d) = (j1, d1)" by fastforce
  have step: "journal_step lib cfg (Some j, d) op = (Some j1, d1)"
    using assms(6) o journal_step_cases [of lib cfg "(Some j, d)" op] by (auto simp: acknowledged_def)
  note inv = durable_invariant [OF assms(1,2), of ?id "run_since r0"]
  have s: "journal_invariant.session (\<lambda>n jd. holds_run lib (index_of cfg) ?id (run_since r0) jd \<and> identity (fst jd) = identity (fresh_journal cfg))
      (\<lambda>n d. durable lib (index_of cfg) ?id (run_since r0) d) 0 (Some j1, d1)"
    unfolding journal_invariant.session_def [OF inv] using h id o by (simp add: holds_run_def)
  have "journal_run lib cfg later (Some j1, d1) = (Some j', d')"
    using assms(4,8) step by (simp add: journal_run_def)
  with journal_invariant.session_run [OF inv s late] have "holds_run lib (index_of cfg) ?id (run_since r0) (j', d')"
    by (simp add: journal_invariant.session_def [OF inv])
  then show ?thesis by (simp add: holds_run_def get_run_def run_since_def)
qed


section \<open>One open run\<close>

definition only_open :: "RunJournal \<Rightarrow> bool" where
  "only_open j \<longleftrightarrow> (\<forall>run_id r. map_of (rj_runs j) run_id = Some r \<and> rn_state r = Run_Open \<longrightarrow> rj_open_run_id j = Some run_id)"

lemma append_event_locked_only_open:
  assumes "append_event_locked lib env run_id category type payload t (j, d) = (res, j', d')"
  shows "only_open j' = only_open j" "rj_runs j' = rj_runs j" "rj_open_run_id j' = rj_open_run_id j" "rj_order j' = rj_order j"
proof -
  obtain ns where "j' = j\<lparr> rj_next_seq := ns \<rparr>" using append_event_locked_frame(1) [OF assms] by blast
  then show "only_open j' = only_open j" "rj_runs j' = rj_runs j" "rj_open_run_id j' = rj_open_run_id j" "rj_order j' = rj_order j"
    by (simp_all add: only_open_def)
qed

lemma append_event_locked_only_open_snd:
  "only_open (fst (snd (append_event_locked lib env i category type payload t jd))) = only_open (fst jd)"
  using append_event_locked_only_open(1) [of lib env i category type payload t "fst jd" "snd jd"]
  by (cases "append_event_locked lib env i category type payload t jd") simp

lemma append_event_only_open: "only_open (fst (snd (append_event lib env i category type payload t jd))) = only_open (fst jd)"
  by (simp add: append_event_def append_event_locked_only_open_snd split: option.split)

lemma only_open_update [simp]:
  "only_open (j\<lparr> rj_mint_counter := n \<rparr>) = only_open j" "only_open (j\<lparr> rj_fault_queue := q \<rparr>) = only_open j"
  "only_open (j\<lparr> rj_events_dropped := n \<rparr>) = only_open j" "only_open (drop_seq i j) = only_open j"
  "only_open (enqueue_event e j) = only_open j"
  by (simp_all add: only_open_def drop_seq_def enqueue_event_def)

lemma open_run_only_open:
  assumes "only_open j"
  shows "only_open (fst (snd (open_run lib env spec version (j, d))))"
proof -
  have put: "rj_open_run_id j = None \<Longrightarrow> only_open (j1\<lparr> rj_runs := AList.update (rn_run_id r) r (rj_runs j), rj_order := ids, rj_open_run_id := Some (rn_run_id r) \<rparr>)" for j1 r ids
    using assms by (auto simp: only_open_def update_conv')
  then show ?thesis using assms
    by (auto simp: open_run_def Let_def append_event_locked_only_open(1) split: option.splits prod.splits)
qed

lemma close_run_only_open:
  assumes "only_open j"
  shows "only_open (fst (snd (close_run lib env i reason (j, d))))"
proof -
  have put: "only_open (j\<lparr> rj_runs := AList.update i (closed_as reason t r) (rj_runs j) \<rparr>)" for r t
    using assms by (auto simp: only_open_def update_conv')
  have gone: "only_open (j'\<lparr> rj_open_run_id := None \<rparr>)"
    if "only_open j'" "rj_open_run_id j' = Some i" "map_of (rj_runs j') i = Some r" "rn_state r = Run_Closed" for j' r
    using that by (fastforce simp: only_open_def)
  obtain res j' d' where c: "close_run lib env i reason (j, d) = (res, j', d')" by (metis prod_cases3)
  then consider "j' = j" | run d1 res' j1 d2 where
      "append_event_locked lib (cl_event env) i RunClosed (close_reason_to_string reason) (JObject []) (cl_now env)
        (j\<lparr> rj_runs := AList.update i (closed_as reason (cl_now env) run) (rj_runs j) \<rparr>, d1) = (res', j1, d2)"
      "j' = j1 \<or> j' = (if rj_open_run_id (drop_seq i j1) = Some i then (drop_seq i j1)\<lparr> rj_open_run_id := None \<rparr> else drop_seq i j1)"
    by (auto simp: close_run_def Let_def split: option.splits if_splits prod.splits)
  then show ?thesis
  proof cases
    case 1
    then show ?thesis using c assms by simp
  next
    case 2
    note e = append_event_locked_only_open [OF 2(1)]
    have o: "only_open (drop_seq i j1)" using e(1) put by simp
    have r: "map_of (rj_runs (drop_seq i j1)) i = Some (closed_as reason (cl_now env) run)" using e(2) by (simp add: drop_seq_def update_conv')
    have "only_open j'" using 2(2) o gone [OF o _ r] e(1) put by (auto split: if_splits)
    then show ?thesis using c by simp
  qed
qed

lemma recover_runs_closed:
  "recover_runs lib env ids (j, d) = (None, j', d') \<Longrightarrow>
   rj_open_run_id j' = rj_open_run_id j \<and>
   (\<forall>i r. map_of (rj_runs j') i = Some r \<and> rn_state r = Run_Open \<longrightarrow> i \<notin> set ids \<and> map_of (rj_runs j) i = Some r)"
proof (induction ids arbitrary: j d)
  case (Cons i ids)
  show ?case
  proof (cases "map_of (rj_runs j) i")
    case None
    then have r: "recover_runs lib env ids (j, d) = (None, j', d')" using Cons.prems by (simp add: recover_runs.simps(2))
    show ?thesis using Cons.IH [OF r] None by auto
  next
    case (Some run)
    show ?thesis
    proof (cases "rn_state run = Run_Closed")
      case True
      then have r: "recover_runs lib env ids (j, d) = (None, j', d')" using Cons.prems Some by (simp add: recover_runs.simps(2))
      show ?thesis using Cons.IH [OF r] Some True by auto
    next
      case False
      let ?j = "j\<lparr> rj_runs := AList.update i (abandon (rv_now (env i)) run) (rj_runs j) \<rparr>"
      obtain d1 res j1 d2 where e: "append_event_locked lib (rv_event (env i)) i RunClosed ''abandoned''
          (json_object [(''recovery'', JBool True)]) (rv_now (env i)) (?j, d1) = (res, j1, d2)"
        and r: "recover_runs lib env ids (drop_seq i j1, d2) = (None, j', d')"
        using Cons.prems Some False by (auto simp: recover_runs.simps(2) Let_def split: prod.splits if_splits)
      have m: "map_of (rj_runs (drop_seq i j1)) k = (if k = i then Some (abandon (rv_now (env i)) run) else map_of (rj_runs j) k)" for k
        using append_event_locked_only_open(2) [OF e] by (simp add: drop_seq_def update_conv')
      have "k \<notin> set (i # ids) \<and> map_of (rj_runs j) k = Some x" if k: "map_of (rj_runs j') k = Some x" "rn_state x = Run_Open" for k x
      proof -
        have "k \<notin> set ids \<and> map_of (rj_runs (drop_seq i j1)) k = Some x" using Cons.IH [OF r] k by blast
        with m [of k] k(2) show ?thesis by (auto simp: abandon_closed_as split: if_splits)
      qed
      moreover have "rj_open_run_id j' = rj_open_run_id j"
        using Cons.IH [OF r] append_event_locked_only_open(3) [OF e] by (simp add: drop_seq_def)
      ultimately show ?thesis by blast
    qed
  qed
qed simp

lemma replay_keys:
  "dom (map_of runs) = set ids \<Longrightarrow> distinct ids \<Longrightarrow> foldl add_record (runs, ids) rs = (runs', ids') \<Longrightarrow>
   dom (map_of runs') = set ids' \<and> distinct ids'"
proof (induction rs arbitrary: runs ids)
  case (Cons r rs)
  from Cons.prems(1) have "rn_run_id r \<notin> set ids" if "map_of runs (rn_run_id r) = None" using that by blast
  moreover have "dom ((map_of runs)(rn_run_id r \<mapsto> r)) = insert (rn_run_id r) (set ids)" using Cons.prems(1) by simp
  ultimately show ?case
    using Cons.IH [of "AList.update (rn_run_id r) r runs" "snd (add_record (runs, ids) r)"] Cons.prems
    by (auto simp: add_record_def update_conv' dom_def split: if_splits)
qed simp

lemma init_runs_only_open:
  assumes "init_runs lib cfg env d = (Some j, d')"
  shows "only_open j \<and> rj_open_run_id j = None"
proof -
  have i: "init_journal lib env (fresh_journal cfg, d) = (None, j, d')"
    using assms by (auto simp: init_runs_def fresh_journal_def Let_def split: prod.splits if_splits)
  define rs where "rs = log_records (read_run lib) (if in_read_ok env then content (dk_files d) (index_of cfg) else [])"
  obtain runs ids where f: "foldl add_record ([], []) rs = (runs, ids)" by fastforce
  have r: "recover_runs lib (in_recover env) ids ((fresh_journal cfg)\<lparr> rj_runs := runs, rj_order := ids, rj_open_run_id := None \<rparr>, d) = (None, j, d')"
    using i f by (simp add: init_journal_def rs_def Let_def split: prod.splits if_splits)
  have "dom (map_of runs) = set ids" using replay_keys [OF _ _ f] by simp
  with recover_runs_closed [OF r] show ?thesis by (auto simp: only_open_def dom_def)
qed

interpretation one_open: journal_invariant lib cfg "\<lambda>_. True" "\<lambda>_ jd. only_open (fst jd)" "\<lambda>_ _. True" for lib cfg
proof unfold_locales
  fix j and d :: Disk and op
  assume o: "only_open (fst (j, d))"
  show "only_open (fst (journal_op_on lib op (j, d)))"
  proof (cases op)
    case (J_Mode env now prv nxt tick)
    then show ?thesis using o by (auto simp: record_mode_change_def Let_def append_event_only_open split: option.splits)
  next
    case (J_Writer env)
    then show ?thesis using o by (auto simp: writer_turn_def Let_def append_event_locked_only_open_snd split: list.splits option.splits)
  qed (use o in \<open>simp_all add: open_run_only_open close_run_only_open append_event_only_open enqueue_fault_def\<close>)
qed (use init_runs_only_open in \<open>auto\<close>)

text \<open>C20. At most one run is open, and none after a start. In every session, whatever fails or is cut, a run that the
  journal holds as open is the one \<open>open_run_id\<close> names; right after a restart no run is open.\<close>

theorem one_open_run:
  assumes "journal_run lib cfg ops (None, d) = (Some j, d')"
  shows "(\<forall>run_id r. get_run run_id j = Some r \<and> rn_state r = Run_Open \<longrightarrow> rj_open_run_id j = Some run_id) \<and>
    (\<forall>env. ops \<noteq> [] \<and> last ops = J_Restart env \<longrightarrow> (\<forall>run_id r. get_run run_id j = Some r \<longrightarrow> rn_state r = Run_Closed))"
proof -
  have "only_open j"
    using one_open.session_run [where n = 0 and s = "(None, d)" and lib = lib and cfg = cfg and ops = ops] assms by (simp add: one_open.session_def list_all_iff)
  moreover have "only_open j \<and> rj_open_run_id j = None" if ops: "ops \<noteq> []" "last ops = J_Restart env" for env
  proof -
    obtain m d0 where "journal_run lib cfg (butlast ops) (None, d) = (m, d0)" by fastforce
    moreover have "journal_run lib cfg (butlast ops @ [J_Restart env]) (None, d) = (Some j, d')"
      using assms ops append_butlast_last_id by metis
    ultimately have "init_runs lib cfg env d0 = (Some j, d')" by (simp add: journal_run_def journal_step_def)
    then show ?thesis by (rule init_runs_only_open)
  qed
  ultimately show ?thesis by (auto simp: only_open_def get_run_def) (metis RunState.exhaust option.distinct(1))
qed


section \<open>A session\<close>

definition calm :: AppendEnv where
  "calm = \<lparr> ap_read_ok = True, ap_open_ok = True, ap_write_ok = True, ap_missing = 0, ap_sync_ok = True, ap_dir_sync_ok = True,
            ap_now_occurred = 1, ap_now_recorded = 2 \<rparr>"

definition calm_start :: InitEnv where
  "calm_start = \<lparr> in_create_ok = True, in_read_ok = True, in_recover = (\<lambda>_. \<lparr> rv_now = 5, rv_record = calm, rv_event = calm \<rparr>) \<rparr>"

definition demo_cfg :: RunsConfig where
  "demo_cfg = \<lparr> ru_data_dir = [''d''], ru_name = ''r'', ru_polling_interval_ms = 500 \<rparr>"

definition demo_open :: journal_op where
  "demo_open = J_Open \<lparr> oe_run_id = ''A1'', oe_now = 7, oe_version = ''1'', oe_record = calm, oe_event = calm \<rparr>
     \<lparr> op_label = Some ''x'', op_params = JObject [], op_tag_scope = no_scope \<rparr> None"

definition demo_close :: journal_op where
  "demo_close = J_Close \<lparr> cl_now = 9, cl_record = calm, cl_event = calm \<rparr> ''r-A1'' Completed"

definition demo_run :: Run where
  "demo_run = \<lparr> rn_run_id = ''r-A1'', rn_label = Some ''x'', rn_state = Run_Open, rn_close_reason = None, rn_started_at_epoch_ms = 7,
     rn_ended_at_epoch_ms = None, rn_automation_version = None, rn_runtime_version = ''1'', rn_polling_interval_ms = 500,
     rn_params = JObject [], rn_tag_scope = no_scope, rn_schema_version = 1 \<rparr>"

definition demo_event :: "u64 \<Rightarrow> RunEventCategory \<Rightarrow> string \<Rightarrow> u64 \<Rightarrow> json \<Rightarrow> json" where
  "demo_event k category type t payload = run_event_to_json
     \<lparr> ev_run_id = ''r-A1'', ev_sequence = k, ev_category = category, ev_type = type, ev_occurred_at_epoch_ms = t,
       ev_recorded_at_epoch_ms = 2, ev_payload = payload, ev_schema_version = 1 \<rparr>"

definition demo_lib :: JsonLib where
  "demo_lib = table_json
     [run_to_json demo_run, run_to_json (closed_as Completed 9 demo_run),
      demo_event 1 RunOpened [] 7 (JObject []), demo_event 2 RunClosed ''completed'' 9 (JObject [])]"

lemma demo_lib_ok: "json_lib_ok demo_lib"
  unfolding demo_lib_def by (rule table_json_ok) (simp_all, code_simp)

definition demo_before :: "RunJournal option \<times> Disk" where
  "demo_before = journal_run demo_lib demo_cfg [J_Restart calm_start, demo_open] (None, empty_disk)"

definition demo_ops :: "journal_op list" where
  "demo_ops = [J_Restart calm_start, demo_open] @ demo_close # [J_Power_Cut (\<lambda>_. 0) calm_start]"

definition demo_after :: "RunJournal option \<times> Disk" where
  "demo_after = journal_run demo_lib demo_cfg demo_ops (None, empty_disk)"

text \<open>A run that is closed, and a power cut that leaves only what was synced.\<close>

theorem acknowledged_run_kept_witness:
  "get_run ''r-A1'' (the (fst demo_after)) = Some (closed_as Completed 9 demo_run)"
proof -
  have "\<not> Option.is_none (fst demo_before)" "\<not> Option.is_none (fst demo_after)" by code_simp+
  then obtain j d j' d' where b: "demo_before = (Some j, d)" and a: "demo_after = (Some j', d')"
    by (metis Option.is_none_def option.exhaust prod.collapse)
  have ack: "acknowledged demo_lib demo_close (the (fst demo_before), snd demo_before) = Some (closed_as Completed 9 demo_run)"
    and entry: "dk_entry (snd demo_before) (index_of demo_cfg)" by code_simp+
  note ack = ack [unfolded b fst_conv snd_conv option.sel] and entry = entry [unfolded b snd_conv]
  have "\<exists>r. get_run (rn_run_id (closed_as Completed 9 demo_run)) j' = Some r \<and> evolves (closed_as Completed 9 demo_run) r"
  proof (rule acknowledged_run_kept [OF demo_lib_ok])
    show "journal_run demo_lib demo_cfg [J_Restart calm_start, demo_open] (None, empty_disk) = (Some j, d)"
      using b by (simp add: demo_before_def)
    show "journal_run demo_lib demo_cfg ([J_Restart calm_start, demo_open] @ demo_close # [J_Power_Cut (\<lambda>_. 0) calm_start]) (None, empty_disk) = (Some j', d')"
      using a by (simp add: demo_after_def demo_ops_def)
  qed (use ack entry in \<open>simp_all add: config_ok_def demo_cfg_def demo_open_def demo_close_def calm_start_def calm_def init_reads_def\<close>)
  then show ?thesis by (simp add: a evolves_closed demo_run_def)
qed

theorem one_open_run_witness: "rj_open_run_id (the (fst demo_before)) = Some ''r-A1''"
proof -
  have "\<not> Option.is_none (fst demo_before)" by code_simp
  then obtain j d where b: "demo_before = (Some j, d)" by (metis Option.is_none_def option.exhaust prod.collapse)
  have "map_option rn_state (get_run ''r-A1'' (the (fst demo_before))) = Some Run_Open" by code_simp
  note is_open = this [unfolded b fst_conv option.sel]
  show ?thesis unfolding b using one_open_run [OF b [unfolded demo_before_def]] is_open by auto
qed

text \<open>The directory of a new log is synced only by the append that creates it. When that sync fails, the next append
  reports a run as opened, and a power cut takes it with the log.\<close>

lemma unsynced_directory_loses_run:
  "let failing = calm\<lparr> ap_dir_sync_ok := False \<rparr>;
       first = J_Open \<lparr> oe_run_id = ''A0'', oe_now = 7, oe_version = ''1'', oe_record = failing, oe_event = calm \<rparr>
         \<lparr> op_label = Some ''x'', op_params = JObject [], op_tag_scope = no_scope \<rparr> None;
       lib = table_json [run_to_json demo_run, run_to_json (demo_run\<lparr> rn_run_id := ''r-A0'' \<rparr>), demo_event 1 RunOpened [] 7 (JObject [])];
       (m, d) = journal_run lib demo_cfg [J_Restart calm_start, first] (None, empty_disk) in
   acknowledged lib demo_open (the m, d) = Some demo_run \<and>
   map_option (get_run ''r-A1'') (fst (journal_run lib demo_cfg [demo_open, J_Power_Cut (\<lambda>_. 0) calm_start] (m, d))) = Some None"
  by code_simp

end
