(* ===== verification/Run_Events.thy ===== *)
theory Run_Events
  imports Run_Journal
begin

text \<open>
  The event streams of \<open>core/runs/run_journal.cpp\<close>: \<open>run_id\<close> and \<open>sequence\<close> identify an event, and the sequences of
  a run's events are 1, 2, 3 and so on without a gap, across failing writes, restarts and power cuts. The bounded
  queue of the tick thread is here too.
\<close>

section \<open>Sequences\<close>

text \<open>A failing write leaves out more than the newline.\<close>

definition tears :: "AppendEnv \<Rightarrow> bool" where
  "tears env \<longleftrightarrow> ap_write_ok env \<or> 2 \<le> ap_missing env"

definition in_sequence :: "RunEvent list \<Rightarrow> bool" where
  "in_sequence es \<longleftrightarrow> map ev_sequence es = map of_nat [1..<Suc (length es)]"

lemma numbered_Nil [simp]: "in_sequence []"
  by (simp add: in_sequence_def)

lemma numbered_snoc: "in_sequence (es @ [e]) \<longleftrightarrow> in_sequence es \<and> ev_sequence e = of_nat (Suc (length es))"
  by (auto simp: in_sequence_def)

lemma numbered_prefix: "in_sequence es \<Longrightarrow> prefix es' es \<Longrightarrow> in_sequence es'"
proof -
  assume a: "in_sequence es" "prefix es' es"
  then obtain zs where es: "es = es' @ zs" by (auto simp: prefix_def)
  have "map ev_sequence es' = take (length es') (map ev_sequence es)" using es by simp
  also have "\<dots> = take (length es') (map of_nat [1..<Suc (length es)])" using a(1) by (simp add: in_sequence_def)
  also have "\<dots> = map of_nat [1..<Suc (length es')]" using es by (simp add: take_map take_upt del: upt_Suc)
  finally show "in_sequence es'" by (simp add: in_sequence_def)
qed

text \<open>The scan of a in_sequence stream finds its last sequence.\<close>

definition scan_max :: "u64 \<Rightarrow> RunEvent \<Rightarrow> u64" where
  "scan_max max_seq e = (if max_seq < ev_sequence e then ev_sequence e else max_seq)"

lemma max_sequence_scan: "max_sequence lib s = foldl scan_max 0 (log_records (read_event lib) s)"
  by (simp add: max_sequence_def scan_max_def [abs_def])

lemma scan_numbered: "in_sequence es \<Longrightarrow> length es < 2 ^ 64 \<Longrightarrow> foldl scan_max 0 es = of_nat (length es)"
proof (induction es rule: rev_induct)
  case (snoc e es)
  have "(of_nat (length es) :: u64) < of_nat (Suc (length es))"
    using snoc.prems(2) by (simp add: word_less_nat_alt unsigned_of_nat take_bit_nat_eq_self del: of_nat_Suc)
  then show ?case using snoc by (simp add: numbered_snoc scan_max_def del: of_nat_Suc)
qed simp

section \<open>The invariant\<close>

definition stream :: "JsonLib \<Rightarrow> path \<Rightarrow> Disk \<Rightarrow> RunEvent list" where
  "stream lib p d = log_records (read_event lib) (content (dk_files d) p)"

definition events_of :: "RunsConfig \<Rightarrow> string \<Rightarrow> path" where
  "events_of cfg run_id = runs_dir cfg @ [''runs'', run_id @ ''.events.jsonl'']"

definition stream_ok :: "JsonLib \<Rightarrow> path \<Rightarrow> nat \<Rightarrow> Disk \<Rightarrow> bool" where
  "stream_ok lib p n d \<longleftrightarrow> disk_ok d p \<and> cut_safe (read_event lib) (content (dk_files d) p) \<and>
     length (stream lib p d) \<le> n \<and> (n < 2 ^ 64 \<longrightarrow> in_sequence (stream lib p d))"

definition seq_ok :: "JsonLib \<Rightarrow> RunsConfig \<Rightarrow> string \<Rightarrow> nat \<Rightarrow> RunJournal \<times> Disk \<Rightarrow> bool" where
  "seq_ok lib cfg run_id n jd \<longleftrightarrow> identity (fst jd) = identity (fresh_journal cfg) \<and> stream_ok lib (events_of cfg run_id) n (snd jd) \<and>
     (\<forall>e \<in> set (rj_fault_queue (fst jd)). json_wf (qe_payload e)) \<and>
     (\<forall>k. n < 2 ^ 64 \<longrightarrow> map_of (rj_next_seq (fst jd)) run_id = Some k \<longrightarrow> k = of_nat (Suc (length (stream lib (events_of cfg run_id) (snd jd)))))"

lemma events_path_of: "identity j = identity (fresh_journal cfg) \<Longrightarrow> events_path j run_id = events_of cfg run_id"
  by (simp add: events_path_def events_of_def identity_def)

lemma index_path_of: "identity j = identity (fresh_journal cfg) \<Longrightarrow> index_path j = index_of cfg"
  by (simp add: index_path_def index_of_def identity_def)

lemma index_not_events: "index_of cfg \<noteq> events_of cfg run_id"
  using events_path_not_index [of "fresh_journal cfg" run_id] events_path_of [of "fresh_journal cfg" cfg run_id] by simp

lemma events_of_inj: "events_of cfg a = events_of cfg b \<longleftrightarrow> a = b"
  by (simp add: events_of_def)

lemma stream_ok_mono: "stream_ok lib p n d \<Longrightarrow> n \<le> m \<Longrightarrow> stream_ok lib p m d"
  by (auto simp: stream_ok_def)

lemma seq_ok_mono: "seq_ok lib cfg run_id n jd \<Longrightarrow> n \<le> m \<Longrightarrow> seq_ok lib cfg run_id m jd"
  unfolding seq_ok_def by (meson order_le_less_trans stream_ok_mono)

lemma seq_ok_disk: "seq_ok lib cfg run_id n (j, d) \<Longrightarrow> stream_ok lib (events_of cfg run_id) n d"
  by (simp add: seq_ok_def)

lemma stream_ok_cong:
  "dk_files d' p = dk_files d p \<Longrightarrow> dk_data d' p = dk_data d p \<Longrightarrow> dk_entry d' p = dk_entry d p \<Longrightarrow>
   stream lib p d' = stream lib p d \<and> stream_ok lib p n d' = stream_ok lib p n d"
  by (simp add: stream_ok_def stream_def disk_ok_def content_def)

lemma stream_ok_power_cut: "stream_ok lib p n d \<Longrightarrow> stream_ok lib p n (power_cut left d)"
proof -
  assume s: "stream_ok lib p n d"
  obtain k where k: "content (dk_files (power_cut left d)) p = take k (content (dk_files d) p)"
    using power_cut_content [of d p left] s by (auto simp: stream_ok_def)
  have pre: "prefix (stream lib p (power_cut left d)) (stream lib p d)"
    using s k by (simp add: stream_def stream_ok_def log_records_take)
  show ?thesis using s k power_cut_disk [of left d p] numbered_prefix [OF _ pre] prefix_length_le [OF pre]
    by (simp add: stream_ok_def cut_safe_take)
qed

lemma event_line_ok: "json_lib_ok lib \<Longrightarrow> event_wf e \<Longrightarrow> jl_dump lib (run_event_to_json e) = Some s \<Longrightarrow> line_ok (read_event lib) e s"
  using event_line [of lib e s] by (simp add: line_ok_def)

text \<open>One event appended to the stream.\<close>

lemma append_event_stream:
  assumes "json_lib_ok lib" "event_wf e" "ap_read_ok env" "tears env"
    and "append_line env p (jl_dump lib (run_event_to_json e)) d = (out, d')"
  shows "stream lib p d' = stream lib p d @ (if is_written out then [e] else [])"
    and "cut_safe (read_event lib) (content (dk_files d) p) \<Longrightarrow> cut_safe (read_event lib) (content (dk_files d') p)"
proof -
  note a = append_line_records [OF assms(5,3) event_line_ok [OF assms(1,2)]]
  have "out \<noteq> Write_Failed \<or> \<not> ap_missing env \<le> 1"
    using assms(4,5) by (auto simp: tears_def append_line_def Let_def split: option.splits if_splits)
  then show "stream lib p d' = stream lib p d @ (if is_written out then [e] else [])" using a(1) by (auto simp: stream_def)
  show "cut_safe (read_event lib) (content (dk_files d) p) \<Longrightarrow> cut_safe (read_event lib) (content (dk_files d') p)" by (rule a(2))
qed


lemma seq_ok_memory:
  "seq_ok lib cfg run_id n (j, d) \<Longrightarrow> identity j' = identity j \<Longrightarrow> set (rj_fault_queue j') \<subseteq> set (rj_fault_queue j) \<Longrightarrow>
   rj_next_seq j' = rj_next_seq j \<Longrightarrow> seq_ok lib cfg run_id n (j', d)"
  by (auto simp: seq_ok_def)

lemma seq_ok_drop_seq: "seq_ok lib cfg run_id n (j, d) \<Longrightarrow> seq_ok lib cfg run_id n (drop_seq i j, d)"
  by (auto simp: seq_ok_def drop_seq_def identity_def delete_conv' split: if_splits)

lemma seq_ok_record:
  assumes "seq_ok lib cfg run_id n (j, d)" "append_record lib env r (j', d) = (out, d')" "identity j' = identity j"
  shows "seq_ok lib cfg run_id n (j, d')"
proof -
  have "events_of cfg run_id \<noteq> index_path j'"
    using index_not_events [of cfg run_id] index_path_of [of j' cfg] assms(1,3) by (auto simp: seq_ok_def)
  from append_line_elsewhere [OF assms(2) [unfolded append_record_def fst_conv snd_conv] this]
  have "stream lib (events_of cfg run_id) d' = stream lib (events_of cfg run_id) d \<and>
      stream_ok lib (events_of cfg run_id) n d' = stream_ok lib (events_of cfg run_id) n d"
    by (intro stream_ok_cong) simp_all
  with assms(1) show ?thesis by (simp add: seq_ok_def)
qed

lemma next_sequence_eq:
  assumes "seq_ok lib cfg run_id n (j, d)" "n < 2 ^ 64" "ap_read_ok env"
  shows "next_sequence lib env run_id (j, d) = of_nat (Suc (length (stream lib (events_of cfg run_id) d)))"
proof -
  let ?es = "stream lib (events_of cfg run_id) d"
  have es: "in_sequence ?es" "length ?es < 2 ^ 64" and p: "events_path j run_id = events_of cfg run_id"
    using assms(1,2) events_path_of by (auto simp: seq_ok_def stream_ok_def)
  show ?thesis
  proof (cases "map_of (rj_next_seq j) run_id")
    case None
    then show ?thesis using scan_numbered [OF es] p assms(3) by (simp add: next_sequence_def max_sequence_scan stream_def)
  next
    case (Some k)
    then show ?thesis using assms(1,2) by (simp add: next_sequence_def seq_ok_def)
  qed
qed

lemma seq_ok_event:
  assumes lib: "json_lib_ok lib" "ap_read_ok env" "tears env" "json_wf payload"
    and app: "append_event_locked lib env i category type payload t (j, d) = (res, j', d')" and s: "seq_ok lib cfg run_id n (j, d)"
  shows "seq_ok lib cfg run_id (if i = run_id then Suc n else n) (j', d')"
proof -
  let ?p = "events_of cfg run_id"
  have id: "identity j' = identity (fresh_journal cfg)" and path: "events_path j i = events_of cfg i"
    using append_event_locked_identityD [OF app] s events_path_of by (auto simp: seq_ok_def)
  define e where "e = \<lparr> ev_run_id = i, ev_sequence = next_sequence lib env i (j, d), ev_category = category, ev_type = type,
    ev_occurred_at_epoch_ms = (if t \<noteq> 0 then t else ap_now_occurred env), ev_recorded_at_epoch_ms = ap_now_recorded env,
    ev_payload = (if is_object payload then payload else JObject []), ev_schema_version = 1 \<rparr>"
  obtain out where al: "append_line env (events_of cfg i) (jl_dump lib (run_event_to_json e)) d = (out, d')"
    and j': "j' = (if is_written out then j\<lparr> rj_next_seq := AList.update i (ev_sequence e + 1) (rj_next_seq j) \<rparr> else j)"
    using app path by (auto simp: append_event_locked_def Let_def e_def split: prod.splits)
  have q: "rj_fault_queue j' = rj_fault_queue j" using j' by simp
  show ?thesis
  proof (cases "i = run_id")
    case False
    then have "stream lib ?p d' = stream lib ?p d \<and> stream_ok lib ?p n d' = stream_ok lib ?p n d"
      using append_line_elsewhere [OF al, of ?p] events_of_inj by (intro stream_ok_cong) auto
    with False s id q j' show ?thesis by (auto simp: seq_ok_def update_conv' split: if_splits)
  next
    case True
    have wf: "event_wf e" using lib(4) by (simp add: e_def event_wf_def)
    have st: "stream lib ?p d' = stream lib ?p d @ (if is_written out then [e] else [])"
      and safe: "cut_safe (read_event lib) (content (dk_files d') ?p)"
      using append_event_stream [OF lib(1) wf lib(2,3) al] s True by (auto simp: seq_ok_def stream_ok_def)
    have seq: "n < 2 ^ 64 \<Longrightarrow> ev_sequence e = of_nat (Suc (length (stream lib ?p d)))"
      using next_sequence_eq [OF s _ lib(2)] True by (simp add: e_def)
    have disk: "disk_ok d' ?p" using append_line_disk(1) [OF al] s True by (simp add: seq_ok_def stream_ok_def)
    show ?thesis using s id q j' st safe seq disk True
      by (auto simp: seq_ok_def stream_ok_def numbered_snoc update_conv' split: if_splits)
  qed
qed


lemma seq_ok_event_Suc:
  assumes "json_lib_ok lib" "ap_read_ok env" "tears env" "json_wf payload" "seq_ok lib cfg run_id n (j, d)"
  shows "seq_ok lib cfg run_id (Suc n) (snd (append_event_locked lib env i category type payload t (j, d)))"
proof -
  obtain res j' d' where e: "append_event_locked lib env i category type payload t (j, d) = (res, j', d')" by (metis prod_cases3)
  have "seq_ok lib cfg run_id (if i = run_id then Suc n else n) (j', d')" by (rule seq_ok_event [OF assms(1-4) e assms(5)])
  then show ?thesis using e seq_ok_mono by (auto split: if_splits)
qed

lemma append_event_seq_ok:
  assumes "json_lib_ok lib" "ap_read_ok env" "tears env" "json_wf payload" "seq_ok lib cfg run_id n (j, d)"
  shows "seq_ok lib cfg run_id (Suc n) (snd (append_event lib env i category type payload t (j, d)))"
  using seq_ok_event_Suc [OF assms] seq_ok_mono [OF assms(5)] by (simp add: append_event_def split: option.split)

lemma open_run_seq_ok:
  assumes "json_lib_ok lib" "ap_read_ok (oe_event env)" "tears (oe_event env)" and s: "seq_ok lib cfg run_id n (j, d)"
  shows "seq_ok lib cfg run_id (Suc n) (snd (open_run lib env spec version (j, d)))"
proof (cases "rj_open_run_id j")
  case (Some other)
  then show ?thesis using seq_ok_mono [OF s] by (simp add: open_run_def)
next
  case None
  let ?j = "j\<lparr> rj_mint_counter := rj_mint_counter j + 1 \<rparr>"
  define r where "r = new_run env spec version ?j"
  let ?j2 = "?j\<lparr> rj_runs := AList.update (rn_run_id r) r (rj_runs ?j), rj_order := rj_order ?j @ [rn_run_id r],
                  rj_open_run_id := Some (rn_run_id r) \<rparr>"
  obtain out d1 where rec: "append_record lib (oe_record env) r (?j, d) = (out, d1)" by fastforce
  have s1: "seq_ok lib cfg run_id n (j, d1)" by (rule seq_ok_record [OF s rec]) simp
  have s2: "seq_ok lib cfg run_id n (?j2, d1)" "seq_ok lib cfg run_id n (?j, d1)"
    by (rule seq_ok_memory [OF s1]; simp)+
  obtain res j3 d3 where ev: "append_event_locked lib (oe_event env) (rn_run_id r) RunOpened [] (JObject []) (oe_now env) (?j2, d1) = (res, j3, d3)"
    by (metis prod_cases3)
  have "seq_ok lib cfg run_id (Suc n) (j3, d3)"
    using seq_ok_event_Suc [OF assms(1-3) _ s2(1), of "JObject []" "rn_run_id r" RunOpened "[]" "oe_now env"] ev by simp
  then show ?thesis using None rec ev seq_ok_mono [OF s2(2)] by (simp add: open_run_def Let_def r_def)
qed

lemma close_run_seq_ok:
  assumes "json_lib_ok lib" "ap_read_ok (cl_event env)" "tears (cl_event env)" and s: "seq_ok lib cfg run_id n (j, d)"
  shows "seq_ok lib cfg run_id (Suc n) (snd (close_run lib env i reason (j, d)))"
proof (cases "\<exists>run. map_of (rj_runs j) i = Some run \<and> rn_state run \<noteq> Run_Closed")
  case False
  then show ?thesis using seq_ok_mono [OF s] by (auto simp: close_run_def split: option.splits)
next
  case True
  then obtain run where run: "map_of (rj_runs j) i = Some run" "rn_state run \<noteq> Run_Closed" by blast
  let ?r = "closed_as reason (cl_now env) run"
  let ?j = "j\<lparr> rj_runs := AList.update i ?r (rj_runs j) \<rparr>"
  obtain out d1 where rec: "append_record lib (cl_record env) ?r (j, d) = (out, d1)" by fastforce
  have s1: "seq_ok lib cfg run_id n (j, d1)" by (rule seq_ok_record [OF s rec]) simp
  have s2: "seq_ok lib cfg run_id n (?j, d1)" by (rule seq_ok_memory [OF s1]; simp)
  obtain res j3 d3 where ev: "append_event_locked lib (cl_event env) i RunClosed (close_reason_to_string reason)
      (JObject []) (cl_now env) (?j, d1) = (res, j3, d3)" by (metis prod_cases3)
  have s3: "seq_ok lib cfg run_id (Suc n) (j3, d3)"
    using seq_ok_event_Suc [OF assms(1-3) _ s2, of "JObject []" i RunClosed "close_reason_to_string reason" "cl_now env"] ev by simp
  have s4: "seq_ok lib cfg run_id (Suc n) (drop_seq i j3, d3)" by (rule seq_ok_drop_seq [OF s3])
  have "seq_ok lib cfg run_id (Suc n) ((drop_seq i j3)\<lparr> rj_open_run_id := None \<rparr>, d3)" by (rule seq_ok_memory [OF s4]; simp)
  then show ?thesis using run rec ev s3 s4 seq_ok_mono [OF s1] by (simp add: close_run_def Let_def)
qed

lemma enqueue_event_seq_ok:
  "json_wf (qe_payload e) \<Longrightarrow> seq_ok lib cfg run_id n (j, d) \<Longrightarrow> seq_ok lib cfg run_id n (enqueue_event e j, d)"
  by (auto simp: seq_ok_def enqueue_event_def identity_def)

lemma writer_turn_seq_ok:
  assumes "json_lib_ok lib" "ap_read_ok env" "tears env" and s: "seq_ok lib cfg run_id n (j, d)"
  shows "seq_ok lib cfg run_id (Suc n) (writer_turn lib env (j, d))"
proof (cases "rj_fault_queue j")
  case Nil
  then show ?thesis using seq_ok_mono [OF s] by (simp add: writer_turn_def)
next
  case (Cons item rest)
  let ?j = "j\<lparr> rj_fault_queue := rest \<rparr>"
  have wf: "json_wf (qe_payload item)" using s Cons by (simp add: seq_ok_def)
  have s1: "seq_ok lib cfg run_id n (?j, d)" by (rule seq_ok_memory [OF s]) (use Cons in auto)
  have s2: "seq_ok lib cfg run_id n (?j\<lparr> rj_events_dropped := rj_events_dropped j + 1 \<rparr>, d)" by (rule seq_ok_memory [OF s1]; simp)
  have "seq_ok lib cfg run_id (Suc n) (snd (append_event_locked lib env open_id c (qe_type item) (qe_payload item)
      (qe_occurred_at_epoch_ms item) (?j, d)))" for open_id c
    by (rule seq_ok_event_Suc [OF assms(1-3) wf s1])
  then show ?thesis using Cons seq_ok_mono [OF s1] seq_ok_mono [OF s2] by (simp add: writer_turn_def Let_def split: option.split)
qed

lemma recover_runs_seq_ok:
  assumes "json_lib_ok lib" "\<And>i. ap_read_ok (rv_event (env i)) \<and> tears (rv_event (env i))"
  shows "distinct ids \<Longrightarrow> seq_ok lib cfg run_id n (j, d) \<Longrightarrow>
    seq_ok lib cfg run_id (if run_id \<in> set ids then Suc n else n) (snd (recover_runs lib env ids (j, d)))"
proof (induction ids arbitrary: j d n)
  case (Cons i ids)
  note s = Cons.prems(2)
  let ?m = "if i = run_id then Suc n else n" and ?k = "if run_id \<in> set (i # ids) then Suc n else n"
  have rest: "seq_ok lib cfg run_id ?m (j', d') \<Longrightarrow> seq_ok lib cfg run_id ?k (snd (recover_runs lib env ids (j', d')))" for j' d'
    using Cons.IH [of ?m j' d'] Cons.prems(1) by (auto split: if_splits)
  show ?case
  proof (cases "\<exists>run. map_of (rj_runs j) i = Some run \<and> rn_state run \<noteq> Run_Closed")
    case False
    then have "recover_runs lib env (i # ids) (j, d) = recover_runs lib env ids (j, d)"
      by (auto simp: recover_runs.simps(2) split: option.split)
    moreover have "seq_ok lib cfg run_id ?m (j, d)" by (rule seq_ok_mono [OF s]) simp
    ultimately show ?thesis using rest by simp
  next
    case True
    then obtain run where run: "map_of (rj_runs j) i = Some run" "rn_state run \<noteq> Run_Closed" by blast
    let ?r = "abandon (rv_now (env i)) run"
    let ?j = "j\<lparr> rj_runs := AList.update i ?r (rj_runs j) \<rparr>"
    let ?pl = "json_object [(''recovery'', JBool True)]"
    obtain out d1 where rec: "append_record lib (rv_record (env i)) ?r (?j, d) = (out, d1)" by fastforce
    have s1: "seq_ok lib cfg run_id n (j, d1)" by (rule seq_ok_record [OF s rec]) simp
    have s2: "seq_ok lib cfg run_id n (?j, d1)" by (rule seq_ok_memory [OF s1]; simp)
    obtain res j3 d3 where ev: "append_event_locked lib (rv_event (env i)) i RunClosed ''abandoned'' ?pl (rv_now (env i)) (?j, d1) = (res, j3, d3)"
      by (metis prod_cases3)
    have wf: "json_wf ?pl" by (rule json_object_wf) simp
    have s3: "seq_ok lib cfg run_id ?m (j3, d3)" using seq_ok_event [OF assms(1) _ _ wf ev s2] assms(2) by simp
    have s4: "seq_ok lib cfg run_id ?k (snd (recover_runs lib env ids (drop_seq i j3, d3)))" by (rule rest [OF seq_ok_drop_seq [OF s3]])
    have s5: "seq_ok lib cfg run_id ?k (?j, d1)" "seq_ok lib cfg run_id ?k (j3, d3)"
      by (rule seq_ok_mono [OF s2], simp) (rule seq_ok_mono [OF s3], simp)
    have "snd (recover_runs lib env (i # ids) (j, d)) = (?j, d1) \<or> snd (recover_runs lib env (i # ids) (j, d)) = (j3, d3) \<or>
        snd (recover_runs lib env (i # ids) (j, d)) = snd (recover_runs lib env ids (drop_seq i j3, d3))"
      using run rec ev by (simp add: recover_runs.simps(2) Let_def)
    then show ?thesis using s4 s5 by (elim disjE) (simp_all only:)
  qed
qed simp


section \<open>Streams without gaps\<close>

fun op_tears :: "journal_op \<Rightarrow> bool" where
  "op_tears (J_Open env spec version) = tears (oe_event env)"
| "op_tears (J_Close env i reason) = tears (cl_event env)"
| "op_tears (J_Event env i category type payload t) = tears env"
| "op_tears (J_Mode env now prv nxt tick) = tears env"
| "op_tears (J_Fault locus message t) = True"
| "op_tears (J_Writer env) = tears env"
| "op_tears (J_Restart env) = (\<forall>i. tears (rv_event (in_recover env i)))"
| "op_tears (J_Power_Cut left env) = (\<forall>i. tears (rv_event (in_recover env i)))"

lemma journal_op_seq_ok:
  assumes "json_lib_ok lib" "op_reads op" "op_tears op" and s: "seq_ok lib cfg run_id n (j, d)"
  shows "seq_ok lib cfg run_id (Suc n) (journal_op_on lib op (j, d))"
proof (cases op)
  case (J_Mode env now prv nxt tick)
  let ?pl = "json_object [(''previous_mode'', JString prv), (''new_mode'', JString nxt)]"
  have wf: "json_wf ?pl" by (rule json_object_wf) simp
  then show ?thesis using J_Mode assms(1-3) s append_event_seq_ok [OF assms(1) _ _ wf s] seq_ok_mono [OF s]
      seq_ok_mono [OF enqueue_event_seq_ok [OF _ s]]
    by (auto simp: record_mode_change_def Let_def split: option.split)
next
  case (J_Fault locus message t)
  have "json_wf (json_object [(''message'', JString message)])" by (rule json_object_wf) simp
  then show ?thesis using J_Fault seq_ok_mono [OF enqueue_event_seq_ok [OF _ s]] by (simp add: enqueue_fault_def)
qed (use assms seq_ok_mono [OF s] in \<open>simp_all add: open_run_seq_ok close_run_seq_ok append_event_seq_ok writer_turn_seq_ok\<close>)

lemma init_runs_seq_ok:
  assumes "json_lib_ok lib" "init_reads env" "op_tears (J_Restart env)" "stream_ok lib (events_of cfg run_id) n d"
    and "init_runs lib cfg env d = (m, d')"
  shows "stream_ok lib (events_of cfg run_id) (Suc n) d' \<and> (\<forall>j. m = Some j \<longrightarrow> seq_ok lib cfg run_id (Suc n) (j, d'))"
proof -
  let ?j = "replayed lib (fresh_journal cfg) d"
  have dist: "distinct (rj_order ?j)"
    using replay_keys [of "[]" "[]"] by (auto simp: replayed_def split: prod.splits)
  have "seq_ok lib cfg run_id n (?j, d)" using assms(4) by (simp add: seq_ok_def)
  from recover_runs_seq_ok [OF assms(1) _ dist this, of "in_recover env"]
  have "seq_ok lib cfg run_id (Suc n) (snd (recover_runs lib (in_recover env) (rj_order ?j) (?j, d)))"
    using assms(2,3) seq_ok_mono [where m = "Suc n"] by (simp add: init_reads_def split: if_splits)
  then show ?thesis using assms(4,5) stream_ok_mono [OF assms(4), of "Suc n"] unfolding init_runs_cases [OF assms(2)]
    by (auto simp: Let_def seq_ok_def split: if_splits prod.splits)
qed

lemma sequence_invariant:
  assumes "json_lib_ok lib"
  shows "journal_invariant lib cfg (\<lambda>op. op_reads op \<and> op_tears op) (seq_ok lib cfg run_id) (stream_ok lib (events_of cfg run_id))"
proof unfold_locales
  fix n d env m d'
  assume "stream_ok lib (events_of cfg run_id) n d" "op_reads (J_Restart env) \<and> op_tears (J_Restart env)" "init_runs lib cfg env d = (m, d')"
  then show "stream_ok lib (events_of cfg run_id) (Suc n) d' \<and> (\<forall>j. m = Some j \<longrightarrow> seq_ok lib cfg run_id (Suc n) (j, d'))"
    by (intro init_runs_seq_ok [OF assms]) simp_all
qed (auto intro: seq_ok_disk journal_op_seq_ok [OF assms] stream_ok_mono stream_ok_power_cut)

text \<open>C19. The events of a run carry the sequence numbers 1, 2, 3 and so on. In any session on a fresh data directory of fewer
  than \<open>2 ^ 64\<close> operations, with failing and torn writes, failed syncs, restarts and power cuts, in which files that
  exist are readable and a write that fails leaves out more than the final newline, the page of a run's whole event
  stream carries exactly the sequences from 1, in order, without a gap or a repetition.\<close>

theorem event_sequences_gapless:
  assumes "json_lib_ok lib" and "list_all (\<lambda>op. op_reads op \<and> op_tears op) ops" and "length ops < 2 ^ 64"
    and "journal_run lib cfg ops (None, empty_disk) = (Some j, d)"
    and "length (list_events lib run_id limit 0 (j, d)) < limit"
  shows "map ev_sequence (list_events lib run_id limit 0 (j, d)) = map of_nat [1..<Suc (length (list_events lib run_id limit 0 (j, d)))]"
proof -
  note inv = sequence_invariant [OF assms(1), of cfg run_id]
  have "journal_invariant.session (seq_ok lib cfg run_id) (stream_ok lib (events_of cfg run_id)) 0 (None, empty_disk)"
    unfolding journal_invariant.session_def [OF inv] by (simp add: stream_ok_def empty_disk_def disk_ok_def content_def stream_def)
  from journal_invariant.session_run [OF inv this assms(2)] assms(4)
  have s: "seq_ok lib cfg run_id (length ops) (j, d)" by (simp add: journal_invariant.session_def [OF inv])
  then have "events_path j run_id = events_of cfg run_id" by (simp add: seq_ok_def events_path_of)
  then have "list_events lib run_id limit 0 (j, d) = stream lib (events_of cfg run_id) d"
    using assms(5) by (simp add: list_events_def stream_def min_def split: if_splits)
  then show ?thesis using s assms(3) by (simp add: seq_ok_def stream_ok_def in_sequence_def)
qed


section \<open>Queue\<close>

text \<open>The queue never exceeds its bound, and every event offered is queued, in order, or counted as dropped.\<close>

lemma enqueue_all:
  assumes "length (rj_fault_queue j) \<le> kMaxFaultQueue"
  shows "let j' = fold enqueue_event es j; room = kMaxFaultQueue - length (rj_fault_queue j) in
    rj_fault_queue j' = rj_fault_queue j @ take room es \<and> rj_events_dropped j' = rj_events_dropped j + of_nat (length es - room)"
  using assms
proof (induction es arbitrary: j)
  case (Cons e es)
  show ?case
  proof (cases "length (rj_fault_queue j) = kMaxFaultQueue")
    case True
    with Cons.IH [of "enqueue_event e j"] show ?thesis by (simp add: enqueue_event_def Let_def)
  next
    case False
    with Cons.prems have "length (rj_fault_queue j) < kMaxFaultQueue" by simp
    moreover from this have "kMaxFaultQueue - length (rj_fault_queue j) = Suc (kMaxFaultQueue - Suc (length (rj_fault_queue j)))" by simp
    ultimately show ?thesis using Cons.IH [of "enqueue_event e j"] by (simp add: enqueue_event_def Let_def)
  qed
qed simp

section \<open>A stream\<close>

theorem event_sequences_gapless_witness:
  "map ev_sequence (list_events demo_lib ''r-A1'' 10 0 (the (fst demo_after), snd demo_after)) = [1, 2]"
proof -
  have "\<not> Option.is_none (fst demo_after)" by code_simp
  then obtain j d where a: "demo_after = (Some j, d)" by (metis Option.is_none_def option.exhaust prod.collapse)
  have "length (list_events demo_lib ''r-A1'' 10 0 (the (fst demo_after), snd demo_after)) = 2" by code_simp
  note two = this [unfolded a fst_conv snd_conv option.sel]
  have "map ev_sequence (list_events demo_lib ''r-A1'' 10 0 (j, d)) =
      map of_nat [1..<Suc (length (list_events demo_lib ''r-A1'' 10 0 (j, d)))]"
    using a two by (intro event_sequences_gapless [OF demo_lib_ok, of demo_ops])
      (simp_all add: demo_after_def demo_ops_def demo_open_def demo_close_def calm_start_def calm_def init_reads_def tears_def)
  then show ?thesis unfolding a by (simp add: two upt_rec)
qed

end
