(* ===== verification/Run_Id.thy ===== *)
theory Run_Id
  imports Run_Journal
begin

text \<open>
  \<open>make_ulid\<close> and \<open>mint_run_id\<close> of \<open>core/runs/run_journal.cpp\<close>: a 48-bit millisecond timestamp and 80 bits of entropy,
  written as 26 base-32 characters through a 32-bit shift buffer. The two draws of the generator are inputs.
  The encoder equals the base-32 numeral of the 128-bit number, and ids sort by their timestamp.
\<close>

unbundle bit_operations_syntax

section \<open>The encoder\<close>

definition kEnc :: string where
  "kEnc = ''0123456789ABCDEFGHJKMNPQRSTVWXYZ''"

definition timestamp_bytes :: "u64 \<Rightarrow> u8 list" where
  "timestamp_bytes ts_ms = map (\<lambda>i. ucast (drop_bit (8 * (5 - i)) ts_ms)) [0..<6]"

definition entropy_bytes :: "u64 \<Rightarrow> u8 list" where
  "entropy_bytes r = map (\<lambda>i. ucast (drop_bit (i * 8) r)) [0..<5]"

text \<open>The inner loop: five bits at a time, most significant first.\<close>

function emit_digits :: "u32 \<Rightarrow> nat \<Rightarrow> string \<Rightarrow> nat \<times> string" where
  "emit_digits bit_buffer bits out =
     (if 5 \<le> bits \<and> length out < 26
      then emit_digits bit_buffer (bits - 5) (out @ [kEnc ! unat (drop_bit (bits - 5) bit_buffer AND 0x1F)])
      else (bits, out))"
  by auto
termination
  by (relation "measure (\<lambda>(buf, bits, out). bits)") auto

declare emit_digits.simps [simp del]

fun encode_bytes :: "u8 list \<Rightarrow> u32 \<Rightarrow> nat \<Rightarrow> string \<Rightarrow> u32 \<times> nat \<times> string" where
  "encode_bytes [] bit_buffer bits out = (bit_buffer, bits, out)"
| "encode_bytes (b # bs) bit_buffer bits out =
     (let bit_buffer = push_bit 8 bit_buffer OR ucast b; (bits, out) = emit_digits bit_buffer (bits + 8) out
      in encode_bytes bs bit_buffer bits out)"

text \<open>The output starts as 26 zeros.\<close>

definition make_ulid :: "u64 \<Rightarrow> u64 \<Rightarrow> u64 \<times> u64 \<Rightarrow> string" where
  "make_ulid ts_ms counter rng =
     (let r1 = fst rng XOR (counter * 0x9E3779B97F4A7C15); r2 = snd rng;
          bytes = timestamp_bytes ts_ms @ entropy_bytes r1 @ entropy_bytes r2;
          (bit_buffer, bits, out) = encode_bytes bytes 0 0 [];
          out = (if 0 < bits \<and> length out < 26 then out @ [kEnc ! unat (push_bit (5 - bits) bit_buffer AND 0x1F)] else out)
      in out @ replicate (26 - length out) CHR ''0'')"

definition mint_run_id :: "u64 \<Rightarrow> u64 \<times> u64 \<Rightarrow> RunJournal \<Rightarrow> string \<times> RunJournal" where
  "mint_run_id now rng j =
     (rj_runtime_name j @ ''-'' @ make_ulid now (rj_mint_counter j) rng, j\<lparr> rj_mint_counter := rj_mint_counter j + 1 \<rparr>)"

section \<open>Reference\<close>

definition byte_number :: "u8 list \<Rightarrow> nat" where
  "byte_number bs = foldl (\<lambda>n b. n * 256 + unat b) 0 bs"

fun base32 :: "nat \<Rightarrow> nat \<Rightarrow> string" where
  "base32 0 n = []"
| "base32 (Suc k) n = kEnc ! (n div 32 ^ k mod 32) # base32 k n"

lemma length_base32 [simp]: "length (base32 k n) = k"
  by (induction k) simp_all

lemma base32_mod: "base32 k (n mod 32 ^ m) = base32 k n" if "k \<le> m"
  using that
proof (induction k)
  case (Suc k)
  then obtain d where m: "m = Suc k + d" using le_Suc_ex by blast
  have "n mod (32 ^ k * 32 ^ Suc d) = 32 ^ k * (n div 32 ^ k mod 32 ^ Suc d) + n mod 32 ^ k" by (rule mod_mult2_eq)
  then have "n mod 32 ^ m div 32 ^ k = n div 32 ^ k mod 32 ^ Suc d" unfolding m by (simp add: power_add mult.commute mult.left_commute)
  then have "n mod 32 ^ m div 32 ^ k mod 32 = n div 32 ^ k mod (32 :: nat)" by (simp add: mod_mod_cancel)
  with Suc show ?case by simp
qed simp

text \<open>Numerals of the same length sort as their numbers.\<close>

lemma kEnc_mono: "a < b \<Longrightarrow> b < 32 \<Longrightarrow> kEnc ! a < kEnc ! b"
proof -
  have "sorted_wrt (<) kEnc" by (simp add: kEnc_def less_char_def)
  then show "a < b \<Longrightarrow> b < 32 \<Longrightarrow> kEnc ! a < kEnc ! b" by (simp add: sorted_wrt_iff_nth_less kEnc_def)
qed

lemma base32_less: "a < b \<Longrightarrow> b < 32 ^ k \<Longrightarrow> base32 k a < base32 k b"
proof (induction k arbitrary: a b)
  case (Suc k)
  have top: "a div 32 ^ k < 32" "b div 32 ^ k < 32" using Suc.prems by (simp_all add: less_mult_imp_div_less mult.commute)
  have "a div 32 ^ k \<le> b div 32 ^ k" using Suc.prems(1) by (simp add: div_le_mono)
  then consider "a div 32 ^ k < b div 32 ^ k" | "a div 32 ^ k = b div 32 ^ k" by linarith
  then show ?case
  proof cases
    case 1
    then show ?thesis using top kEnc_mono by simp
  next
    case 2
    then have "a mod 32 ^ k < b mod 32 ^ k" using Suc.prems(1) by (metis div_mult_mod_eq nat_add_left_cancel_less)
    then have "base32 k (a mod 32 ^ k) < base32 k (b mod 32 ^ k)" by (rule Suc.IH) simp
    then show ?thesis using 2 by (simp add: base32_mod)
  qed
qed simp


section \<open>The shift buffer\<close>

lemma digit:
  assumes "m + 5 \<le> 32"
  shows "unat (drop_bit m (of_nat v :: u32) AND 0x1F) = v div 2 ^ m mod 32"
proof -
  have "drop_bit m (of_nat v :: u32) AND 0x1F = take_bit 5 (drop_bit m (of_nat v))" by (simp add: take_bit_eq_mask mask_eq_exp_minus_1)
  then have "unat (drop_bit m (of_nat v :: u32) AND 0x1F) = take_bit 5 (drop_bit m (take_bit 32 v))"
    by (simp add: unsigned_take_bit_eq unsigned_drop_bit_eq unsigned_of_nat take_bit_drop_bit)
  also have "\<dots> = take_bit 5 (drop_bit m v)" using assms by (auto intro!: bit_eqI simp: bit_take_bit_iff bit_drop_bit_eq)
  finally show ?thesis by (simp add: take_bit_eq_mod drop_bit_eq_div)
qed

lemma last_digit: "n \<le> 5 \<Longrightarrow> unat (push_bit n (of_nat v :: u32) AND 0x1F) = v * 2 ^ n mod 32"
  using digit [of 0 "v * 2 ^ n"] by (simp add: push_bit_eq_mult)

lemma push_byte: "push_bit 8 (of_nat v :: u32) OR ucast (b :: u8) = of_nat (v * 256 + unat b)"
proof -
  have "bit b n \<Longrightarrow> n < 8" for n using bit_imp_le_length [of b n] by simp
  then have "push_bit 8 (of_nat v :: u32) AND ucast b = 0"
    by (fastforce intro!: bit_eqI simp: bit_and_iff bit_push_bit_iff bit_unsigned_iff)
  then have "push_bit 8 (of_nat v :: u32) OR ucast b = push_bit 8 (of_nat v) + ucast b" by (simp add: disjunctive_add_eq_or)
  then show ?thesis by (simp add: push_bit_eq_mult mult.commute unsigned_def)
qed

definition bit_groups :: "nat \<Rightarrow> nat \<Rightarrow> nat \<Rightarrow> string" where
  "bit_groups v len n = map (\<lambda>k. kEnc ! (v div 2 ^ (len - 5 * Suc k) mod 32)) [0..<n]"

lemma length_bit_groups [simp]: "length (bit_groups v len n) = n"
  by (simp add: bit_groups_def)

lemma bit_groups_Suc: "bit_groups v len (Suc n) = bit_groups v len n @ [kEnc ! (v div 2 ^ (len - 5 * Suc n) mod 32)]"
  by (simp add: bit_groups_def)

lemma emit_groups:
  "bits \<le> 32 \<Longrightarrow> length out + bits div 5 \<le> 26 \<Longrightarrow>
   emit_digits (of_nat v) bits out = (bits mod 5, out @ bit_groups v bits (bits div 5))"
proof (induction bits arbitrary: out rule: less_induct)
  case (less bits)
  show ?case
  proof (cases "5 \<le> bits")
    case False
    then show ?thesis by (simp add: emit_digits.simps [of _ bits] bit_groups_def)
  next
    case True
    then have q: "bits div 5 = Suc ((bits - 5) div 5)" "bits mod 5 = (bits - 5) mod 5" by (simp_all add: le_div_geq le_mod_geq)
    have "emit_digits (of_nat v) bits out = emit_digits (of_nat v) (bits - 5) (out @ [kEnc ! (v div 2 ^ (bits - 5) mod 32)])"
      using True less.prems q(1) digit [of "bits - 5" v] by (simp add: emit_digits.simps [of _ bits])
    also have "\<dots> = ((bits - 5) mod 5, (out @ [kEnc ! (v div 2 ^ (bits - 5) mod 32)]) @ bit_groups v (bits - 5) ((bits - 5) div 5))"
      using True less.prems q(1) by (intro less.IH) simp_all
    finally have e: "emit_digits (of_nat v) bits out = ((bits - 5) mod 5, (out @ [kEnc ! (v div 2 ^ (bits - 5) mod 32)]) @ bit_groups v (bits - 5) ((bits - 5) div 5))" .
    have "bit_groups v bits (Suc ((bits - 5) div 5)) = kEnc ! (v div 2 ^ (bits - 5) mod 32) # bit_groups v (bits - 5) ((bits - 5) div 5)"
      unfolding bit_groups_def by (simp add: upt_conv_Cons map_Suc_upt [symmetric] comp_def del: upt_Suc map_Suc_upt)
    with e show ?thesis by (simp add: q)
  qed
qed


lemma bit_groups_shift: "5 * n \<le> len \<Longrightarrow> w < 2 ^ e \<Longrightarrow> bit_groups (v * 2 ^ e + w) (len + e) n = bit_groups v len n"
proof -
  assume a: "5 * n \<le> len" "w < 2 ^ e"
  have "(v * 2 ^ e + w) div 2 ^ (len + e - 5 * Suc k) = v div 2 ^ (len - 5 * Suc k)" if "k < n" for k
  proof -
    have "len + e - 5 * Suc k = e + (len - 5 * Suc k)" using a(1) that by simp
    moreover have "(v * 2 ^ e + w) div 2 ^ e = v" using a(2) by simp
    ultimately show ?thesis by (metis div_mult2_eq power_add)
  qed
  then show ?thesis by (simp add: bit_groups_def)
qed

lemma bit_groups_append:
  "5 * a \<le> len \<Longrightarrow> bit_groups v len a @ bit_groups v (len - 5 * a) b = bit_groups v len (a + b)"
proof -
  assume "5 * a \<le> len"
  have "map f [a..<a + b] = map (\<lambda>k. f (k + a)) [0..<b]" for f :: "nat \<Rightarrow> char"
    by (rule nth_equalityI) (simp_all add: add.commute)
  then show ?thesis by (simp add: bit_groups_def upt_add_eq_append [of 0 a b] diff_diff_left algebra_simps)
qed

text \<open>After \<open>m\<close> bytes the buffer is their number, and what has been written are the complete groups of five bits.\<close>

lemma groups_step:
  "8 * Suc m - 5 * (8 * m div 5) = 8 * m mod 5 + 8" "8 * m div 5 + (8 * m mod 5 + 8) div 5 = 8 * Suc m div 5"
  "(8 * m mod 5 + 8) mod 5 = 8 * Suc m mod (5 :: nat)" "5 * (8 * m div 5) \<le> 8 * Suc m"
proof -
  define q r where "q = 8 * m div 5" and "r = 8 * m mod 5"
  have e: "8 * Suc m = 5 * q + (r + 8)" by (simp add: q_def r_def)
  show "8 * Suc m - 5 * (8 * m div 5) = 8 * m mod 5 + 8" "5 * (8 * m div 5) \<le> 8 * Suc m"
    unfolding q_def [symmetric] r_def [symmetric] e by simp_all
  show "8 * m div 5 + (8 * m mod 5 + 8) div 5 = 8 * Suc m div 5" "(8 * m mod 5 + 8) mod 5 = 8 * Suc m mod (5 :: nat)"
    unfolding q_def [symmetric] r_def [symmetric] e by simp_all
qed

lemma encode_bytes_groups:
  "m + length bs \<le> 16 \<Longrightarrow>
   encode_bytes bs (of_nat v) (8 * m mod 5) (bit_groups v (8 * m) (8 * m div 5)) =
     (let w = foldl (\<lambda>n b. n * 256 + unat b) v bs; len = 8 * (m + length bs) in (of_nat w, len mod 5, bit_groups w len (len div 5)))"
proof (induction bs arbitrary: m v)
  case (Cons b bs)
  let ?w = "v * 256 + unat b" and ?bits = "8 * m mod 5 + 8" and ?out = "bit_groups v (8 * m) (8 * m div 5)"
  have b: "unat b < 2 ^ 8" using unsigned_less [of b] by simp
  have out: "?out = bit_groups ?w (8 * Suc m) (8 * m div 5)"
    using bit_groups_shift [of "8 * m div 5" "8 * m" "unat b" 8 v] b by (simp add: add.commute)
  note bits = groups_step [of m]
  have "emit_digits (of_nat ?w) ?bits ?out = (?bits mod 5, ?out @ bit_groups ?w ?bits (?bits div 5))"
    using Cons.prems bits(2) by (intro emit_groups) auto
  also have "?out @ bit_groups ?w ?bits (?bits div 5) = bit_groups ?w (8 * Suc m) (8 * Suc m div 5)"
    unfolding out using bit_groups_append [OF bits(4), of ?w "?bits div 5"] unfolding bits(1,2) .
  finally have e: "emit_digits (of_nat ?w) ?bits ?out = (8 * Suc m mod 5, bit_groups ?w (8 * Suc m) (8 * Suc m div 5))" using bits(3) by simp
  show ?case using Cons.IH [of "Suc m" ?w] Cons.prems e by (simp add: push_byte Let_def)
qed (simp add: Let_def)


section \<open>Identifiers\<close>

lemma byte_number_append: "byte_number (as @ bs) = byte_number as * 256 ^ length bs + byte_number bs"
proof -
  have "foldl (\<lambda>n b. n * 256 + unat b) v bs = v * 256 ^ length bs + foldl (\<lambda>n b. n * 256 + unat b) 0 bs" for v and bs :: "u8 list"
    by (induction bs rule: rev_induct) (simp_all add: algebra_simps)
  from this [of "byte_number as" bs] show ?thesis unfolding byte_number_def by simp
qed

lemma byte_number_less: "byte_number bs < 256 ^ length bs"
proof (induction bs rule: rev_induct)
  case (snoc b bs)
  have "unat b < 256" using unsigned_less [of b] by simp
  moreover have "byte_number (bs @ [b]) = byte_number bs * 256 + unat b" by (simp add: byte_number_def)
  moreover have "Suc (byte_number bs) * 256 \<le> 256 ^ length bs * 256" using snoc by (intro mult_le_mono1) simp
  ultimately show ?case by simp
qed (simp add: byte_number_def)

definition ulid_bytes :: "u64 \<Rightarrow> u64 \<Rightarrow> u64 \<times> u64 \<Rightarrow> u8 list" where
  "ulid_bytes ts_ms counter rng =
     timestamp_bytes ts_ms @ entropy_bytes (fst rng XOR (counter * 0x9E3779B97F4A7C15)) @ entropy_bytes (snd rng)"

lemma length_ulid_bytes: "length (ulid_bytes ts counter rng) = 16"
  by (simp add: ulid_bytes_def timestamp_bytes_def entropy_bytes_def)

lemma base32_groups: "base32 k v = bit_groups v (5 * k) k"
proof -
  have "base32 k v = map (\<lambda>i. kEnc ! (v div 32 ^ (k - Suc i) mod 32)) [0..<k]"
    by (induction k) (simp_all add: upt_conv_Cons map_Suc_upt [symmetric] comp_def del: upt_Suc map_Suc_upt)
  moreover have "(32 :: nat) ^ (k - Suc i) = 2 ^ (5 * k - 5 * Suc i)" if "i < k" for i
  proof -
    have "5 * k - 5 * Suc i = 5 * (k - Suc i)" by simp
    then show ?thesis by (simp add: power_mult)
  qed
  ultimately show ?thesis by (simp add: bit_groups_def)
qed

text \<open>The shift buffer computes the numeral: the 128 bits and two zero bits, in 26 digits.\<close>

lemma make_ulid_reference: "make_ulid ts counter rng = base32 26 (byte_number (ulid_bytes ts counter rng) * 4)"
proof -
  let ?v = "byte_number (ulid_bytes ts counter rng)"
  have "encode_bytes (ulid_bytes ts counter rng) 0 0 [] = (of_nat ?v, 3, bit_groups ?v 128 25)"
    using encode_bytes_groups [of 0 "ulid_bytes ts counter rng" 0] by (simp add: length_ulid_bytes byte_number_def bit_groups_def Let_def)
  then have "make_ulid ts counter rng = bit_groups ?v 128 25 @ [kEnc ! (?v * 4 mod 32)]"
    using last_digit [of 2 ?v] by (simp add: make_ulid_def ulid_bytes_def Let_def)
  also have "bit_groups ?v 128 25 = bit_groups (?v * 4) 130 25" using bit_groups_shift [of 25 128 0 2 ?v] by simp
  also have "\<dots> @ [kEnc ! (?v * 4 mod 32)] = bit_groups (?v * 4) 130 26" using bit_groups_Suc [of "?v * 4" 130 25] by simp
  also have "\<dots> = base32 26 (?v * 4)" by (simp add: base32_groups)
  finally show ?thesis .
qed

lemma big_endian: "foldl (\<lambda>n b. n * 256 + b) 0 (map (\<lambda>i. x div 256 ^ (k - Suc i) mod 256) [0..<k]) = x mod (256 :: nat) ^ k"
proof (induction k arbitrary: x)
  case (Suc k)
  have "x div 256 ^ (Suc k - Suc i) mod 256 = x div 256 div 256 ^ (k - Suc i) mod 256" if "i < k" for i
  proof -
    have "Suc k - Suc i = Suc (k - Suc i)" using that by simp
    then show ?thesis by (simp add: div_mult2_eq)
  qed
  then have m: "map (\<lambda>i. x div 256 ^ (Suc k - Suc i) mod 256) [0..<Suc k] = map (\<lambda>i. x div 256 div 256 ^ (k - Suc i) mod 256) [0..<k] @ [x mod 256]"
    by simp
  show ?case unfolding m using Suc.IH [of "x div 256"] mod_mult2_eq [of x 256 "256 ^ k"] by simp
qed simp

lemma timestamp_value:
  assumes "unat ts < 2 ^ 48"
  shows "byte_number (timestamp_bytes ts) = unat ts"
proof -
  have t: "unat ts mod 18446744073709551616 = unat ts" using assms by simp
  have "unat (ucast (drop_bit (8 * (5 - i)) ts) :: u8) = unat ts div 256 ^ (6 - Suc i) mod 256" for i
    using t by (simp add: unsigned_ucast_eq unsigned_drop_bit_eq power_mult take_bit_eq_mod) (simp add: drop_bit_eq_div power_mult)
  then have "map unat (timestamp_bytes ts) = map (\<lambda>i. unat ts div 256 ^ (6 - Suc i) mod 256) [0..<6]" by (simp add: timestamp_bytes_def)
  moreover have "byte_number bs = foldl (\<lambda>n b. n * 256 + b) 0 (map unat bs)" for bs by (simp add: byte_number_def foldl_map)
  ultimately show ?thesis using big_endian [of "unat ts" 6] assms by simp
qed

text \<open>Run ids sort by time. An id is 26 characters of the alphabet, the base-32 numeral of its 128 bits, and of two
  ids with timestamps below \<open>2 ^ 48\<close> milliseconds the earlier one is the smaller string, whatever the counter and
  the entropy are.\<close>

lemma ulid_sorts_by_time:
  "make_ulid ts counter rng = base32 26 (byte_number (ulid_bytes ts counter rng) * 4) \<and> length (make_ulid ts counter rng) = 26 \<and>
   (ts < ts' \<and> unat ts' < 2 ^ 48 \<longrightarrow> make_ulid ts counter rng < make_ulid ts' counter' rng')"
proof -
  have "make_ulid ts counter rng < make_ulid ts' counter' rng'" if t: "ts < ts'" "unat ts' < 2 ^ 48"
  proof -
    let ?rest = "\<lambda>counter rng. entropy_bytes (fst rng XOR (counter * 0x9E3779B97F4A7C15)) @ entropy_bytes (snd rng)"
    have lt: "unat ts < unat ts'" "unat ts < 2 ^ 48" using t by (simp_all add: word_less_nat_alt)
    have len: "length (?rest c r) = 10" for c r by (simp add: entropy_bytes_def)
    have v: "byte_number (ulid_bytes x c r) = unat x * 256 ^ 10 + byte_number (?rest c r)" if "unat x < 2 ^ 48" for x c r
      using byte_number_append [of "timestamp_bytes x" "?rest c r"] timestamp_value [OF that] len [of r c] by (simp add: ulid_bytes_def)
    have "byte_number (?rest counter rng) < 256 ^ 10" using byte_number_less [of "?rest counter rng"] len [of rng counter] by simp
    moreover have "Suc (unat ts) * 256 ^ 10 \<le> unat ts' * 256 ^ 10" using lt(1) by (intro mult_le_mono1) simp
    ultimately have "byte_number (ulid_bytes ts counter rng) < byte_number (ulid_bytes ts' counter' rng')"
      using v [OF lt(2)] v [OF t(2)] by simp
    moreover have "byte_number (ulid_bytes ts' counter' rng') * 4 < 32 ^ 26"
      using byte_number_less [of "ulid_bytes ts' counter' rng'"] by (simp add: length_ulid_bytes)
    ultimately show ?thesis unfolding make_ulid_reference by (intro base32_less) simp_all
  qed
  then show ?thesis by (simp add: make_ulid_reference)
qed

theorem ulid_sorts_by_time_witness: "make_ulid 1 5 (2, 3) < make_ulid 2 0 (0, 0)"
proof -
  have "(1 :: u64) < 2 \<and> unat (2 :: u64) < 2 ^ 48" by simp
  with ulid_sorts_by_time [of 1 5 "(2, 3)" 2 0 "(0, 0)"] show ?thesis by blast
qed


text \<open>The counter alone does not keep ids of the same millisecond apart: it is mixed into the draw, so a draw that
  differs by its multiple gives the same id.\<close>

lemma ulid_may_repeat: "make_ulid ts 0 (0, r) = make_ulid ts 1 (0x9E3779B97F4A7C15, r)"
  by (simp add: make_ulid_def)

end
