(* ===== verification/Bt_Nodes.thy ===== *)
theory Bt_Nodes
  imports Runtime_Hooks Run_Types Parameter_Manager "HOL-Library.Signed_Division"
begin

text \<open>
  \<open>core/automation/bt_nodes.cpp\<close>: the behaviour-tree nodes. What the tree library answers to \<open>getInput<T>\<close> is the
  record \<open>InPorts\<close> (\<open>None\<close>: no value, or one that does not convert); the ports a tick sets are a list. A tick returns
  a status, throws, or traps (an integer division by zero). \<open>int64_t\<close> values are words; a product that overflows
  wraps. \<open>CallDevice\<close> acts through the router (\<open>route\<close>) and reports each result to the runtime.
\<close>

section \<open>Ports\<close>

datatype NodeStatus = NS_IDLE | NS_RUNNING | NS_SUCCESS | NS_FAILURE | NS_SKIPPED

datatype port_value = P_Bool bool | P_Int64 u64 | P_Double f64 | P_String string

record InPorts =
  ip_string :: "string \<Rightarrow> string option"
  ip_bool :: "string \<Rightarrow> bool option"
  ip_int64 :: "string \<Rightarrow> u64 option"
  ip_double :: "string \<Rightarrow> f64 option"

type_synonym outputs = "(string \<times> port_value) list"

datatype node_result = Node_Status NodeStatus | Node_Throws string | Node_Traps

definition or_else :: "'a option \<Rightarrow> 'a \<Rightarrow> 'a" where
  "or_else x d = (case x of Some v \<Rightarrow> v | None \<Rightarrow> d)"

definition wrap64 :: "int \<Rightarrow> int" where
  "wrap64 i = sint (word_of_int i :: u64)"

section \<open>Values\<close>

definition f64_one :: f64 where
  "f64_one = f64_of_int 1"

definition value_to_double :: "Value \<Rightarrow> f64" where
  "value_to_double v =
     (case v_kind v of
        K_Double d \<Rightarrow> d
      | K_Int64 i \<Rightarrow> f64_of_int (sint i)
      | K_Uint64 u \<Rightarrow> f64_of_int (uint u)
      | K_Bool b \<Rightarrow> (if b then f64_one else 0)
      | _ \<Rightarrow> 0)"

definition signal_quality_to_string :: "ProtoQuality \<Rightarrow> string" where
  "signal_quality_to_string q =
     (case q of QUALITY_OK \<Rightarrow> ''OK'' | QUALITY_STALE \<Rightarrow> ''STALE'' | QUALITY_FAULT \<Rightarrow> ''FAULT'' | QUALITY_UNKNOWN \<Rightarrow> ''UNKNOWN''
      | _ \<Rightarrow> ''UNSPECIFIED'')"

definition string_to_quality :: "string \<Rightarrow> ProtoQuality" where
  "string_to_quality s =
     (if s = ''OK'' then QUALITY_OK else if s = ''STALE'' then QUALITY_STALE else if s = ''FAULT'' then QUALITY_FAULT
      else if s = ''UNKNOWN'' then QUALITY_UNKNOWN else QUALITY_UNSPECIFIED)"

definition double_to_value :: "f64 \<Rightarrow> Value" where
  "double_to_value d = \<lparr> v_type = VALUE_TYPE_DOUBLE, v_kind = K_Double d \<rparr>"

definition int64_to_value :: "u64 \<Rightarrow> Value" where
  "int64_to_value i = \<lparr> v_type = VALUE_TYPE_INT64, v_kind = K_Int64 i \<rparr>"

definition bool_to_value :: "bool \<Rightarrow> Value" where
  "bool_to_value b = \<lparr> v_type = VALUE_TYPE_BOOL, v_kind = K_Bool b \<rparr>"

definition string_to_value :: "string \<Rightarrow> Value" where
  "string_to_value s = \<lparr> v_type = VALUE_TYPE_STRING, v_kind = K_String s \<rparr>"

section \<open>Reading nodes\<close>

text \<open>\<open>cache\<close>: \<open>None\<close> when the service context has no state cache.\<close>

definition read_signal_tick :: "StateCache option \<Rightarrow> InPorts \<Rightarrow> node_result \<times> outputs" where
  "read_signal_tick cache ports =
     (case cache of
        None \<Rightarrow> (Node_Status NS_FAILURE, [])
      | Some sc \<Rightarrow>
          (case (ip_string ports ''device_handle'', ip_string ports ''signal_id'') of
             (Some device_handle, Some signal_id) \<Rightarrow>
               (case get_signal_value sc device_handle signal_id of
                  None \<Rightarrow> (Node_Status NS_FAILURE, [])
                | Some v \<Rightarrow> (Node_Status NS_SUCCESS,
                    [(''value'', P_Double (value_to_double (cv_value v))), (''quality'', P_String (signal_quality_to_string (cv_quality v)))]))
           | _ \<Rightarrow> (Node_Status NS_FAILURE, [])))"

definition check_quality_tick :: "StateCache option \<Rightarrow> InPorts \<Rightarrow> node_result" where
  "check_quality_tick cache ports =
     (case cache of
        None \<Rightarrow> Node_Status NS_FAILURE
      | Some sc \<Rightarrow>
          (let expected = or_else (ip_string ports ''expected_quality'') ''OK'' in
           case (ip_string ports ''device_handle'', ip_string ports ''signal_id'') of
             (Some device_handle, Some signal_id) \<Rightarrow>
               (case get_signal_value sc device_handle signal_id of
                  None \<Rightarrow> Node_Status NS_FAILURE
                | Some v \<Rightarrow> Node_Status (if cv_quality v = string_to_quality expected then NS_SUCCESS else NS_FAILURE))
           | _ \<Rightarrow> Node_Status NS_FAILURE))"

text \<open>The three parameter nodes differ in the values they accept.\<close>

definition parameter_tick :: "(ParameterValue \<Rightarrow> port_value option) \<Rightarrow> ParameterManager option \<Rightarrow> InPorts \<Rightarrow> node_result \<times> outputs" where
  "parameter_tick accept parameters ports =
     (case (parameters, ip_string ports ''param'') of
        (Some pm, Some name) \<Rightarrow>
          (case Option.bind (get_parameter pm name) accept of
             Some v \<Rightarrow> (Node_Status NS_SUCCESS, [(''value'', v)])
           | None \<Rightarrow> (Node_Status NS_FAILURE, []))
      | _ \<Rightarrow> (Node_Status NS_FAILURE, []))"

definition get_parameter_tick :: "ParameterManager option \<Rightarrow> InPorts \<Rightarrow> node_result \<times> outputs" where
  "get_parameter_tick = parameter_tick (\<lambda>v. case v of
     PV_Double d \<Rightarrow> Some (P_Double d) | PV_Int64 i \<Rightarrow> Some (P_Double (f64_of_int (sint i))) | _ \<Rightarrow> None)"

definition get_parameter_bool_tick :: "ParameterManager option \<Rightarrow> InPorts \<Rightarrow> node_result \<times> outputs" where
  "get_parameter_bool_tick = parameter_tick (\<lambda>v. case v of PV_Bool b \<Rightarrow> Some (P_Bool b) | _ \<Rightarrow> None)"

definition get_parameter_int64_tick :: "ParameterManager option \<Rightarrow> InPorts \<Rightarrow> node_result \<times> outputs" where
  "get_parameter_int64_tick = parameter_tick (\<lambda>v. case v of PV_Int64 i \<Rightarrow> Some (P_Int64 i) | _ \<Rightarrow> None)"

definition check_bool_tick :: "InPorts \<Rightarrow> node_result" where
  "check_bool_tick ports =
     (case ip_bool ports ''value'' of
        None \<Rightarrow> Node_Status NS_FAILURE
      | Some v \<Rightarrow> Node_Status (if v = or_else (ip_bool ports ''expected'') True then NS_SUCCESS else NS_FAILURE))"

section \<open>Calling\<close>

text \<open>The arguments of a call, in key order. \<open>Inl\<close>: the error the node sets.\<close>

fun json_arg :: "json \<Rightarrow> Value option" where
  "json_arg (JFloat d) = Some (double_to_value d)"
| "json_arg (JInteger i) = Some (int64_to_value (word_of_int i))"
| "json_arg (JBool b) = Some (bool_to_value b)"
| "json_arg (JString s) = Some (string_to_value s)"
| "json_arg _ = None"

fun json_args :: "(string \<times> json) list \<Rightarrow> args_map \<Rightarrow> string + args_map" where
  "json_args [] args = Inr args"
| "json_args ((key, v) # rest) args =
     (case json_arg v of
        Some x \<Rightarrow> json_args rest (omap_put key x args)
      | None \<Rightarrow> Inl (''Unsupported JSON type for arg '' @ [CHR 0x27] @ key @ [CHR 0x27]))"

text \<open>What the service context offers: a router, a provider registry and the sink for call results.\<close>

record 'h CallServices =
  cs_router :: bool
  cs_registry :: bool
  cs_on_call_result :: "(string \<Rightarrow> string \<Rightarrow> bool \<Rightarrow> string \<Rightarrow> 'h \<Rightarrow> string \<times> 'h) option"

text \<open>\<open>parse\<close>: the library's parser, \<open>Inl\<close> the message of its \<open>parse_error\<close>; \<open>say\<close>: the text of a call error.\<close>

definition call_args :: "(string \<Rightarrow> string + json) \<Rightarrow> InPorts \<Rightarrow> string + args_map" where
  "call_args parse ports =
     (let s = or_else (ip_string ports ''args'') ''{}''; s = (if take 5 s = ''json:'' then drop 5 s else s) in
      if s = [] \<or> s = ''{}'' then Inr []
      else case parse s of
        Inl e \<Rightarrow> Inl (''JSON parse error: '' @ e)
      | Inr (JObject ms) \<Rightarrow> json_args ms []
      | Inr _ \<Rightarrow> Inl ''args must be a JSON object'')"

definition call_failed :: "string \<Rightarrow> 'w \<Rightarrow> node_result \<times> outputs \<times> 'w" where
  "call_failed e w = (Node_Status NS_FAILURE, [(''success'', P_Bool False), (''error'', P_String e)], w)"

definition bt_request :: "string \<Rightarrow> string \<Rightarrow> args_map \<Rightarrow> CallRequest" where
  "bt_request device_handle function_name args =
     \<lparr> rq_device_handle = device_handle, rq_function_id = 0, rq_function_name = function_name, rq_args = args,
       rq_is_automated = True, rq_is_behavior_tree = True, rq_safe_state = False, rq_fault_entry_hook = False \<rparr>"

definition call_device_tick ::
  "(string \<Rightarrow> string + json) \<Rightarrow> (call_error option \<Rightarrow> string) \<Rightarrow> (nat \<Rightarrow> RouterEnv) \<Rightarrow> 'h CallServices option \<Rightarrow> InPorts \<Rightarrow>
   LadderState \<times> 'h \<Rightarrow> node_result \<times> outputs \<times> LadderState \<times> 'h" where
  "call_device_tick parse say env services ports w =
     (case services of
        None \<Rightarrow> call_failed ''CallRouter not available'' w
      | Some cs \<Rightarrow>
          if \<not> cs_router cs then call_failed ''CallRouter not available'' w
          else (case (ip_string ports ''device_handle'', ip_string ports ''function_name'') of
             (Some device_handle, Some function_name) \<Rightarrow>
               (case call_args parse ports of
                  Inl e \<Rightarrow> call_failed e w
                | Inr args \<Rightarrow>
                    if \<not> cs_registry cs then call_failed ''Provider registry not available'' w
                    else let (res, ls) = route env (bt_request device_handle function_name args) (fst w);
                             error = say (cr_error res);
                             outs = [(''success'', P_Bool (cr_success res)), (''error'', P_String error)];
                             (fault, h) = (case cs_on_call_result cs of
                                             None \<Rightarrow> ([], snd w)
                                           | Some sink \<Rightarrow> sink device_handle function_name (cr_success res) error (snd w)) in
                      (if fault \<noteq> [] then Node_Throws fault
                       else Node_Status (if cr_success res then NS_SUCCESS else NS_FAILURE), outs, ls, h))
           | _ \<Rightarrow> call_failed ''Missing device_handle or function_name'' w))"

section \<open>Pulses\<close>

record PeriodicState =
  pp_initialized :: bool
  pp_enabled_at_ms :: int

definition new_periodic :: PeriodicState where
  "new_periodic = \<lparr> pp_initialized = False, pp_enabled_at_ms = 0 \<rparr>"

definition pulse_outputs :: "bool \<Rightarrow> int \<Rightarrow> int \<Rightarrow> outputs" where
  "pulse_outputs active pulse_index elapsed_ms =
     [(''active'', P_Bool active), (''pulse_index'', P_Int64 (word_of_int pulse_index)), (''elapsed_ms'', P_Int64 (word_of_int elapsed_ms))]"

text \<open>The interval, stretched to the hourly cap.\<close>

definition capped_interval :: "int \<Rightarrow> int \<Rightarrow> int" where
  "capped_interval interval_ms max_pulses_per_hour =
     (if 0 < max_pulses_per_hour then max interval_ms (3600 * 1000 div max_pulses_per_hour) else interval_ms)"

text \<open>\<open>clock\<close>: the steady clock, read when \<open>now_ms\<close> has no value.\<close>

definition periodic_pulse_tick :: "u64 \<Rightarrow> InPorts \<Rightarrow> PeriodicState \<Rightarrow> node_result \<times> outputs \<times> PeriodicState" where
  "periodic_pulse_tick clock ports st =
     (let enabled = or_else (ip_bool ports ''enabled'') True;
          startup_delay_s = sint (or_else (ip_int64 ports ''startup_delay_s'') 0);
          interval_s = sint (or_else (ip_int64 ports ''interval_s'') 60);
          pulse_s = sint (or_else (ip_int64 ports ''pulse_s'') 1);
          max_pulses_per_hour = sint (or_else (ip_int64 ports ''max_pulses_per_hour'') 0);
          now_ms = sint (or_else (ip_int64 ports ''now_ms'') clock) in
      if startup_delay_s < 0 \<or> interval_s \<le> 0 \<or> pulse_s \<le> 0 \<or> interval_s < pulse_s \<or> max_pulses_per_hour < 0
      then (Node_Status NS_FAILURE, [], st)
      else if \<not> enabled then (Node_Status NS_SUCCESS, pulse_outputs False (- 1) 0, st\<lparr> pp_initialized := False \<rparr>)
      else let st = (if pp_initialized st then st else \<lparr> pp_initialized = True, pp_enabled_at_ms = now_ms \<rparr>);
               elapsed_ms = max 0 (wrap64 (now_ms - pp_enabled_at_ms st));
               startup_delay_ms = wrap64 (startup_delay_s * 1000) in
        if elapsed_ms < startup_delay_ms then (Node_Status NS_SUCCESS, pulse_outputs False (- 1) elapsed_ms, st)
        else let pulse_ms = wrap64 (pulse_s * 1000);
                 interval_ms = capped_interval (wrap64 (interval_s * 1000)) max_pulses_per_hour;
                 effective_ms = wrap64 (elapsed_ms - startup_delay_ms) in
          if interval_ms = 0 then (Node_Traps, [], st)
          else (Node_Status NS_SUCCESS,
                pulse_outputs (effective_ms smod interval_ms < pulse_ms) (effective_ms sdiv interval_ms) elapsed_ms, st))"

record RequestedState =
  rp_initialized :: bool
  rp_last_request :: int
  rp_queued :: int
  rp_running :: bool
  rp_start_ms :: int

definition new_requested :: RequestedState where
  "new_requested = \<lparr> rp_initialized = False, rp_last_request = 0, rp_queued = 0, rp_running = False, rp_start_ms = 0 \<rparr>"

definition requested_outputs :: "bool \<Rightarrow> RequestedState \<Rightarrow> outputs" where
  "requested_outputs active st = [(''active'', P_Bool active), (''queued'', P_Int64 (word_of_int (rp_queued st)))]"

text \<open>The stages of a tick: a pulse that ended, the new requests, the next pulse.\<close>

definition end_pulse :: "int \<Rightarrow> int \<Rightarrow> RequestedState \<Rightarrow> RequestedState" where
  "end_pulse now_ms pulse_ms st =
     (if rp_running st \<and> wrap64 (rp_start_ms st + pulse_ms) \<le> now_ms then st\<lparr> rp_running := False \<rparr> else st)"

definition count_requests :: "int \<Rightarrow> int \<Rightarrow> RequestedState \<Rightarrow> RequestedState" where
  "count_requests request max_queued st =
     (if \<not> rp_initialized st then st\<lparr> rp_initialized := True, rp_last_request := request \<rparr>
      else if rp_last_request st < request
      then let room = wrap64 (wrap64 (max_queued - rp_queued st) - (if rp_running st then 1 else 0)) in
        st\<lparr> rp_queued := wrap64 (rp_queued st + max 0 (min (wrap64 (request - rp_last_request st)) room)), rp_last_request := request \<rparr>
      else if request < rp_last_request st then st\<lparr> rp_last_request := request \<rparr>
      else st)"

definition start_pulse :: "int \<Rightarrow> int \<Rightarrow> RequestedState \<Rightarrow> RequestedState" where
  "start_pulse now_ms delay_s st =
     (if \<not> rp_running st \<and> 0 < rp_queued st
      then st\<lparr> rp_queued := wrap64 (rp_queued st - 1), rp_running := True, rp_start_ms := wrap64 (now_ms + wrap64 (delay_s * 1000)) \<rparr>
      else st)"

definition requested_pulse_tick :: "u64 \<Rightarrow> InPorts \<Rightarrow> RequestedState \<Rightarrow> node_result \<times> outputs \<times> RequestedState" where
  "requested_pulse_tick clock ports st =
     (let delay_s = sint (or_else (ip_int64 ports ''delay_s'') 0);
          pulse_s = sint (or_else (ip_int64 ports ''pulse_s'') 1);
          max_queued = sint (or_else (ip_int64 ports ''max_queued'') 1);
          now_ms = sint (or_else (ip_int64 ports ''now_ms'') clock) in
      case ip_int64 ports ''request'' of
        None \<Rightarrow> (Node_Status NS_FAILURE, requested_outputs False st, st)
      | Some request \<Rightarrow>
          if delay_s < 0 \<or> pulse_s \<le> 0 \<or> max_queued < 1 then (Node_Status NS_FAILURE, requested_outputs False st, st)
          else let pulse_ms = wrap64 (pulse_s * 1000);
                   st = start_pulse now_ms delay_s (count_requests (sint request) max_queued (end_pulse now_ms pulse_ms st));
                   active = (rp_running st \<and> rp_start_ms st \<le> now_ms \<and> now_ms < wrap64 (rp_start_ms st + pulse_ms)) in
            (Node_Status NS_SUCCESS, requested_outputs active st, st))"

section \<open>Emission\<close>

record EmitState =
  em_has_last_emit :: bool
  em_last_emit_ms :: int
  em_last_key :: string

definition new_emit :: EmitState where
  "new_emit = \<lparr> em_has_last_emit = False, em_last_emit_ms = 0, em_last_key = [] \<rparr>"

definition emit_decision :: "int \<Rightarrow> int \<Rightarrow> bool \<Rightarrow> string \<Rightarrow> int \<Rightarrow> EmitState \<Rightarrow> bool \<times> string" where
  "emit_decision keepalive_s min_spacing_ms force key now_ms st =
     (if force then (True, ''force'')
      else if \<not> em_has_last_emit st then (True, ''first'')
      else let since_last_ms = wrap64 (now_ms - em_last_emit_ms st) in
        if key \<noteq> em_last_key st \<and> min_spacing_ms \<le> since_last_ms then (True, ''changed'')
        else if 0 < keepalive_s \<and> wrap64 (keepalive_s * 1000) \<le> since_last_ms then (True, ''keepalive'')
        else (False, ''hold''))"

definition emit_tick :: "u64 \<Rightarrow> InPorts \<Rightarrow> EmitState \<Rightarrow> node_result \<times> outputs \<times> EmitState" where
  "emit_tick clock ports st =
     (case ip_string ports ''key'' of
        None \<Rightarrow> (Node_Status NS_FAILURE, [], st)
      | Some key \<Rightarrow>
          (let keepalive_s = sint (or_else (ip_int64 ports ''keepalive_s'') 30);
               min_spacing_ms = sint (or_else (ip_int64 ports ''min_spacing_ms'') 0);
               force = or_else (ip_bool ports ''force'') False;
               now_ms = sint (or_else (ip_int64 ports ''now_ms'') clock) in
           if keepalive_s < 0 \<or> min_spacing_ms < 0 then (Node_Status NS_FAILURE, [], st)
           else let (emits, reason) = emit_decision keepalive_s min_spacing_ms force key now_ms st in
             (Node_Status NS_SUCCESS, [(''emit'', P_Bool emits), (''reason'', P_String reason)],
              if emits then \<lparr> em_has_last_emit = True, em_last_emit_ms = now_ms, em_last_key = key \<rparr> else st)))"


section \<open>Arguments\<close>

definition in_int64 :: "int \<Rightarrow> bool" where
  "in_int64 i \<longleftrightarrow> - (2 ^ 63) \<le> i \<and> i < 2 ^ 63"

text \<open>\<open>std::llround\<close>: half away from zero; \<open>unspecified\<close> is what it yields for a number with no such integer.\<close>

definition llround :: "int \<Rightarrow> f64 \<Rightarrow> int" where
  "llround unspecified d =
     (let n = f64_scaled d; a = (2 * \<bar>n\<bar> + 2 ^ 1074) div 2 ^ 1075; r = (if n < 0 then - a else a) in
      if f64_finite d \<and> in_int64 r then r else unspecified)"

text \<open>\<open>1e-9\<close>, and the comparison of \<open>fabs(raw - rounded)\<close> with it: false for a NaN. The difference of a finite number
  and its rounding is exact.\<close>

definition tolerance :: f64 where
  "tolerance = 0x3E112E0BE826D695"

definition differs :: "f64 \<Rightarrow> int \<Rightarrow> bool" where
  "differs raw rounded =
     (if f64_is_nan raw then False
      else if \<not> f64_finite raw then True
      else f64_scaled tolerance < \<bar>f64_scaled raw - f64_scaled (f64_of_int rounded)\<bar>)"

record ArgSlot =
  sl_name :: "string option"
  sl_type :: string
  sl_num :: "f64 option"
  sl_bool :: "bool option"
  sl_str :: "string option"

definition read_slot :: "InPorts \<Rightarrow> nat \<Rightarrow> ArgSlot" where
  "read_slot ports i =
     (let arg = ''arg'' @ nat_to_string i in
      \<lparr> sl_name = ip_string ports (arg @ ''_name''), sl_type = or_else (ip_string ports (arg @ ''_type'')) [],
        sl_num = ip_double ports (arg @ ''_num''), sl_bool = ip_bool ports (arg @ ''_bool''), sl_str = ip_string ports (arg @ ''_str'') \<rparr>)"

definition provided_count :: "ArgSlot \<Rightarrow> nat" where
  "provided_count sl = (if sl_num sl \<noteq> None then 1 else 0) + (if sl_bool sl \<noteq> None then 1 else 0) + (if sl_str sl \<noteq> None then 1 else 0)"

text \<open>The value of a slot, \<open>None\<close> where the node fails.\<close>

definition slot_value :: "int \<Rightarrow> ArgSlot \<Rightarrow> json option" where
  "slot_value unspecified sl =
     (if provided_count sl \<noteq> 1 then None
      else if sl_type sl = ''int64''
      then (case sl_num sl of
              None \<Rightarrow> None
            | Some raw \<Rightarrow> if differs raw (llround unspecified raw) then None else Some (JInteger (llround unspecified raw)))
      else if sl_type sl = ''double'' then map_option JFloat (sl_num sl)
      else if sl_type sl = ''bool'' then map_option JBool (sl_bool sl)
      else if sl_type sl = ''string'' then map_option JString (sl_str sl)
      else if sl_type sl \<noteq> [] then None
      else case (sl_num sl, sl_bool sl, sl_str sl) of
        (Some d, _, _) \<Rightarrow> Some (JFloat d)
      | (None, Some b, _) \<Rightarrow> Some (JBool b)
      | (None, None, Some s) \<Rightarrow> Some (JString s)
      | (None, None, None) \<Rightarrow> None)"

fun build_args :: "int \<Rightarrow> ArgSlot list \<Rightarrow> (string \<times> json) list \<Rightarrow> (string \<times> json) list option" where
  "build_args unspecified [] args = Some args"
| "build_args unspecified (sl # sls) args =
     (case sl_name sl of
        None \<Rightarrow> build_args unspecified sls args
      | Some name \<Rightarrow>
          if name = [] then build_args unspecified sls args
          else case slot_value unspecified sl of
            None \<Rightarrow> None
          | Some v \<Rightarrow> build_args unspecified sls (omap_put name v args))"

definition build_args_tick :: "(json \<Rightarrow> string option) \<Rightarrow> int \<Rightarrow> InPorts \<Rightarrow> node_result \<times> outputs" where
  "build_args_tick dump unspecified ports =
     (case build_args unspecified (map (read_slot ports) [1..<7]) [] of
        None \<Rightarrow> (Node_Status NS_FAILURE, [])
      | Some args \<Rightarrow>
          (case dump (JObject args) of
             None \<Rightarrow> (Node_Throws ''dump'', [])
           | Some s \<Rightarrow> (Node_Status NS_SUCCESS, [(''json'', P_String s)])))"


section \<open>Lemmas on nodes\<close>

lemma wrap64_id: "- (2 ^ 63) \<le> i \<Longrightarrow> i < 2 ^ 63 \<Longrightarrow> wrap64 i = i"
  by (simp add: wrap64_def signed_of_int signed_take_bit_int_eq_self)

lemma sint_word_of_int: "- (2 ^ 63) \<le> i \<Longrightarrow> i < 2 ^ 63 \<Longrightarrow> sint (word_of_int i :: u64) = i"
  using wrap64_id by (simp add: wrap64_def)

text \<open>An \<open>int64\<close> argument is the integer next to its number, except for a NaN, which is sent as whatever \<open>llround\<close>
  yields.\<close>

lemma int64_slot_integral:
  assumes "slot_value u sl = Some (JInteger i)" "sl_num sl = Some raw" "\<not> f64_is_nan raw"
  shows "\<bar>f64_scaled raw - f64_scaled (f64_of_int i)\<bar> \<le> f64_scaled tolerance"
  using assms by (auto simp: slot_value_def differs_def split: if_splits)

lemma int64_slot_nan:
  "f64_is_nan raw \<Longrightarrow> slot_value u \<lparr> sl_name = Some name, sl_type = ''int64'', sl_num = Some raw, sl_bool = None, sl_str = None \<rparr> =
   Some (JInteger u)"
  by (simp add: slot_value_def differs_def provided_count_def llround_def f64_is_nan_def f64_finite_def)

text \<open>The hourly cap is rounded down to whole milliseconds: with 7 pulses an hour, the eighth starts before the hour is
  over.\<close>

lemma hourly_cap_exceeded: "7 * capped_interval 60000 7 < 3600 * 1000"
  by (simp add: capped_interval_def)

text \<open>An interval whose milliseconds overflow to zero makes the node divide by zero.\<close>

lemma interval_overflow_traps:
  "fst (periodic_pulse_tick 0 \<lparr> ip_string = (\<lambda>_. None), ip_bool = (\<lambda>_. None), ip_int64 = map_of [(''interval_s'', 2 ^ 61)], ip_double = (\<lambda>_. None) \<rparr> new_periodic) = Node_Traps"
  by (simp add: periodic_pulse_tick_def or_else_def new_periodic_def wrap64_def capped_interval_def Let_def)

section \<open>Requested pulses\<close>

definition requested_ports :: "int \<Rightarrow> int \<Rightarrow> int \<Rightarrow> int \<Rightarrow> int \<Rightarrow> InPorts" where
  "requested_ports delay_s pulse_s max_queued request now_ms =
     \<lparr> ip_string = Map.empty, ip_bool = Map.empty,
       ip_int64 = map_of [(''delay_s'', word_of_int delay_s), (''pulse_s'', word_of_int pulse_s), (''max_queued'', word_of_int max_queued),
         (''request'', word_of_int request), (''now_ms'', word_of_int now_ms)],
       ip_double = Map.empty \<rparr>"

text \<open>Ticks in order; the second component counts the pulses started.\<close>

fun requested_run :: "int \<Rightarrow> int \<Rightarrow> int \<Rightarrow> (int \<times> int) list \<Rightarrow> RequestedState \<times> nat \<Rightarrow> RequestedState \<times> nat" where
  "requested_run delay_s pulse_s max_queued [] sn = sn"
| "requested_run delay_s pulse_s max_queued ((request, now_ms) # ticks) (st, n) =
     (let st' = snd (snd (requested_pulse_tick 0 (requested_ports delay_s pulse_s max_queued request now_ms) st));
          ended = end_pulse now_ms (wrap64 (pulse_s * 1000)) st
      in requested_run delay_s pulse_s max_queued ticks (st', if \<not> rp_running ended \<and> rp_running st' then Suc n else n))"

text \<open>The presses a sequence of counter readings shows.\<close>

fun presses :: "int list \<Rightarrow> int" where
  "presses (a # b # rest) = max 0 (b - a) + presses (b # rest)"
| "presses _ = 0"

definition small :: "int \<Rightarrow> bool" where
  "small i \<longleftrightarrow> \<bar>i\<bar> \<le> 2 ^ 60"

definition requested_inv :: "int \<Rightarrow> RequestedState \<Rightarrow> bool" where
  "requested_inv m st \<longleftrightarrow> 0 \<le> rp_queued st \<and> rp_queued st + (if rp_running st then 1 else 0) \<le> m \<and> small (rp_last_request st)"

lemma requested_step:
  assumes m: "1 \<le> m" "m \<le> 2 ^ 40" and r: "small request" and inv: "requested_inv m st"
    and st': "st' = start_pulse now_ms delay_s (count_requests request m (end_pulse now_ms pulse_ms st))"
  shows "requested_inv m st'" "rp_last_request st' = request" "rp_initialized st'"
    and "rp_queued st' + (if \<not> rp_running (end_pulse now_ms pulse_ms st) \<and> rp_running st' then 1 else 0) \<le>
      rp_queued st + (if rp_initialized st then max 0 (request - rp_last_request st) else 0)"
proof -
  define e where "e = end_pulse now_ms pulse_ms st"
  have e: "requested_inv m e" "rp_queued e = rp_queued st" "rp_initialized e = rp_initialized st" "rp_last_request e = rp_last_request st"
    using inv by (auto simp: e_def end_pulse_def requested_inv_def)
  define c where "c = count_requests request m e"
  have q: "0 \<le> rp_queued e" "rp_queued e + (if rp_running e then 1 else 0) \<le> m" using e(1) by (simp_all add: requested_inv_def)
  have w: "wrap64 (m - rp_queued e) = m - rp_queued e" "wrap64 (request - rp_last_request e) = request - rp_last_request e"
    using m q r e(1) by (intro wrap64_id; simp add: requested_inv_def small_def split: if_splits)+
  have w2: "wrap64 (m - rp_queued e - (if rp_running e then 1 else 0)) = m - rp_queued e - (if rp_running e then 1 else 0)"
    using m q by (intro wrap64_id) (auto split: if_splits)
  define add where "add = max 0 (min (request - rp_last_request e) (m - rp_queued e - (if rp_running e then 1 else 0)))"
  have add: "0 \<le> add" "rp_queued e + add + (if rp_running e then 1 else 0) \<le> m" "add \<le> max 0 (request - rp_last_request e)"
    using q by (auto simp: add_def split: if_splits)
  have w3: "wrap64 (rp_queued e + add) = rp_queued e + add" using add q m by (intro wrap64_id) (auto split: if_splits)
  have c: "rp_queued c = (if rp_initialized e \<and> rp_last_request e < request then rp_queued e + add else rp_queued e)"
      "rp_running c = rp_running e" "rp_last_request c = request" "rp_initialized c"
    unfolding c_def count_requests_def using w w2 w3 by (auto simp: add_def Let_def)
  have cq: "0 \<le> rp_queued c" "rp_queued c + (if rp_running c then 1 else 0) \<le> m"
      "rp_queued c \<le> rp_queued e + (if rp_initialized e then max 0 (request - rp_last_request e) else 0)"
    using c add q by (auto split: if_splits)
  have w4: "wrap64 (rp_queued c - 1) = rp_queued c - 1" using cq m by (intro wrap64_id) (auto split: if_splits)
  have s: "st' = start_pulse now_ms delay_s c" using st' by (simp add: c_def e_def)
  show "requested_inv m st'" "rp_last_request st' = request" "rp_initialized st'"
    unfolding s start_pulse_def using c cq w4 r by (auto simp: requested_inv_def split: if_splits)
  show "rp_queued st' + (if \<not> rp_running (end_pulse now_ms pulse_ms st) \<and> rp_running st' then 1 else 0) \<le>
      rp_queued st + (if rp_initialized st then max 0 (request - rp_last_request st) else 0)"
    unfolding s start_pulse_def e_def [symmetric] using c cq w4 e by (auto split: if_splits)
qed


lemma requested_tick_state:
  assumes "0 \<le> delay_s" "delay_s \<le> 2 ^ 40" "1 \<le> pulse_s" "pulse_s \<le> 2 ^ 40" "1 \<le> m" "m \<le> 2 ^ 40" "small request" "small now_ms"
  shows "snd (snd (requested_pulse_tick clock (requested_ports delay_s pulse_s m request now_ms) st)) =
    start_pulse now_ms delay_s (count_requests request m (end_pulse now_ms (wrap64 (pulse_s * 1000)) st))"
proof -
  have "sint (word_of_int x :: u64) = x" if "small x \<or> (0 \<le> x \<and> x \<le> 2 ^ 40)" for x
    using that by (intro sint_word_of_int) (auto simp: small_def)
  then show ?thesis using assms by (simp add: requested_pulse_tick_def requested_ports_def or_else_def Let_def)
qed

lemma requested_run_bounds:
  assumes "0 \<le> delay_s" "delay_s \<le> 2 ^ 40" "1 \<le> pulse_s" "pulse_s \<le> 2 ^ 40" "1 \<le> m" "m \<le> 2 ^ 40"
  shows "list_all (\<lambda>(r, t). small r \<and> small t) ticks \<Longrightarrow> requested_inv m st \<Longrightarrow>
    requested_run delay_s pulse_s m ticks (st, n) = (st', n') \<Longrightarrow>
    requested_inv m st' \<and> int n' + rp_queued st' \<le> int n + rp_queued st +
      presses (if rp_initialized st then rp_last_request st # map fst ticks else map fst ticks)"
proof (induction ticks arbitrary: st n)
  case (Cons tick ticks)
  obtain request now_ms where tick: "tick = (request, now_ms)" by fastforce
  let ?e = "end_pulse now_ms (wrap64 (pulse_s * 1000)) st"
  define s1 where "s1 = start_pulse now_ms delay_s (count_requests request m ?e)"
  have sm: "small request" "small now_ms" and rest: "list_all (\<lambda>(r, t). small r \<and> small t) ticks" using Cons.prems(1) tick by simp_all
  note s = requested_step [OF assms(5,6) sm(1) Cons.prems(2) s1_def]
  have "requested_run delay_s pulse_s m ticks (s1, if \<not> rp_running ?e \<and> rp_running s1 then Suc n else n) = (st', n')"
    using Cons.prems(3) requested_tick_state [OF assms sm] by (simp add: tick s1_def Let_def)
  from Cons.IH [OF rest s(1) this] s(2-4) show ?case
    by (cases "map fst ticks") (auto simp: tick split: if_splits)
qed auto

text \<open>Requested pulses. Whatever the counter and the clock read over any number of ticks (within \<open>2 ^ 60\<close>), the
  requests outstanding, the running one included, never exceed \<open>max_queued\<close>, and the pulses started plus those still
  queued never exceed the presses the counter showed after the first reading.\<close>

lemma requested_pulses_bounded:
  assumes "0 \<le> delay_s" and "delay_s \<le> 2 ^ 40" and "1 \<le> pulse_s" and "pulse_s \<le> 2 ^ 40" and "1 \<le> m" and "m \<le> 2 ^ 40"
    and "list_all (\<lambda>(r, t). small r \<and> small t) ticks" and "requested_run delay_s pulse_s m ticks (new_requested, 0) = (st, n)"
  shows "0 \<le> rp_queued st \<and> rp_queued st + (if rp_running st then 1 else 0) \<le> m \<and> int n + rp_queued st \<le> presses (map fst ticks)"
proof -
  have "requested_inv m new_requested" using assms(5) by (simp add: requested_inv_def new_requested_def small_def)
  from requested_run_bounds [OF assms(1-7) this assms(8)] show ?thesis by (simp add: requested_inv_def new_requested_def)
qed

theorem requested_pulses_bounded_witness:
  "(let (st, n) = requested_run 0 1 2 [(5, 0), (9, 10), (9, 1020), (9, 2100)] (new_requested, 0) in
    n = 2 \<and> rp_queued st = 0 \<and> int n + rp_queued st \<le> presses [5, 9, 9, 9])"
proof -
  obtain st n where r: "requested_run 0 1 2 [(5, 0), (9, 10), (9, 1020), (9, 2100)] (new_requested, 0) = (st, n)" by fastforce
  have "snd (requested_run 0 1 2 [(5, 0), (9, 10), (9, 1020), (9, 2100)] (new_requested, 0)) = 2 \<and>
      rp_queued (fst (requested_run 0 1 2 [(5, 0), (9, 10), (9, 1020), (9, 2100)] (new_requested, 0))) = 0" by code_simp
  moreover have "int n + rp_queued st \<le> presses (map fst [(5, 0 :: int), (9, 10), (9, 1020), (9, 2100)])"
    using requested_pulses_bounded [OF _ _ _ _ _ _ _ r] by (simp add: small_def)
  ultimately show ?thesis unfolding r by simp
qed

end
