(* ===== verification/Bt_Runtime.thy ===== *)
theory Bt_Runtime
  imports Bt_Nodes Run_Journal
begin

text \<open>
  \<open>core/automation/bt_runtime.cpp\<close> and \<open>automation_engine.cpp\<close>: the engine that ticks the behaviour tree. The tree
  library and the digest are a parameter (\<open>TreeLib\<close>): building a tree from files, setting the blackboard, ticking
  (\<open>Inl\<close>: the exception), halting. A tick acts on the router's state and on the engine's own health record, which
  is where \<open>CallDevice\<close> nodes report their results. \<open>loop_turn\<close> is one iteration of the tick thread, with what other
  threads do to the mode meanwhile as inputs; it drives the mode transition of \<open>Runtime_Hooks\<close> and the queue of
  \<open>Run_Journal\<close>, as \<open>Runtime::init_automation\<close> and \<open>Runtime::init_runs\<close> wire them.
\<close>

section \<open>State\<close>

datatype AutomationStatus = AS_Idle | AS_Running | AS_Blocked | AS_Failed | AS_Completed | AS_Unknown

fun automation_status_to_string :: "AutomationStatus \<Rightarrow> string" where
  "automation_status_to_string AS_Idle = ''idle''"
| "automation_status_to_string AS_Running = ''running''"
| "automation_status_to_string AS_Blocked = ''blocked''"
| "automation_status_to_string AS_Failed = ''failed''"
| "automation_status_to_string AS_Completed = ''completed''"
| "automation_status_to_string AS_Unknown = ''unknown''"

record CallFailureView =
  cf_device_handle :: string
  cf_function :: string
  cf_consecutive_failures :: u64
  cf_last_error :: string
  cf_last_failure_at_epoch_ms :: int

text \<open>What is under \<open>health_mutex_\<close>, with the events sent so far.\<close>

record BtHealth =
  bh_last_tick_ms :: u64
  bh_last_tick_status :: NodeStatus
  bh_run_ended :: bool
  bh_ticks_since_progress :: u64
  bh_total_ticks :: u64
  bh_last_error :: string
  bh_error_count :: u64
  bh_call_failures :: "CallFailureView list"
  bh_next_event_id :: u64
  bh_emitted :: "Event list"

record 't BtEngine =
  be_tree :: "'t option"
  be_tree_path :: path
  be_tree_loaded :: bool
  be_loaded_def_bytes :: string
  be_version :: AutomationVersionRecord
  be_running :: bool
  be_stop_on_terminal :: bool
  be_max_consecutive_call_failures :: int
  be_tick_rate_hz :: int
  be_has_emitter :: bool
  be_health :: BtHealth

definition new_health :: BtHealth where
  "new_health = \<lparr> bh_last_tick_ms = 0, bh_last_tick_status = NS_IDLE, bh_run_ended = False, bh_ticks_since_progress = 0,
     bh_total_ticks = 0, bh_last_error = [], bh_error_count = 0, bh_call_failures = [], bh_next_event_id = 1, bh_emitted = [] \<rparr>"

definition new_engine :: "'t BtEngine" where
  "new_engine = \<lparr> be_tree = None, be_tree_path = [], be_tree_loaded = False, be_loaded_def_bytes = [],
     be_version = \<lparr> av_engine_kind = [], av_id = [], av_digest = [], av_digest_scope = ''top_level_file'' \<rparr>, be_running = False,
     be_stop_on_terminal = False, be_max_consecutive_call_failures = 3, be_tick_rate_hz = 10, be_has_emitter = False,
     be_health = new_health \<rparr>"

definition set_stop_on_terminal :: "bool \<Rightarrow> 't BtEngine \<Rightarrow> 't BtEngine" where
  "set_stop_on_terminal stop be = be\<lparr> be_stop_on_terminal := stop \<rparr>"

definition set_max_consecutive_call_failures :: "int \<Rightarrow> 't BtEngine \<Rightarrow> 't BtEngine" where
  "set_max_consecutive_call_failures limit be = be\<lparr> be_max_consecutive_call_failures := (if limit < 1 then 1 else limit) \<rparr>"

definition set_event_sink :: "bool \<Rightarrow> 't BtEngine \<Rightarrow> 't BtEngine" where
  "set_event_sink present be = be\<lparr> be_has_emitter := present \<rparr>"

section \<open>Call results\<close>

definition send_event :: "bool \<Rightarrow> EventBody \<Rightarrow> int \<Rightarrow> BtHealth \<Rightarrow> BtHealth" where
  "send_event has_emitter body now_ms h =
     (if has_emitter
      then h\<lparr> bh_next_event_id := bh_next_event_id h + 1,
              bh_emitted := bh_emitted h @ [\<lparr> ev_event_id = bh_next_event_id h, ev_body = body, ev_timestamp_ms = now_ms \<rparr>] \<rparr>
      else h)"

definition is_failure_of :: "string \<Rightarrow> string \<Rightarrow> CallFailureView \<Rightarrow> bool" where
  "is_failure_of device_handle fn f \<longleftrightarrow> cf_device_handle f = device_handle \<and> cf_function f = fn"

text \<open>The first matching entry is updated; a first failure adds one.\<close>

fun update_first :: "('a \<Rightarrow> bool) \<Rightarrow> ('a \<Rightarrow> 'a) \<Rightarrow> 'a list \<Rightarrow> 'a list" where
  "update_first P f [] = []"
| "update_first P f (x # xs) = (if P x then f x # xs else x # update_first P f xs)"

definition failure_message :: "string \<Rightarrow> string \<Rightarrow> u64 \<Rightarrow> string \<Rightarrow> string" where
  "failure_message device_handle fn consecutive error =
     ''automation call '' @ device_handle @ '' '' @ fn @ '' failed '' @
     (if consecutive = 1 then ''once'' else nat_to_string (unat consecutive) @ '' times in a row'') @ ''; last error: '' @ error"

definition record_call_result ::
  "bool \<Rightarrow> int \<Rightarrow> int \<Rightarrow> string \<Rightarrow> string \<Rightarrow> bool \<Rightarrow> string \<Rightarrow> BtHealth \<Rightarrow> string \<times> BtHealth" where
  "record_call_result has_emitter limit now_ms device_handle fn success error h =
     (let mine = is_failure_of device_handle fn in
      if success
      then ([], h\<lparr> bh_call_failures := update_first mine (\<lambda>f. f\<lparr> cf_consecutive_failures := 0 \<rparr>) (bh_call_failures h) \<rparr>)
      else let failures = (if find mine (bh_call_failures h) = None
                           then bh_call_failures h @ [\<lparr> cf_device_handle = device_handle, cf_function = fn, cf_consecutive_failures = 0,
                                  cf_last_error = [], cf_last_failure_at_epoch_ms = 0 \<rparr>]
                           else bh_call_failures h);
               consecutive = (case find mine failures of Some f \<Rightarrow> cf_consecutive_failures f + 1 | None \<Rightarrow> 1);
               h = h\<lparr> bh_call_failures := update_first mine (\<lambda>f. f\<lparr> cf_consecutive_failures := consecutive, cf_last_error := error,
                        cf_last_failure_at_epoch_ms := now_ms \<rparr>) failures \<rparr>;
               h = send_event has_emitter (AutomationCallFailedEvent device_handle fn error consecutive) now_ms h in
        (if consecutive < word_of_int limit then [] else failure_message device_handle fn consecutive error, h))"

section \<open>Loading\<close>

record 't TreeLib =
  tl_create :: "files \<Rightarrow> path \<Rightarrow> string + 't"
  tl_populate :: "'t \<Rightarrow> string option"
  tl_tick :: "'t \<Rightarrow> LadderState \<times> BtHealth \<Rightarrow> (string + NodeStatus) \<times> 't \<times> LadderState \<times> BtHealth"
  tl_halt :: "'t \<Rightarrow> 't"
  tl_sha256 :: "string \<Rightarrow> u8 list option"

unbundle bit_operations_syntax

definition sha256_hex :: "(string \<Rightarrow> u8 list option) \<Rightarrow> string \<Rightarrow> string" where
  "sha256_hex digest bytes =
     (case digest bytes of
        None \<Rightarrow> []
      | Some md \<Rightarrow> concat (map (\<lambda>b. [''0123456789abcdef'' ! unat (drop_bit 4 b), ''0123456789abcdef'' ! unat (b AND 0x0F)]) md))"

text \<open>A path is a list of components here, so what follows the last slash is its last component.\<close>

definition file_basename :: "path \<Rightarrow> string" where
  "file_basename p =
     (let name = (if p = [] then [] else last p);
          name = (case split_last CHR 0x5C name of None \<Rightarrow> name | Some (_, rest) \<Rightarrow> rest) in
      case split_last CHR ''.'' name of None \<Rightarrow> name | Some (stem, _) \<Rightarrow> stem)"

definition reset_run_status :: "BtHealth \<Rightarrow> BtHealth" where
  "reset_run_status h = h\<lparr> bh_last_tick_status := NS_IDLE, bh_run_ended := False, bh_error_count := 0, bh_ticks_since_progress := 0,
     bh_last_error := [], bh_call_failures := [] \<rparr>"

datatype load_error = LE_Cannot_Open | LE_Parse string | LE_Blackboard string

text \<open>The file is read twice: \<open>fs\<close> for the bytes, \<open>fs'\<close> for the tree and what it includes.\<close>

definition load_definition :: "'t TreeLib \<Rightarrow> files \<Rightarrow> files \<Rightarrow> path \<Rightarrow> 't BtEngine \<Rightarrow> (load_error + AutomationVersionRecord) \<times> 't BtEngine" where
  "load_definition lib fs fs' p be =
     (case fs p of
        None \<Rightarrow> (Inl LE_Cannot_Open, be)
      | Some bytes \<Rightarrow>
          (case tl_create lib fs' p of
             Inl e \<Rightarrow> (Inl (LE_Parse e), be)
           | Inr candidate \<Rightarrow>
               (case tl_populate lib candidate of
                  Some e \<Rightarrow> (Inl (LE_Blackboard e), be)
                | None \<Rightarrow>
                    (let version = \<lparr> av_engine_kind = ''behavior_tree'', av_id = file_basename p,
                                     av_digest = sha256_hex (tl_sha256 lib) bytes, av_digest_scope = ''top_level_file'' \<rparr> in
                     (Inr version, be\<lparr> be_tree := Some candidate, be_tree_path := p, be_loaded_def_bytes := bytes, be_version := version,
                        be_tree_loaded := True, be_health := reset_run_status (be_health be) \<rparr>)))))"

definition start_engine :: "int \<Rightarrow> 't BtEngine \<Rightarrow> bool \<times> 't BtEngine" where
  "start_engine tick_rate_hz be =
     (if be_running be then (False, be)
      else if \<not> be_tree_loaded be then (False, be)
      else if tick_rate_hz \<le> 0 \<or> 1000 < tick_rate_hz then (False, be)
      else (True, be\<lparr> be_tick_rate_hz := tick_rate_hz, be_running := True \<rparr>))"

definition stop_engine :: "'t BtEngine \<Rightarrow> 't BtEngine" where
  "stop_engine be = be\<lparr> be_running := False \<rparr>"

definition engine_definition :: "'t BtEngine \<Rightarrow> (string \<times> string \<times> string) option" where
  "engine_definition be =
     (if be_tree_loaded be then Some (''application/xml'', av_digest (be_version be), be_loaded_def_bytes be) else None)"

section \<open>Ticking\<close>

text \<open>\<open>tick()\<close>: a throwing tick halts the tree.\<close>

definition tick_tree :: "'t TreeLib \<Rightarrow> 't BtEngine \<Rightarrow> LadderState \<Rightarrow> (string + NodeStatus) \<times> 't BtEngine \<times> LadderState" where
  "tick_tree lib be ls =
     (case be_tree be of
        None \<Rightarrow> (Inr NS_FAILURE, be, ls)
      | Some t \<Rightarrow>
          (case tl_populate lib t of
             Some e \<Rightarrow> (Inl e, be, ls)
           | None \<Rightarrow>
               (let (res, t, ls, h) = tl_tick lib t (ls, be_health be);
                    t = (case res of Inl e \<Rightarrow> tl_halt lib t | Inr status \<Rightarrow> t) in
                (res, be\<lparr> be_tree := Some t, be_health := h \<rparr>, ls))))"

text \<open>The health update of a tick that returned.\<close>

definition note_status :: "u64 \<Rightarrow> NodeStatus \<Rightarrow> 't BtEngine \<Rightarrow> 't BtEngine" where
  "note_status now_ms status be =
     (let h = be_health be; terminal = (status = NS_SUCCESS \<or> status = NS_FAILURE) in
      be\<lparr> be_health := h\<lparr> bh_last_tick_ms := now_ms, bh_last_tick_status := status,
            bh_run_ended := (if terminal \<and> be_stop_on_terminal be then True else bh_run_ended h),
            bh_total_ticks := bh_total_ticks h + 1,
            bh_ticks_since_progress := (if status = NS_SUCCESS \<or> status = NS_RUNNING then 0
                                        else if status = NS_FAILURE then bh_ticks_since_progress h + 1
                                        else bh_ticks_since_progress h) \<rparr> \<rparr>)"

definition note_exception :: "int \<Rightarrow> string \<Rightarrow> 't BtEngine \<Rightarrow> 't BtEngine" where
  "note_exception fault_ms what be =
     (let h = be_health be; h = h\<lparr> bh_last_error := what, bh_error_count := bh_error_count h + 1, bh_last_tick_status := NS_FAILURE \<rparr> in
      be\<lparr> be_health := send_event (be_has_emitter be) (AutomationFaultEvent ''tick'' what) fault_ms h \<rparr>)"

text \<open>What the tick thread works on: the engine, the local \<open>was_auto\<close>, the router's state, the mode with its callbacks,
  and the run journal with its disk.\<close>

record 't LoopState =
  lo_engine :: "'t BtEngine"
  lo_was_auto :: bool
  lo_ladder :: LadderState
  lo_mode :: ModeWorld
  lo_journal :: "RunJournal option"
  lo_disk :: Disk

text \<open>One iteration: what other threads do to the mode before it, during the tick and after the FAULT request; the
  clock; and what the FAULT transition reads.\<close>

record TurnEnv =
  tu_before :: "ModeManager \<Rightarrow> ModeManager"
  tu_during :: "ModeManager \<Rightarrow> ModeManager"
  tu_after :: "ModeManager \<Rightarrow> ModeManager"
  tu_now_ms :: u64
  tu_te :: TransitionEnv

definition others_do :: "(ModeManager \<Rightarrow> ModeManager) \<Rightarrow> ModeWorld \<Rightarrow> ModeWorld" where
  "others_do f w = w\<lparr> mw_mode := f (mw_mode w) \<rparr>"

text \<open>The mode-change callback on the tick thread: each announced change goes to the journal's queue.\<close>

definition journal_modes ::
  "JsonLib \<Rightarrow> AppendEnv \<Rightarrow> u64 \<Rightarrow> (string \<times> string) list \<Rightarrow> RunJournal option \<times> Disk \<Rightarrow> RunJournal option \<times> Disk" where
  "journal_modes jl env now_ms changes jd =
     (case fst jd of
        None \<Rightarrow> jd
      | Some j \<Rightarrow> map_prod Some id (fold (\<lambda>(prv, nxt). record_mode_change jl env now_ms prv nxt True) changes (j, snd jd)))"

definition tick_exception ::
  "JsonLib \<Rightarrow> AppendEnv \<Rightarrow> ModeTransitionHooksConfig \<Rightarrow> TurnEnv \<Rightarrow> string \<Rightarrow> 't LoopState \<Rightarrow> 't LoopState" where
  "tick_exception jl ae hooks env what lo =
     (let lo = lo\<lparr> lo_engine := note_exception (sint (tu_now_ms env)) what (lo_engine lo),
                   lo_journal := map_option (enqueue_fault ''tick'' what (tu_now_ms env)) (lo_journal lo) \<rparr>;
          (err, ls, w) = change_mode (tu_te env) hooks FAULT (lo_ladder lo, lo_mode lo);
          changes = drop (length (mw_events (lo_mode lo))) (mw_events w);
          (journal, disk) = journal_modes jl ae (tu_now_ms env) changes (lo_journal lo, lo_disk lo);
          w = others_do (tu_after env) w in
      lo\<lparr> lo_ladder := ls, lo_mode := w, lo_journal := journal, lo_disk := disk,
          lo_was_auto := (if current_mode (mw_mode w) \<noteq> AUTO then False else lo_was_auto lo) \<rparr>)"

definition enter_run :: "'t LoopState \<Rightarrow> 't LoopState" where
  "enter_run lo =
     (if lo_was_auto lo then lo
      else lo\<lparr> lo_engine := (lo_engine lo)\<lparr> be_health := reset_run_status (be_health (lo_engine lo)) \<rparr>, lo_was_auto := True \<rparr>)"

definition loop_turn ::
  "'t TreeLib \<Rightarrow> JsonLib \<Rightarrow> AppendEnv \<Rightarrow> ModeTransitionHooksConfig \<Rightarrow> TurnEnv \<Rightarrow> 't LoopState \<Rightarrow> 't LoopState" where
  "loop_turn lib jl ae hooks env lo =
     (if \<not> be_running (lo_engine lo) then lo
      else let lo = lo\<lparr> lo_mode := others_do (tu_before env) (lo_mode lo) \<rparr> in
        if current_mode (mw_mode (lo_mode lo)) \<noteq> AUTO then lo\<lparr> lo_was_auto := False \<rparr>
        else let lo = enter_run lo in
          if bh_run_ended (be_health (lo_engine lo)) then lo
          else let (res, be, ls) = tick_tree lib (lo_engine lo) (lo_ladder lo);
                   lo = lo\<lparr> lo_engine := be, lo_ladder := ls, lo_mode := others_do (tu_during env) (lo_mode lo) \<rparr> in
            case res of
              Inr status \<Rightarrow> lo\<lparr> lo_engine := note_status (tu_now_ms env) status (lo_engine lo) \<rparr>
            | Inl what \<Rightarrow> tick_exception jl ae hooks env what lo)"

section \<open>Status\<close>

datatype BTStatus = BT_IDLE | BT_RUNNING | BT_STALLED | BT_ERROR

definition bt_status :: "'t BtEngine \<Rightarrow> BTStatus" where
  "bt_status be =
     (let h = be_health be in
      if \<not> be_tree_loaded be \<or> \<not> be_running be then BT_IDLE
      else if 0 < bh_error_count h \<and> bh_last_tick_status h = NS_FAILURE then BT_ERROR
      else if 10 < bh_ticks_since_progress h then BT_STALLED
      else BT_RUNNING)"

definition automation_status :: "RuntimeMode \<Rightarrow> 't BtEngine \<Rightarrow> AutomationStatus" where
  "automation_status mode be =
     (let h = be_health be; in_auto = (mode = AUTO); loaded_and_running = (be_tree_loaded be \<and> be_running be) in
      if loaded_and_running \<and> 0 < bh_error_count h \<and> bh_last_tick_status h = NS_FAILURE then AS_Failed
      else if loaded_and_running \<and> in_auto \<and> bh_run_ended h
      then (if bh_last_tick_status h = NS_SUCCESS then AS_Completed else AS_Failed)
      else if \<not> loaded_and_running \<or> \<not> in_auto then AS_Idle
      else if 10 < bh_ticks_since_progress h then AS_Blocked
      else AS_Running)"

record AutomationStatusView =
  sv_status :: AutomationStatus
  sv_version :: AutomationVersionRecord
  sv_last_evaluation_at_epoch_ms :: u64
  sv_last_error :: string
  sv_ticks_since_progress :: u64
  sv_total_ticks :: u64
  sv_error_count :: u64
  sv_stall_suspected :: bool
  sv_call_failures :: "CallFailureView list"

definition engine_status :: "RuntimeMode \<Rightarrow> 't BtEngine \<Rightarrow> AutomationStatusView" where
  "engine_status mode be =
     (let h = be_health be in
      \<lparr> sv_status = automation_status mode be, sv_version = be_version be, sv_last_evaluation_at_epoch_ms = bh_last_tick_ms h,
        sv_last_error = bh_last_error h, sv_ticks_since_progress = bh_ticks_since_progress h, sv_total_ticks = bh_total_ticks h,
        sv_error_count = bh_error_count h, sv_stall_suspected = (10 < bh_ticks_since_progress h), sv_call_failures = bh_call_failures h \<rparr>)"


section \<open>Failures in a row\<close>

text \<open>The failures in a row of one call, in a history whose latest result comes first.\<close>

fun failures_in_row :: "string \<Rightarrow> string \<Rightarrow> (string \<times> string \<times> bool) list \<Rightarrow> nat" where
  "failures_in_row d f [] = 0"
| "failures_in_row d f ((d', f', success) # rest) =
     (if d' = d \<and> f' = f then (if success then 0 else Suc (failures_in_row d f rest)) else failures_in_row d f rest)"

lemma failures_in_row_le: "failures_in_row d f hist \<le> length hist"
  by (induction d f hist rule: failures_in_row.induct) auto

lemma find_update_first:
  "(\<And>x. P x \<Longrightarrow> P (f x)) \<Longrightarrow> find P (update_first P f xs) = map_option f (find P xs)"
  by (induction xs) auto

lemma find_update_first_other:
  "(\<And>x. P x \<Longrightarrow> \<not> Q x) \<Longrightarrow> (\<And>x. P x \<Longrightarrow> \<not> Q (f x)) \<Longrightarrow> find Q (update_first P f xs) = find Q xs"
  by (induction xs) auto

text \<open>The count kept for a call is its failures in a row since the run began.\<close>

definition counts :: "(string \<times> string \<times> bool) list \<Rightarrow> BtHealth \<Rightarrow> bool" where
  "counts hist h \<longleftrightarrow> (\<forall>d f. case find (is_failure_of d f) (bh_call_failures h) of
     None \<Rightarrow> failures_in_row d f hist = 0
   | Some v \<Rightarrow> cf_consecutive_failures v = of_nat (failures_in_row d f hist))"

lemma send_event_failures [simp]: "bh_call_failures (send_event e body t h) = bh_call_failures h"
  by (simp add: send_event_def)

lemma reset_counts: "counts [] (reset_run_status h)"
  by (simp add: counts_def reset_run_status_def)

lemma counts_success:
  assumes "counts hist h" "record_call_result e limit now d f True err h = (fault, h')"
  shows "counts ((d, f, True) # hist) h'" "fault = []"
proof -
  let ?upd = "update_first (is_failure_of d f) (\<lambda>v. v\<lparr> cf_consecutive_failures := 0 \<rparr>) (bh_call_failures h)"
  have h': "bh_call_failures h' = ?upd" and "fault = []" using assms(2) by (auto simp: record_call_result_def Let_def)
  then show "fault = []" by simp
  have same: "find (is_failure_of d f) ?upd = map_option (\<lambda>v. v\<lparr> cf_consecutive_failures := 0 \<rparr>) (find (is_failure_of d f) (bh_call_failures h))"
    by (rule find_update_first) (simp add: is_failure_of_def)
  have other: "find (is_failure_of d' f') ?upd = find (is_failure_of d' f') (bh_call_failures h)" if "(d', f') \<noteq> (d, f)" for d' f'
    using that by (intro find_update_first_other) (auto simp: is_failure_of_def)
  show "counts ((d, f, True) # hist) h'" unfolding counts_def h'
  proof (intro allI)
    fix d' f'
    show "case find (is_failure_of d' f') ?upd of None \<Rightarrow> failures_in_row d' f' ((d, f, True) # hist) = 0
      | Some v \<Rightarrow> cf_consecutive_failures v = of_nat (failures_in_row d' f' ((d, f, True) # hist))"
      using same other [of d' f'] assms(1) [unfolded counts_def, rule_format, of d' f']
      by (cases "(d', f') = (d, f)") (auto split: option.splits)
  qed
qed

lemma counts_failure:
  assumes "counts hist h" "record_call_result e limit now d f False err h = (fault, h')"
  shows "counts ((d, f, False) # hist) h'"
    and "fault = (if (of_nat (Suc (failures_in_row d f hist)) :: u64) < word_of_int limit then []
                  else failure_message d f (of_nat (Suc (failures_in_row d f hist))) err)"
proof -
  let ?mine = "is_failure_of d f" and ?n = "of_nat (Suc (failures_in_row d f hist)) :: u64"
  define blank where "blank = \<lparr> cf_device_handle = d, cf_function = f, cf_consecutive_failures = 0, cf_last_error = [], cf_last_failure_at_epoch_ms = 0 \<rparr>"
  define fs where "fs = (if find ?mine (bh_call_failures h) = None then bh_call_failures h @ [blank] else bh_call_failures h)"
  define upd where "upd = (\<lambda>v :: CallFailureView. v\<lparr> cf_consecutive_failures := ?n, cf_last_error := err, cf_last_failure_at_epoch_ms := now \<rparr>)"
  have mine: "\<exists>v. find ?mine fs = Some v \<and> cf_consecutive_failures v + 1 = ?n"
    using assms(1) [unfolded counts_def, rule_format, of d f]
    by (auto simp: fs_def find_append blank_def is_failure_of_def split: option.splits)
  then have n: "(case find ?mine fs of Some v \<Rightarrow> cf_consecutive_failures v + 1 | None \<Rightarrow> 1) = ?n" by auto
  have h': "bh_call_failures h' = update_first ?mine upd fs"
    and fault: "fault = (if ?n < word_of_int limit then [] else failure_message d f ?n err)"
    using assms(2) n unfolding record_call_result_def fs_def blank_def upd_def by (auto simp: Let_def)
  show "fault = (if ?n < word_of_int limit then [] else failure_message d f ?n err)" by (rule fault)
  have same: "find ?mine (update_first ?mine upd fs) = map_option upd (find ?mine fs)"
    by (rule find_update_first) (simp add: is_failure_of_def upd_def)
  have other: "find (is_failure_of d' f') (update_first ?mine upd fs) = find (is_failure_of d' f') (bh_call_failures h)" if "(d', f') \<noteq> (d, f)" for d' f'
  proof -
    have "find (is_failure_of d' f') (update_first ?mine upd fs) = find (is_failure_of d' f') fs"
      using that by (intro find_update_first_other) (auto simp: is_failure_of_def upd_def)
    also have "\<dots> = find (is_failure_of d' f') (bh_call_failures h)"
      using that by (auto simp: fs_def find_append blank_def is_failure_of_def split: option.splits)
    finally show ?thesis .
  qed
  show "counts ((d, f, False) # hist) h'" unfolding counts_def h'
  proof (intro allI)
    fix d' f'
    show "case find (is_failure_of d' f') (update_first ?mine upd fs) of None \<Rightarrow> failures_in_row d' f' ((d, f, False) # hist) = 0
      | Some v \<Rightarrow> cf_consecutive_failures v = of_nat (failures_in_row d' f' ((d, f, False) # hist))"
    proof (cases "(d', f') = (d, f)")
      case True
      then show ?thesis using mine same by (auto simp: upd_def)
    next
      case False
      then show ?thesis using other [OF False] assms(1) [unfolded counts_def, rule_format, of d' f'] by (auto split: option.splits)
    qed
  qed
qed

text \<open>The results of a run's calls, as the nodes report them.\<close>

fun report_all :: "bool \<Rightarrow> int \<Rightarrow> (string \<times> string \<times> bool \<times> string \<times> int) list \<Rightarrow> BtHealth \<Rightarrow> BtHealth" where
  "report_all e limit [] h = h"
| "report_all e limit ((d, f, success, err, now) # rs) h = report_all e limit rs (snd (record_call_result e limit now d f success err h))"

definition outcomes :: "(string \<times> string \<times> bool \<times> string \<times> int) list \<Rightarrow> (string \<times> string \<times> bool) list" where
  "outcomes rs = rev (map (\<lambda>(d, f, success, err, now). (d, f, success)) rs)"

lemma report_all_counts: "counts hist h \<Longrightarrow> counts (outcomes rs @ hist) (report_all e limit rs h)"
proof (induction rs arbitrary: h hist)
  case (Cons r rs)
  obtain d f success err now where r: "r = (d, f, success, err, now)" by (cases r)
  obtain fault h' where c: "record_call_result e limit now d f success err h = (fault, h')" by fastforce
  have "counts ((d, f, success) # hist) h'"
    using counts_success(1) [OF Cons.prems] counts_failure(1) [OF Cons.prems] c by (cases success) simp_all
  from Cons.IH [OF this] show ?case using c r by (simp add: outcomes_def)
qed (simp add: outcomes_def)


text \<open>\<open>populate_blackboard\<close>: the service context the nodes get.\<close>

definition bt_services :: "bool \<Rightarrow> int \<Rightarrow> int \<Rightarrow> BtHealth CallServices" where
  "bt_services has_emitter limit now_ms =
     \<lparr> cs_router = True, cs_registry = True, cs_on_call_result = Some (record_call_result has_emitter limit now_ms) \<rparr>"

lemma word_less_limit: "n < 2 ^ 64 \<Longrightarrow> 0 \<le> limit \<Longrightarrow> limit < 2 ^ 31 \<Longrightarrow> (of_nat n :: u64) < word_of_int limit \<longleftrightarrow> int n < limit"
  by (simp add: word_less_def uint_word_of_int unsigned_of_nat take_bit_nat_eq_self take_bit_int_eq_self)

lemma failure_message_nonempty [simp]: "failure_message d f n e \<noteq> []"
  by (simp add: failure_message_def)

text \<open>C17. The limit on failing calls. Let a run's device calls have ended as \<open>rs\<close> since the run began. The next
  \<open>CallDevice\<close> tick that reaches the router succeeds when the call does, fails quietly while the failures in a row of
  that call, this one included, stay below \<open>max_consecutive_call_failures\<close>, and otherwise throws, naming the call:
  results of other calls in between neither reset nor advance the count.\<close>

theorem repeated_failure_throws:
  assumes "1 \<le> limit" and "limit < 2 ^ 31" and "length rs < 2 ^ 64 - 1"
    and "ip_string ports ''device_handle'' = Some d" and "ip_string ports ''function_name'' = Some f"
    and "call_args parse ports = Inr args" and "route env (bt_request d f args) ls = (res, ls')"
  shows "fst (call_device_tick parse say env (Some (bt_services e limit now)) ports (ls, report_all e limit rs (reset_run_status h))) =
    (if cr_success res then Node_Status NS_SUCCESS
     else if int (Suc (failures_in_row d f (outcomes rs))) < limit then Node_Status NS_FAILURE
     else Node_Throws (failure_message d f (of_nat (Suc (failures_in_row d f (outcomes rs)))) (say (cr_error res))))"
proof -
  let ?h = "report_all e limit rs (reset_run_status h)" and ?n = "Suc (failures_in_row d f (outcomes rs))"
  have c: "counts (outcomes rs) ?h" using report_all_counts [OF reset_counts, of rs e limit h] by simp
  have "?n < 2 ^ 64" using assms(3) failures_in_row_le [of d f "outcomes rs"] by (simp add: outcomes_def)
  then have lim: "(of_nat ?n :: u64) < word_of_int limit \<longleftrightarrow> int ?n < limit" using assms(1,2) by (intro word_less_limit) simp_all
  obtain fault h' where r: "record_call_result e limit now d f (cr_success res) (say (cr_error res)) ?h = (fault, h')" by fastforce
  have "fault = (if cr_success res \<or> int ?n < limit then [] else failure_message d f (of_nat ?n) (say (cr_error res)))"
    using counts_success(2) [OF c, of e limit now d f] counts_failure(2) [OF c, of e limit now d f] r lim
    by (cases "cr_success res") (auto simp del: of_nat_Suc)
  then show ?thesis using assms(4-7) r by (simp add: call_device_tick_def bt_services_def Let_def del: of_nat_Suc)
qed

section \<open>Turns of the loop\<close>

lemma tick_tree_running: "tick_tree lib be ls = (res, be', ls') \<Longrightarrow>
  be_running be' = be_running be \<and> be_stop_on_terminal be' = be_stop_on_terminal be \<and> be_tree_loaded be' = be_tree_loaded be"
  by (auto simp: tick_tree_def split: option.splits prod.splits)

text \<open>The mode the loop reads.\<close>

definition turn_mode :: "TurnEnv \<Rightarrow> 't LoopState \<Rightarrow> RuntimeMode" where
  "turn_mode env lo = current_mode (tu_before env (mw_mode (lo_mode lo)))"

lemma turn_outside_auto:
  "turn_mode env lo \<noteq> AUTO \<Longrightarrow> be_running (lo_engine lo) \<Longrightarrow>
   loop_turn lib jl ae hooks env lo = lo\<lparr> lo_mode := others_do (tu_before env) (lo_mode lo), lo_was_auto := False \<rparr>"
  by (simp add: loop_turn_def turn_mode_def others_do_def)

lemma turn_ended:
  "turn_mode env lo = AUTO \<Longrightarrow> be_running (lo_engine lo) \<Longrightarrow> lo_was_auto lo \<Longrightarrow> bh_run_ended (be_health (lo_engine lo)) \<Longrightarrow>
   loop_turn lib jl ae hooks env lo = lo\<lparr> lo_mode := others_do (tu_before env) (lo_mode lo) \<rparr>"
  by (simp add: loop_turn_def turn_mode_def others_do_def enter_run_def)

lemma turn_throws:
  assumes "be_running (lo_engine lo)" "turn_mode env lo = AUTO"
    and "l1 = enter_run (lo\<lparr> lo_mode := others_do (tu_before env) (lo_mode lo) \<rparr>)" "\<not> bh_run_ended (be_health (lo_engine l1))"
    and "tick_tree lib (lo_engine l1) (lo_ladder lo) = (Inl what, be, ls)"
  shows "loop_turn lib jl ae hooks env lo =
    tick_exception jl ae hooks env what (l1\<lparr> lo_engine := be, lo_ladder := ls, lo_mode := others_do (tu_during env) (lo_mode l1) \<rparr>)"
proof -
  have ladder: "lo_ladder l1 = lo_ladder lo" using assms(3) by (simp add: enter_run_def)
  show ?thesis using assms(1,2,4,5) ladder unfolding loop_turn_def
    by (simp add: turn_mode_def others_do_def Let_def assms(3) [symmetric, unfolded others_do_def])
qed

lemma journal_modes_Some:
  "journal_modes jl ae t changes (Some j, d) =
     (Some (fold (\<lambda>(prv, nxt). enqueue_event \<lparr> qe_category = ModeChange, qe_type = [], qe_payload = json_object
        [(''previous_mode'', JString prv), (''new_mode'', JString nxt)], qe_occurred_at_epoch_ms = t \<rparr>) changes j), d)"
proof -
  have "fold (\<lambda>(prv, nxt). record_mode_change jl ae t prv nxt True) changes (j, d) =
     (fold (\<lambda>(prv, nxt). enqueue_event \<lparr> qe_category = ModeChange, qe_type = [], qe_payload = json_object
        [(''previous_mode'', JString prv), (''new_mode'', JString nxt)], qe_occurred_at_epoch_ms = t \<rparr>) changes j, d)"
    by (induction changes arbitrary: j) (auto simp: record_mode_change_def Let_def)
  then show ?thesis by (simp add: journal_modes_def)
qed

text \<open>The entry into FAULT is announced once when no other thread changes the mode meanwhile.\<close>

lemma change_to_fault_announced:
  assumes "change_mode te hooks FAULT (ls, w) = (err, ls', w')" "te_others te (mw_mode w) = mw_mode w" "current_mode (mw_mode w) \<noteq> FAULT"
  shows "mw_events w' = mw_events w @ [(mode_to_string (current_mode (mw_mode w)), mode_to_string FAULT)]"
  using assms run_hooks_attempted(2)
  by (auto simp: change_mode_def commit_set_mode_def begin_set_mode_def after_change_def current_mode_def is_valid_transition_def Let_def split_beta
      split: begin_result.splits if_splits)


definition fault_item :: "string \<Rightarrow> u64 \<Rightarrow> QueuedEvent" where
  "fault_item what t = \<lparr> qe_category = AutomationFault, qe_type = ''tick'', qe_payload = json_object [(''message'', JString what)],
     qe_occurred_at_epoch_ms = t \<rparr>"

definition mode_item :: "RuntimeMode \<Rightarrow> RuntimeMode \<Rightarrow> u64 \<Rightarrow> QueuedEvent" where
  "mode_item prv nxt t = \<lparr> qe_category = ModeChange, qe_type = [], qe_payload = json_object
     [(''previous_mode'', JString (mode_to_string prv)), (''new_mode'', JString (mode_to_string nxt))], qe_occurred_at_epoch_ms = t \<rparr>"

lemma tick_exception_journal:
  assumes "change_mode (tu_te env) hooks FAULT (lo_ladder lo, lo_mode lo) = (err, ls', w')" "lo_journal lo = Some j"
    and "te_others (tu_te env) (mw_mode (lo_mode lo)) = mw_mode (lo_mode lo)" "current_mode (mw_mode (lo_mode lo)) = m" "m \<noteq> FAULT"
    and "length (rj_fault_queue j) + 2 \<le> kMaxFaultQueue"
  shows "\<exists>j'. lo_journal (tick_exception jl ae hooks env what lo) = Some j' \<and>
    rj_fault_queue j' = rj_fault_queue j @ [fault_item what (tu_now_ms env), mode_item m FAULT (tu_now_ms env)]"
proof -
  have "mw_events w' = mw_events (lo_mode lo) @ [(mode_to_string m, mode_to_string FAULT)]"
    using change_to_fault_announced [OF assms(1)] assms(3-5) by simp
  then have new: "drop (length (mw_events (lo_mode lo))) (mw_events w') = [(mode_to_string m, mode_to_string FAULT)]" by simp
  show ?thesis using assms(1,2,6) new
    by (simp add: tick_exception_def Let_def journal_modes_Some enqueue_fault_def enqueue_event_def fault_item_def mode_item_def)
qed

lemma tick_exception_effect:
  assumes "tu_after env = id"
  shows "current_mode (mw_mode (lo_mode (tick_exception jl ae hooks env what lo))) = FAULT"
    and "\<not> lo_was_auto (tick_exception jl ae hooks env what lo)"
    and "lo_engine (tick_exception jl ae hooks env what lo) = note_exception (sint (tu_now_ms env)) what (lo_engine lo)"
proof -
  obtain err ls' w' where c: "change_mode (tu_te env) hooks FAULT (lo_ladder lo, lo_mode lo) = (err, ls', w')" by (metis prod_cases3)
  note f = change_to_fault(2) [OF c]
  show "current_mode (mw_mode (lo_mode (tick_exception jl ae hooks env what lo))) = FAULT"
    "\<not> lo_was_auto (tick_exception jl ae hooks env what lo)"
    "lo_engine (tick_exception jl ae hooks env what lo) = note_exception (sint (tu_now_ms env)) what (lo_engine lo)"
    using c f assms by (simp_all add: tick_exception_def others_do_def Let_def split: prod.splits)
qed

text \<open>C8. An exception in a tick stops the automation. When the tree throws during a turn of the loop, the turn ends in
  FAULT whatever hooks, gates and other threads did during the transition, the engine reports \<open>failed\<close> with the
  exception's text, and the next turn that still finds the mode FAULT calls nothing, whichever tree it has. If no
  other thread changed the mode meanwhile, the run journal's queue holds the fault, then the mode change it caused.\<close>

theorem tick_exception_stops:
  assumes "be_running (lo_engine lo)" and "be_tree_loaded (lo_engine lo)" and "turn_mode env lo = AUTO"
    and "l1 = enter_run (lo\<lparr> lo_mode := others_do (tu_before env) (lo_mode lo) \<rparr>)" and "\<not> bh_run_ended (be_health (lo_engine l1))"
    and "tick_tree lib (lo_engine l1) (lo_ladder lo) = (Inl what, be, ls)" and "bh_error_count (be_health be) \<noteq> - 1" and "tu_after env = id"
    and "lo' = loop_turn lib jl ae hooks env lo"
  shows "current_mode (mw_mode (lo_mode lo')) = FAULT \<and>
    automation_status FAULT (lo_engine lo') = AS_Failed \<and> bh_last_error (be_health (lo_engine lo')) = what \<and>
    (turn_mode env2 lo' = FAULT \<longrightarrow> lo_ladder (loop_turn lib2 jl2 ae2 hooks2 env2 lo') = lo_ladder lo') \<and>
    (tu_during env = id \<and> te_others (tu_te env) = id \<and> lo_journal lo = Some j \<and> length (rj_fault_queue j) + 2 \<le> kMaxFaultQueue \<longrightarrow>
      (\<exists>j'. lo_journal lo' = Some j' \<and>
        rj_fault_queue j' = rj_fault_queue j @ [fault_item what (tu_now_ms env), mode_item AUTO FAULT (tu_now_ms env)]))"
proof -
  let ?l2 = "l1\<lparr> lo_engine := be, lo_ladder := ls, lo_mode := others_do (tu_during env) (lo_mode l1) \<rparr>"
  have lo': "lo' = tick_exception jl ae hooks env what ?l2" using turn_throws [OF assms(1,3-6)] assms(9) by simp
  note e = tick_exception_effect [OF assms(8), of jl ae hooks what ?l2, folded lo']
  have l1: "be_running (lo_engine l1)" "be_tree_loaded (lo_engine l1)" "lo_journal l1 = lo_journal lo"
      "mw_mode (lo_mode l1) = tu_before env (mw_mode (lo_mode lo))"
    using assms(1,2,4) by (simp_all add: enter_run_def others_do_def)
  have be: "be_running be" "be_tree_loaded be" using tick_tree_running [OF assms(6)] l1 by simp_all
  have "lo_engine lo' = note_exception (sint (tu_now_ms env)) what be" using e(3) by simp
  then have eng: "automation_status FAULT (lo_engine lo') = AS_Failed" "bh_last_error (be_health (lo_engine lo')) = what" "be_running (lo_engine lo')"
    using be assms(7) by (auto simp: note_exception_def automation_status_def send_event_def Let_def word_neq_0_conv [symmetric] add_eq_0_iff2)
  have nxt: "turn_mode env2 lo' = FAULT \<Longrightarrow> lo_ladder (loop_turn lib2 jl2 ae2 hooks2 env2 lo') = lo_ladder lo'"
    using turn_outside_auto [of env2 lo' lib2 jl2 ae2 hooks2] eng(3) by simp
  obtain err ls' w' where c: "change_mode (tu_te env) hooks FAULT (lo_ladder ?l2, lo_mode ?l2) = (err, ls', w')" by (metis prod_cases3)
  have q: "\<exists>j'. lo_journal lo' = Some j' \<and>
      rj_fault_queue j' = rj_fault_queue j @ [fault_item what (tu_now_ms env), mode_item AUTO FAULT (tu_now_ms env)]"
    if "tu_during env = id" "te_others (tu_te env) = id" "lo_journal lo = Some j" "length (rj_fault_queue j) + 2 \<le> kMaxFaultQueue"
    unfolding lo' using that l1 assms(3) by (intro tick_exception_journal [OF c]) (simp_all add: others_do_def turn_mode_def)
  from e(1) eng nxt q show ?thesis by blast
qed


section \<open>A terminal result\<close>

text \<open>Other threads leave the mode AUTO at every one of these turns.\<close>

fun stays_auto :: "TurnEnv list \<Rightarrow> ModeManager \<Rightarrow> bool" where
  "stays_auto [] mm \<longleftrightarrow> True"
| "stays_auto (env # envs) mm \<longleftrightarrow> current_mode (tu_before env mm) = AUTO \<and> stays_auto envs (tu_before env mm)"

lemma ended_turns:
  "stays_auto envs (mw_mode (lo_mode lo)) \<Longrightarrow> be_running (lo_engine lo) \<Longrightarrow> lo_was_auto lo \<Longrightarrow> bh_run_ended (be_health (lo_engine lo)) \<Longrightarrow>
   lo_engine (fold (loop_turn lib jl ae hooks) envs lo) = lo_engine lo \<and> lo_ladder (fold (loop_turn lib jl ae hooks) envs lo) = lo_ladder lo"
proof (induction envs arbitrary: lo)
  case (Cons env envs)
  have "loop_turn lib jl ae hooks env lo = lo\<lparr> lo_mode := others_do (tu_before env) (lo_mode lo) \<rparr>"
    using Cons.prems by (intro turn_ended) (simp_all add: turn_mode_def)
  with Cons show ?case by (simp add: others_do_def)
qed simp

lemma turn_returns:
  assumes "be_running (lo_engine lo)" "turn_mode env lo = AUTO"
    and "l1 = enter_run (lo\<lparr> lo_mode := others_do (tu_before env) (lo_mode lo) \<rparr>)" "\<not> bh_run_ended (be_health (lo_engine l1))"
    and "tick_tree lib (lo_engine l1) (lo_ladder lo) = (Inr status, be, ls)"
  shows "loop_turn lib jl ae hooks env lo =
    l1\<lparr> lo_engine := note_status (tu_now_ms env) status be, lo_ladder := ls, lo_mode := others_do (tu_during env) (lo_mode l1) \<rparr>"
proof -
  have ladder: "lo_ladder l1 = lo_ladder lo" using assms(3) by (simp add: enter_run_def)
  show ?thesis using assms(1,2,4,5) ladder unfolding loop_turn_def
    by (simp add: turn_mode_def others_do_def Let_def assms(3) [symmetric, unfolded others_do_def])
qed

lemma note_status_terminal:
  assumes "status = NS_SUCCESS \<or> status = NS_FAILURE" "be_stop_on_terminal be" "be_running be" "be_tree_loaded be"
  shows "bh_run_ended (be_health (note_status t status be))" "be_running (note_status t status be)"
    "automation_status AUTO (note_status t status be) = (if status = NS_SUCCESS then AS_Completed else AS_Failed)"
  using assms by (auto simp: note_status_def automation_status_def Let_def)

text \<open>C18. A finished tree is not run again while AUTO lasts. With \<open>stop_on_terminal\<close>, once a tick returns SUCCESS or
  FAILURE, and as long as every later turn finds the mode AUTO and nothing but turns touches the engine (no new
  definition is loaded), the turns make no device call and change nothing of the engine, however many pass and whichever
  tree library, hooks and storage they run with; the engine keeps reporting \<open>completed\<close>, or \<open>failed\<close> after
  FAILURE. Leaving AUTO and entering it again starts a new run.\<close>

theorem terminal_result_ends_run:
  assumes "be_running (lo_engine lo)" and "be_tree_loaded (lo_engine lo)" and "be_stop_on_terminal (lo_engine lo)" and "turn_mode env lo = AUTO"
    and "l1 = enter_run (lo\<lparr> lo_mode := others_do (tu_before env) (lo_mode lo) \<rparr>)" and "\<not> bh_run_ended (be_health (lo_engine l1))"
    and "tick_tree lib (lo_engine l1) (lo_ladder lo) = (Inr status, be, ls)" and "status = NS_SUCCESS \<or> status = NS_FAILURE"
    and "lo' = loop_turn lib jl ae hooks env lo" and "stays_auto envs (mw_mode (lo_mode lo'))"
    and "lo'' = fold (loop_turn lib2 jl2 ae2 hooks2) envs lo'"
  shows "lo_ladder lo'' = ls \<and> lo_engine lo'' = lo_engine lo' \<and>
    automation_status AUTO (lo_engine lo'') = (if status = NS_SUCCESS then AS_Completed else AS_Failed)"
proof -
  have l1: "be_running (lo_engine l1)" "be_tree_loaded (lo_engine l1)" "be_stop_on_terminal (lo_engine l1)" "lo_was_auto l1"
    using assms(1-3,5) by (simp_all add: enter_run_def)
  have lo': "lo' = l1\<lparr> lo_engine := note_status (tu_now_ms env) status be, lo_ladder := ls, lo_mode := others_do (tu_during env) (lo_mode l1) \<rparr>"
    using turn_returns [OF assms(1,4-7)] assms(9) by simp
  note n = note_status_terminal [OF assms(8), of be "tu_now_ms env"]
  have "be_running be" "be_tree_loaded be" "be_stop_on_terminal be" using tick_tree_running [OF assms(7)] l1 by simp_all
  then show ?thesis using ended_turns [OF assms(10), of lib2 jl2 ae2 hooks2] n l1(4) assms(11) by (simp add: lo')
qed

section \<open>Loading a definition\<close>

text \<open>A refused load leaves the engine as it was, the previous tree included; an accepted one digests the bytes of the
  first read, which is not always the content the tree was built from.\<close>

lemma load_refused_keeps: "load_definition lib fs fs' p be = (Inl e, be') \<Longrightarrow> be' = be"
  by (auto simp: load_definition_def Let_def split: option.splits sum.splits)

lemma load_digest:
  "load_definition lib fs fs' p be = (Inr version, be') \<Longrightarrow>
   \<exists>bytes. fs p = Some bytes \<and> engine_definition be' = Some (''application/xml'', sha256_hex (tl_sha256 lib) bytes, bytes) \<and>
     (\<exists>t. tl_create lib fs' p = Inr t \<and> be_tree be' = Some t)"
  by (auto simp: load_definition_def engine_definition_def Let_def split: option.splits sum.splits)

section \<open>A machine at work\<close>

definition demo_tree :: "string + NodeStatus \<Rightarrow> unit TreeLib" where
  "demo_tree res = \<lparr> tl_create = (\<lambda>_ _. Inr ()), tl_populate = (\<lambda>_. None), tl_tick = (\<lambda>t (ls, h). (res, t, ls, h)),
     tl_halt = (\<lambda>t. t), tl_sha256 = (\<lambda>_. None) \<rparr>"

definition demo_loop :: "unit LoopState" where
  "demo_loop = \<lparr> lo_engine = new_engine\<lparr> be_tree := Some (), be_tree_loaded := True, be_running := True, be_stop_on_terminal := True \<rparr>,
     lo_was_auto = False, lo_ladder = level_ladder, lo_mode = level_world\<lparr> mw_mode := new_mode_manager AUTO \<rparr>,
     lo_journal = Some (new_journal [''d''] ''r'' 500), lo_disk = \<lparr> dk_files = Map.empty, dk_data = (\<lambda>_. 0), dk_entry = (\<lambda>_. False) \<rparr> \<rparr>"

definition demo_turn :: TurnEnv where
  "demo_turn = \<lparr> tu_before = id, tu_during = id, tu_after = id, tu_now_ms = 7, tu_te = (level_te False False)\<lparr> te_others := id \<rparr> \<rparr>"


definition demo_ports :: InPorts where
  "demo_ports = (requested_ports 0 0 0 0 0)\<lparr> ip_string := (\<lambda>k. if k = ''device_handle'' then Some ''p/x'' else if k = ''function_name'' then Some ''set'' else None) \<rparr>"

theorem repeated_failure_throws_witness:
  "fst (call_device_tick (\<lambda>_. Inl []) (\<lambda>_. ''lost'') (te_env (level_te False False)) (Some (bt_services False 2 9))
     demo_ports (level_ladder, report_all False 2 [(''p/x'', ''set'', False, ''lost'', 3), (''p/d'', ''set'', True, [], 4)] (reset_run_status new_health))) =
   Node_Throws (failure_message ''p/x'' ''set'' 2 ''lost'')"
proof -
  let ?rs = "[(''p/x'', ''set'', False, ''lost'', 3), (''p/d'', ''set'', True, [], 4)]"
  obtain res ls' where r: "route (te_env (level_te False False)) (bt_request ''p/x'' ''set'' []) level_ladder = (res, ls')" by fastforce
  have "\<not> cr_success (fst (route (te_env (level_te False False)) (bt_request ''p/x'' ''set'' []) level_ladder))" by code_simp
  then have "\<not> cr_success res" by (simp add: r)
  moreover have "call_args (\<lambda>_. Inl []) demo_ports = Inr []" by (simp add: call_args_def or_else_def demo_ports_def)
  moreover have "failures_in_row ''p/x'' ''set'' (outcomes ?rs) = 1" by (simp add: outcomes_def)
  ultimately show ?thesis
    using repeated_failure_throws [of 2 ?rs demo_ports "''p/x''" "''set''" "\<lambda>_. Inl []" "[]", OF _ _ _ _ _ _ r, of "\<lambda>_. ''lost''" False 9 new_health] by (simp add: demo_ports_def)
qed

theorem tick_exception_stops_witness:
  "let lo' = loop_turn (demo_tree (Inl ''boom'')) demo_lib calm level_hooks demo_turn demo_loop in
   current_mode (mw_mode (lo_mode lo')) = FAULT \<and> automation_status FAULT (lo_engine lo') = AS_Failed \<and>
   lo_ladder (loop_turn (demo_tree (Inl ''boom'')) demo_lib calm level_hooks demo_turn lo') = lo_ladder lo' \<and>
   map_option rj_fault_queue (lo_journal lo') = Some [fault_item ''boom'' 7, mode_item AUTO FAULT 7]"
proof -
  let ?lib = "demo_tree (Inl ''boom'')"
  define l1 where "l1 = enter_run (demo_loop\<lparr> lo_mode := others_do (tu_before demo_turn) (lo_mode demo_loop) \<rparr>)"
  define lo' where "lo' = loop_turn ?lib demo_lib calm level_hooks demo_turn demo_loop"
  have h: "be_running (lo_engine demo_loop)" "be_tree_loaded (lo_engine demo_loop)" "turn_mode demo_turn demo_loop = AUTO"
      "\<not> bh_run_ended (be_health (lo_engine l1))" "tu_after demo_turn = id" "tu_during demo_turn = id" "tu_before demo_turn = id"
      "te_others (tu_te demo_turn) = id" "lo_journal demo_loop = Some (new_journal [''d''] ''r'' 500)" "tu_now_ms demo_turn = 7"
      "rj_fault_queue (new_journal [''d''] ''r'' 500) = []"
    by (simp_all add: demo_loop_def demo_turn_def l1_def turn_mode_def others_do_def current_mode_def new_mode_manager_def enter_run_def
        reset_run_status_def new_engine_def new_journal_def)
  have t: "tick_tree ?lib (lo_engine l1) (lo_ladder demo_loop) = (Inl ''boom'', lo_engine l1, lo_ladder demo_loop)"
    by (simp add: tick_tree_def demo_tree_def l1_def enter_run_def demo_loop_def new_engine_def)
  have e: "bh_error_count (be_health (lo_engine l1)) \<noteq> - 1" by (simp add: l1_def enter_run_def demo_loop_def reset_run_status_def)
  note s = tick_exception_stops [OF h(1-3) l1_def h(4) t e h(5) lo'_def, of demo_turn ?lib demo_lib calm level_hooks "new_journal [''d''] ''r'' 500",
      unfolded h kMaxFaultQueue_def]
  have "turn_mode demo_turn lo' = FAULT" using s by (simp add: turn_mode_def h)
  then show ?thesis unfolding lo'_def [symmetric] Let_def using s by auto
qed

theorem terminal_result_ends_run_witness:
  "let lo' = loop_turn (demo_tree (Inr NS_SUCCESS)) demo_lib calm level_hooks demo_turn demo_loop;
       lo'' = fold (loop_turn (demo_tree (Inl ''boom'')) demo_lib calm level_hooks) [demo_turn, demo_turn] lo' in
   lo_ladder lo'' = level_ladder \<and> automation_status AUTO (lo_engine lo'') = AS_Completed"
proof -
  let ?lib = "demo_tree (Inr NS_SUCCESS)"
  define l1 where "l1 = enter_run (demo_loop\<lparr> lo_mode := others_do (tu_before demo_turn) (lo_mode demo_loop) \<rparr>)"
  define lo' where "lo' = loop_turn ?lib demo_lib calm level_hooks demo_turn demo_loop"
  have h: "be_running (lo_engine demo_loop)" "be_tree_loaded (lo_engine demo_loop)" "be_stop_on_terminal (lo_engine demo_loop)"
      "turn_mode demo_turn demo_loop = AUTO" "\<not> bh_run_ended (be_health (lo_engine l1))" "lo_ladder demo_loop = level_ladder"
    by (simp_all add: demo_loop_def demo_turn_def l1_def turn_mode_def others_do_def current_mode_def new_mode_manager_def enter_run_def
        reset_run_status_def new_engine_def)
  have t: "tick_tree ?lib (lo_engine l1) (lo_ladder demo_loop) = (Inr NS_SUCCESS, lo_engine l1, level_ladder)"
    by (simp add: tick_tree_def demo_tree_def l1_def enter_run_def demo_loop_def new_engine_def)
  have "current_mode (mw_mode (lo_mode lo')) = AUTO"
    unfolding lo'_def turn_returns [OF h(1,4) l1_def h(5) t]
    by (simp add: l1_def enter_run_def demo_loop_def demo_turn_def others_do_def current_mode_def new_mode_manager_def)
  then have "stays_auto [demo_turn, demo_turn] (mw_mode (lo_mode lo'))" by (simp add: demo_turn_def)
  from terminal_result_ends_run [OF h(1-4) l1_def h(5) t _ lo'_def this refl, of "demo_tree (Inl ''boom'')" demo_lib calm level_hooks]
  show ?thesis unfolding lo'_def [symmetric] Let_def by (metis (full_types))
qed

end
