(* ===== verification/Line_Protocol.thy ===== *)
theory Line_Protocol
  imports Event_Emitter Run_Log
begin

text \<open>
  The InfluxDB line protocol as \<open>core/telemetry/influx_sink.hpp\<close> writes it: escaping of tags and field strings and the
  three event formatters, with \<open>parse_metric_int\<close> and \<open>parse_metric_bool\<close> of \<open>core/telemetry/health_line_protocol.hpp\<close>.
  \<open>to_chars\<close> stands for \<open>std::to_chars\<close> on a finite double; what is needed of it is that it prints digits, signs, a point
  and an exponent. \<open>read_row\<close> reads a row by the rules of the protocol that the comments of \<open>influx_sink.hpp\<close> state: rows end
  at a newline, an unescaped separator ends a token, a quoted field ends at the next unescaped quote, and a backslash is an
  escape only before the characters that need one (in a tag a comma, an equals sign, a space or a backslash, in a field
  string a quote or a backslash) and stands for itself before any other. It is not part of the program; it says what a row
  means, so that the theorem can say that a provider's texts never become structure.
\<close>

section \<open>Escaping\<close>

abbreviation backslash :: char where "backslash \<equiv> CHR 0x5C"
abbreviation dquote :: char where "dquote \<equiv> CHR 0x22"
abbreviation carriage_return :: char where "carriage_return \<equiv> CHR 0x0D"
abbreviation tab :: char where "tab \<equiv> CHR 0x09"

definition is_control :: "char \<Rightarrow> bool" where
  "is_control c \<longleftrightarrow> (of_char c :: nat) < 0x20 \<or> (of_char c :: nat) = 0x7F"

text \<open>The \<open>switch\<close> of both functions, which differ in the characters that get a backslash.\<close>

definition escape_char :: "char list \<Rightarrow> char \<Rightarrow> string" where
  "escape_char special c =
     (if c \<in> set special then [backslash, c]
      else if c = newline then [backslash, CHR ''n'']
      else if c = carriage_return then [backslash, CHR ''r'']
      else if c = tab then [backslash, CHR ''t'']
      else if is_control c then []
      else [c])"

definition tag_special :: "char list" where
  "tag_special = [CHR '','', CHR ''='', CHR '' '', backslash]"

definition field_special :: "char list" where
  "field_special = [dquote, backslash]"

definition escape_tag :: "string \<Rightarrow> string" where
  "escape_tag s = concat (map (escape_char tag_special) s)"

definition escape_field_string :: "string \<Rightarrow> string" where
  "escape_field_string s = concat (map (escape_char field_special) s)"

section \<open>Formatting\<close>

definition quoted :: "string \<Rightarrow> string" where
  "quoted s = [dquote] @ s @ [dquote]"

definition bool_text :: "bool \<Rightarrow> string" where
  "bool_text b = (if b then ''true'' else ''false'')"

fun value_field :: "(f64 \<Rightarrow> string) \<Rightarrow> TypedValue \<Rightarrow> string" where
  "value_field to_chars (TV_Double d) = (if f64_finite d then ''value_double='' @ to_chars d else [])"
| "value_field to_chars (TV_Int64 i) = ''value_int='' @ int_to_string (sint i) @ ''i''"
| "value_field to_chars (TV_Uint64 u) = ''value_uint='' @ nat_to_string (unat u) @ ''u''"
| "value_field to_chars (TV_Bool b) = ''value_bool='' @ bool_text b"
| "value_field to_chars (TV_String s) = ''value_string='' @ quoted (escape_field_string s)"

definition format_line_protocol ::
  "(f64 \<Rightarrow> string) \<Rightarrow> string \<Rightarrow> string \<Rightarrow> string \<Rightarrow> string \<Rightarrow> TypedValue \<Rightarrow> Quality \<Rightarrow> int \<Rightarrow> string" where
  "format_line_protocol to_chars runtime_name provider_id device_id signal_id v q timestamp_ms =
     (let line = ''anolis_signal'' @ '',runtime_name='' @ escape_tag runtime_name @ '',provider_id='' @ escape_tag provider_id @
            '',device_id='' @ escape_tag device_id @ '',signal_id='' @ escape_tag signal_id @ '' '';
          current = line @ value_field to_chars v;
          line = (if last current \<noteq> CHR '' '' then current @ '','' else current) in
      line @ ''quality='' @ quoted (quality_to_string q) @ '' '' @ int_to_string timestamp_ms)"

definition format_mode_change_line_protocol :: "string \<Rightarrow> string \<Rightarrow> string \<Rightarrow> int \<Rightarrow> string" where
  "format_mode_change_line_protocol runtime_name previous_mode new_mode timestamp_ms =
     ''mode_change,runtime_name='' @ escape_tag runtime_name @ '' previous_mode='' @ quoted (escape_field_string previous_mode) @
     '',new_mode='' @ quoted (escape_field_string new_mode) @ '' '' @ int_to_string timestamp_ms"

definition format_parameter_change_line_protocol :: "string \<Rightarrow> string \<Rightarrow> string \<Rightarrow> string \<Rightarrow> int \<Rightarrow> string" where
  "format_parameter_change_line_protocol runtime_name parameter_name old_value new_value timestamp_ms =
     ''parameter_change,runtime_name='' @ escape_tag runtime_name @ '',parameter_name='' @ escape_tag parameter_name @
     '' old_value='' @ quoted (escape_field_string old_value) @ '',new_value='' @ quoted (escape_field_string new_value) @
     '' '' @ int_to_string timestamp_ms"

text \<open>The dispatch of \<open>flush_loop\<close>: other events write no row.\<close>

definition format_event :: "(f64 \<Rightarrow> string) \<Rightarrow> string \<Rightarrow> Event \<Rightarrow> string option" where
  "format_event to_chars runtime_name e =
     (case ev_body e of
        StateUpdateEvent p d s v q \<Rightarrow> Some (format_line_protocol to_chars runtime_name p d s v q (ev_timestamp_ms e))
      | ModeChangeEvent prv nxt \<Rightarrow> Some (format_mode_change_line_protocol runtime_name prv nxt (ev_timestamp_ms e))
      | ParameterChangeEvent name old new \<Rightarrow>
          Some (format_parameter_change_line_protocol runtime_name name old new (ev_timestamp_ms e))
      | _ \<Rightarrow> None)"

text \<open>The body of a write request.\<close>

definition rows_body :: "string list \<Rightarrow> string" where
  "rows_body ls = concat (map (\<lambda>line. line @ [newline]) ls)"

section \<open>Metrics\<close>

definition is_digit :: "char \<Rightarrow> bool" where
  "is_digit c \<longleftrightarrow> CHR ''0'' \<le> c \<and> c \<le> CHR ''9''"

definition digits_value :: "string \<Rightarrow> nat" where
  "digits_value s = foldl (\<lambda>n c. 10 * n + (of_char c - 48)) 0 s"

text \<open>\<open>std::stoll\<close> throws above \<open>INT64_MAX\<close>.\<close>

definition parse_metric_int :: "string \<Rightarrow> u64 option" where
  "parse_metric_int s =
     (if s = [] then None
      else if \<not> list_all is_digit s then None
      else if 2 ^ 63 \<le> digits_value s then None
      else Some (of_nat (digits_value s)))"

definition parse_metric_bool :: "string \<Rightarrow> bool option" where
  "parse_metric_bool s = (if s = ''true'' then Some True else if s = ''false'' then Some False else None)"

section \<open>A reader\<close>

fun read_until :: "char list \<Rightarrow> string \<Rightarrow> (string \<times> char \<times> string) option" where
  "read_until seps [] = None"
| "read_until seps (c # s) =
     (if c \<in> set seps then Some ([], c, s)
      else if c = backslash
      then (case s of [] \<Rightarrow> None | d # s' \<Rightarrow> map_option (\<lambda>(t, r). (c # d # t, r)) (read_until seps s'))
      else map_option (\<lambda>(t, r). (c # t, r)) (read_until seps s))"

fun unescape :: "char list \<Rightarrow> string \<Rightarrow> string" where
  "unescape special [] = []"
| "unescape special (c # s) =
     (if c = backslash
      then (case s of [] \<Rightarrow> [c] | d # s' \<Rightarrow> if d \<in> set special then d # unescape special s' else c # unescape special s)
      else c # unescape special s)"

lemma read_until_shorter: "read_until seps s = Some (t, c, r) \<Longrightarrow> length r < length s"
  by (induction seps s arbitrary: t rule: read_until.induct) (fastforce split: if_splits list.splits)+

text \<open>Tags: a key, a value, and a comma or the space that ends the tag set.\<close>

function read_tags :: "string \<Rightarrow> ((string \<times> string) list \<times> string) option" where
  "read_tags s =
     (case read_until [CHR ''=''] s of
        None \<Rightarrow> None
      | Some (k, _, s1) \<Rightarrow>
          (case read_until [CHR '','', CHR '' ''] s1 of
             None \<Rightarrow> None
           | Some (v, c, s2) \<Rightarrow>
               if c = CHR '' '' then Some ([(k, unescape tag_special v)], s2)
               else map_option (\<lambda>(ts, r). ((k, unescape tag_special v) # ts, r)) (read_tags s2)))"
  by pat_completeness auto

termination
  by (relation "measure length") (auto dest!: read_until_shorter)

datatype field_value = F_Raw string | F_Text string

text \<open>The value of a field and the separator after it.\<close>

definition read_value :: "string \<Rightarrow> (field_value \<times> char \<times> string) option" where
  "read_value s =
     (if s \<noteq> [] \<and> hd s = dquote
      then (case read_until [dquote] (tl s) of
              Some (t, _, c # r) \<Rightarrow> if c = CHR '','' \<or> c = CHR '' '' then Some (F_Text (unescape field_special t), c, r) else None
            | _ \<Rightarrow> None)
      else map_option (\<lambda>(t, c, r). (F_Raw t, c, r)) (read_until [CHR '','', CHR '' ''] s))"

lemma read_value_shorter: "read_value s = Some (v, c, r) \<Longrightarrow> length r < length s"
  by (cases s) (auto simp: read_value_def dest!: read_until_shorter split: if_splits option.splits list.splits)

function read_fields :: "string \<Rightarrow> ((string \<times> field_value) list \<times> string) option" where
  "read_fields s =
     (case read_until [CHR ''=''] s of
        None \<Rightarrow> None
      | Some (k, _, s1) \<Rightarrow>
          (case read_value s1 of
             None \<Rightarrow> None
           | Some (v, c, s2) \<Rightarrow>
               if c = CHR '' '' then Some ([(k, v)], s2)
               else map_option (\<lambda>(fs, r). ((k, v) # fs, r)) (read_fields s2)))"
  by pat_completeness auto

termination
  by (relation "measure length") (auto dest!: read_until_shorter read_value_shorter)

declare read_tags.simps [simp del] read_fields.simps [simp del]

record Row =
  row_measurement :: string
  row_tags :: "(string \<times> string) list"
  row_fields :: "(string \<times> field_value) list"
  row_timestamp :: string

definition read_row :: "string \<Rightarrow> Row option" where
  "read_row line =
     (case split_first CHR '','' line of
        None \<Rightarrow> None
      | Some (measurement, s) \<Rightarrow>
          (case read_tags s of
             None \<Rightarrow> None
           | Some (tags, s) \<Rightarrow>
               (case read_fields s of
                  None \<Rightarrow> None
                | Some (fs, ts) \<Rightarrow>
                    Some \<lparr> row_measurement = measurement, row_tags = tags, row_fields = fs, row_timestamp = ts \<rparr>)))"


section \<open>Escaped texts are read back\<close>

text \<open>What a text reads back as: a newline, a carriage return and a tab as a backslash and a letter, other control bytes not
  at all, every other character as itself.\<close>

definition clean_char :: "char \<Rightarrow> string" where
  "clean_char c =
     (if c = newline then [backslash, CHR ''n'']
      else if c = carriage_return then [backslash, CHR ''r'']
      else if c = tab then [backslash, CHR ''t'']
      else if is_control c then []
      else [c])"

definition clean :: "string \<Rightarrow> string" where
  "clean s = concat (map clean_char s)"

definition separates :: "char list \<Rightarrow> char list \<Rightarrow> bool" where
  "separates seps special \<longleftrightarrow> set seps \<subseteq> set special \<and> backslash \<in> set special \<and> backslash \<notin> set seps"

lemma separates_tag [simp]: "separates [CHR '','', CHR '' ''] tag_special"
  by (simp add: separates_def tag_special_def)

lemma separates_field [simp]: "separates [dquote] field_special"
  by (simp add: separates_def field_special_def)

lemma read_until_escape_char:
  "separates seps special \<Longrightarrow>
   read_until seps (escape_char special c @ s) = map_option (\<lambda>(t, r). (escape_char special c @ t, r)) (read_until seps s)"
  by (cases "read_until seps s") (auto simp: escape_char_def separates_def)

lemma read_until_escaped:
  "separates seps special \<Longrightarrow> d \<in> set seps \<Longrightarrow>
   read_until seps (concat (map (escape_char special) t) @ d # r) = Some (concat (map (escape_char special) t), d, r)"
  by (induction t) (auto simp: read_until_escape_char)

lemma read_until_tag [simp]:
  "d = CHR '','' \<or> d = CHR '' '' \<Longrightarrow> read_until [CHR '','', CHR '' ''] (escape_tag t @ d # r) = Some (escape_tag t, d, r)"
  unfolding escape_tag_def by (intro read_until_escaped) auto

lemma read_until_field [simp]: "read_until [dquote] (escape_field_string t @ dquote # r) = Some (escape_field_string t, dquote, r)"
  unfolding escape_field_string_def by (intro read_until_escaped) auto

definition plain :: "char list \<Rightarrow> string \<Rightarrow> bool" where
  "plain seps t \<longleftrightarrow> backslash \<notin> set t \<and> set t \<inter> set seps = {}"

lemma read_until_plain: "plain seps t \<Longrightarrow> d \<in> set seps \<Longrightarrow> read_until seps (t @ d # r) = Some (t, d, r)"
  by (induction t) (auto simp: plain_def)

text \<open>A set of special characters that leaves the letters of the other escapes alone.\<close>

definition special_ok :: "char list \<Rightarrow> bool" where
  "special_ok special \<longleftrightarrow> backslash \<in> set special \<and> set special \<inter> {CHR ''n'', CHR ''r'', CHR ''t''} = {} \<and> list_all (\<lambda>c. \<not> is_control c) special"

lemma special_ok_sets: "special_ok tag_special" "special_ok field_special"
  by (simp_all add: special_ok_def tag_special_def field_special_def is_control_def)

lemma control_escapes: "is_control newline" "is_control carriage_return" "is_control tab"
  by (simp_all add: is_control_def newline_def)

lemma unescape_escape_char:
  assumes "special_ok special"
  shows "unescape special (escape_char special c @ s) = clean_char c @ unescape special s"
proof (cases "c \<in> set special")
  case True
  then have "\<not> is_control c" using assms by (auto simp: special_ok_def list_all_iff)
  with True show ?thesis using control_escapes by (auto simp: escape_char_def clean_char_def)
next
  case False
  then have "c \<noteq> backslash" using assms by (auto simp: special_ok_def)
  with False assms show ?thesis by (auto simp: escape_char_def clean_char_def special_ok_def)
qed

lemma unescape_escaped: "special_ok special \<Longrightarrow> unescape special (concat (map (escape_char special) t)) = clean t"
  by (induction t) (simp_all add: clean_def unescape_escape_char)

lemma unescape_tag [simp]: "unescape tag_special (escape_tag t) = clean t"
  unfolding escape_tag_def by (rule unescape_escaped [OF special_ok_sets(1)])

lemma unescape_field [simp]: "unescape field_special (escape_field_string t) = clean t"
  unfolding escape_field_string_def by (rule unescape_escaped [OF special_ok_sets(2)])

lemma escape_char_newline: "newline \<notin> set special \<Longrightarrow> newline \<notin> set (escape_char special c)"
  by (auto simp: escape_char_def newline_def)

lemma escaped_newline [simp]: "newline \<notin> set (escape_tag t)" "newline \<notin> set (escape_field_string t)"
  using escape_char_newline [of tag_special] escape_char_newline [of field_special]
  by (auto simp: escape_tag_def escape_field_string_def tag_special_def field_special_def newline_def)

section \<open>Rows\<close>

text \<open>A row from its parts, the shape all formatters write.\<close>

fun tags_text :: "(string \<times> string) list \<Rightarrow> string" where
  "tags_text [] = []"
| "tags_text ((k, v) # ts) = k @ ''='' @ escape_tag v @ (if ts = [] then '' '' else '','') @ tags_text ts"

fun value_text :: "field_value \<Rightarrow> string" where
  "value_text (F_Raw t) = t"
| "value_text (F_Text s) = quoted (escape_field_string s)"

fun fields_text :: "(string \<times> field_value) list \<Rightarrow> string" where
  "fields_text [] = []"
| "fields_text ((k, v) # fs) = k @ ''='' @ value_text v @ (if fs = [] then '' '' else '','') @ fields_text fs"

definition row_text :: "Row \<Rightarrow> string" where
  "row_text r = row_measurement r @ '','' @ tags_text (row_tags r) @ fields_text (row_fields r) @ row_timestamp r"

fun clean_value :: "field_value \<Rightarrow> field_value" where
  "clean_value (F_Raw t) = F_Raw t"
| "clean_value (F_Text s) = F_Text (clean s)"

definition clean_row :: "Row \<Rightarrow> Row" where
  "clean_row r = r\<lparr> row_tags := map (apsnd clean) (row_tags r), row_fields := map (apsnd clean_value) (row_fields r) \<rparr>"

text \<open>Keys and bare values that contain no structure of their own.\<close>

fun value_ok :: "field_value \<Rightarrow> bool" where
  "value_ok (F_Raw t) \<longleftrightarrow> t \<noteq> [] \<and> hd t \<noteq> dquote \<and> newline \<notin> set t \<and> plain [CHR '','', CHR '' ''] t"
| "value_ok (F_Text s) \<longleftrightarrow> True"

definition key_ok :: "string \<Rightarrow> bool" where
  "key_ok k \<longleftrightarrow> plain [CHR ''=''] k \<and> newline \<notin> set k"

definition row_ok :: "Row \<Rightarrow> bool" where
  "row_ok r \<longleftrightarrow> CHR '','' \<notin> set (row_measurement r) \<and> newline \<notin> set (row_measurement r) \<and> newline \<notin> set (row_timestamp r) \<and>
     row_tags r \<noteq> [] \<and> row_fields r \<noteq> [] \<and>
     list_all (key_ok \<circ> fst) (row_tags r) \<and> list_all (\<lambda>(k, v). key_ok k \<and> value_ok v) (row_fields r)"

lemma read_tags_text: "ts \<noteq> [] \<Longrightarrow> list_all (key_ok \<circ> fst) ts \<Longrightarrow> read_tags (tags_text ts @ r) = Some (map (apsnd clean) ts, r)"
proof (induction ts rule: tags_text.induct)
  case (2 k v ts)
  have "read_until [CHR ''=''] (k @ CHR ''='' # s) = Some (k, CHR ''='', s)" for s
    using 2 by (intro read_until_plain) (auto simp: key_ok_def)
  then show ?case using 2 by (subst read_tags.simps) auto
qed simp

lemma read_value_text:
  "value_ok v \<Longrightarrow> d = CHR '','' \<or> d = CHR '' '' \<Longrightarrow> read_value (value_text v @ d # r) = Some (clean_value v, d, r)"
  by (cases v) (auto simp: read_value_def quoted_def read_until_plain split: list.splits)

lemma read_fields_text:
  "fs \<noteq> [] \<Longrightarrow> list_all (\<lambda>(k, v). key_ok k \<and> value_ok v) fs \<Longrightarrow>
   read_fields (fields_text fs @ r) = Some (map (apsnd clean_value) fs, r)"
proof (induction fs rule: fields_text.induct)
  case (2 k v fs)
  have "read_until [CHR ''=''] (k @ CHR ''='' # s) = Some (k, CHR ''='', s)" for s
    using 2 by (intro read_until_plain) (auto simp: key_ok_def)
  moreover have "value_ok v" using 2 by simp
  ultimately show ?case using 2 by (subst read_fields.simps) (auto simp: read_value_text)
qed simp

lemma read_row_text: "row_ok r \<Longrightarrow> read_row (row_text r) = Some (clean_row r)"
  by (cases r) (simp add: row_ok_def row_text_def read_row_def read_tags_text read_fields_text clean_row_def)

lemma tags_text_newline: "list_all (key_ok \<circ> fst) ts \<Longrightarrow> newline \<notin> set (tags_text ts)"
  by (induction ts rule: tags_text.induct) (auto simp: key_ok_def, auto simp: newline_def)

lemma value_text_newline: "value_ok v \<Longrightarrow> newline \<notin> set (value_text v)"
  by (cases v) (auto simp: quoted_def, simp add: newline_def)

lemma fields_text_newline: "list_all (\<lambda>(k, v). key_ok k \<and> value_ok v) fs \<Longrightarrow> newline \<notin> set (fields_text fs)"
  by (induction fs rule: fields_text.induct) (auto simp: key_ok_def value_text_newline, auto simp: newline_def)

lemma row_text_newline: "row_ok r \<Longrightarrow> newline \<notin> set (row_text r)"
  by (auto simp: row_ok_def row_text_def tags_text_newline fields_text_newline, simp add: newline_def)

lemma read_lines_body: "list_all (\<lambda>l. newline \<notin> set l) ls \<Longrightarrow> read_lines (rows_body ls) = ls"
proof (induction ls)
  case (Cons l ls)
  have "read_lines (rows_body (l # ls)) = read_lines ((l @ [newline]) @ rows_body ls)" by (simp add: rows_body_def)
  also have "\<dots> = l # ls" using Cons by (subst read_lines_append) (simp_all add: read_lines_line)
  finally show ?case .
qed (simp add: rows_body_def)

lemma read_body:
  assumes "list_all row_ok rs"
  shows "map read_row (read_lines (rows_body (map row_text rs))) = map (Some \<circ> clean_row) rs"
proof -
  have "read_lines (rows_body (map row_text rs)) = map row_text rs"
    using assms row_text_newline by (intro read_lines_body) (auto simp: list_all_iff)
  then show ?thesis using assms read_row_text by (auto simp: list_all_iff)
qed


section \<open>The rows of the events\<close>

fun value_fields :: "(f64 \<Rightarrow> string) \<Rightarrow> TypedValue \<Rightarrow> (string \<times> field_value) list" where
  "value_fields to_chars (TV_Double d) = (if f64_finite d then [(''value_double'', F_Raw (to_chars d))] else [])"
| "value_fields to_chars (TV_Int64 i) = [(''value_int'', F_Raw (int_to_string (sint i) @ ''i''))]"
| "value_fields to_chars (TV_Uint64 u) = [(''value_uint'', F_Raw (nat_to_string (unat u) @ ''u''))]"
| "value_fields to_chars (TV_Bool b) = [(''value_bool'', F_Raw (bool_text b))]"
| "value_fields to_chars (TV_String s) = [(''value_string'', F_Text s)]"

definition event_row :: "(f64 \<Rightarrow> string) \<Rightarrow> string \<Rightarrow> Event \<Rightarrow> Row option" where
  "event_row to_chars runtime_name e =
     (case ev_body e of
        StateUpdateEvent p d s v q \<Rightarrow> Some
          \<lparr> row_measurement = ''anolis_signal'',
            row_tags = [(''runtime_name'', runtime_name), (''provider_id'', p), (''device_id'', d), (''signal_id'', s)],
            row_fields = value_fields to_chars v @ [(''quality'', F_Text (quality_to_string q))],
            row_timestamp = int_to_string (ev_timestamp_ms e) \<rparr>
      | ModeChangeEvent prv nxt \<Rightarrow> Some
          \<lparr> row_measurement = ''mode_change'', row_tags = [(''runtime_name'', runtime_name)],
            row_fields = [(''previous_mode'', F_Text prv), (''new_mode'', F_Text nxt)],
            row_timestamp = int_to_string (ev_timestamp_ms e) \<rparr>
      | ParameterChangeEvent name old new \<Rightarrow> Some
          \<lparr> row_measurement = ''parameter_change'', row_tags = [(''runtime_name'', runtime_name), (''parameter_name'', name)],
            row_fields = [(''old_value'', F_Text old), (''new_value'', F_Text new)],
            row_timestamp = int_to_string (ev_timestamp_ms e) \<rparr>
      | _ \<Rightarrow> None)"

definition number_char :: "char \<Rightarrow> bool" where
  "number_char c \<longleftrightarrow> c \<in> set ''0123456789+-.e''"

definition numeric_text :: "string \<Rightarrow> bool" where
  "numeric_text t \<longleftrightarrow> t \<noteq> [] \<and> list_all number_char t"

definition prints_numbers :: "(f64 \<Rightarrow> string) \<Rightarrow> bool" where
  "prints_numbers to_chars \<longleftrightarrow> (\<forall>d. numeric_text (to_chars d))"

lemma digit_char: "n < 10 \<Longrightarrow> number_char (char_of (48 + n))" for n :: nat
proof -
  assume "n < 10"
  moreover have "list_all (\<lambda>n. number_char (char_of (48 + n))) [0..<10 :: nat]" by code_simp
  ultimately show ?thesis by (simp add: list_all_iff)
qed

lemma nat_to_string_nonempty [simp]: "nat_to_string n \<noteq> []"
  by (subst nat_to_string.simps) simp

lemma nat_to_string_numeric [simp]: "numeric_text (nat_to_string n)"
proof (induction n rule: nat_to_string.induct)
  case (1 n)
  show ?case
  proof (cases "n < 10")
    case True
    then show ?thesis using digit_char [of n] by (subst nat_to_string.simps) (simp add: numeric_text_def)
  next
    case False
    then show ?thesis using 1 digit_char [of "n mod 10"] by (subst nat_to_string.simps) (simp add: numeric_text_def)
  qed
qed

lemma int_to_string_numeric [simp]: "numeric_text (int_to_string i)"
proof -
  have "number_char CHR ''-''" by (simp add: number_char_def)
  then show ?thesis using nat_to_string_numeric [unfolded numeric_text_def]
    by (simp add: int_to_string_def numeric_text_def)
qed

definition bare_char :: "char \<Rightarrow> bool" where
  "bare_char c \<longleftrightarrow> c \<noteq> dquote \<and> c \<noteq> newline \<and> c \<noteq> backslash \<and> c \<noteq> CHR '','' \<and> c \<noteq> CHR '' ''"

lemma number_char_bare: "number_char c \<Longrightarrow> bare_char c"
proof -
  have "list_all bare_char ''0123456789+-.e''" by code_simp
  then show "number_char c \<Longrightarrow> bare_char c" unfolding number_char_def list_all_iff by blast
qed

lemma raw_ok: "t \<noteq> [] \<Longrightarrow> list_all bare_char t \<Longrightarrow> value_ok (F_Raw t)"
proof -
  assume t: "t \<noteq> []" "list_all bare_char t"
  then have "bare_char (hd t)" by (cases t) simp_all
  moreover have "newline \<notin> set t \<and> backslash \<notin> set t \<and> CHR '','' \<notin> set t \<and> CHR '' '' \<notin> set t"
    using t(2) unfolding list_all_iff bare_char_def by blast
  ultimately show ?thesis using t(1) unfolding bare_char_def by (simp add: plain_def)
qed

text \<open>Numbers with a type suffix are bare values without structure.\<close>

lemma numeric_raw_ok:
  assumes "numeric_text t" "list_all bare_char sfx"
  shows "value_ok (F_Raw (t @ sfx))"
proof -
  have "list_all bare_char t" using assms(1) number_char_bare unfolding numeric_text_def list_all_iff by blast
  then show ?thesis using assms by (intro raw_ok) (simp_all add: numeric_text_def)
qed

lemma numeric_newline: "numeric_text t \<Longrightarrow> newline \<notin> set t"
  using number_char_bare unfolding numeric_text_def list_all_iff bare_char_def by blast

lemma bool_text_ok: "value_ok (F_Raw (bool_text b))"
proof (intro raw_ok)
  have "list_all bare_char (bool_text True)" "list_all bare_char (bool_text False)" by code_simp+
  then show "list_all bare_char (bool_text b)" by (cases b) simp_all
qed (simp add: bool_text_def)

lemmas literal_key_ok = key_ok_def plain_def newline_def

lemma value_fields_ok:
  assumes "prints_numbers to_chars"
  shows "list_all (\<lambda>(k, v). key_ok k \<and> value_ok v) (value_fields to_chars v)"
proof (cases v)
  case (TV_Double d)
  have "value_ok (F_Raw (to_chars d @ []))" using assms by (intro numeric_raw_ok) (simp_all add: prints_numbers_def)
  then show ?thesis by (simp add: TV_Double literal_key_ok del: value_ok.simps(1))
next
  case (TV_Int64 i)
  have "value_ok (F_Raw (int_to_string (sint i) @ ''i''))" by (intro numeric_raw_ok) (simp_all add: bare_char_def newline_def)
  then show ?thesis by (simp add: TV_Int64 literal_key_ok del: value_ok.simps(1))
next
  case (TV_Uint64 u)
  have "value_ok (F_Raw (nat_to_string (unat u) @ ''u''))" by (intro numeric_raw_ok) (simp_all add: bare_char_def newline_def)
  then show ?thesis by (simp add: TV_Uint64 literal_key_ok del: value_ok.simps(1))
next
  case (TV_Bool b)
  then show ?thesis using bool_text_ok [of b] by (simp add: literal_key_ok del: value_ok.simps(1))
qed (simp add: literal_key_ok)

lemma event_row_ok: "prints_numbers to_chars \<Longrightarrow> event_row to_chars name e = Some r \<Longrightarrow> row_ok r"
  using value_fields_ok [of to_chars] numeric_newline [OF int_to_string_numeric]
  by (cases "ev_body e") (auto simp: event_row_def row_ok_def literal_key_ok)

lemma quality_unescaped [simp]: "escape_field_string (quality_to_string q) = quality_to_string q"
  by (cases q) (simp_all add: escape_field_string_def escape_char_def field_special_def newline_def is_control_def)

lemma value_field_text:
  "value_field to_chars v = (if value_fields to_chars v = [] then [] else butlast (fields_text (value_fields to_chars v)))"
  by (cases v) (simp_all add: butlast_append)

lemma value_fields_cases: "value_fields to_chars v = [] \<or> (\<exists>k x. value_fields to_chars v = [(k, x)])"
  by (cases v) auto

lemma value_field_last:
  assumes "prints_numbers to_chars" "value_fields to_chars v \<noteq> []"
  shows "value_field to_chars v \<noteq> [] \<and> last (value_field to_chars v) \<noteq> CHR '' ''"
proof (cases v)
  case (TV_Double d)
  then have f: "f64_finite d" using assms(2) by (auto split: if_splits)
  have n: "numeric_text (to_chars d)" using assms(1) by (simp add: prints_numbers_def)
  then have "number_char (last (to_chars d))" by (simp add: numeric_text_def list_all_iff)
  with n f TV_Double show ?thesis using number_char_bare by (auto simp: numeric_text_def bare_char_def)
qed (auto simp: bool_text_def quoted_def)

lemma format_row:
  assumes "prints_numbers to_chars"
  shows "format_event to_chars name e = map_option row_text (event_row to_chars name e)"
proof (cases "ev_body e")
  case (StateUpdateEvent p d s v q)
  from value_fields_cases [of to_chars v] show ?thesis
  proof (elim disjE exE)
    assume "value_fields to_chars v = []"
    then show ?thesis using value_field_text [of to_chars v]
      by (simp add: StateUpdateEvent format_event_def event_row_def format_line_protocol_def row_text_def Let_def)
  next
    fix k x
    assume f: "value_fields to_chars v = [(k, x)]"
    then have "value_field to_chars v \<noteq> []" "last (value_field to_chars v) \<noteq> CHR '' ''" "value_field to_chars v = k @ ''='' @ value_text x"
      using value_field_last [OF assms, of v] value_field_text [of to_chars v] by (auto simp: butlast_append)
    then show ?thesis
      by (simp add: f StateUpdateEvent format_event_def event_row_def format_line_protocol_def row_text_def Let_def)
  qed
qed (simp_all add: format_event_def event_row_def row_text_def format_mode_change_line_protocol_def format_parameter_change_line_protocol_def)

text \<open>C34. Telemetry rows cannot be forged. Whatever bytes the ids, names and string values of the events contain, the body
  of a write request reads as exactly one row per state update, mode change and parameter change, in order, and none for
  other events, with the measurement, the tag keys and the field keys of that event, and with the event's own texts as
  values: every character as it was, except that a newline, a carriage return and a tab read as a backslash and a letter and
  other control bytes are left out.\<close>

theorem telemetry_rows_unforgeable:
  assumes "prints_numbers to_chars"
  shows "map read_row (read_lines (rows_body (List.map_filter (format_event to_chars name) es))) =
    map (\<lambda>r. Some (clean_row r)) (List.map_filter (event_row to_chars name) es)"
proof -
  have "List.map_filter (format_event to_chars name) es = map row_text (List.map_filter (event_row to_chars name) es)"
    by (induction es) (simp_all add: List.map_filter_simps format_row [OF assms] split: option.splits)
  moreover have "list_all row_ok (List.map_filter (event_row to_chars name) es)"
    using event_row_ok [OF assms] by (induction es) (auto simp: List.map_filter_simps split: option.splits)
  ultimately show ?thesis by (simp add: read_body comp_def)
qed

text \<open>A device id that tries to end the row and open another one.\<close>

theorem telemetry_rows_unforgeable_witness:
  "let forged = ''x 1'' @ [newline] @ ''anolis_signal,device_id=y'';
       e = \<lparr> ev_event_id = 1, ev_body = StateUpdateEvent ''p'' forged ''s'' (TV_Bool True) Q_OK, ev_timestamp_ms = 7 \<rparr> in
   map (map_option row_tags) (map read_row (read_lines (rows_body (List.map_filter (format_event (\<lambda>_. ''0'') ''r'') [e])))) =
     [Some [(''runtime_name'', ''r''), (''provider_id'', ''p''),
       (''device_id'', ''x 1'' @ [backslash, CHR ''n''] @ ''anolis_signal,device_id=y''), (''signal_id'', ''s'')]]"
proof -
  have "prints_numbers (\<lambda>_. ''0'')" by (simp add: prints_numbers_def numeric_text_def number_char_def)
  note t = telemetry_rows_unforgeable [OF this]
  show ?thesis unfolding Let_def t
    by (simp add: List.map_filter_simps event_row_def clean_row_def clean_def clean_char_def is_control_def newline_def)
qed

end
