(* ===== verification/Health_Snapshot.thy ===== *)
theory Health_Snapshot
  imports State_Cache Provider_Supervisor Line_Protocol
begin

text \<open>
  \<open>core/health/health_snapshot.cpp\<close>: the health view of all providers and devices. The GetHealth messages of the protocol
  are records with the fields the code reads; the generated \<open>State_Name\<close> functions are the parameters \<open>names\<close>. What one
  provider answers while its row is built (availability before and after GetHealth, the report, the clock) is a
  \<open>ProviderView\<close>. Texts that are only logged are constructors with the values they print.
\<close>

section \<open>Types\<close>

datatype DeviceHealthState = DH_UNREACHABLE | DH_FAULT | DH_OTHER int

datatype ProviderHealthState = PH_DEGRADED | PH_FAULT | PH_OTHER int

record DeviceHealth =
  dh_device_id :: string
  dh_state :: DeviceHealthState
  dh_message :: string
  dh_metrics :: "(string \<times> string) list"
  dh_last_seen :: "(int \<times> int) option"

record GetHealthResponse =
  gh_state :: ProviderHealthState
  gh_message :: string
  gh_metrics :: "(string \<times> string) list"
  gh_devices :: "DeviceHealth list"

record StalenessPolicy =
  sp_poll_interval_ms :: int
  sp_warn_after_ms :: int
  sp_stale_after_ms :: int
  sp_excluded_signals :: "(string \<times> string list) list"

record StalenessBounds =
  sb_warn_ms :: int
  sb_stale_ms :: int

record ReportedDeviceHealth =
  rh_state :: string
  rh_message :: string
  rh_metrics :: "(string \<times> string) list"
  rh_last_seen_epoch_ms :: "int option"

record DeviceHealthSnapshot =
  hd_device_id :: string
  hd_health :: string
  hd_last_poll_ms :: u64
  hd_staleness_ms :: u64
  hd_registered :: bool
  hd_stale_signal_count :: u32
  hd_fault_signal_count :: u32
  hd_type_version :: string
  hd_descriptor_tags :: "(string \<times> string) list"
  hd_reported :: "ReportedDeviceHealth option"

record ReportedProviderHealth =
  rr_state :: string
  rr_message :: string
  rr_metrics :: "(string \<times> string) list"

record SupervisionView =
  su_enabled :: bool
  su_attempt_count :: int
  su_max_attempts :: int
  su_crash_detected :: bool
  su_circuit_open :: bool
  su_next_restart_in_ms :: "int option"

record ProviderHealthSnapshot =
  hp_provider_id :: string
  hp_state :: string
  hp_lifecycle_state :: string
  hp_last_seen_ago_ms :: "int option"
  hp_uptime_seconds :: int
  hp_device_count :: nat
  hp_degraded :: bool
  hp_failed_device_count :: int
  hp_reported :: "ReportedProviderHealth option"
  hp_supervision :: SupervisionView
  hp_devices :: "DeviceHealthSnapshot list"

definition blank_device :: DeviceHealthSnapshot where
  "blank_device = \<lparr> hd_device_id = [], hd_health = ''UNKNOWN'', hd_last_poll_ms = 0, hd_staleness_ms = 0, hd_registered = True,
     hd_stale_signal_count = 0, hd_fault_signal_count = 0, hd_type_version = [], hd_descriptor_tags = [], hd_reported = None \<rparr>"

definition no_supervision :: SupervisionView where
  "no_supervision = \<lparr> su_enabled = False, su_attempt_count = 0, su_max_attempts = 0, su_crash_detected = False,
     su_circuit_open = False, su_next_restart_in_ms = None \<rparr>"

section \<open>Helpers\<close>

definition derive_lifecycle_state :: "bool \<Rightarrow> ProviderSupervisionSnapshot \<Rightarrow> string" where
  "derive_lifecycle_state is_available snap =
     (if is_available then (if 0 < sn_attempt_count snap then ''RECOVERING'' else ''RUNNING'')
      else if sn_circuit_open snap then ''CIRCUIT_OPEN''
      else if sn_crash_detected snap \<or> 0 < sn_attempt_count snap \<or> sn_next_restart_in_ms snap \<noteq> None then ''RESTARTING''
      else ''DOWN'')"

definition kMaxIdentityLen :: nat where "kMaxIdentityLen = 128"
definition kMaxDescriptorTags :: nat where "kMaxDescriptorTags = 32"

text \<open>\<open>(c & 0xC0) == 0x80\<close>.\<close>

definition is_continuation :: "char \<Rightarrow> bool" where
  "is_continuation c \<longleftrightarrow> 128 \<le> (of_char c :: nat) \<and> (of_char c :: nat) < 192"

fun walk_back :: "string \<Rightarrow> nat \<Rightarrow> nat" where
  "walk_back v 0 = 0"
| "walk_back v (Suc n) = (if is_continuation (v ! Suc n) then walk_back v n else Suc n)"

definition clamp_identity :: "string \<Rightarrow> string" where
  "clamp_identity v = (if length v \<le> kMaxIdentityLen then v else take (walk_back v kMaxIdentityLen) v)"

definition sorted_map :: "(string \<times> string) list \<Rightarrow> (string \<times> string) list" where
  "sorted_map kvs = fold (\<lambda>(k, v). omap_put k v) kvs []"

definition reported_device_health :: "(DeviceHealthState \<Rightarrow> string) \<Rightarrow> DeviceHealth \<Rightarrow> ReportedDeviceHealth" where
  "reported_device_health state_name dh =
     \<lparr> rh_state = state_name (dh_state dh), rh_message = dh_message dh, rh_metrics = sorted_map (dh_metrics dh),
       rh_last_seen_epoch_ms = map_option (\<lambda>(seconds, nanos). seconds * 1000 + ns_to_ms nanos) (dh_last_seen dh) \<rparr>"

definition kStalenessWarnCycles :: int where "kStalenessWarnCycles = 3"
definition kStalenessStaleCycles :: int where "kStalenessStaleCycles = 8"
definition kStalenessWarnFloorMs :: int where "kStalenessWarnFloorMs = 2000"
definition kStalenessStaleFloorMs :: int where "kStalenessStaleFloorMs = 5000"

definition resolve_staleness_bounds :: "StalenessPolicy \<Rightarrow> nat \<Rightarrow> StalenessBounds" where
  "resolve_staleness_bounds policy n =
     (let interval = (if 0 < sp_poll_interval_ms policy then sp_poll_interval_ms policy else 500);
          cycle_budget = interval * int (max 1 n);
          warn_ms = (if 0 < sp_warn_after_ms policy then sp_warn_after_ms policy
                     else max (kStalenessWarnCycles * cycle_budget) kStalenessWarnFloorMs);
          stale_ms = (if 0 < sp_stale_after_ms policy then sp_stale_after_ms policy
                      else max (kStalenessStaleCycles * cycle_budget) kStalenessStaleFloorMs) in
      \<lparr> sb_warn_ms = min warn_ms stale_ms, sb_stale_ms = stale_ms \<rparr>)"

definition effective_signal_stale_after_ms :: "u32 \<Rightarrow> int \<Rightarrow> int" where
  "effective_signal_stale_after_ms declared_ms liveness_stale_ms = max (uint declared_ms) liveness_stale_ms"

datatype unmatched = No_Such_Device string | No_Such_Signal string string

definition unmatched_excluded_signals :: "(string \<times> string list) list \<Rightarrow> DeviceRegistry \<Rightarrow> unmatched list" where
  "unmatched_excluded_signals excluded registry =
     (let by_handle = fold (\<lambda>d. omap_put (get_handle d) d) (get_all_devices registry) [] in
      concat (map (\<lambda>(handle, signals).
        case map_of by_handle handle of
          None \<Rightarrow> [No_Such_Device handle]
        | Some d \<Rightarrow> map (No_Such_Signal handle)
            (filter (\<lambda>s. map_of (dc_signals_by_id (rd_capabilities d)) s = None) signals)) excluded))"

section \<open>One device\<close>

definition liveness :: "bool \<Rightarrow> StalenessBounds \<Rightarrow> int \<Rightarrow> string" where
  "liveness is_available bounds age_ms =
     (if \<not> is_available then ''UNAVAILABLE''
      else if age_ms < sb_warn_ms bounds then ''OK''
      else if age_ms < sb_stale_ms bounds then ''WARNING''
      else ''STALE'')"

definition excluded_from_health :: "StalenessPolicy \<Rightarrow> string \<Rightarrow> string \<Rightarrow> bool" where
  "excluded_from_health policy handle signal_id \<longleftrightarrow>
     (case map_of (sp_excluded_signals policy) handle of None \<Rightarrow> False | Some signals \<Rightarrow> signal_id \<in> set signals)"

text \<open>The loop over the cached signals, one signal at a time, on the two counters.\<close>

definition count_signal ::
  "StalenessPolicy \<Rightarrow> StalenessBounds \<Rightarrow> time_ns \<Rightarrow> RegisteredDevice \<Rightarrow> string \<Rightarrow> string \<times> CachedSignalValue \<Rightarrow> u32 \<times> u32 \<Rightarrow> u32 \<times> u32" where
  "count_signal policy bounds now device handle entry counts =
     (let (signal_id, cached) = entry; (faults, stales) = counts in
      if excluded_from_health policy handle signal_id then counts
      else let declared = (case map_of (dc_signals_by_id (rd_capabilities device)) signal_id of
                             Some spec \<Rightarrow> ss_stale_after_ms spec | None \<Rightarrow> 0);
               effective = effective_signal_stale_after_ms declared (sb_stale_ms bounds) in
           if cv_quality cached = QUALITY_FAULT then (faults + 1, stales)
           else if cv_quality cached = QUALITY_STALE \<or> cv_quality cached = QUALITY_UNKNOWN \<or> effective < cv_age now cached
           then (faults, stales + 1)
           else counts)"

definition cached_health ::
  "StalenessPolicy \<Rightarrow> StalenessBounds \<Rightarrow> bool \<Rightarrow> time_ns \<Rightarrow> RegisteredDevice \<Rightarrow> string \<Rightarrow> DeviceState option \<Rightarrow> DeviceHealthSnapshot" where
  "cached_health policy bounds is_available now device handle device_state =
     (let ds = blank_device\<lparr> hd_device_id := rd_device_id device \<rparr> in
      case device_state of
        None \<Rightarrow> ds\<lparr> hd_health := ''UNKNOWN'' \<rparr>
      | Some state \<Rightarrow>
          let age_ms = ns_to_ms (now - ds_last_poll_time state);
              age_ms = (if age_ms < 0 then 0 else age_ms);
              (faults, stales) = fold (count_signal policy bounds now device handle) (ds_signals state) (0, 0);
              health = liveness is_available bounds age_ms;
              health = (if is_available then (if 0 < faults then ''FAULT'' else if 0 < stales then ''STALE'' else health) else health) in
          ds\<lparr> hd_health := health, hd_last_poll_ms := word_of_int (ns_to_ms (ds_last_poll_time state)),
              hd_staleness_ms := word_of_int age_ms, hd_stale_signal_count := stales, hd_fault_signal_count := faults \<rparr>)"

fun bounded_tags :: "(string \<times> string) list \<Rightarrow> (string \<times> string) list \<Rightarrow> (string \<times> string) list" where
  "bounded_tags [] out = out"
| "bounded_tags ((k, v) # kvs) out =
     (if kMaxDescriptorTags \<le> length out then out
      else if kMaxIdentityLen < length k then bounded_tags kvs out
      else bounded_tags kvs (omap_put k (clamp_identity v) out))"

section \<open>One provider\<close>

record ProviderView =
  pv_available_before :: bool
  pv_health :: "GetHealthResponse option"
  pv_available :: bool
  pv_now :: time_ns

definition failed_state :: "DeviceHealthState \<Rightarrow> bool" where
  "failed_state st \<longleftrightarrow> st = DH_UNREACHABLE \<or> st = DH_FAULT"

text \<open>The loop over the registered devices: each takes its report out of \<open>reported_by_id\<close>.\<close>

fun device_rows ::
  "(DeviceHealthState \<Rightarrow> string) \<Rightarrow> (RegisteredDevice \<Rightarrow> DeviceHealthSnapshot) \<Rightarrow> RegisteredDevice list \<Rightarrow> (string \<times> DeviceHealth) list \<Rightarrow>
   DeviceHealthSnapshot list \<times> (string \<times> DeviceHealth) list" where
  "device_rows state_name row [] reported = ([], reported)"
| "device_rows state_name row (d # devices) reported =
     (let ds = (row d)\<lparr> hd_type_version := clamp_identity (pd_type_version (dc_proto (rd_capabilities d))),
                        hd_descriptor_tags := bounded_tags (pd_tags (dc_proto (rd_capabilities d))) [] \<rparr>;
          ds = (case map_of reported (rd_device_id d) of
                  Some dh \<Rightarrow> ds\<lparr> hd_reported := Some (reported_device_health state_name dh) \<rparr> | None \<Rightarrow> ds);
          (rows, left) = device_rows state_name row devices (AList.delete (rd_device_id d) reported) in
      (ds # rows, left))"

definition unregistered_row :: "(DeviceHealthState \<Rightarrow> string) \<Rightarrow> string \<times> DeviceHealth \<Rightarrow> DeviceHealthSnapshot" where
  "unregistered_row state_name entry =
     blank_device\<lparr> hd_device_id := fst entry, hd_registered := False, hd_reported := Some (reported_device_health state_name (snd entry)) \<rparr>"

definition supervision_view :: "ProviderSupervisionSnapshot \<Rightarrow> SupervisionView" where
  "supervision_view snap = \<lparr> su_enabled = sn_supervision_enabled snap, su_attempt_count = sn_attempt_count snap,
     su_max_attempts = sn_max_attempts snap, su_crash_detected = sn_crash_detected snap, su_circuit_open = sn_circuit_open snap,
     su_next_restart_in_ms = sn_next_restart_in_ms snap \<rparr>"

definition provider_health ::
  "(DeviceHealthState \<Rightarrow> string) \<Rightarrow> (ProviderHealthState \<Rightarrow> string) \<Rightarrow> DeviceRegistry \<Rightarrow> StateCache \<Rightarrow> StalenessPolicy \<Rightarrow>
   (string \<times> ProviderSupervisionSnapshot) list \<Rightarrow> string \<Rightarrow> ProviderView \<Rightarrow> ProviderHealthSnapshot" where
  "provider_health state_name provider_state_name registry cache policy snapshots provider_id view =
     (let is_available = pv_available view;
          reported = (if pv_available_before view \<and> is_available then pv_health view else None);
          devices = get_devices_for_provider registry provider_id;
          bounds = resolve_staleness_bounds policy (length devices);
          dhs = (case reported of Some gh \<Rightarrow> gh_devices gh | None \<Rightarrow> []);
          reported_by_id = fold (\<lambda>dh. omap_put (dh_device_id dh) dh) dhs [];
          failed = int (length (filter (\<lambda>dh. failed_state (dh_state dh)) dhs));
          row = (\<lambda>d. let handle = provider_id @ ''/'' @ rd_device_id d in
                   cached_health policy bounds is_available (pv_now view) d handle (get_device_state cache handle));
          (rows, left) = device_rows state_name row devices reported_by_id;
          snap = map_of snapshots provider_id in
      \<lparr> hp_provider_id = provider_id, hp_state = (if is_available then ''AVAILABLE'' else ''UNAVAILABLE''),
        hp_lifecycle_state = (case snap of Some s \<Rightarrow> derive_lifecycle_state is_available s
                              | None \<Rightarrow> if is_available then ''RUNNING'' else ''DOWN''),
        hp_last_seen_ago_ms = Option.bind snap sn_last_seen_ago_ms,
        hp_uptime_seconds = (case snap of Some s \<Rightarrow> if is_available then sn_uptime_seconds s else 0 | None \<Rightarrow> 0),
        hp_device_count = length devices,
        hp_degraded = (case reported of Some gh \<Rightarrow> 0 < failed \<or> gh_state gh = PH_DEGRADED \<or> gh_state gh = PH_FAULT | None \<Rightarrow> False),
        hp_failed_device_count = failed,
        hp_reported = map_option (\<lambda>gh. \<lparr> rr_state = provider_state_name (gh_state gh), rr_message = gh_message gh,
                        rr_metrics = sorted_map (gh_metrics gh) \<rparr>) reported,
        hp_supervision = (case snap of Some s \<Rightarrow> supervision_view s | None \<Rightarrow> no_supervision),
        hp_devices = rows @ map (unregistered_row state_name) left \<rparr>)"

definition collect_providers_health ::
  "(DeviceHealthState \<Rightarrow> string) \<Rightarrow> (ProviderHealthState \<Rightarrow> string) \<Rightarrow> 'h ProviderRegistry \<Rightarrow> DeviceRegistry \<Rightarrow> StateCache \<Rightarrow>
   (string \<times> ProviderSupervisionSnapshot) list \<Rightarrow> StalenessPolicy \<Rightarrow> (string \<Rightarrow> ProviderView) \<Rightarrow> ProviderHealthSnapshot list" where
  "collect_providers_health state_name provider_state_name providers registry cache snapshots policy views =
     map (\<lambda>(provider_id, _). provider_health state_name provider_state_name registry cache policy snapshots provider_id (views provider_id))
       (get_all_providers providers)"

section \<open>Startup warnings\<close>

text \<open>What an available provider answers to a blocking GetHealth; \<open>None\<close> when it is not available or the call fails.\<close>

definition actuating_devices_with_watchdog_disarmed ::
  "'h ProviderRegistry \<Rightarrow> DeviceRegistry \<Rightarrow> (string \<Rightarrow> GetHealthResponse option) \<Rightarrow> string list" where
  "actuating_devices_with_watchdog_disarmed providers registry health =
     concat (map (\<lambda>(provider_id, _).
       case health provider_id of
         None \<Rightarrow> []
       | Some gh \<Rightarrow> List.map_filter (\<lambda>dh.
           if map_of (dh_metrics dh) ''watchdog_armed'' \<noteq> Some ''false'' then None
           else case get_device_copy registry provider_id (dh_device_id dh) of
                  None \<Rightarrow> None
                | Some device \<Rightarrow>
                    if list_ex (\<lambda>(_, spec). fs_category spec = CATEGORY_ACTUATE) (dc_functions_by_id (rd_capabilities device))
                    then Some (provider_id @ ''/'' @ dh_device_id dh) else None) (gh_devices gh)) (get_all_providers providers))"

record watchdog_warning =
  ww_handle :: string
  ww_timeout_ms :: int
  ww_margin :: int
  ww_suggested_interval_ms :: int

definition watchdog_timeouts_under_poll_margin ::
  "'h ProviderRegistry \<Rightarrow> DeviceRegistry \<Rightarrow> int \<Rightarrow> (string \<Rightarrow> GetHealthResponse option) \<Rightarrow> watchdog_warning list" where
  "watchdog_timeouts_under_poll_margin providers registry polling_interval_ms health =
     (let margin = 2 * polling_interval_ms in
      concat (map (\<lambda>(provider_id, _).
        case health provider_id of
          None \<Rightarrow> []
        | Some gh \<Rightarrow> List.map_filter (\<lambda>dh.
            case Option.bind (map_of (dh_metrics dh) ''watchdog_timeout_ms'') parse_metric_int of
              None \<Rightarrow> None
            | Some t \<Rightarrow>
                if sint t = 0 \<or> margin \<le> sint t then None
                else if get_device_copy registry provider_id (dh_device_id dh) = None then None
                else Some \<lparr> ww_handle = provider_id @ ''/'' @ dh_device_id dh, ww_timeout_ms = sint t, ww_margin = margin,
                            ww_suggested_interval_ms = sint t div 2 \<rparr>) (gh_devices gh)) (get_all_providers providers)))"


section \<open>Counting signals\<close>

definition signal_faulty :: "StalenessPolicy \<Rightarrow> string \<Rightarrow> string \<times> CachedSignalValue \<Rightarrow> bool" where
  "signal_faulty policy handle entry \<longleftrightarrow> \<not> excluded_from_health policy handle (fst entry) \<and> cv_quality (snd entry) = QUALITY_FAULT"

definition signal_stale :: "StalenessPolicy \<Rightarrow> int \<Rightarrow> time_ns \<Rightarrow> RegisteredDevice \<Rightarrow> string \<Rightarrow> string \<times> CachedSignalValue \<Rightarrow> bool" where
  "signal_stale policy stale_ms now device handle entry \<longleftrightarrow>
     \<not> excluded_from_health policy handle (fst entry) \<and> cv_quality (snd entry) \<noteq> QUALITY_FAULT \<and>
     (cv_quality (snd entry) = QUALITY_STALE \<or> cv_quality (snd entry) = QUALITY_UNKNOWN \<or>
      stale_ms < cv_age now (snd entry) \<and>
      (\<forall>spec. map_of (dc_signals_by_id (rd_capabilities device)) (fst entry) = Some spec \<longrightarrow>
         uint (ss_stale_after_ms spec) < cv_age now (snd entry)))"

lemma cv_age_nonneg: "0 \<le> cv_age now cached"
  by (simp add: cv_age_def ns_to_ms_def pos_imp_zdiv_nonneg_iff)

lemma count_signal_step:
  assumes "0 \<le> sb_stale_ms bounds"
  shows "count_signal policy bounds now device handle entry (f, s) =
    (if signal_faulty policy handle entry then (f + 1, s)
     else if signal_stale policy (sb_stale_ms bounds) now device handle entry then (f, s + 1) else (f, s))"
  using assms cv_age_nonneg [of now "snd entry"]
  by (cases entry; cases "map_of (dc_signals_by_id (rd_capabilities device)) (fst entry)")
    (auto simp: count_signal_def signal_faulty_def signal_stale_def effective_signal_stale_after_ms_def Let_def)

lemma count_signals:
  assumes "0 \<le> sb_stale_ms bounds"
  shows "fold (count_signal policy bounds now device handle) entries (f, s) =
    (f + of_nat (length (filter (signal_faulty policy handle) entries)),
     s + of_nat (length (filter (signal_stale policy (sb_stale_ms bounds) now device handle) entries)))"
proof (induction entries arbitrary: f s)
  case (Cons e entries)
  have "signal_stale policy (sb_stale_ms bounds) now device handle e \<Longrightarrow> \<not> signal_faulty policy handle e"
    by (simp add: signal_stale_def signal_faulty_def)
  then show ?case using Cons by (auto simp: count_signal_step [OF assms])
qed simp

lemma of_nat_pos: "n < 2 ^ 32 \<Longrightarrow> (0 :: u32) < of_nat n \<longleftrightarrow> 0 < n"
  by (simp add: word_less_nat_alt unsigned_of_nat take_bit_nat_eq_self)

lemma filter_pos: "0 < length (filter P xs) \<longleftrightarrow> (\<exists>x \<in> set xs. P x)"
  by (auto simp: filter_empty_conv)

lemma bounds_ordered:
  "0 < sb_warn_ms (resolve_staleness_bounds policy n) \<and>
   sb_warn_ms (resolve_staleness_bounds policy n) \<le> sb_stale_ms (resolve_staleness_bounds policy n)"
  by (simp add: resolve_staleness_bounds_def kStalenessWarnFloorMs_def kStalenessStaleFloorMs_def less_max_iff_disj Let_def)

text \<open>What a device's health means, without the loop and its counters.\<close>

definition device_verdict ::
  "StalenessPolicy \<Rightarrow> StalenessBounds \<Rightarrow> bool \<Rightarrow> time_ns \<Rightarrow> RegisteredDevice \<Rightarrow> string \<Rightarrow> DeviceState option \<Rightarrow> string" where
  "device_verdict policy bounds is_available now device handle device_state =
     (case device_state of
        None \<Rightarrow> ''UNKNOWN''
      | Some st \<Rightarrow>
          let age = ns_to_ms (now - ds_last_poll_time st) in
          if \<not> is_available then ''UNAVAILABLE''
          else if \<exists>e \<in> set (ds_signals st). signal_faulty policy handle e then ''FAULT''
          else if sb_stale_ms bounds \<le> age \<or> (\<exists>e \<in> set (ds_signals st). signal_stale policy (sb_stale_ms bounds) now device handle e)
          then ''STALE''
          else if sb_warn_ms bounds \<le> age then ''WARNING''
          else ''OK'')"

lemma cached_health_verdict:
  assumes "0 < sb_warn_ms bounds" "sb_warn_ms bounds \<le> sb_stale_ms bounds"
    and "\<And>st. device_state = Some st \<Longrightarrow> length (ds_signals st) < 2 ^ 32"
  shows "hd_health (cached_health policy bounds is_available now device handle device_state) =
    device_verdict policy bounds is_available now device handle device_state"
proof (cases device_state)
  case (Some st)
  let ?P = "signal_faulty policy handle" and ?Q = "signal_stale policy (sb_stale_ms bounds) now device handle"
  have n: "length (ds_signals st) < 2 ^ 32" using assms(3) Some by simp
  have pos: "(0 :: u32) < of_nat (length (filter R (ds_signals st))) \<longleftrightarrow> (\<exists>x \<in> set (ds_signals st). R x)" for R
    by (simp only: of_nat_pos [OF le_less_trans [OF length_filter_le n]] filter_pos)
  have stale: "0 \<le> sb_stale_ms bounds" using assms(1,2) by linarith
  define F where "F \<longleftrightarrow> (\<exists>e \<in> set (ds_signals st). ?P e)"
  define S where "S \<longleftrightarrow> (\<exists>e \<in> set (ds_signals st). ?Q e)"
  define age where "age = ns_to_ms (now - ds_last_poll_time st)"
  obtain f s where c: "fold (count_signal policy bounds now device handle) (ds_signals st) (0, 0) = (f, s)"
    and fs: "0 < f \<longleftrightarrow> F" "0 < s \<longleftrightarrow> S"
    using count_signals [OF stale, of policy now device handle "ds_signals st" 0 0] pos [of ?P] pos [of ?Q]
    unfolding F_def S_def add_0 by metis
  have "hd_health (cached_health policy bounds is_available now device handle device_state) =
      (let health = liveness is_available bounds (if age < 0 then 0 else age)
       in if is_available then (if F then ''FAULT'' else if S then ''STALE'' else health) else health)"
    by (simp add: Some cached_health_def c fs age_def Let_def)
  also have "\<dots> = device_verdict policy bounds is_available now device handle device_state"
  proof (cases is_available)
    case True
    have "liveness True bounds (if age < 0 then 0 else age) =
        (if sb_stale_ms bounds \<le> age then ''STALE'' else if sb_warn_ms bounds \<le> age then ''WARNING'' else ''OK'')"
      using assms(1,2) by (simp add: liveness_def)
    with True show ?thesis
      unfolding Some device_verdict_def option.case Let_def F_def [symmetric] S_def [symmetric] age_def [symmetric] by simp
  next
    case False
    then show ?thesis by (simp add: Some device_verdict_def liveness_def Let_def)
  qed
  finally show ?thesis .
qed (simp add: cached_health_def device_verdict_def blank_device_def)

section \<open>The rows of a provider\<close>

lemma device_rows_left:
  "snd (device_rows names row devices reported) = filter (\<lambda>e. fst e \<notin> rd_device_id ` set devices) reported"
proof (induction devices arbitrary: reported)
  case (Cons d devices)
  have "filter (\<lambda>e. fst e \<notin> rd_device_id ` set devices) (AList.delete (rd_device_id d) reported) =
      filter (\<lambda>e. fst e \<notin> rd_device_id ` set (d # devices)) reported"
    by (auto simp: AList.delete_eq intro!: filter_cong)
  then show ?case using Cons [of "AList.delete (rd_device_id d) reported"] by (simp add: Let_def split_beta)
qed (simp add: case_prod_beta)

lemma device_rows_health:
  "map hd_health (fst (device_rows names row devices reported)) = map (hd_health \<circ> row) devices"
  by (induction devices arbitrary: reported) (simp_all add: Let_def split_beta split: option.splits)

lemma device_rows_id:
  "map hd_device_id (fst (device_rows names row devices reported)) = map (hd_device_id \<circ> row) devices"
  by (induction devices arbitrary: reported) (simp_all add: Let_def split_beta split: option.splits)

lemma cached_health_id [simp]: "hd_device_id (cached_health policy bounds a now d handle st) = rd_device_id d"
  by (simp add: cached_health_def Let_def split_beta split: option.splits)

lemma keys_filter: "fst ` set (filter (\<lambda>e. fst e \<notin> A) m) = fst ` set m - A"
  by auto

abbreviation view_report :: "ProviderView \<Rightarrow> GetHealthResponse option" where
  "view_report view \<equiv> if pv_available_before view \<and> pv_available view then pv_health view else None"

definition reported_devices :: "ProviderView \<Rightarrow> DeviceHealth list" where
  "reported_devices view = (case view_report view of Some gh \<Rightarrow> gh_devices gh | None \<Rightarrow> [])"

definition reported_ids :: "ProviderView \<Rightarrow> string list" where
  "reported_ids view = map dh_device_id (reported_devices view)"

lemma failed_state_iff: "failed_state st \<longleftrightarrow> st = DH_UNREACHABLE \<or> st = DH_FAULT"
  by (simp add: failed_state_def)

lemma provider_degraded:
  assumes "ps = provider_health names pnames registry cache policy snapshots pid view"
  shows "hp_failed_device_count ps = int (length (filter (\<lambda>dh. dh_state dh = DH_UNREACHABLE \<or> dh_state dh = DH_FAULT) (reported_devices view)))"
    and "hp_degraded ps \<longleftrightarrow> (\<exists>gh. view_report view = Some gh \<and>
      (gh_state gh = PH_DEGRADED \<or> gh_state gh = PH_FAULT \<or> hp_failed_device_count ps \<noteq> 0))"
  by (auto simp: assms provider_health_def reported_devices_def failed_state_iff Let_def split_beta split: option.splits)

text \<open>C36. The health view is exact and complete. In a provider's snapshot the first rows are the registered devices in
  registry order, and each says UNKNOWN without a cached state, UNAVAILABLE when the provider is down, FAULT exactly when a
  signal that counts has fault quality, otherwise STALE exactly when the last poll is past the stale bound or a signal
  that counts is stale, otherwise WARNING or OK by the warn bound. The rows after them are exactly the devices the
  provider reports and the registry does not have, each once, marked unregistered. The failed count is the number of
  devices it reports unreachable or faulty, and it is degraded exactly when it answered with a device that failed or with a
  degraded or faulty state of its own. No device has \<open>2 ^ 32\<close> cached signals or more.\<close>

theorem health_rows_exact:
  assumes "ps = provider_health names pnames registry cache policy snapshots pid view"
    and "devices = get_devices_for_provider registry pid"
    and "bounds = resolve_staleness_bounds policy (length devices)"
    and "list_all (\<lambda>(h, st). length (ds_signals st) < 2 ^ 32) (sc_device_states cache)"
    and "n = length devices"
  shows "map hd_health (take n (hp_devices ps)) =
      map (\<lambda>d. device_verdict policy bounds (pv_available view) (pv_now view) d (pid @ ''/'' @ rd_device_id d)
        (get_device_state cache (pid @ ''/'' @ rd_device_id d))) devices \<and>
    map hd_device_id (take n (hp_devices ps)) = map rd_device_id devices \<and>
    distinct (map hd_device_id (drop n (hp_devices ps))) \<and>
    set (map hd_device_id (drop n (hp_devices ps))) = set (reported_ids view) - rd_device_id ` set devices \<and>
    list_all (\<lambda>r. \<not> hd_registered r) (drop n (hp_devices ps)) \<and>
    hp_failed_device_count ps = int (length (filter (\<lambda>dh. dh_state dh = DH_UNREACHABLE \<or> dh_state dh = DH_FAULT) (reported_devices view))) \<and>
    (hp_degraded ps \<longleftrightarrow> (\<exists>gh. view_report view = Some gh \<and>
      (gh_state gh = PH_DEGRADED \<or> gh_state gh = PH_FAULT \<or> hp_failed_device_count ps \<noteq> 0)))"
proof -
  define row where "row d = (let handle = pid @ ''/'' @ rd_device_id d in
    cached_health policy bounds (pv_available view) (pv_now view) d handle (get_device_state cache handle))" for d
  define dhs where "dhs = (case view_report view of Some gh \<Rightarrow> gh_devices gh | None \<Rightarrow> [])"
  define m where "m = fold (\<lambda>dh. omap_put (dh_device_id dh) dh) dhs []"
  let ?rows = "device_rows names row devices m"
  have devs: "hp_devices ps = fst ?rows @ map (unregistered_row names) (snd ?rows)"
    unfolding assms(1) provider_health_def Let_def split_beta by (simp add: row_def [abs_def] m_def dhs_def assms(2,3) Let_def)
  have len: "length (fst ?rows) = n"
    using device_rows_id [of names row devices m] assms(5) by (metis length_map)
  have b: "0 < sb_warn_ms bounds" "sb_warn_ms bounds \<le> sb_stale_ms bounds" using bounds_ordered assms(3) by simp_all
  have few: "get_device_state cache h = Some st \<Longrightarrow> length (ds_signals st) < 2 ^ 32" for h st
    using assms(4) map_of_SomeD unfolding get_device_state_def list_all_iff by fastforce
  have health: "map hd_health (take n (hp_devices ps)) =
      map (\<lambda>d. device_verdict policy bounds (pv_available view) (pv_now view) d (pid @ ''/'' @ rd_device_id d)
        (get_device_state cache (pid @ ''/'' @ rd_device_id d))) devices"
    using cached_health_verdict [OF b few] by (simp add: devs len device_rows_health row_def Let_def)
  have ids: "map hd_device_id (take n (hp_devices ps)) = map rd_device_id devices"
    by (simp add: devs len device_rows_id row_def Let_def comp_def)
  have keys: "fst ` set m = dh_device_id ` set dhs" and dist: "distinct (map fst m)"
    using omap.keys_fold [of dh_device_id "\<lambda>x. x" dhs "[]"] omap.ok_fold [OF omap.ok_empty, of dh_device_id "\<lambda>x. x" dhs] omap.ok_distinct
    unfolding m_def by auto
  have rest: "map hd_device_id (drop n (hp_devices ps)) = map fst (filter (\<lambda>e. fst e \<notin> rd_device_id ` set devices) m)"
    by (simp add: devs len device_rows_left unregistered_row_def comp_def)
  have "reported_ids view = map dh_device_id dhs" by (simp add: reported_ids_def reported_devices_def dhs_def)
  then have "set (map hd_device_id (drop n (hp_devices ps))) = set (reported_ids view) - rd_device_id ` set devices"
    using keys by (simp only: rest set_map keys_filter)
  moreover have "distinct (map hd_device_id (drop n (hp_devices ps)))" unfolding rest by (rule filter_keys_distinct [OF dist])
  moreover have "list_all (\<lambda>r. \<not> hd_registered r) (drop n (hp_devices ps))"
    by (simp add: devs len unregistered_row_def list_all_iff)
  ultimately show ?thesis using health ids provider_degraded [OF assms(1)] by (intro conjI)
qed


section \<open>Clamped texts\<close>

text \<open>A text of UTF-8 sequences: a byte that is no continuation, then continuation bytes.\<close>

definition utf8_sequence :: "string \<Rightarrow> bool" where
  "utf8_sequence q \<longleftrightarrow> q \<noteq> [] \<and> \<not> is_continuation (hd q) \<and> list_all is_continuation (tl q)"

lemma walk_back_spec:
  "walk_back v n \<le> n \<and> (walk_back v n = 0 \<or> \<not> is_continuation (v ! walk_back v n))"
  by (induction v n rule: walk_back.induct) auto

text \<open>A position inside the text that holds no continuation byte is the start of a sequence.\<close>

lemma cut_at_sequence:
  "list_all utf8_sequence qs \<Longrightarrow> k < length (concat qs) \<Longrightarrow> k = 0 \<or> \<not> is_continuation (concat qs ! k) \<Longrightarrow>
   \<exists>j. take k (concat qs) = concat (take j qs)"
proof (induction qs arbitrary: k)
  case (Cons q qs)
  consider "k = 0" | "0 < k" "k < length q" | "length q \<le> k" by linarith
  then show ?case
  proof cases
    case 1
    then show ?thesis by (intro exI [of _ 0]) simp
  next
    case 2
    then have "concat (q # qs) ! k = tl q ! (k - 1)" by (cases q; cases k) (auto simp: nth_append)
    moreover have "is_continuation (tl q ! (k - 1))"
      using 2 Cons.prems(1) by (auto simp: utf8_sequence_def list_all_length)
    ultimately show ?thesis using 2 Cons.prems(3) by simp
  next
    case 3
    then have "k - length q < length (concat qs)" using Cons.prems(2) by simp
    then obtain j where "take (k - length q) (concat qs) = concat (take j qs)"
      using Cons.IH [of "k - length q"] Cons.prems 3 by (auto simp: nth_append)
    then show ?thesis using 3 by (intro exI [of _ "Suc j"]) simp
  qed
qed simp

lemma clamp_keeps_sequences:
  assumes "list_all utf8_sequence qs"
  shows "\<exists>j. clamp_identity (concat qs) = concat (take j qs)"
proof (cases "length (concat qs) \<le> kMaxIdentityLen")
  case True
  then show ?thesis by (intro exI [of _ "length qs"]) (simp add: clamp_identity_def)
next
  case False
  then have "walk_back (concat qs) kMaxIdentityLen < length (concat qs)"
    using walk_back_spec [of "concat qs" kMaxIdentityLen] by linarith
  then show ?thesis using cut_at_sequence [OF assms] walk_back_spec [of "concat qs" kMaxIdentityLen] False
    by (simp add: clamp_identity_def)
qed

lemma clamp_length: "length (clamp_identity v) \<le> kMaxIdentityLen"
  using walk_back_spec [of v kMaxIdentityLen] by (simp add: clamp_identity_def)

text \<open>At most 32 tags are shown, each with a bounded key and value.\<close>

lemma omap_put_length: "length (omap_put k v m) \<le> Suc (length m)"
  by (induction k v m rule: omap_put.induct) auto

definition tag_bounded :: "string \<times> string \<Rightarrow> bool" where
  "tag_bounded kv \<longleftrightarrow> length (fst kv) \<le> kMaxIdentityLen \<and> length (snd kv) \<le> kMaxIdentityLen"

lemma bounded_tags_bounds:
  "length out \<le> kMaxDescriptorTags \<Longrightarrow> list_all tag_bounded out \<Longrightarrow>
   length (bounded_tags kvs out) \<le> kMaxDescriptorTags \<and> list_all tag_bounded (bounded_tags kvs out)"
proof (induction kvs out rule: bounded_tags.induct)
  case (2 k v kvs out)
  show ?case
  proof (cases "kMaxDescriptorTags \<le> length out \<or> kMaxIdentityLen < length k")
    case False
    then have "length (omap_put k (clamp_identity v) out) \<le> kMaxDescriptorTags"
      using omap_put_length [of k "clamp_identity v" out] by linarith
    moreover have "list_all tag_bounded (omap_put k (clamp_identity v) out)"
      using set_omap_put [of k "clamp_identity v" out] 2(4) clamp_length [of v] False
      unfolding list_all_iff tag_bounded_def by fastforce
    ultimately show ?thesis using 2 False by simp
  qed (use 2 in auto)
qed simp

section \<open>A provider with a missing device\<close>

definition demo_device :: RegisteredDevice where
  "demo_device = \<lparr> rd_provider_id = ''p'', rd_device_id = ''d'',
     rd_capabilities = \<lparr> dc_proto = \<lparr> pd_device_id = ''d'', pd_label = [], pd_type_id = [], pd_type_version = ''1'', pd_tags = [] \<rparr>,
       dc_signals_by_id = [], dc_functions_by_id = [] \<rparr> \<rparr>"

definition demo_cache :: StateCache where
  "demo_cache = (new_cache False False)\<lparr> sc_device_states :=
     [(''p/d'', \<lparr> ds_device_handle = ''p/d'', ds_signals = [(''s'', \<lparr> cv_value = \<lparr> v_type = VALUE_TYPE_BOOL, v_kind = K_Bool True \<rparr>,
        cv_timestamp = 0, cv_quality = QUALITY_FAULT \<rparr>)], ds_last_poll_time = 0, ds_provider_available = True,
        ds_loss_reported = False, ds_unavailable_emitted = False \<rparr>)] \<rparr>"

definition demo_view :: ProviderView where
  "demo_view = \<lparr> pv_available_before = True, pv_health = Some \<lparr> gh_state = PH_OTHER 1, gh_message = [], gh_metrics = [],
     gh_devices = [\<lparr> dh_device_id = ''e'', dh_state = DH_UNREACHABLE, dh_message = [], dh_metrics = [], dh_last_seen = None \<rparr>] \<rparr>,
     pv_available = True, pv_now = 0 \<rparr>"

abbreviation demo_policy :: "string list \<Rightarrow> StalenessPolicy" where
  "demo_policy excluded \<equiv> \<lparr> sp_poll_interval_ms = 500, sp_warn_after_ms = 0, sp_stale_after_ms = 0, sp_excluded_signals = [(''p/d'', excluded)] \<rparr>"

abbreviation demo_health :: "string list \<Rightarrow> ProviderHealthSnapshot" where
  "demo_health excluded \<equiv> provider_health (\<lambda>_. []) (\<lambda>_. []) (new_registry\<lparr> dr_devices := [demo_device] \<rparr>) demo_cache (demo_policy excluded)
     [] ''p'' demo_view"

theorem health_rows_exact_witness:
  "map hd_health (take 1 (hp_devices (demo_health []))) = [''FAULT''] \<and> map hd_health (take 1 (hp_devices (demo_health [''s'']))) = [''OK''] \<and>
   set (map hd_device_id (drop 1 (hp_devices (demo_health [])))) = {''e''} \<and> hp_failed_device_count (demo_health []) = 1"
proof -
  have devs: "get_devices_for_provider (new_registry\<lparr> dr_devices := [demo_device] \<rparr>) ''p'' = [demo_device]"
    by (simp add: get_devices_for_provider_def demo_device_def)
  have few: "list_all (\<lambda>(h, st). length (ds_signals st) < 2 ^ 32) (sc_device_states demo_cache)" by (simp add: demo_cache_def)
  have cached: "\<exists>st. get_device_state demo_cache ''p/d'' = Some st \<and> ds_last_poll_time st = 0 \<and>
      (\<exists>v. ds_signals st = [(''s'', v)] \<and> cv_quality v = QUALITY_FAULT)"
    by (simp add: get_device_state_def demo_cache_def)
  have v: "device_verdict (demo_policy excluded) \<lparr> sb_warn_ms = 2000, sb_stale_ms = 5000 \<rparr> True 0 demo_device ''p/d'' (get_device_state demo_cache ''p/d'') =
      (if ''s'' \<in> set excluded then ''OK'' else ''FAULT'')" for excluded
    using cached by (auto simp: device_verdict_def signal_faulty_def signal_stale_def excluded_from_health_def ns_to_ms_def Let_def)
  have b: "\<lparr> sb_warn_ms = 2000, sb_stale_ms = 5000 \<rparr> = resolve_staleness_bounds (demo_policy excluded) (length [demo_device])" for excluded
    by (simp add: resolve_staleness_bounds_def kStalenessWarnCycles_def kStalenessStaleCycles_def kStalenessWarnFloorMs_def kStalenessStaleFloorMs_def)
  have i: "rd_device_id demo_device = ''d''" "pv_available demo_view" "pv_now demo_view = 0" "reported_ids demo_view = [''e'']" "length [demo_device] = 1"
    "length (filter (\<lambda>dh. dh_state dh = DH_UNREACHABLE \<or> dh_state dh = DH_FAULT) (reported_devices demo_view)) = 1"
    by (simp_all add: demo_device_def demo_view_def reported_ids_def reported_devices_def)
  have r: "map hd_health (take 1 (hp_devices (demo_health excluded))) = [if ''s'' \<in> set excluded then ''OK'' else ''FAULT''] \<and>
      set (map hd_device_id (drop 1 (hp_devices (demo_health excluded)))) = {''e''} \<and> hp_failed_device_count (demo_health excluded) = 1" for excluded
    using health_rows_exact [where names = "\<lambda>_. []" and pnames = "\<lambda>_. []" and snapshots = "[]" and policy = "demo_policy excluded" and view = demo_view,
      OF refl devs [symmetric] b few refl] v [of excluded] by (simp only: i list.map append.simps) (simp add: i)
  show ?thesis using r [of "[]"] r [of "[''s'']"] by simp
qed

end
