(* ===== verification/Telemetry.thy ===== *)
theory Telemetry
  imports Health_Snapshot
begin

text \<open>
  The telemetry sink: \<open>InfluxSink\<close> of \<open>core/telemetry/influx_sink.hpp\<close> and \<open>influx_sink.cpp\<close>, the health rows of
  \<open>core/telemetry/health_line_protocol.hpp\<close>, and one turn of \<open>core/telemetry/health_snapshot_task.cpp\<close>. The answer of the
  HTTP client to a write is an argument; \<open>flush_batch\<close> takes the rows under the lock and posts without it, so it also
  takes the rows other threads enqueue meanwhile. The subscription is the queue of \<open>Event_Emitter\<close>. Counters are naturals.
\<close>

section \<open>Health rows\<close>

definition device_int_keys :: "string list" where
  "device_int_keys = [''io_ok'', ''io_failed'', ''io_retried_attempts'', ''watchdog_timeout_ms'', ''watchdog_trip_count'',
     ''sample_success_count'', ''sample_failure_count'', ''call_success_count'', ''call_failure_count'']"

definition device_bool_keys :: "string list" where
  "device_bool_keys = [''watchdog_armed'', ''watchdog_tripped'', ''missing'', ''excluded'']"

definition device_string_keys :: "string list" where
  "device_string_keys = [''startup_firmware'', ''startup_product_code'', ''firmware_version'']"

definition provider_int_keys :: "string list" where
  "provider_int_keys = [''startup_configured_devices'', ''startup_initialized_devices'', ''startup_failed_devices'']"

definition kMaxStringFieldLen :: nat where "kMaxStringFieldLen = 128"

definition append_allowlisted_metrics :: "(string \<times> string) list \<Rightarrow> string list \<Rightarrow> string list \<Rightarrow> string" where
  "append_allowlisted_metrics metrics int_keys bool_keys =
     concat (map (\<lambda>k. case Option.bind (map_of metrics k) parse_metric_int of
        None \<Rightarrow> [] | Some v \<Rightarrow> '','' @ k @ ''='' @ int_to_string (sint v) @ ''i'') int_keys) @
     concat (map (\<lambda>k. case Option.bind (map_of metrics k) parse_metric_bool of
        None \<Rightarrow> [] | Some v \<Rightarrow> '','' @ k @ ''='' @ bool_text v) bool_keys)"

definition append_allowlisted_strings :: "(string \<times> string) list \<Rightarrow> string list \<Rightarrow> string" where
  "append_allowlisted_strings metrics string_keys =
     concat (map (\<lambda>k. case map_of metrics k of
        None \<Rightarrow> []
      | Some v \<Rightarrow> if v = [] then [] else '','' @ k @ ''='' @ quoted (escape_field_string (take kMaxStringFieldLen v))) string_keys)"

definition provider_line :: "ProviderHealthSnapshot \<Rightarrow> string \<Rightarrow> int \<Rightarrow> string" where
  "provider_line ps runtime_name timestamp_ms =
     ''anolis_provider_health'' @ '',runtime_name='' @ escape_tag runtime_name @ '',provider_id='' @ escape_tag (hp_provider_id ps) @
     '' state='' @ quoted (escape_field_string (hp_state ps)) @
     '',lifecycle_state='' @ quoted (escape_field_string (hp_lifecycle_state ps)) @
     '',degraded='' @ bool_text (hp_degraded ps) @
     '',failed_device_count='' @ int_to_string (hp_failed_device_count ps) @ ''i'' @
     '',device_count='' @ nat_to_string (hp_device_count ps) @ ''i'' @
     '',uptime_seconds='' @ int_to_string (hp_uptime_seconds ps) @ ''i'' @
     '',supervision_enabled='' @ bool_text (su_enabled (hp_supervision ps)) @
     '',attempt_count='' @ int_to_string (su_attempt_count (hp_supervision ps)) @ ''i'' @
     '',crash_detected='' @ bool_text (su_crash_detected (hp_supervision ps)) @
     '',circuit_open='' @ bool_text (su_circuit_open (hp_supervision ps)) @
     (case hp_reported ps of None \<Rightarrow> [] | Some r \<Rightarrow> append_allowlisted_metrics (rr_metrics r) provider_int_keys []) @
     '' '' @ int_to_string timestamp_ms"

definition device_line :: "ProviderHealthSnapshot \<Rightarrow> DeviceHealthSnapshot \<Rightarrow> string \<Rightarrow> int \<Rightarrow> string" where
  "device_line ps ds runtime_name timestamp_ms =
     ''anolis_device_health'' @ '',runtime_name='' @ escape_tag runtime_name @ '',provider_id='' @ escape_tag (hp_provider_id ps) @
     '',device_id='' @ escape_tag (hd_device_id ds) @
     '' health='' @ quoted (escape_field_string (hd_health ds)) @
     '',registered='' @ bool_text (hd_registered ds) @
     (if 0 < hd_last_poll_ms ds
      then '',staleness_ms='' @ nat_to_string (unat (hd_staleness_ms ds)) @ ''i'' @
           '',stale_signal_count='' @ nat_to_string (unat (hd_stale_signal_count ds)) @ ''i'' @
           '',fault_signal_count='' @ nat_to_string (unat (hd_fault_signal_count ds)) @ ''i''
      else []) @
     (if hd_type_version ds = [] then [] else '',type_version='' @ quoted (escape_field_string (hd_type_version ds))) @
     (case hd_reported ds of
        None \<Rightarrow> []
      | Some r \<Rightarrow> append_allowlisted_metrics (rh_metrics r) device_int_keys device_bool_keys @
                 append_allowlisted_strings (rh_metrics r) device_string_keys) @
     '' '' @ int_to_string timestamp_ms"

definition format_health_lines :: "ProviderHealthSnapshot \<Rightarrow> string \<Rightarrow> int \<Rightarrow> string list" where
  "format_health_lines ps runtime_name timestamp_ms =
     provider_line ps runtime_name timestamp_ms # map (\<lambda>ds. device_line ps ds runtime_name timestamp_ms) (hp_devices ps)"

section \<open>The sink\<close>

record InfluxConfig =
  ic_enabled :: bool
  ic_url :: string
  ic_org :: string
  ic_bucket :: string
  ic_token :: string
  ic_runtime_name :: string
  ic_batch_size :: nat
  ic_flush_interval_ms :: int
  ic_timeout_ms :: int
  ic_retry_interval_ms :: int
  ic_queue_size :: nat
  ic_max_retry_buffer_size :: nat

record InfluxSink =
  ik_config :: InfluxConfig
  ik_subscription :: "u64 option"
  ik_running :: bool
  ik_connected :: bool
  ik_batch :: "string list"
  ik_retry_buffer :: "string list"
  ik_total_written :: nat
  ik_total_failed :: nat
  ik_total_rejected :: nat

definition new_sink :: "InfluxConfig \<Rightarrow> InfluxSink" where
  "new_sink cfg = \<lparr> ik_config = cfg, ik_subscription = None, ik_running = False, ik_connected = False, ik_batch = [],
     ik_retry_buffer = [], ik_total_written = 0, ik_total_failed = 0, ik_total_rejected = 0 \<rparr>"

definition start_sink :: "InfluxSink \<times> EventEmitter \<Rightarrow> bool \<times> InfluxSink \<times> EventEmitter" where
  "start_sink w =
     (let (s, em) = w in
      if ik_running s then (False, s, em)
      else if \<not> ic_enabled (ik_config s) then (False, s, em)
      else if ic_token (ik_config s) = [] then (False, s, em)
      else let (sub, em) = subscribe filter_all (ic_queue_size (ik_config s)) ''telemetry-sink'' em;
               s = s\<lparr> ik_subscription := sub \<rparr> in
        case sub of
          None \<Rightarrow> (False, s, em)
        | Some _ \<Rightarrow> (True, s\<lparr> ik_running := True \<rparr>, em))"

definition enqueue_lines :: "string list \<Rightarrow> InfluxSink \<Rightarrow> InfluxSink" where
  "enqueue_lines ls s = (if ls = [] then s else s\<lparr> ik_batch := ik_batch s @ ls \<rparr>)"

text \<open>The answer to a POST: an HTTP status, or no response.\<close>

datatype post_result = Post_Status int | Post_Failed

definition write_path :: "InfluxConfig \<Rightarrow> string" where
  "write_path cfg = ''/api/v2/write?org='' @ ic_org cfg @ ''&bucket='' @ ic_bucket cfg @ ''&precision=ms''"

definition take_rows :: "InfluxSink \<Rightarrow> string list \<times> InfluxSink" where
  "take_rows s = (ik_retry_buffer s @ ik_batch s, s\<lparr> ik_retry_buffer := [], ik_batch := [] \<rparr>)"

definition keep_for_retry :: "string list \<Rightarrow> InfluxSink \<Rightarrow> InfluxSink" where
  "keep_for_retry ls s =
     (let s = s\<lparr> ik_connected := False \<rparr>;
          limit = ic_max_retry_buffer_size (ik_config s);
          space_available = (if length (ik_retry_buffer s) < limit then limit - length (ik_retry_buffer s) else 0) in
      if 0 < space_available
      then let to_keep = min space_available (length ls) in
           s\<lparr> ik_retry_buffer := ik_retry_buffer s @ take to_keep ls, ik_total_failed := ik_total_failed s + (length ls - to_keep) \<rparr>
      else s\<lparr> ik_total_failed := ik_total_failed s + length ls \<rparr>)"

definition accepted :: "post_result \<Rightarrow> bool" where
  "accepted answer = (case answer of Post_Status st \<Rightarrow> 200 \<le> st \<and> st < 300 | Post_Failed \<Rightarrow> False)"

definition rejected :: "post_result \<Rightarrow> bool" where
  "rejected answer = (case answer of Post_Status st \<Rightarrow> st \<noteq> 429 \<and> 400 \<le> st \<and> st < 500 | Post_Failed \<Rightarrow> False)"

definition settle :: "post_result \<Rightarrow> string list \<Rightarrow> InfluxSink \<Rightarrow> InfluxSink" where
  "settle answer ls s =
     (if accepted answer
      then s\<lparr> ik_connected := True, ik_total_written := ik_total_written s + length ls \<rparr>
      else if rejected answer
      then s\<lparr> ik_connected := True, ik_total_rejected := ik_total_rejected s + length ls,
              ik_total_failed := ik_total_failed s + length ls \<rparr>
      else keep_for_retry ls s)"

text \<open>The rows posted and the sink after it; \<open>meanwhile\<close> is enqueued by other threads once the lock is released.\<close>

definition flush_batch :: "post_result \<Rightarrow> string list \<Rightarrow> InfluxSink \<Rightarrow> string list \<times> InfluxSink" where
  "flush_batch answer meanwhile s =
     (let (ls, s) = take_rows s; s = enqueue_lines meanwhile s in
      if ls = [] then ([], s) else (ls, settle answer ls s))"

definition should_flush :: "int \<Rightarrow> InfluxSink \<Rightarrow> bool" where
  "should_flush elapsed_ms s \<longleftrightarrow>
     ik_batch s \<noteq> [] \<and> (ic_batch_size (ik_config s) \<le> length (ik_batch s) \<or> ic_flush_interval_ms (ik_config s) \<le> elapsed_ms)"

text \<open>One iteration of \<open>flush_loop\<close>: the popped event, rows enqueued before the check, the time since the last flush.\<close>

record TurnInput =
  ti_before :: "string list"
  ti_elapsed_ms :: int
  ti_answer :: post_result
  ti_meanwhile :: "string list"

definition popped_rows :: "(f64 \<Rightarrow> string) \<Rightarrow> InfluxSink \<Rightarrow> Event option \<Rightarrow> string list" where
  "popped_rows to_chars s event =
     (case Option.bind event (format_event to_chars (ic_runtime_name (ik_config s))) of None \<Rightarrow> [] | Some line \<Rightarrow> [line])"

definition flush_turn ::
  "(f64 \<Rightarrow> string) \<Rightarrow> TurnInput \<Rightarrow> InfluxSink \<times> EventEmitter \<Rightarrow> string list \<times> InfluxSink \<times> EventEmitter" where
  "flush_turn to_chars inp w =
     (let (s, em) = w;
          (event, em) = (case ik_subscription s of None \<Rightarrow> (None, em) | Some sub \<Rightarrow> subscription_pop sub em);
          s = s\<lparr> ik_batch := ik_batch s @ popped_rows to_chars s event \<rparr>;
          s = enqueue_lines (ti_before inp) s in
      if should_flush (ti_elapsed_ms inp) s
      then let (ls, s) = flush_batch (ti_answer inp) (ti_meanwhile inp) s in (ls, s, em)
      else ([], enqueue_lines (ti_meanwhile inp) s, em))"

text \<open>\<open>stop\<close>: the loop makes its last flush before the thread is joined.\<close>

definition stop_sink :: "post_result \<Rightarrow> string list \<Rightarrow> InfluxSink \<times> EventEmitter \<Rightarrow> string list \<times> InfluxSink \<times> EventEmitter" where
  "stop_sink answer meanwhile w =
     (let (s, em) = w in
      if \<not> ik_running s then ([], enqueue_lines meanwhile s, em)
      else let em = (case ik_subscription s of None \<Rightarrow> em | Some sub \<Rightarrow> unsubscribe sub em);
               (ls, s) = flush_batch answer meanwhile (s\<lparr> ik_running := False \<rparr>) in
           (ls, s\<lparr> ik_subscription := None \<rparr>, em))"

section \<open>The snapshot task\<close>

text \<open>One emission of the loop, after a full interval without a stop request.\<close>

definition snapshot_lines :: "string \<Rightarrow> int \<Rightarrow> ProviderHealthSnapshot list \<Rightarrow> string list" where
  "snapshot_lines runtime_name timestamp_ms snapshot = concat (map (\<lambda>ps. format_health_lines ps runtime_name timestamp_ms) snapshot)"

definition snapshot_turn :: "bool \<Rightarrow> string \<Rightarrow> int \<Rightarrow> ProviderHealthSnapshot list \<Rightarrow> InfluxSink \<Rightarrow> InfluxSink" where
  "snapshot_turn stop_requested runtime_name timestamp_ms snapshot s =
     (if stop_requested then s else enqueue_lines (snapshot_lines runtime_name timestamp_ms snapshot) s)"


section \<open>Health rows are read back\<close>

definition metric_fields :: "(string \<times> string) list \<Rightarrow> string list \<Rightarrow> string list \<Rightarrow> (string \<times> field_value) list" where
  "metric_fields metrics int_keys bool_keys =
     List.map_filter (\<lambda>k. map_option (\<lambda>v. (k, F_Raw (int_to_string (sint v) @ ''i''))) (Option.bind (map_of metrics k) parse_metric_int)) int_keys @
     List.map_filter (\<lambda>k. map_option (\<lambda>v. (k, F_Raw (bool_text v))) (Option.bind (map_of metrics k) parse_metric_bool)) bool_keys"

definition string_fields :: "(string \<times> string) list \<Rightarrow> string list \<Rightarrow> (string \<times> field_value) list" where
  "string_fields metrics keys =
     List.map_filter (\<lambda>k. case map_of metrics k of None \<Rightarrow> None | Some v \<Rightarrow> if v = [] then None else Some (k, F_Text (take kMaxStringFieldLen v))) keys"

definition int_field :: "int \<Rightarrow> field_value" where "int_field i = F_Raw (int_to_string i @ ''i'')"
definition nat_field :: "nat \<Rightarrow> field_value" where "nat_field n = F_Raw (nat_to_string n @ ''i'')"
definition bool_field :: "bool \<Rightarrow> field_value" where "bool_field b = F_Raw (bool_text b)"

definition provider_row :: "ProviderHealthSnapshot \<Rightarrow> string \<Rightarrow> int \<Rightarrow> Row" where
  "provider_row ps runtime_name timestamp_ms =
     \<lparr> row_measurement = ''anolis_provider_health'', row_tags = [(''runtime_name'', runtime_name), (''provider_id'', hp_provider_id ps)],
       row_fields = [(''state'', F_Text (hp_state ps)), (''lifecycle_state'', F_Text (hp_lifecycle_state ps)),
         (''degraded'', bool_field (hp_degraded ps)), (''failed_device_count'', int_field (hp_failed_device_count ps)),
         (''device_count'', nat_field (hp_device_count ps)), (''uptime_seconds'', int_field (hp_uptime_seconds ps)),
         (''supervision_enabled'', bool_field (su_enabled (hp_supervision ps))),
         (''attempt_count'', int_field (su_attempt_count (hp_supervision ps))),
         (''crash_detected'', bool_field (su_crash_detected (hp_supervision ps))),
         (''circuit_open'', bool_field (su_circuit_open (hp_supervision ps)))] @
         (case hp_reported ps of None \<Rightarrow> [] | Some r \<Rightarrow> metric_fields (rr_metrics r) provider_int_keys []),
       row_timestamp = int_to_string timestamp_ms \<rparr>"

definition device_row :: "ProviderHealthSnapshot \<Rightarrow> DeviceHealthSnapshot \<Rightarrow> string \<Rightarrow> int \<Rightarrow> Row" where
  "device_row ps ds runtime_name timestamp_ms =
     \<lparr> row_measurement = ''anolis_device_health'',
       row_tags = [(''runtime_name'', runtime_name), (''provider_id'', hp_provider_id ps), (''device_id'', hd_device_id ds)],
       row_fields = [(''health'', F_Text (hd_health ds)), (''registered'', bool_field (hd_registered ds))] @
         (if 0 < hd_last_poll_ms ds
          then [(''staleness_ms'', nat_field (unat (hd_staleness_ms ds))), (''stale_signal_count'', nat_field (unat (hd_stale_signal_count ds))),
                (''fault_signal_count'', nat_field (unat (hd_fault_signal_count ds)))] else []) @
         (if hd_type_version ds = [] then [] else [(''type_version'', F_Text (hd_type_version ds))]) @
         (case hd_reported ds of None \<Rightarrow> []
          | Some r \<Rightarrow> metric_fields (rh_metrics r) device_int_keys device_bool_keys @ string_fields (rh_metrics r) device_string_keys),
       row_timestamp = int_to_string timestamp_ms \<rparr>"

text \<open>Fields after the first one, each with the comma before it.\<close>

definition more_fields :: "(string \<times> field_value) list \<Rightarrow> string" where
  "more_fields fs = concat (map (\<lambda>(k, v). '','' @ k @ ''='' @ value_text v) fs)"

lemma more_fields_simps [simp]:
  "more_fields [] = []" "more_fields ((k, v) # fs) = '','' @ k @ ''='' @ value_text v @ more_fields fs"
  "more_fields (fs @ gs) = more_fields fs @ more_fields gs"
  by (simp_all add: more_fields_def)

lemma fields_text_more: "fields_text ((k, v) # fs) = k @ ''='' @ value_text v @ more_fields fs @ '' ''"
proof (induction fs arbitrary: k v)
  case (Cons f fs)
  then show ?case by (cases f) simp
qed simp

lemma metrics_more: "append_allowlisted_metrics metrics int_keys bool_keys = more_fields (metric_fields metrics int_keys bool_keys)"
proof -
  have i: "concat (map (\<lambda>k. case Option.bind (map_of metrics k) parse_metric_int of
        None \<Rightarrow> [] | Some v \<Rightarrow> '','' @ k @ ''='' @ int_to_string (sint v) @ ''i'') keys) =
      more_fields (List.map_filter (\<lambda>k. map_option (\<lambda>v. (k, F_Raw (int_to_string (sint v) @ ''i''))) (Option.bind (map_of metrics k) parse_metric_int)) keys)" for keys
    by (induction keys) (simp_all add: List.map_filter_simps split: option.splits)
  have b: "concat (map (\<lambda>k. case Option.bind (map_of metrics k) parse_metric_bool of
        None \<Rightarrow> [] | Some v \<Rightarrow> '','' @ k @ ''='' @ bool_text v) keys) =
      more_fields (List.map_filter (\<lambda>k. map_option (\<lambda>v. (k, F_Raw (bool_text v))) (Option.bind (map_of metrics k) parse_metric_bool)) keys)" for keys
    by (induction keys) (simp_all add: List.map_filter_simps split: option.splits)
  show ?thesis unfolding append_allowlisted_metrics_def metric_fields_def i b by simp
qed

lemma strings_more: "append_allowlisted_strings metrics keys = more_fields (string_fields metrics keys)"
  unfolding append_allowlisted_strings_def string_fields_def
  by (induction keys) (simp_all add: List.map_filter_simps split: option.splits)

lemma provider_line_row: "provider_line ps name t = row_text (provider_row ps name t)"
  by (simp add: provider_line_def row_text_def provider_row_def fields_text_more int_field_def nat_field_def bool_field_def
      metrics_more del: fields_text.simps split: option.splits)

lemma device_line_row: "device_line ps ds name t = row_text (device_row ps ds name t)"
  by (simp add: device_line_def row_text_def device_row_def fields_text_more int_field_def nat_field_def bool_field_def
      metrics_more strings_more del: fields_text.simps split: option.splits)


abbreviation field_ok :: "string \<times> field_value \<Rightarrow> bool" where
  "field_ok \<equiv> \<lambda>(k, v). key_ok k \<and> value_ok v"

lemma typed_fields_ok [simp]: "value_ok (int_field i)" "value_ok (nat_field n)" "value_ok (bool_field b)"
proof -
  have "list_all bare_char ''i''" by (simp add: bare_char_def newline_def)
  then show "value_ok (int_field i)" "value_ok (nat_field n)" unfolding int_field_def nat_field_def
    by (intro numeric_raw_ok; simp)+
  show "value_ok (bool_field b)" unfolding bool_field_def by (rule bool_text_ok)
qed

lemma metric_fields_ok:
  assumes "list_all key_ok int_keys" "list_all key_ok bool_keys"
  shows "list_all field_ok (metric_fields metrics int_keys bool_keys)"
proof -
  have "list_all key_ok keys \<Longrightarrow> list_all field_ok (List.map_filter (\<lambda>k. map_option (\<lambda>v. (k, F_Raw (int_to_string (sint v) @ ''i'')))
      (Option.bind (map_of metrics k) parse_metric_int)) keys)" for keys
    using typed_fields_ok(1) unfolding int_field_def
    by (induction keys) (simp_all add: List.map_filter_simps del: value_ok.simps split: option.splits)
  moreover have "list_all key_ok keys \<Longrightarrow> list_all field_ok (List.map_filter (\<lambda>k. map_option (\<lambda>v. (k, F_Raw (bool_text v)))
      (Option.bind (map_of metrics k) parse_metric_bool)) keys)" for keys
    using bool_text_ok by (induction keys) (simp_all add: List.map_filter_simps del: value_ok.simps split: option.splits)
  ultimately show ?thesis using assms by (simp add: metric_fields_def)
qed

lemma string_fields_ok: "list_all key_ok keys \<Longrightarrow> list_all field_ok (string_fields metrics keys)"
  unfolding string_fields_def by (induction keys) (simp_all add: List.map_filter_simps split: option.splits)

lemma allowlists_ok [simp]:
  "list_all key_ok device_int_keys" "list_all key_ok device_bool_keys" "list_all key_ok device_string_keys" "list_all key_ok provider_int_keys"
  by (simp_all add: device_int_keys_def device_bool_keys_def device_string_keys_def provider_int_keys_def literal_key_ok)

lemma key_ok_simps: "key_ok []" "key_ok (c # k) \<longleftrightarrow> c \<noteq> backslash \<and> c \<noteq> CHR ''='' \<and> c \<noteq> CHR 0x0A \<and> key_ok k"
  by (auto simp: literal_key_ok)

lemma provider_row_ok: "row_ok (provider_row ps name t)"
  using numeric_newline [OF int_to_string_numeric, of t]
  by (cases "hp_reported ps") (simp_all add: row_ok_def provider_row_def key_ok_simps newline_def metric_fields_ok del: value_ok.simps(1))

lemma device_row_ok: "row_ok (device_row ps ds name t)"
  using numeric_newline [OF int_to_string_numeric, of t]
  by (cases "hd_reported ds")
    (simp_all add: row_ok_def device_row_def key_ok_simps newline_def metric_fields_ok string_fields_ok del: value_ok.simps(1))

text \<open>Health rows, too, are read back as one row per provider and device.\<close>

definition health_rows :: "ProviderHealthSnapshot \<Rightarrow> string \<Rightarrow> int \<Rightarrow> Row list" where
  "health_rows ps name t = provider_row ps name t # map (\<lambda>ds. device_row ps ds name t) (hp_devices ps)"

lemma health_lines_read_back:
  "map read_row (read_lines (rows_body (format_health_lines ps name t))) = map (Some \<circ> clean_row) (health_rows ps name t)"
proof -
  have "format_health_lines ps name t = map row_text (health_rows ps name t)"
    by (simp add: format_health_lines_def health_rows_def provider_line_row device_line_row)
  moreover have "list_all row_ok (health_rows ps name t)"
    by (simp add: health_rows_def provider_row_ok device_row_ok list_all_iff)
  ultimately show ?thesis by (simp add: read_body)
qed

section \<open>Every row is accounted for\<close>

datatype telemetry_op =
    T_Start
  | T_Stop post_result "string list"
  | T_Turn TurnInput
  | T_Rows "string list"
  | T_Snapshot bool string int "ProviderHealthSnapshot list"
  | T_Emitter "EventEmitter \<Rightarrow> EventEmitter"

text \<open>The rows offered to the sink and those InfluxDB accepted, with the sink and the emitter.\<close>

record sink_session =
  ss_offered :: "string list"
  ss_accepted :: "string list"
  ss_sink :: InfluxSink
  ss_emitter :: EventEmitter

definition turn_event :: "InfluxSink \<times> EventEmitter \<Rightarrow> Event option" where
  "turn_event w = (case ik_subscription (fst w) of None \<Rightarrow> None | Some sub \<Rightarrow> fst (subscription_pop sub (snd w)))"

fun offered_by :: "(f64 \<Rightarrow> string) \<Rightarrow> telemetry_op \<Rightarrow> InfluxSink \<times> EventEmitter \<Rightarrow> string list" where
  "offered_by to_chars T_Start w = []"
| "offered_by to_chars (T_Stop answer meanwhile) w = meanwhile"
| "offered_by to_chars (T_Turn inp) w = popped_rows to_chars (fst w) (turn_event w) @ ti_before inp @ ti_meanwhile inp"
| "offered_by to_chars (T_Rows ls) w = ls"
| "offered_by to_chars (T_Snapshot stop name t snapshot) w = (if stop then [] else snapshot_lines name t snapshot)"
| "offered_by to_chars (T_Emitter f) w = []"

fun sink_result :: "(f64 \<Rightarrow> string) \<Rightarrow> telemetry_op \<Rightarrow> InfluxSink \<times> EventEmitter \<Rightarrow> string list \<times> InfluxSink \<times> EventEmitter" where
  "sink_result to_chars T_Start w = ([], snd (start_sink w))"
| "sink_result to_chars (T_Stop answer meanwhile) w =
     (let (posted, w) = stop_sink answer meanwhile w in (if accepted answer then posted else [], w))"
| "sink_result to_chars (T_Turn inp) w =
     (let (posted, w) = flush_turn to_chars inp w in (if accepted (ti_answer inp) then posted else [], w))"
| "sink_result to_chars (T_Rows ls) w = ([], enqueue_lines ls (fst w), snd w)"
| "sink_result to_chars (T_Snapshot stop name t snapshot) w = ([], snapshot_turn stop name t snapshot (fst w), snd w)"
| "sink_result to_chars (T_Emitter f) w = ([], fst w, f (snd w))"

definition telemetry_step :: "(f64 \<Rightarrow> string) \<Rightarrow> telemetry_op \<Rightarrow> sink_session \<Rightarrow> sink_session" where
  "telemetry_step to_chars op x =
     (let w = (ss_sink x, ss_emitter x); (rows, s, em) = sink_result to_chars op w in
      x\<lparr> ss_offered := ss_offered x @ offered_by to_chars op w, ss_accepted := ss_accepted x @ rows, ss_sink := s, ss_emitter := em \<rparr>)"

definition accounts :: "string list \<Rightarrow> string list \<Rightarrow> InfluxSink \<Rightarrow> bool" where
  "accounts offered acc s \<longleftrightarrow>
     subseq (acc @ ik_retry_buffer s @ ik_batch s) offered \<and>
     length offered = ik_total_written s + ik_total_failed s + length (ik_retry_buffer s) + length (ik_batch s) \<and>
     ik_total_written s = length acc \<and> length (ik_retry_buffer s) \<le> ic_max_retry_buffer_size (ik_config s)"

lemma accounts_enqueue: "accounts off acc s \<Longrightarrow> accounts (off @ ls) acc (enqueue_lines ls s)"
  by (simp add: accounts_def enqueue_lines_def) (metis append.assoc list_emb_append_mono subseq_order.order_refl)

lemma accounts_batch: "accounts off acc s \<Longrightarrow> accounts (off @ ls) acc (s\<lparr> ik_batch := ik_batch s @ ls \<rparr>)"
  using accounts_enqueue [of off acc s ls] by (cases "ls = []") (simp_all add: enqueue_lines_def)

lemma accounts_flush:
  assumes "accounts off acc s" "flush_batch answer meanwhile s = (ls, s')"
  shows "accounts (off @ meanwhile) (acc @ (if accepted answer then ls else [])) s'"
proof -
  define s1 where "s1 = enqueue_lines meanwhile (s\<lparr> ik_retry_buffer := [], ik_batch := [] \<rparr>)"
  let ?ls = "ik_retry_buffer s @ ik_batch s"
  have s1: "ik_retry_buffer s1 = []" "ik_batch s1 = meanwhile" "ik_total_written s1 = ik_total_written s"
      "ik_total_failed s1 = ik_total_failed s" "ik_config s1 = ik_config s"
    by (auto simp: s1_def enqueue_lines_def)
  have sub: "subseq (acc @ ?ls @ meanwhile) (off @ meanwhile)"
    using assms(1) list_emb_append_mono [of "(=)" "acc @ ?ls" off meanwhile meanwhile] by (simp add: accounts_def)
  have r: "if ?ls = [] then ls = [] \<and> s' = s1 else ls = ?ls \<and> s' = settle answer ?ls s1"
    using assms(2) by (auto simp: flush_batch_def take_rows_def s1_def Let_def split: if_splits)
  have part: "subseq (acc @ take k ?ls @ meanwhile) (off @ meanwhile)" for k
  proof (rule subseq_order.trans [OF _ sub])
    have "subseq (take k ?ls) ?ls" by (rule prefix_imp_subseq) (rule take_is_prefix)
    then show "subseq (acc @ take k ?ls @ meanwhile) (acc @ ?ls @ meanwhile)" by (intro list_emb_append_mono) auto
  qed
  show ?thesis
  proof (cases "?ls = []")
    case True
    then show ?thesis using r assms(1) s1 sub by (simp add: accounts_def)
  next
    case False
    then have "ls = ?ls" "s' = settle answer ?ls s1" using r by auto
    note s' = this
    consider "accepted answer" | "\<not> accepted answer" "rejected answer" | "\<not> accepted answer" "\<not> rejected answer" by blast
    then show ?thesis
    proof cases
      case 1
      then show ?thesis using assms(1) s1 sub by (simp add: s' accounts_def settle_def)
    next
      case 2
      then show ?thesis using assms(1) s1 part [of 0] by (simp add: s' accounts_def settle_def)
    next
      case 3
      let ?m = "ic_max_retry_buffer_size (ik_config s)"
      define k where "k = (if 0 < ?m then min ?m (length ?ls) else 0)"
      have "ik_retry_buffer s' = take k ?ls" "ik_total_failed s' = ik_total_failed s + (length ?ls - k)" "ik_batch s' = meanwhile"
          "ik_total_written s' = ik_total_written s" "ik_config s' = ik_config s" "k \<le> length ?ls" "k \<le> ?m"
        using 3 s1 by (simp_all add: s' settle_def keep_for_retry_def k_def Let_def)
      moreover have "length (take k ?ls) = k" using \<open>k \<le> length ?ls\<close> by simp
      ultimately show ?thesis using assms(1) 3 part [of k] unfolding accounts_def by simp
    qed
  qed
qed


lemma accounts_turn:
  assumes "accounts off acc s" "flush_turn to_chars inp (s, em) = (ls, s', em')"
  shows "accounts (off @ popped_rows to_chars s (turn_event (s, em)) @ ti_before inp @ ti_meanwhile inp)
    (acc @ (if accepted (ti_answer inp) then ls else [])) s'"
proof -
  define s1 where "s1 = enqueue_lines (ti_before inp) (s\<lparr> ik_batch := ik_batch s @ popped_rows to_chars s (turn_event (s, em)) \<rparr>)"
  have a1: "accounts (off @ popped_rows to_chars s (turn_event (s, em)) @ ti_before inp) acc s1"
    using accounts_enqueue [OF accounts_batch [OF assms(1)]] by (simp add: s1_def)
  have t: "flush_turn to_chars inp (s, em) =
      (let em' = (case ik_subscription s of None \<Rightarrow> em | Some sub \<Rightarrow> snd (subscription_pop sub em)) in
       if should_flush (ti_elapsed_ms inp) s1
       then (let (ls, s) = flush_batch (ti_answer inp) (ti_meanwhile inp) s1 in (ls, s, em'))
       else ([], enqueue_lines (ti_meanwhile inp) s1, em'))"
    by (simp add: flush_turn_def s1_def turn_event_def Let_def split_beta split: option.splits)
  show ?thesis
  proof (cases "should_flush (ti_elapsed_ms inp) s1")
    case True
    then have "flush_batch (ti_answer inp) (ti_meanwhile inp) s1 = (ls, s')"
      using assms(2) unfolding t by (auto simp: Let_def split: prod.splits)
    from accounts_flush [OF a1 this] show ?thesis by simp
  next
    case False
    then show ?thesis using assms(2) accounts_enqueue [OF a1] unfolding t by (auto simp: Let_def)
  qed
qed

lemma accounts_cong:
  "ik_retry_buffer s' = ik_retry_buffer s \<Longrightarrow> ik_batch s' = ik_batch s \<Longrightarrow> ik_total_written s' = ik_total_written s \<Longrightarrow>
   ik_total_failed s' = ik_total_failed s \<Longrightarrow> ik_config s' = ik_config s \<Longrightarrow> accounts off acc s \<Longrightarrow> accounts off acc s'"
  by (simp add: accounts_def)

lemma accounts_stop:
  assumes "accounts off acc s" "stop_sink answer meanwhile (s, em) = (ls, s', em')"
  shows "accounts (off @ meanwhile) (acc @ (if accepted answer then ls else [])) s'"
proof (cases "ik_running s")
  case True
  obtain s1 where f: "flush_batch answer meanwhile (s\<lparr> ik_running := False \<rparr>) = (ls, s1)" and s': "s' = s1\<lparr> ik_subscription := None \<rparr>"
    using assms(2) True by (auto simp: stop_sink_def Let_def split: prod.splits)
  have "accounts off acc (s\<lparr> ik_running := False \<rparr>)" by (rule accounts_cong [OF _ _ _ _ _ assms(1)]) simp_all
  from accounts_flush [OF this f] show ?thesis by (rule accounts_cong [rotated -1]) (simp_all add: s')
next
  case False
  then show ?thesis using assms accounts_enqueue [OF assms(1)] by (auto simp: stop_sink_def)
qed

lemma accounts_start: "accounts off acc s \<Longrightarrow> start_sink (s, em) = (ok, s', em') \<Longrightarrow> accounts off acc s'"
  by (auto simp: start_sink_def accounts_def Let_def split: if_splits prod.splits option.splits)

lemma accounts_step:
  assumes "accounts (ss_offered x) (ss_accepted x) (ss_sink x)"
  shows "accounts (ss_offered (telemetry_step to_chars op x)) (ss_accepted (telemetry_step to_chars op x)) (ss_sink (telemetry_step to_chars op x))"
proof (cases op)
  case T_Start
  obtain ok s' em' where r: "start_sink (ss_sink x, ss_emitter x) = (ok, s', em')" by (metis prod_cases3)
  show ?thesis using accounts_start [OF assms r] by (simp add: T_Start telemetry_step_def Let_def r)
next
  case (T_Stop answer meanwhile)
  obtain ls s' em' where r: "stop_sink answer meanwhile (ss_sink x, ss_emitter x) = (ls, s', em')" by (metis prod_cases3)
  show ?thesis using accounts_stop [OF assms r] by (simp add: T_Stop telemetry_step_def Let_def r)
next
  case (T_Turn inp)
  obtain ls s' em' where r: "flush_turn to_chars inp (ss_sink x, ss_emitter x) = (ls, s', em')" by (metis prod_cases3)
  show ?thesis using accounts_turn [OF assms r] by (simp add: T_Turn telemetry_step_def Let_def r)
next
  case (T_Rows ls)
  then show ?thesis using accounts_enqueue [OF assms] by (simp add: telemetry_step_def Let_def)
next
  case (T_Snapshot stop name t snapshot)
  then show ?thesis using assms accounts_enqueue [OF assms] by (simp add: telemetry_step_def snapshot_turn_def Let_def)
next
  case (T_Emitter f)
  then show ?thesis using assms by (simp add: telemetry_step_def Let_def)
qed

lemma config_kept [simp]:
  "ik_config (enqueue_lines ls s) = ik_config s" "ik_config (settle answer ls s) = ik_config s"
  "ik_config (snd (flush_batch answer meanwhile s)) = ik_config s" "ik_config (fst (snd (start_sink (s, em)))) = ik_config s"
  by (simp_all add: enqueue_lines_def settle_def keep_for_retry_def flush_batch_def take_rows_def start_sink_def Let_def split_beta split: option.splits)

lemma step_config: "ik_config (ss_sink (telemetry_step to_chars op x)) = ik_config (ss_sink x)"
  by (cases op) (simp_all add: telemetry_step_def flush_turn_def stop_sink_def snapshot_turn_def Let_def split_beta split: option.splits)

text \<open>C35. No telemetry row is lost unnoticed. Over any sequence of starts, stops, turns of the flush loop and rows enqueued by
  other threads, whatever InfluxDB answers: each row offered is written, counted as failed, or still waiting, exactly once;
  the rows accepted, then those kept for retry, then the current batch are in the order in which they were offered, and
  the retry buffer stays within its limit.\<close>

theorem sink_rows_accounted:
  "let x = fold (telemetry_step to_chars) ops \<lparr> ss_offered = [], ss_accepted = [], ss_sink = new_sink cfg, ss_emitter = em \<rparr>; s = ss_sink x in
   subseq (ss_accepted x @ ik_retry_buffer s @ ik_batch s) (ss_offered x) \<and>
   length (ss_offered x) = ik_total_written s + ik_total_failed s + length (ik_retry_buffer s) + length (ik_batch s) \<and>
   ik_total_written s = length (ss_accepted x) \<and> length (ik_retry_buffer s) \<le> ic_max_retry_buffer_size cfg"
proof -
  let ?x = "fold (telemetry_step to_chars) ops \<lparr> ss_offered = [], ss_accepted = [], ss_sink = new_sink cfg, ss_emitter = em \<rparr>"
  have "accounts (ss_offered ?x) (ss_accepted ?x) (ss_sink ?x) \<and> ik_config (ss_sink ?x) = cfg"
  proof (induction ops rule: rev_induct)
    case Nil
    then show ?case by (simp add: accounts_def new_sink_def)
  next
    case (snoc op ops)
    then show ?case using accounts_step step_config by simp
  qed
  then show ?thesis by (auto simp: accounts_def Let_def)
qed

end
