(* ===== verification/Http_Codec.thy ===== *)
theory Http_Codec
  imports Run_Types State_Cache "HOL-Library.Product_Lexorder"
begin

unbundle bit_operations_syntax

text \<open>
  The JSON transport of the HTTP interface (\<^verbatim>\<open>http/json.cpp\<close>): base64, values, device state, capabilities and the body of a
  call. \<open>base64_encode\<close> and \<open>base64_decode\<close> keep the 32-bit accumulator and the signed bit count of the code; they are shown
  to work on groups of three bytes, whatever the accumulator has overflowed. The numeric conversions of \<open>get<T>\<close> the codec uses
  beyond those of \<open>JsonLib\<close> are fields of \<open>HttpJson\<close>, \<open>None\<close> where the library throws.
\<close>

section \<open>Base64\<close>

definition base64_chars :: string where
  "base64_chars = ''ABCDEFGHIJKLMNOPQRSTUVWXYZabcdefghijklmnopqrstuvwxyz0123456789+/''"

definition sextet_char :: "u32 \<Rightarrow> char" where
  "sextet_char w = base64_chars ! unat (w AND 0x3F)"

text \<open>The inner loop: characters leave the accumulator while it holds six bits.\<close>

function drain :: "u32 \<Rightarrow> int \<Rightarrow> string \<times> int" where
  "drain val bits =
     (if 0 \<le> bits then let (rest, bits') = drain val (bits - 6) in (sextet_char (drop_bit (nat bits) val) # rest, bits')
      else ([], bits))"
  by pat_completeness auto
termination by (relation "measure (\<lambda>(_, bits). nat (bits + 6))") auto

declare drain.simps [simp del]

fun base64_loop :: "u32 \<Rightarrow> int \<Rightarrow> u8 list \<Rightarrow> string" where
  "base64_loop val bits [] = (if - 6 < bits then [sextet_char (drop_bit (nat (bits + 8)) (push_bit 8 val))] else [])"
| "base64_loop val bits (c # cs) =
     (let val = push_bit 8 val + ucast c; (out, bits) = drain val (bits + 8) in out @ base64_loop val bits cs)"

definition base64_encode :: "u8 list \<Rightarrow> string" where
  "base64_encode bytes = (let encoded = base64_loop 0 (- 6) bytes in encoded @ replicate ((4 - length encoded mod 4) mod 4) CHR ''='')"

text \<open>The table \<open>T\<close>: the position of a character in the alphabet.\<close>

definition table :: "char \<Rightarrow> nat option" where
  "table c = (let i = length (takeWhile (\<lambda>d. d \<noteq> c) base64_chars) in if i < 64 then Some i else None)"

fun decode_chars :: "u32 \<Rightarrow> int \<Rightarrow> string \<Rightarrow> u8 list option" where
  "decode_chars val bits [] = Some []"
| "decode_chars val bits (c # cs) =
     (if c = CHR ''='' then Some []
      else case table c of
        None \<Rightarrow> None
      | Some t \<Rightarrow>
          (let val = push_bit 6 val + of_nat t; bits = bits + 6 in
           if 0 \<le> bits then map_option (\<lambda>bs. ucast (drop_bit (nat bits) val AND 0xFF) # bs) (decode_chars val (bits - 8) cs)
           else decode_chars val bits cs))"

definition base64_decode :: "string \<Rightarrow> u8 list option" where
  "base64_decode encoded = decode_chars 0 (- 8) encoded"

section \<open>Names of enumerators\<close>

fun http_quality_to_string :: "ProtoQuality \<Rightarrow> string" where
  "http_quality_to_string QUALITY_OK = ''OK''"
| "http_quality_to_string QUALITY_STALE = ''STALE''"
| "http_quality_to_string QUALITY_UNKNOWN = ''UNAVAILABLE''"
| "http_quality_to_string QUALITY_FAULT = ''FAULT''"
| "http_quality_to_string _ = ''UNAVAILABLE''"

fun http_value_type_to_string :: "ValueType \<Rightarrow> string" where
  "http_value_type_to_string VALUE_TYPE_DOUBLE = ''double''"
| "http_value_type_to_string VALUE_TYPE_INT64 = ''int64''"
| "http_value_type_to_string VALUE_TYPE_UINT64 = ''uint64''"
| "http_value_type_to_string VALUE_TYPE_BOOL = ''bool''"
| "http_value_type_to_string VALUE_TYPE_STRING = ''string''"
| "http_value_type_to_string VALUE_TYPE_BYTES = ''bytes''"
| "http_value_type_to_string _ = ''unknown''"

fun function_category_to_string :: "Category \<Rightarrow> string" where
  "function_category_to_string CATEGORY_READ = ''READ''"
| "function_category_to_string CATEGORY_CONFIG = ''CONFIG''"
| "function_category_to_string CATEGORY_ACTUATE = ''ACTUATE''"
| "function_category_to_string _ = ''UNSPECIFIED''"

section \<open>Encoding\<close>

definition typed_member :: "string \<Rightarrow> string \<Rightarrow> json \<Rightarrow> json" where
  "typed_member type key v = json_object [(''type'', JString type), (key, v)]"

definition encode_value :: "Value \<Rightarrow> json" where
  "encode_value value =
     (case v_type value of
        VALUE_TYPE_DOUBLE \<Rightarrow> typed_member ''double'' ''double'' (JFloat (double_value value))
      | VALUE_TYPE_INT64 \<Rightarrow> typed_member ''int64'' ''int64'' (JInteger (sint (int64_value value)))
      | VALUE_TYPE_UINT64 \<Rightarrow> typed_member ''uint64'' ''uint64'' (JInteger (uint (uint64_value value)))
      | VALUE_TYPE_BOOL \<Rightarrow> typed_member ''bool'' ''bool'' (JBool (bool_value value))
      | VALUE_TYPE_STRING \<Rightarrow> typed_member ''string'' ''string'' (JString (string_value value))
      | VALUE_TYPE_BYTES \<Rightarrow> typed_member ''bytes'' ''base64'' (JString (base64_encode (bytes_value value)))
      | _ \<Rightarrow> json_object [(''type'', JString ''unknown'')])"

definition encode_signal_value :: "time_ns \<Rightarrow> CachedSignalValue \<Rightarrow> string \<Rightarrow> json" where
  "encode_signal_value now cached signal_id = json_object
     [(''signal_id'', JString signal_id), (''value'', encode_value (cv_value cached)),
      (''timestamp_epoch_ms'', JInteger (ns_to_ms (cv_timestamp cached))),
      (''quality'', JString (http_quality_to_string (cv_quality cached))),
      (''age_ms'', JInteger (ns_to_ms (now - cv_timestamp cached)))]"

text \<open>The numbers of the generated enumeration order the qualities; the clock is read once for every signal.\<close>

definition worst_quality :: "(ProtoQuality \<Rightarrow> int) \<Rightarrow> ProtoQuality list \<Rightarrow> ProtoQuality" where
  "worst_quality number qs = fold (\<lambda>q worst. if number worst < number q then q else worst) qs QUALITY_OK"

definition device_quality :: "(ProtoQuality \<Rightarrow> int) \<Rightarrow> DeviceState \<Rightarrow> (string \<times> CachedSignalValue) list \<Rightarrow> string" where
  "device_quality number state signals =
     (if ds_provider_available state then http_quality_to_string (worst_quality number (map (cv_quality \<circ> snd) signals)) else ''UNAVAILABLE'')"

definition encode_signal_values :: "(string \<Rightarrow> time_ns) \<Rightarrow> (string \<times> CachedSignalValue) list \<Rightarrow> json" where
  "encode_signal_values clock signals = JArray (map (\<lambda>(signal_id, cached). encode_signal_value (clock signal_id) cached signal_id) signals)"

definition encode_device_state :: "(ProtoQuality \<Rightarrow> int) \<Rightarrow> (string \<Rightarrow> time_ns) \<Rightarrow> DeviceState \<Rightarrow> string \<Rightarrow> string \<Rightarrow> json" where
  "encode_device_state number clock state provider_id device_id = json_object
     [(''provider_id'', JString provider_id), (''device_id'', JString device_id),
      (''quality'', JString (device_quality number state (ds_signals state))),
      (''values'', encode_signal_values clock (ds_signals state))]"

definition encode_device_info :: "RegisteredDevice \<Rightarrow> json" where
  "encode_device_info device =
     (let proto = dc_proto (rd_capabilities device);
          display_name = (if pd_label proto = [] then rd_device_id device else pd_label proto);
          type = (if pd_type_id proto = [] then ''unknown'' else pd_type_id proto) in
      json_object [(''provider_id'', JString (rd_provider_id device)), (''device_id'', JString (rd_device_id device)),
        (''display_name'', JString display_name), (''type'', JString type)])"

definition text_unless_empty :: "string \<Rightarrow> string \<Rightarrow> (string \<times> json) list" where
  "text_unless_empty key s = (if s = [] then [] else [(key, JString s)])"

definition encode_signal_spec :: "SignalSpec \<Rightarrow> json" where
  "encode_signal_spec spec = json_object
     ([(''signal_id'', JString (ss_signal_id spec)), (''value_type'', JString (http_value_type_to_string (ss_type spec))),
       (''label'', JString (ss_label spec))] @
      text_unless_empty ''unit'' (ss_unit spec) @ text_unless_empty ''description'' (ss_description spec))"

definition bound_member :: "('a \<Rightarrow> json) \<Rightarrow> string \<Rightarrow> 'a option \<Rightarrow> (string \<times> json) list" where
  "bound_member enc key b = (case b of None \<Rightarrow> [] | Some v \<Rightarrow> [(key, enc v)])"

definition arg_constraints :: "ArgSpec \<Rightarrow> (string \<times> json) list" where
  "arg_constraints arg =
     (case as_type arg of
        VALUE_TYPE_DOUBLE \<Rightarrow> bound_member JFloat ''min'' (as_min_double arg) @ bound_member JFloat ''max'' (as_max_double arg)
      | VALUE_TYPE_INT64 \<Rightarrow> bound_member (JInteger \<circ> sint) ''min'' (as_min_int64 arg) @ bound_member (JInteger \<circ> sint) ''max'' (as_max_int64 arg)
      | VALUE_TYPE_UINT64 \<Rightarrow> bound_member (JInteger \<circ> uint) ''min'' (as_min_uint64 arg) @ bound_member (JInteger \<circ> uint) ''max'' (as_max_uint64 arg)
      | VALUE_TYPE_STRING \<Rightarrow> if as_allowed_values arg = [] then [] else [(''allowed_values'', string_array (as_allowed_values arg))]
      | _ \<Rightarrow> [])"

definition arg_info :: "nat \<Rightarrow> ArgSpec \<Rightarrow> json" where
  "arg_info position arg = json_object
     ([(''type'', JString (http_value_type_to_string (as_type arg))), (''required'', JBool (as_required arg)),
       (''position'', JInteger (int position))] @
      text_unless_empty ''description'' (as_description arg) @ text_unless_empty ''unit'' (as_unit arg) @ arg_constraints arg)"

text \<open>A name declared twice keeps its last entry.\<close>

definition encode_function_spec :: "FunctionSpec \<Rightarrow> json" where
  "encode_function_spec spec = json_object
     [(''function_id'', JInteger (uint (fs_function_id spec))), (''name'', JString (fs_function_name spec)),
      (''label'', JString (fs_label spec)),
      (''args'', json_object (map (\<lambda>(position, arg). (as_name arg, arg_info position arg)) (enumerate 0 (fs_args spec)))),
      (''category'', JString (function_category_to_string (fs_category spec))), (''actuating'', JBool (is_actuating spec)),
      (''allowed_modes'', string_array (fs_allowed_modes spec)), (''min_interval_ms'', JInteger (uint (fs_min_interval_ms spec))),
      (''requires_lease'', JBool (fs_requires_lease spec))]"

definition encode_capabilities :: "DeviceCapabilitySet \<Rightarrow> json" where
  "encode_capabilities caps = json_object
     [(''signals'', JArray (map encode_signal_spec (sort_key ss_signal_id (map snd (dc_signals_by_id caps))))),
      (''functions'', JArray (map encode_function_spec
         (sort_key (\<lambda>spec. (fs_function_id spec, fs_function_name spec)) (map snd (dc_functions_by_id caps)))))]"

section \<open>Decoding\<close>

record HttpJson =
  hj_lib :: JsonLib
  hj_i64 :: "json \<Rightarrow> u64 option"
  hj_f64 :: "json \<Rightarrow> f64 option"

datatype decode_error = Missing_Type | Missing_Field string string | Bad_Base64 | Unknown_Type string | Json_Exception
  | Missing_Member string | Args_Not_Object | Bad_Arg string decode_error

fun members :: "json \<Rightarrow> (string \<times> json) list" where
  "members (JObject ms) = ms"
| "members _ = []"

fun json_bool :: "json \<Rightarrow> bool option" where
  "json_bool (JBool b) = Some b"
| "json_bool _ = None"

text \<open>\<open>contains\<close>, then \<open>at(key).get<T>()\<close>, which throws on a value of another type.\<close>

definition field_of :: "string \<Rightarrow> string \<Rightarrow> (json \<Rightarrow> 'a option) \<Rightarrow> (string \<times> json) list \<Rightarrow> decode_error + 'a" where
  "field_of type key get ms =
     (case map_of ms key of None \<Rightarrow> Inl (Missing_Field type key) | Some v \<Rightarrow> (case get v of None \<Rightarrow> Inl Json_Exception | Some x \<Rightarrow> Inr x))"

definition typed_value :: "ValueType \<Rightarrow> ('a \<Rightarrow> ValueKind) \<Rightarrow> decode_error + 'a \<Rightarrow> decode_error + Value" where
  "typed_value type kind r = map_sum id (\<lambda>x. \<lparr> v_type = type, v_kind = kind x \<rparr>) r"

definition decode_value :: "HttpJson \<Rightarrow> json \<Rightarrow> decode_error + Value" where
  "decode_value lib j =
     (case map_of (members j) ''type'' of
        None \<Rightarrow> Inl Missing_Type
      | Some t \<Rightarrow> (case json_string t of
          None \<Rightarrow> Inl Json_Exception
        | Some type \<Rightarrow>
            if type = ''double'' then typed_value VALUE_TYPE_DOUBLE K_Double (field_of type ''double'' (hj_f64 lib) (members j))
            else if type = ''int64'' then typed_value VALUE_TYPE_INT64 K_Int64 (field_of type ''int64'' (hj_i64 lib) (members j))
            else if type = ''uint64'' then typed_value VALUE_TYPE_UINT64 K_Uint64 (field_of type ''uint64'' (jl_u64 (hj_lib lib)) (members j))
            else if type = ''bool'' then typed_value VALUE_TYPE_BOOL K_Bool (field_of type ''bool'' json_bool (members j))
            else if type = ''string'' then typed_value VALUE_TYPE_STRING K_String (field_of type ''string'' json_string (members j))
            else if type = ''bytes''
            then (case field_of type ''base64'' json_string (members j) of
                    Inl e \<Rightarrow> Inl e
                  | Inr s \<Rightarrow> (case base64_decode s of
                      None \<Rightarrow> Inl Bad_Base64
                    | Some bs \<Rightarrow> Inr \<lparr> v_type = VALUE_TYPE_BYTES, v_kind = K_Bytes bs \<rparr>))
            else Inl (Unknown_Type type)))"

text \<open>The first argument that does not decode stops the loop.\<close>

fun decode_args :: "HttpJson \<Rightarrow> (string \<times> json) list \<Rightarrow> args_map \<Rightarrow> decode_error + args_map" where
  "decode_args lib [] args = Inr args"
| "decode_args lib ((key, val) # rest) args =
     (case decode_value lib val of
        Inl e \<Rightarrow> Inl (Bad_Arg key e)
      | Inr v \<Rightarrow> decode_args lib rest (omap_put key v args))"

record call_body =
  cb_provider_id :: string
  cb_device_id :: string
  cb_function_id :: u32
  cb_args :: args_map

definition decode_call_request :: "HttpJson \<Rightarrow> json \<Rightarrow> decode_error + call_body" where
  "decode_call_request lib j =
     (let ms = members j in
      case (map_of ms ''provider_id'', map_of ms ''device_id'', map_of ms ''function_id'') of
        (None, _, _) \<Rightarrow> Inl (Missing_Member ''provider_id'')
      | (_, None, _) \<Rightarrow> Inl (Missing_Member ''device_id'')
      | (_, _, None) \<Rightarrow> Inl (Missing_Member ''function_id'')
      | (Some p, Some d, Some f) \<Rightarrow>
          (case (json_string p, json_string d, jl_u32 (hj_lib lib) f) of
             (Some provider_id, Some device_id, Some function_id) \<Rightarrow>
               (let body = (\<lambda>args. \<lparr> cb_provider_id = provider_id, cb_device_id = device_id, cb_function_id = function_id, cb_args = args \<rparr>) in
                case map_of ms ''args'' of
                  None \<Rightarrow> Inr (body [])
                | Some (JObject args_json) \<Rightarrow> map_sum id body (decode_args lib args_json [])
                | Some _ \<Rightarrow> Inl Args_Not_Object)
           | _ \<Rightarrow> Inl Json_Exception))"

section \<open>Base64 is exact\<close>

text \<open>The sextets of a byte sequence, three bytes to four sextets.\<close>

fun sextets :: "u8 list \<Rightarrow> nat list" where
  "sextets [] = []"
| "sextets [a] = [unat a div 4, unat a mod 4 * 16]"
| "sextets [a, b] = [unat a div 4, unat a mod 4 * 16 + unat b div 16, unat b mod 16 * 4]"
| "sextets (a # b # c # rest) =
     unat a div 4 # (unat a mod 4 * 16 + unat b div 16) # (unat b mod 16 * 4 + unat c div 64) # unat c mod 64 # sextets rest"

lemma byte_bound: "unat (b :: u8) < 256"
  using unsigned_less [of b] by simp

lemma sextets_bound: "list_all (\<lambda>n. n < 64) (sextets bs)"
proof (induction bs rule: sextets.induct)
  case (4 a b c rest)
  then show ?case using byte_bound [of a] byte_bound [of b] byte_bound [of c] by auto
next
  case (2 a)
  then show ?case using byte_bound [of a] by auto
next
  case (3 a b)
  then show ?case using byte_bound [of a] byte_bound [of b] by auto
qed simp

lemma slice: "k + j \<le> 32 \<Longrightarrow> x mod 2 ^ 32 div 2 ^ k mod 2 ^ j = x div 2 ^ k mod (2 ^ j :: nat)"
proof -
  assume "k + j \<le> 32"
  then have "take_bit j (drop_bit k (take_bit 32 x)) = take_bit j (drop_bit k x)" by (simp add: drop_bit_take_bit)
  then show ?thesis by (simp only: take_bit_eq_mod drop_bit_eq_div)
qed

lemma and_mask: "(w :: u32) AND 0x3F = take_bit 6 w" "(w :: u32) AND 0xFF = take_bit 8 w"
  by (simp_all add: take_bit_eq_mask mask_eq_exp_minus_1)

lemma unat_bits: "unat (take_bit j (drop_bit k (v :: u32))) = unat v div 2 ^ k mod 2 ^ j"
proof -
  have "unat v < 2 ^ 32" using unsigned_less [of v] by simp
  then have "take_bit 32 (unat v) = unat v" by (simp add: take_bit_nat_eq_self)
  then show ?thesis by (simp add: unsigned_take_bit_eq unsigned_drop_bit_eq take_bit_eq_mod [where ?'a = nat] drop_bit_eq_div [where ?'a = nat])
qed

lemma sextet_char_nat:
  assumes "k \<le> 26" "unat v = x mod 2 ^ 32"
  shows "sextet_char (drop_bit k v) = base64_chars ! (x div 2 ^ k mod 64)"
  using slice [of k 6 x] assms by (simp only: sextet_char_def and_mask unat_bits) simp

lemma byte_nat:
  assumes "k \<le> 24" "unat (v :: u32) = x mod 2 ^ 32" "x div 2 ^ k mod 256 = unat (b :: u8)"
  shows "ucast (drop_bit k v AND 0xFF) = b"
proof -
  have "unat (drop_bit k v AND 0xFF) = unat b"
    using slice [of k 8 x] assms by (simp only: and_mask unat_bits) simp
  then show ?thesis using byte_bound [of b] by (intro unsigned_word_eqI [where ?'a = nat]) (simp add: unsigned_ucast_eq take_bit_eq_mod)
qed

lemma shift_in_byte: "unat v = x mod 2 ^ 32 \<Longrightarrow> unat (push_bit 8 v + ucast (c :: u8) :: u32) = (x * 256 + unat c) mod 2 ^ 32"
  using byte_bound [of c]
  by (simp add: push_bit_eq_mult unat_word_ariths unsigned_ucast_eq take_bit_eq_mod mod_simps mult.commute)

lemma shift_in_sextet: "t < 64 \<Longrightarrow> unat v = x mod 2 ^ 32 \<Longrightarrow> unat (push_bit 6 v + of_nat t :: u32) = (x * 64 + t) mod 2 ^ 32"
  by (simp add: push_bit_eq_mult unat_word_ariths unat_of_nat mod_simps mult.commute)

lemma drain_step:
  "0 \<le> bits \<Longrightarrow> bits < 6 \<Longrightarrow> drain v bits = ([sextet_char (drop_bit (nat bits) v)], bits - 6)"
  "6 \<le> bits \<Longrightarrow> bits < 12 \<Longrightarrow> drain v bits = ([sextet_char (drop_bit (nat bits) v), sextet_char (drop_bit (nat (bits - 6)) v)], bits - 12)"
  by (subst drain.simps, subst drain.simps, simp add: drain.simps)+

lemma window: "0 < p \<Longrightarrow> (z * (p * q) + r) div p mod q = r div p mod (q :: nat)"
proof -
  assume "0 < p"
  have "z * (p * q) + r = p * (z * q) + r" by simp
  also have "\<dots> div p = z * q + r div p" using \<open>0 < p\<close> by simp
  finally show ?thesis by simp
qed

lemma sextet_windows:
  fixes x y a b c :: nat
  shows "a < 256 \<Longrightarrow> (x * 256 + a) div 4 mod 64 = a div 4"
    and "b < 256 \<Longrightarrow> ((x * 256 + a) * 256 + b) div 16 mod 64 = a mod 4 * 16 + b div 16"
    and "c < 256 \<Longrightarrow> ((y * 256 + b) * 256 + c) div 64 mod 64 = b mod 16 * 4 + c div 64"
    and "(y * 256 + c) mod 64 = c mod 64"
    and "(x * 256 + a) * 256 div 16 mod 64 = a mod 4 * 16"
    and "(y * 256 + b) * 256 div 64 mod 64 = b mod 16 * 4"
proof -
  show "(x * 256 + a) div 4 mod 64 = a div 4" if "a < 256" using window [of 4 x 64 a] that by simp
  have a: "a * 256 = a div 4 * 1024 + a mod 4 * 256" using div_mult_mod_eq [of a 4] by linarith
  have b: "b * 256 = b div 16 * 4096 + b mod 16 * 256" using div_mult_mod_eq [of b 16] by linarith
  show "((x * 256 + a) * 256 + b) div 16 mod 64 = a mod 4 * 16 + b div 16" if "b < 256"
  proof -
    have "(x * 256 + a) * 256 + b = (x * 64 + a div 4) * (16 * 64) + (a mod 4 * 256 + b)" using a by (simp add: algebra_simps)
    moreover have "(a mod 4 * 256 + b) div 16 = a mod 4 * 16 + b div 16" using div_mult_self4 [of 16 "a mod 4 * 16" b] by (simp add: algebra_simps)
    moreover have "a mod 4 * 16 + b div 16 < 64" using that mod_less_divisor [of 4 a] by linarith
    ultimately show ?thesis by (simp only: window zero_less_numeral) simp
  qed
  show "((y * 256 + b) * 256 + c) div 64 mod 64 = b mod 16 * 4 + c div 64" if "c < 256"
  proof -
    have "(y * 256 + b) * 256 + c = (y * 16 + b div 16) * (64 * 64) + (b mod 16 * 256 + c)" using b by (simp add: algebra_simps)
    moreover have "(b mod 16 * 256 + c) div 64 = b mod 16 * 4 + c div 64" using div_mult_self4 [of 64 "b mod 16 * 4" c] by (simp add: algebra_simps)
    moreover have "b mod 16 * 4 + c div 64 < 64" using that mod_less_divisor [of 16 b] by linarith
    ultimately show ?thesis by (simp only: window zero_less_numeral) simp
  qed
  show "(y * 256 + c) mod 64 = c mod 64" using window [of 1 "y * 4" 64 c] by (simp add: mult.commute)
  have "(x * 256 + a) * 256 = (x * 64 + a div 4) * (16 * 64) + a mod 4 * 256" using a by (simp add: algebra_simps)
  moreover have "a mod 4 * 256 div 16 mod 64 = a mod 4 * 16" using mod_less_divisor [of 4 a] by simp
  ultimately show "(x * 256 + a) * 256 div 16 mod 64 = a mod 4 * 16" by (simp only: window zero_less_numeral)
  have "(y * 256 + b) * 256 = (y * 16 + b div 16) * (64 * 64) + b mod 16 * 256" using b by (simp add: algebra_simps)
  moreover have "b mod 16 * 256 div 64 mod 64 = b mod 16 * 4" using mod_less_divisor [of 16 b] by simp
  ultimately show "(y * 256 + b) * 256 div 64 mod 64 = b mod 16 * 4" by (simp only: window zero_less_numeral)
qed

lemma byte_windows:
  fixes x y z a b c :: nat
  assumes "a < 256" "b < 256" "c < 256"
  shows "d < 16 \<Longrightarrow> ((x * 64 + a div 4) * 64 + (a mod 4 * 16 + d)) div 16 mod 256 = a"
    and "e < 4 \<Longrightarrow> ((y * 64 + (k * 16 + b div 16)) * 64 + (b mod 16 * 4 + e)) div 4 mod 256 = b"
    and "((z * 64 + (l * 4 + c div 64)) * 64 + c mod 64) mod 256 = c"
proof -
  show "((x * 64 + a div 4) * 64 + (a mod 4 * 16 + d)) div 16 mod 256 = a" if "d < 16"
  proof -
    have "a * 16 = a div 4 * 64 + a mod 4 * 16" using div_mult_mod_eq [of a 4] by linarith
    then have "(x * 64 + a div 4) * 64 + (a mod 4 * 16 + d) = x * (16 * 256) + (16 * a + d)" by (simp add: distrib_right)
    then show ?thesis using that assms(1) by (simp only: window zero_less_numeral) simp
  qed
  show "((y * 64 + (k * 16 + b div 16)) * 64 + (b mod 16 * 4 + e)) div 4 mod 256 = b" if "e < 4"
  proof -
    have "b * 4 = b div 16 * 64 + b mod 16 * 4" using div_mult_mod_eq [of b 16] by linarith
    then have "(y * 64 + (k * 16 + b div 16)) * 64 + (b mod 16 * 4 + e) = (y * 4 + k) * (4 * 256) + (4 * b + e)" by (simp add: distrib_right)
    then show ?thesis using that assms(2) by (simp only: window zero_less_numeral) simp
  qed
  have "(z * 64 + (l * 4 + c div 64)) * 64 + c mod 64 = (z * 16 + l) * 256 + (c div 64 * 64 + c mod 64)" by (simp add: distrib_right)
  also have "\<dots> = (z * 16 + l) * 256 + c" by (simp only: div_mult_mod_eq)
  finally have "(z * 64 + (l * 4 + c div 64)) * 64 + c mod 64 = (z * 16 + l) * 256 + c" .
  then show "((z * 64 + (l * 4 + c div 64)) * 64 + c mod 64) mod 256 = c" using assms(3) by (simp only: mod_mult_self3 mod_less)
qed

lemma sextet_chars:
  assumes "unat (v :: u32) = (x * 256 + unat (a :: u8)) mod 2 ^ 32"
    and "unat (w :: u32) = ((x * 256 + unat a) * 256 + unat (b :: u8)) mod 2 ^ 32"
  shows "sextet_char (drop_bit 2 v) = base64_chars ! (unat a div 4)"
    and "sextet_char v = base64_chars ! (unat a mod 64)"
    and "sextet_char (drop_bit 4 w) = base64_chars ! (unat a mod 4 * 16 + unat b div 16)"
    and "sextet_char (drop_bit 6 w) = base64_chars ! (unat a mod 16 * 4 + unat b div 64)"
    and "sextet_char (drop_bit 4 (push_bit 8 v)) = base64_chars ! (unat a mod 4 * 16)"
    and "sextet_char (drop_bit 6 (push_bit 8 v)) = base64_chars ! (unat a mod 16 * 4)"
proof -
  have p: "unat (push_bit 8 v) = (x * 256 + unat a) * 256 mod 2 ^ 32" using shift_in_byte [OF assms(1), of 0] by simp
  show "sextet_char (drop_bit 2 v) = base64_chars ! (unat a div 4)"
    using sextet_char_nat [OF _ assms(1), of 2] sextet_windows(1) [of "unat a" x] byte_bound [of a] by simp
  show "sextet_char v = base64_chars ! (unat a mod 64)"
    using sextet_char_nat [OF _ assms(1), of 0] sextet_windows(4) [of x "unat a"] by simp
  show "sextet_char (drop_bit 4 w) = base64_chars ! (unat a mod 4 * 16 + unat b div 16)"
    using sextet_char_nat [OF _ assms(2), of 4] sextet_windows(2) [of "unat b" x "unat a"] byte_bound [of b] by simp
  show "sextet_char (drop_bit 6 w) = base64_chars ! (unat a mod 16 * 4 + unat b div 64)"
    using sextet_char_nat [OF _ assms(2), of 6] sextet_windows(3) [of "unat b" x "unat a"] byte_bound [of b] by simp
  show "sextet_char (drop_bit 4 (push_bit 8 v)) = base64_chars ! (unat a mod 4 * 16)"
    using sextet_char_nat [OF _ p, of 4] sextet_windows(5) [of x "unat a"] by simp
  show "sextet_char (drop_bit 6 (push_bit 8 v)) = base64_chars ! (unat a mod 16 * 4)"
    using sextet_char_nat [OF _ p, of 6] sextet_windows(6) [of x "unat a"] by simp
qed

lemma base64_loop_sextets: "unat v = x mod 2 ^ 32 \<Longrightarrow> base64_loop v (- 6) bs = map ((!) base64_chars) (sextets bs)"
proof (induction bs arbitrary: v x rule: sextets.induct)
  case (2 a)
  define v1 :: u32 where "v1 = push_bit 8 v + ucast a"
  have v1: "unat v1 = (x * 256 + unat a) mod 2 ^ 32" unfolding v1_def by (rule shift_in_byte [OF 2])
  show ?case by (simp add: v1_def [symmetric] drain_step sextet_chars(1,5) [OF v1 shift_in_byte [OF v1, of 0]])
next
  case (3 a b)
  define v1 :: u32 where "v1 = push_bit 8 v + ucast a"
  have v1: "unat v1 = (x * 256 + unat a) mod 2 ^ 32" unfolding v1_def by (rule shift_in_byte [OF 3])
  define v2 :: u32 where "v2 = push_bit 8 v1 + ucast b"
  have v2: "unat v2 = ((x * 256 + unat a) * 256 + unat b) mod 2 ^ 32" unfolding v2_def by (rule shift_in_byte [OF v1])
  show ?case
    by (simp add: v1_def [symmetric] v2_def [symmetric] drain_step sextet_chars(1,3) [OF v1 v2] sextet_chars(6) [OF v2 shift_in_byte [OF v2, of 0]])
next
  case (4 a b c rest)
  define v1 :: u32 where "v1 = push_bit 8 v + ucast a"
  have v1: "unat v1 = (x * 256 + unat a) mod 2 ^ 32" unfolding v1_def by (rule shift_in_byte [OF 4(2)])
  define v2 :: u32 where "v2 = push_bit 8 v1 + ucast b"
  have v2: "unat v2 = ((x * 256 + unat a) * 256 + unat b) mod 2 ^ 32" unfolding v2_def by (rule shift_in_byte [OF v1])
  define v3 :: u32 where "v3 = push_bit 8 v2 + ucast c"
  have v3: "unat v3 = (((x * 256 + unat a) * 256 + unat b) * 256 + unat c) mod 2 ^ 32" unfolding v3_def by (rule shift_in_byte [OF v2])
  show ?case
    by (simp add: v1_def [symmetric] v2_def [symmetric] v3_def [symmetric] drain_step 4(1) [OF v3]
        sextet_chars(1,3) [OF v1 v2] sextet_chars(4) [OF v2 v3] sextet_chars(2) [OF v3 shift_in_byte [OF v3, of 0]])
qed simp

lemma table_char: "n < 64 \<Longrightarrow> table (base64_chars ! n) = Some n"
proof -
  assume "n < 64"
  have "list_all (\<lambda>n. table (base64_chars ! n) = Some n) [0..<64]" by code_simp
  then show ?thesis using \<open>n < 64\<close> by (simp add: list_all_iff)
qed

lemma not_padding: "n < 64 \<Longrightarrow> base64_chars ! n \<noteq> CHR ''=''"
proof -
  assume "n < 64"
  have "list_all (\<lambda>n. base64_chars ! n \<noteq> CHR ''='') [0..<64]" by code_simp
  then show ?thesis using \<open>n < 64\<close> by (simp add: list_all_iff)
qed

lemma decode_step:
  "n < 64 \<Longrightarrow> decode_chars v bits (base64_chars ! n # cs) =
     (let val = push_bit 6 v + of_nat n in
      if 0 \<le> bits + 6 then map_option (\<lambda>bs. ucast (drop_bit (nat (bits + 6)) val AND 0xFF) # bs) (decode_chars val (bits - 2) cs)
      else decode_chars val (bits + 6) cs)"
  by (simp add: table_char not_padding Let_def)

lemma decode_padding: "list_all (\<lambda>c. c = CHR ''='') pad \<Longrightarrow> decode_chars v bits pad = Some []"
  by (cases pad) auto

declare decode_chars.simps(2) [simp del]

lemma first_byte:
  assumes "unat v = x mod 2 ^ 32" "d < 16" and n: "n = unat (a :: u8) mod 4 * 16 + d"
  shows "unat a div 4 < 64" "n < 64"
    and "unat (push_bit 6 (push_bit 6 v + of_nat (unat a div 4)) + of_nat n :: u32) = ((x * 64 + unat a div 4) * 64 + n) mod 2 ^ 32"
    and "ucast (drop_bit 4 (push_bit 6 (push_bit 6 v + of_nat (unat a div 4)) + of_nat n :: u32) AND 0xFF) = a"
proof -
  have 1: "unat a div 4 < 64" "n < 64" using byte_bound [of a] assms(2) mod_less_divisor [of 4 "unat a"] n by linarith+
  show "unat a div 4 < 64" "n < 64" by fact+
  show v: "unat (push_bit 6 (push_bit 6 v + of_nat (unat a div 4)) + of_nat n :: u32) = ((x * 64 + unat a div 4) * 64 + n) mod 2 ^ 32"
    by (intro shift_in_sextet 1 assms)
  show "ucast (drop_bit 4 (push_bit 6 (push_bit 6 v + of_nat (unat a div 4)) + of_nat n :: u32) AND 0xFF) = a"
    using byte_windows(1) [OF byte_bound byte_bound byte_bound assms(2), of x a] by (intro byte_nat [OF _ v]) (simp_all add: n)
qed

lemma second_byte:
  assumes "unat v = (x * 64 + (k * 16 + unat b div 16)) mod 2 ^ 32" "e < 4" and n: "n = unat (b :: u8) mod 16 * 4 + e"
  shows "n < 64"
    and "unat (push_bit 6 v + of_nat n :: u32) = ((x * 64 + (k * 16 + unat b div 16)) * 64 + n) mod 2 ^ 32"
    and "ucast (drop_bit 2 (push_bit 6 v + of_nat n :: u32) AND 0xFF) = b"
proof -
  show 1: "n < 64" using assms(2) mod_less_divisor [of 16 "unat b"] n by linarith
  show v: "unat (push_bit 6 v + of_nat n :: u32) = ((x * 64 + (k * 16 + unat b div 16)) * 64 + n) mod 2 ^ 32"
    by (intro shift_in_sextet 1 assms)
  show "ucast (drop_bit 2 (push_bit 6 v + of_nat n :: u32) AND 0xFF) = b"
    using byte_windows(2) [OF byte_bound byte_bound byte_bound assms(2), of x k b] by (intro byte_nat [OF _ v]) (simp_all add: n)
qed

lemma third_byte:
  assumes "unat v = (x * 64 + (l * 4 + unat c div 64)) mod 2 ^ 32"
  shows "unat (push_bit 6 v + of_nat (unat c mod 64) :: u32) = ((x * 64 + (l * 4 + unat c div 64)) * 64 + unat c mod 64) mod 2 ^ 32"
    and "ucast ((push_bit 6 v + of_nat (unat c mod 64) :: u32) AND 0xFF) = (c :: u8)"
proof -
  show v: "unat (push_bit 6 v + of_nat (unat c mod 64) :: u32) = ((x * 64 + (l * 4 + unat c div 64)) * 64 + unat c mod 64) mod 2 ^ 32"
    by (intro shift_in_sextet assms) simp
  show "ucast ((push_bit 6 v + of_nat (unat c mod 64) :: u32) AND 0xFF) = c"
    using byte_nat [OF _ v, of 0 c] byte_windows(3) [OF byte_bound byte_bound byte_bound, of x l c] by simp
qed

lemma decode_sextets:
  assumes pad: "list_all (\<lambda>c. c = CHR ''='') pad"
  shows "unat v = x mod 2 ^ 32 \<Longrightarrow> decode_chars v (- 8) (map ((!) base64_chars) (sextets bs) @ pad) = Some bs"
proof (induction bs arbitrary: v x rule: sextets.induct)
  case 1
  then show ?case by (simp add: decode_padding [OF pad])
next
  case (2 a)
  from first_byte [OF 2, of 0 _ a] show ?case by (simp add: decode_step decode_padding [OF pad] Let_def)
next
  case (3 a b)
  have "unat b div 16 < 16" using byte_bound [of b] by simp
  note f = first_byte [OF 3 this refl, of a]
  note s = second_byte [OF f(3), of 0 _, simplified]
  show ?case using f(1,2,4) s by (simp add: decode_step decode_padding [OF pad] Let_def)
next
  case (4 a b c rest)
  have "unat b div 16 < 16" "unat c div 64 < 4" using byte_bound [of b] byte_bound [of c] by simp_all
  note f = first_byte [OF 4(2) this(1) refl, of a]
  note s = second_byte [OF f(3) \<open>unat c div 64 < 4\<close> refl]
  note t = third_byte [OF s(2)]
  show ?case using f(1,2,4) s(1,3) t(2) 4(1) [OF t(1)] by (simp add: decode_step Let_def)
qed

lemma base64_roundtrip: "base64_decode (base64_encode bs) = Some bs"
  by (simp add: base64_decode_def base64_encode_def Let_def base64_loop_sextets [of 0 0] decode_sextets [of _ 0 0] list_all_iff)

section \<open>A call survives the trip\<close>

text \<open>What the codec asks of the JSON library beyond \<open>json_lib_ok\<close>: numbers convert to themselves.\<close>

definition http_json_ok :: "HttpJson \<Rightarrow> bool" where
  "http_json_ok lib \<longleftrightarrow> json_lib_ok (hj_lib lib) \<and> (\<forall>f. hj_f64 lib (JFloat f) = Some f) \<and>
     (\<forall>i :: u64. hj_i64 lib (JInteger (sint i)) = Some i)"

text \<open>A value whose tag names the member it carries; a number JSON can write.\<close>

definition value_sendable :: "Value \<Rightarrow> bool" where
  "value_sendable v =
     (case v_kind v of
        K_Bool _ \<Rightarrow> v_type v = VALUE_TYPE_BOOL
      | K_Int64 _ \<Rightarrow> v_type v = VALUE_TYPE_INT64
      | K_Uint64 _ \<Rightarrow> v_type v = VALUE_TYPE_UINT64
      | K_Double f \<Rightarrow> v_type v = VALUE_TYPE_DOUBLE \<and> f64_finite f
      | K_String _ \<Rightarrow> v_type v = VALUE_TYPE_STRING
      | K_Bytes _ \<Rightarrow> v_type v = VALUE_TYPE_BYTES
      | K_Unset \<Rightarrow> False)"

text \<open>The document of a call, its values written as the server writes values.\<close>

definition call_document :: "call_body \<Rightarrow> json" where
  "call_document body = json_object
     [(''provider_id'', JString (cb_provider_id body)), (''device_id'', JString (cb_device_id body)),
      (''function_id'', JInteger (uint (cb_function_id body))),
      (''args'', json_object (map (\<lambda>(k, v). (k, encode_value v)) (cb_args body)))]"

definition args_sendable :: "args_map \<Rightarrow> bool" where
  "args_sendable args \<longleftrightarrow> sorted_wrt (<) (map fst args) \<and> list_all (value_sendable \<circ> snd) args"

lemma members_json_object [simp]: "members (json_object ms) = fold (\<lambda>(k, v). omap_put k v) ms []"
  by (simp add: json_object_def)

lemma value_roundtrip:
  assumes "http_json_ok lib" "value_sendable v"
  shows "decode_value lib (encode_value v) = Inr v"
proof -
  have num: "hj_f64 lib (JFloat f) = Some f" "hj_i64 lib (JInteger (sint i)) = Some i" "jl_u64 (hj_lib lib) (JInteger (uint i)) = Some i" for f and i :: u64
    using assms(1) by (auto simp: http_json_ok_def json_lib_ok_def)
  obtain t k where v: "v = \<lparr> v_type = t, v_kind = k \<rparr>" by (cases v)
  show ?thesis
    using assms(2) num base64_roundtrip
    by (cases k) (simp_all add: v value_sendable_def encode_value_def decode_value_def typed_member_def typed_value_def field_of_def omap_get_put
        double_value_def int64_value_def uint64_value_def bool_value_def string_value_def bytes_value_def)
qed

lemma encode_value_wf: "value_sendable v \<Longrightarrow> json_wf (encode_value v)"
proof -
  assume s: "value_sendable v"
  have i: "json_wf (JInteger (sint (i :: u64)))" for i using sint_lt [of i] sint_ge [of i] by simp
  obtain t k where v: "v = \<lparr> v_type = t, v_kind = k \<rparr>" by (cases v)
  show ?thesis using s i
    by (cases k) (simp_all add: v value_sendable_def encode_value_def typed_member_def json_object_wf del: json_wf.simps(3),
      auto simp: double_value_def intro!: json_object_wf simp del: json_wf.simps(3))
qed

lemma omap_put_last: "\<forall>k' \<in> fst ` set m. k' < k \<Longrightarrow> omap_put k v m = m @ [(k, v)]"
  by (induction m) (auto simp: less_imp_not_less)

lemma fold_omap_sorted: "sorted_wrt (<) (map fst (m @ xs)) \<Longrightarrow> fold (\<lambda>(k, v). omap_put k v) xs m = m @ xs"
proof (induction xs arbitrary: m)
  case (Cons x xs)
  obtain k v where x: "x = (k, v)" by (cases x)
  have "omap_put k v m = m @ [(k, v)]" using Cons.prems by (intro omap_put_last) (auto simp: x sorted_wrt_append)
  then show ?case using Cons.IH [of "m @ [(k, v)]"] Cons.prems by (simp add: x)
qed simp

lemma decode_args_roundtrip:
  assumes "http_json_ok lib"
  shows "list_all (value_sendable \<circ> snd) xs \<Longrightarrow>
    decode_args lib (map (\<lambda>(k, v). (k, encode_value v)) xs) m = Inr (fold (\<lambda>(k, v). omap_put k v) xs m)"
  by (induction xs arbitrary: m) (auto simp: value_roundtrip [OF assms])

lemma call_document_decodes:
  assumes lib: "http_json_ok lib" and args: "args_sendable (cb_args body)"
  shows "decode_call_request lib (call_document body) = Inr body"
proof -
  have num: "jl_u32 (hj_lib lib) (JInteger (uint n)) = Some n" for n :: u32
    using lib by (auto simp: http_json_ok_def json_lib_ok_def)
  have keys: "map fst (map (\<lambda>(k, v). (k, encode_value v)) xs) = map fst xs" for xs :: args_map by (induction xs) auto
  have "json_object (map (\<lambda>(k, v). (k, encode_value v)) (cb_args body)) = JObject (map (\<lambda>(k, v). (k, encode_value v)) (cb_args body))"
    using args fold_omap_sorted [of "[]" "map (\<lambda>(k, v). (k, encode_value v)) (cb_args body)"]
    by (simp only: json_object_def args_sendable_def append_Nil keys)
  moreover have "fold (\<lambda>(k, v). omap_put k v) (cb_args body) [] = cb_args body"
    using args fold_omap_sorted [of "[]" "cb_args body"] by (simp add: args_sendable_def)
  ultimately show ?thesis using args
    by (simp add: decode_call_request_def call_document_def omap_get_put num decode_args_roundtrip [OF lib] args_sendable_def)
qed

text \<open>C33. A call survives the trip over HTTP. A client that writes the body of a call with values as the server itself writes
  them (numbers, texts, bytes in base64) has exactly that call decoded from the text it sent: provider, device, function and
  every argument with its type.\<close>

theorem call_body_roundtrip:
  assumes "http_json_ok lib" and "args_sendable (cb_args body)" and "jl_dump (hj_lib lib) (call_document body) = Some text"
  shows "map_option (decode_call_request lib) (jl_parse (hj_lib lib) text) = Some (Inr body)"
proof -
  have "json_wf (json_object (map (\<lambda>(k, v). (k, encode_value v)) (cb_args body)))"
    using assms(2) by (intro json_object_wf) (force simp: args_sendable_def list_all_iff intro: encode_value_wf)
  then have "json_wf (call_document body)"
    unfolding call_document_def by (intro json_object_wf) (simp del: json_wf.simps(3,7))
  then have "jl_parse (hj_lib lib) text = Some (call_document body)"
    using assms(1,3) by (auto simp: http_json_ok_def json_lib_ok_def dump_ok_def call_document_def)
  then show ?thesis using call_document_decodes [OF assms(1,2)] by simp
qed

definition demo_body :: call_body where
  "demo_body = \<lparr> cb_provider_id = ''p'', cb_device_id = ''d'', cb_function_id = 7,
     cb_args = [(''blob'', \<lparr> v_type = VALUE_TYPE_BYTES, v_kind = K_Bytes [0, 255, 16, 7] \<rparr>),
                (''level'', \<lparr> v_type = VALUE_TYPE_UINT64, v_kind = K_Uint64 42 \<rparr>)] \<rparr>"

definition table_http :: "json list \<Rightarrow> HttpJson" where
  "table_http docs = \<lparr> hj_lib = table_json docs, hj_i64 = (\<lambda>doc. case doc of JInteger i \<Rightarrow> Some (word_of_int i) | _ \<Rightarrow> None),
     hj_f64 = (\<lambda>doc. case doc of JFloat f \<Rightarrow> Some f | _ \<Rightarrow> None) \<rparr>"

lemma table_http_ok: "list_all json_wf docs \<Longrightarrow> length docs \<le> 100 \<Longrightarrow> http_json_ok (table_http docs)"
  by (simp add: http_json_ok_def table_http_def table_json_ok)

theorem call_body_roundtrip_witness:
  "base64_encode [0, 255, 16, 7] = ''AP8QBw=='' \<and> base64_decode ''AP*='' = None \<and>
   map_option (decode_call_request (table_http [call_document demo_body])) (jl_parse (table_json [call_document demo_body]) ''A'') = Some (Inr demo_body)"
proof -
  have wf: "list_all json_wf [call_document demo_body]" by code_simp
  have "args_sendable (cb_args demo_body)" by code_simp
  moreover have "jl_dump (hj_lib (table_http [call_document demo_body])) (call_document demo_body) = Some ''A''"
    by (simp add: table_http_def table_json_def char_of_def bit_0)
  ultimately have "map_option (decode_call_request (table_http [call_document demo_body]))
      (jl_parse (hj_lib (table_http [call_document demo_body])) ''A'') = Some (Inr demo_body)"
    by (intro call_body_roundtrip table_http_ok wf) simp_all
  moreover have "base64_encode [0, 255, 16, 7] = ''AP8QBw==''" by code_simp
  moreover have "base64_decode ''AP*='' = None" by code_simp
  ultimately show ?thesis by (simp only: table_http_def HttpJson.simps simp_thms)
qed

end
