(* ===== verification/Http_Guard.thy ===== *)
theory Http_Guard
  imports Runtime_Config Run_Types
begin

unbundle bit_operations_syntax

text \<open>
  What stands in front of the HTTP handlers (\<^verbatim>\<open>http/server.cpp\<close>, \<^verbatim>\<open>http/auth.cpp\<close>): the browser guard and the authentication gate of
  the pre-routing handler, the CORS headers, the routes, and the answers of the error and exception handlers. A request is
  what \<open>httplib::Request\<close> gives: the header lookup and the query parameters are functions, the captures of the route a list.
  \<open>guard_exact\<close> says which requests pass.
\<close>

section \<open>Requests and responses\<close>

record HttpRequest =
  hr_method :: string
  hr_path :: string
  hr_remote_addr :: string
  hr_header :: "string \<Rightarrow> string option"
  hr_params :: "string \<Rightarrow> string list"
  hr_body :: string

datatype http_content = No_Content | Text_Content string | Json_Content json

record HttpResponse =
  rs_status :: int
  rs_headers :: "(string \<times> string) list"
  rs_content :: http_content

definition header_value :: "HttpRequest \<Rightarrow> string \<Rightarrow> string" where
  "header_value req name = (case hr_header req name of None \<Rightarrow> [] | Some v \<Rightarrow> v)"

definition has_header :: "HttpRequest \<Rightarrow> string \<Rightarrow> bool" where
  "has_header req name = (hr_header req name \<noteq> None)"

section \<open>Status codes\<close>

datatype HttpStatus = HS_OK | HS_INVALID_ARGUMENT | HS_NOT_FOUND | HS_FAILED_PRECONDITION | HS_UNAVAILABLE
  | HS_DEADLINE_EXCEEDED | HS_INTERNAL

fun status_code_to_http :: "HttpStatus \<Rightarrow> int" where
  "status_code_to_http HS_OK = 200"
| "status_code_to_http HS_INVALID_ARGUMENT = 400"
| "status_code_to_http HS_NOT_FOUND = 404"
| "status_code_to_http HS_FAILED_PRECONDITION = 409"
| "status_code_to_http HS_UNAVAILABLE = 503"
| "status_code_to_http HS_DEADLINE_EXCEEDED = 504"
| "status_code_to_http HS_INTERNAL = 500"

fun status_code_to_string :: "HttpStatus \<Rightarrow> string" where
  "status_code_to_string HS_OK = ''OK''"
| "status_code_to_string HS_INVALID_ARGUMENT = ''INVALID_ARGUMENT''"
| "status_code_to_string HS_NOT_FOUND = ''NOT_FOUND''"
| "status_code_to_string HS_FAILED_PRECONDITION = ''FAILED_PRECONDITION''"
| "status_code_to_string HS_UNAVAILABLE = ''UNAVAILABLE''"
| "status_code_to_string HS_DEADLINE_EXCEEDED = ''DEADLINE_EXCEEDED''"
| "status_code_to_string HS_INTERNAL = ''INTERNAL''"

definition make_status :: "HttpStatus \<Rightarrow> string \<Rightarrow> json" where
  "make_status code message =
     (let msg = (if message = [] then (if code = HS_OK then ''ok'' else status_code_to_string code) else message) in
      json_object [(''code'', JString (status_code_to_string code)), (''message'', JString msg)])"

definition make_error_response :: "HttpStatus \<Rightarrow> string \<Rightarrow> json" where
  "make_error_response code message = json_object [(''status'', make_status code message)]"

definition send_json :: "HttpStatus \<Rightarrow> json \<Rightarrow> HttpResponse" where
  "send_json code body = \<lparr> rs_status = status_code_to_http code, rs_headers = [], rs_content = Json_Content body \<rparr>"

definition send_error :: "HttpStatus \<Rightarrow> string \<Rightarrow> HttpResponse" where
  "send_error code message = send_json code (make_error_response code message)"

section \<open>Authentication\<close>

definition starts_with :: "string \<Rightarrow> string \<Rightarrow> bool" where
  "starts_with s p = (take (length p) s = p)"

definition is_loopback :: "string \<Rightarrow> bool" where
  "is_loopback remote_addr \<longleftrightarrow> remote_addr = ''127.0.0.1'' \<or> remote_addr = ''::1'' \<or> remote_addr = ''::ffff:127.0.0.1'' \<or>
     starts_with remote_addr ''127.''"

definition byte :: "char \<Rightarrow> u8" where
  "byte c = of_nat (of_char c)"

fun difference :: "u8 \<Rightarrow> string \<Rightarrow> string \<Rightarrow> u8" where
  "difference diff (x # xs) (y # ys) = difference (diff OR (byte x XOR byte y)) xs ys"
| "difference diff _ _ = diff"

definition constant_time_equals :: "string \<Rightarrow> string \<Rightarrow> bool" where
  "constant_time_equals a b = (if length a \<noteq> length b then False else difference 0 a b = 0)"

definition kPrefix :: string where
  "kPrefix = ''Bearer ''"

definition authorize :: "bool \<Rightarrow> bool \<Rightarrow> string \<Rightarrow> string \<Rightarrow> string \<Rightarrow> bool" where
  "authorize auth_enabled exempt_loopback expected_token remote_addr authorization_header =
     (if \<not> auth_enabled then True
      else if exempt_loopback \<and> is_loopback remote_addr then True
      else if expected_token = [] then False
      else if length authorization_header \<le> length kPrefix \<or> take (length kPrefix) authorization_header \<noteq> kPrefix then False
      else constant_time_equals (drop (length kPrefix) authorization_header) expected_token)"

section \<open>The browser guard\<close>

definition find_char :: "char \<Rightarrow> string \<Rightarrow> nat option" where
  "find_char c s = (let i = length (takeWhile (\<lambda>d. d \<noteq> c) s) in if i < length s then Some i else None)"

definition origin_admitted :: "string \<Rightarrow> string \<Rightarrow> bool" where
  "origin_admitted origin allowed =
     (if allowed = ''*'' then True
      else case find_char CHR ''*'' allowed of
        None \<Rightarrow> allowed = origin
      | Some wildcard_pos \<Rightarrow>
          (let before = take wildcard_pos allowed; after = drop (wildcard_pos + 1) allowed in
           if length origin < length before + length after then False
           else take (length before) origin = before \<and> drop (length origin - length after) origin = after))"

definition allowed_origin_entry :: "string list \<Rightarrow> string \<Rightarrow> string option" where
  "allowed_origin_entry allowed_origins origin = find (origin_admitted origin) allowed_origins"

definition to_lower :: "char \<Rightarrow> char" where
  "to_lower c = (if 65 \<le> (of_char c :: nat) \<and> (of_char c :: nat) \<le> 90 then char_of ((of_char c :: nat) + 32) else c)"

definition host_name :: "string \<Rightarrow> string" where
  "host_name host_header =
     map to_lower
       (case host_header of
          CHR ''['' # rest \<Rightarrow> (case find_char CHR '']'' host_header of None \<Rightarrow> rest | Some close \<Rightarrow> take (close - 1) rest)
        | _ \<Rightarrow> (case find_char CHR '':'' host_header of
                 None \<Rightarrow> host_header
               | Some colon \<Rightarrow> if find_char CHR '':'' (drop (colon + 1) host_header) = None then take colon host_header else host_header))"

definition host_allowed :: "string \<Rightarrow> string \<Rightarrow> bool" where
  "host_allowed host_header bind_addr =
     (if host_header = [] then True
      else let name = host_name host_header in
        name = ''localhost'' \<or> name = ''127.0.0.1'' \<or> name = ''::1'' \<or> name = host_name bind_addr)"

definition blank :: "char \<Rightarrow> bool" where
  "blank c \<longleftrightarrow> c = CHR '' '' \<or> c = CHR 0x09"

definition media_type :: "string \<Rightarrow> string" where
  "media_type content_type =
     (let type = takeWhile (\<lambda>c. c \<noteq> CHR '';'') content_type;
          type = rev (dropWhile blank (rev type));
          type = dropWhile blank type in
      map to_lower type)"

definition refuse_request :: "int \<Rightarrow> string \<Rightarrow> HttpResponse" where
  "refuse_request status message =
     (let q = [CHR 0x22] in
      \<lparr> rs_status = status, rs_headers = [],
        rs_content = Text_Content (''{'' @ q @ ''error'' @ q @ '':'' @ q @ message @ q @ ''}'') \<rparr>)"

text \<open>\<open>None\<close>: the request goes on to its handler.\<close>

definition pre_routing :: "HttpConfig \<Rightarrow> HttpRequest \<Rightarrow> HttpResponse option" where
  "pre_routing cfg req =
     (let check_host = \<not> ht_auth_enabled cfg \<and> \<not> ht_allow_insecure_bind cfg;
          api_post = hr_method req = ''POST'' \<and> starts_with (hr_path req) ''/v0/'';
          length_header = header_value req ''Content-Length'';
          has_body = length_header \<noteq> [] \<and> length_header \<noteq> ''0'' \<or> has_header req ''Transfer-Encoding'' in
      if check_host \<and> \<not> host_allowed (header_value req ''Host'') (ht_bind cfg) then Some (refuse_request 403 ''host not allowed'')
      else if api_post \<and> has_header req ''Origin'' \<and> allowed_origin_entry (ht_cors_allowed_origins cfg) (header_value req ''Origin'') = None
      then Some (refuse_request 403 ''origin not allowed'')
      else if api_post \<and> has_body \<and> media_type (header_value req ''Content-Type'') \<noteq> ''application/json''
      then Some (refuse_request 415 ''a request body must be application/json'')
      else if authorize (ht_auth_enabled cfg) (ht_auth_exempt_loopback cfg) (ht_auth_token cfg) (hr_remote_addr req)
                (header_value req ''Authorization'') then None
      else Some ((refuse_request 401 ''unauthorized'')\<lparr> rs_headers := [(''WWW-Authenticate'', ''Bearer'')] \<rparr>))"

text \<open>The CORS headers of the post-routing handler.\<close>

definition post_routing :: "HttpConfig \<Rightarrow> HttpRequest \<Rightarrow> HttpResponse \<Rightarrow> HttpResponse" where
  "post_routing cfg req res =
     (case hr_header req ''Origin'' of
        None \<Rightarrow> res
      | Some origin \<Rightarrow>
          (case allowed_origin_entry (ht_cors_allowed_origins cfg) origin of
             None \<Rightarrow> res
           | Some allowed \<Rightarrow> res\<lparr> rs_headers := rs_headers res @
               [(''Access-Control-Allow-Origin'', if allowed = ''*'' then ''*'' else origin),
                (''Access-Control-Allow-Methods'', ''GET, POST, OPTIONS''), (''Access-Control-Allow-Headers'', ''Content-Type'')] @
               (if ht_cors_allow_credentials cfg then [(''Access-Control-Allow-Credentials'', ''true'')] else []) \<rparr>))"

section \<open>Routes\<close>

datatype endpoint = E_Devices | E_Capabilities string string | E_State | E_Device_State string string | E_Call | E_Options
  | E_Runtime_Status | E_Get_Mode | E_Post_Mode | E_Estop | E_Estop_Clear | E_Get_Parameters | E_Post_Parameters
  | E_Automation_Tree | E_Automation_Status | E_Providers_Health | E_Telemetry_Status | E_Post_Runs | E_Get_Runs
  | E_Run_Close string | E_Post_Run_Events string | E_Get_Run_Events string | E_Get_Run string | E_Events

fun segments :: "string \<Rightarrow> string list" where
  "segments [] = [[]]"
| "segments (c # cs) = (if c = CHR ''/'' then [] # segments cs else (case segments cs of [] \<Rightarrow> [[c]] | s # ss \<Rightarrow> (c # s) # ss))"

text \<open>A capture \<open>([^/]+)\<close> is a segment that is not empty.\<close>

definition get_route :: "string list \<Rightarrow> endpoint option" where
  "get_route ss =
     (case ss of
        [a, v, r] \<Rightarrow> if a \<noteq> [] \<or> v \<noteq> ''v0'' then None
          else map_of [(''devices'', E_Devices), (''state'', E_State), (''mode'', E_Get_Mode), (''parameters'', E_Get_Parameters),
            (''runs'', E_Get_Runs), (''events'', E_Events)] r
      | [a, v, r, x] \<Rightarrow> if a \<noteq> [] \<or> v \<noteq> ''v0'' then None
          else if r = ''runs'' \<and> x \<noteq> [] then Some (E_Get_Run x)
          else map_of [((''runtime'', ''status''), E_Runtime_Status), ((''automation'', ''tree''), E_Automation_Tree),
            ((''automation'', ''status''), E_Automation_Status), ((''providers'', ''health''), E_Providers_Health),
            ((''telemetry'', ''status''), E_Telemetry_Status)] (r, x)
      | [a, v, r, x, y] \<Rightarrow> if a \<noteq> [] \<or> v \<noteq> ''v0'' \<or> x = [] then None
          else if r = ''state'' \<and> y \<noteq> [] then Some (E_Device_State x y)
          else if r = ''runs'' \<and> y = ''events'' then Some (E_Get_Run_Events x)
          else None
      | [a, v, r, x, y, z] \<Rightarrow> if a \<noteq> [] \<or> v \<noteq> ''v0'' \<or> x = [] \<or> y = [] then None
          else if r = ''devices'' \<and> z = ''capabilities'' then Some (E_Capabilities x y) else None
      | _ \<Rightarrow> None)"

definition post_route :: "string list \<Rightarrow> endpoint option" where
  "post_route ss =
     (case ss of
        [a, v, r] \<Rightarrow> if a \<noteq> [] \<or> v \<noteq> ''v0'' then None
          else map_of [(''call'', E_Call), (''mode'', E_Post_Mode), (''estop'', E_Estop), (''parameters'', E_Post_Parameters),
            (''runs'', E_Post_Runs)] r
      | [a, v, r, x] \<Rightarrow> if a = [] \<and> v = ''v0'' \<and> r = ''estop'' \<and> x = ''clear'' then Some E_Estop_Clear else None
      | [a, v, r, x, y] \<Rightarrow> if a \<noteq> [] \<or> v \<noteq> ''v0'' \<or> r \<noteq> ''runs'' \<or> x = [] then None
          else if y = ''close'' then Some (E_Run_Close x) else if y = ''events'' then Some (E_Post_Run_Events x) else None
      | _ \<Rightarrow> None)"

definition find_route :: "string \<Rightarrow> string \<Rightarrow> endpoint option" where
  "find_route http_method path =
     (if http_method = ''GET'' then get_route (segments path)
      else if http_method = ''POST'' then post_route (segments path)
      else if http_method = ''OPTIONS'' \<and> starts_with path ''/v0/'' \<and> list_all (\<lambda>c. c \<noteq> CHR 0x0A \<and> c \<noteq> CHR 0x0D) path then Some E_Options
      else None)"

definition preflight_response :: HttpResponse where
  "preflight_response = \<lparr> rs_status = 204,
     rs_headers = [(''Access-Control-Allow-Methods'', ''GET, POST, OPTIONS''), (''Access-Control-Allow-Headers'', ''Content-Type'')],
     rs_content = No_Content \<rparr>"

text \<open>The error handler fills a response without content; an exception of a handler is answered with its text.\<close>

definition error_handler :: "HttpRequest \<Rightarrow> HttpResponse \<Rightarrow> HttpResponse" where
  "error_handler req res =
     (if rs_content res \<noteq> No_Content then res
      else res\<lparr> rs_content := Json_Content
        (if rs_status res = 404 then make_error_response HS_NOT_FOUND (''Route not found: '' @ hr_method req @ '' '' @ hr_path req)
         else if rs_status res = 400 then make_error_response HS_INVALID_ARGUMENT ''Bad request''
         else make_error_response HS_INTERNAL ''Internal server error'') \<rparr>)"

definition exception_handler :: "string \<Rightarrow> HttpResponse" where
  "exception_handler msg = send_error HS_INTERNAL msg"

section \<open>Which requests pass\<close>

lemma byte_inject [simp]: "byte x = byte y \<longleftrightarrow> x = y"
proof
  assume "byte x = byte y"
  then have "unat (byte x) = unat (byte y)" by simp
  then have "of_char x = (of_char y :: nat)" by (simp add: byte_def unat_of_nat of_char_mod_256)
  then show "x = y" by simp
qed simp

lemma or_eq_0: "a OR b = 0 \<longleftrightarrow> a = 0 \<and> b = (0 :: u8)"
  by (auto simp: bit_eq_iff bit_simps)

lemma xor_eq_0: "a XOR b = 0 \<longleftrightarrow> a = (b :: u8)"
  by (auto simp: bit_eq_iff bit_simps)

lemma difference_zero: "length a = length b \<Longrightarrow> difference d a b = 0 \<longleftrightarrow> d = 0 \<and> a = b"
  by (induction d a b rule: difference.induct) (auto simp: or_eq_0 xor_eq_0)

lemma constant_time_equals_iff [simp]: "constant_time_equals a b \<longleftrightarrow> a = b"
  by (auto simp: constant_time_equals_def difference_zero)

lemma starts_with_iff: "starts_with s p \<longleftrightarrow> (\<exists>t. s = p @ t)"
  by (metis starts_with_def append_eq_conv_conj append_take_drop_id)

lemma strip_iff: "length p < length h \<and> take (length p) h = p \<and> drop (length p) h = t \<longleftrightarrow> t \<noteq> [] \<and> h = p @ t"
  by (metis append_eq_conv_conj append_take_drop_id drop_eq_Nil linorder_not_less)

lemma authorize_iff:
  "authorize enabled exempt token addr hdr \<longleftrightarrow>
   \<not> enabled \<or> exempt \<and> is_loopback addr \<or> token \<noteq> [] \<and> hdr = kPrefix @ token"
  using strip_iff [of kPrefix hdr token] by (auto simp: authorize_def)

text \<open>What a list entry stands for: every origin, one origin, or a pattern with its first star for any text.\<close>

definition entry_covers :: "string \<Rightarrow> string \<Rightarrow> bool" where
  "entry_covers entry origin \<longleftrightarrow> entry = ''*'' \<or> entry = origin \<and> CHR ''*'' \<notin> set entry \<or>
     (\<exists>a b m. entry = a @ ''*'' @ b \<and> CHR ''*'' \<notin> set a \<and> origin = a @ m @ b)"

lemma find_char_simps [simp]:
  "find_char c [] = None"
  "find_char c (d # s) = (if d = c then Some 0 else map_option Suc (find_char c s))"
  by (simp_all add: find_char_def Let_def)

lemma find_char_None [simp]: "find_char c s = None \<longleftrightarrow> c \<notin> set s"
  by (induction s) auto

lemma find_char_Some: "find_char c s = Some i \<Longrightarrow> s = take i s @ c # drop (Suc i) s \<and> c \<notin> set (take i s)"
  by (induction s arbitrary: i) (auto split: if_splits)

lemma find_char_append: "c \<notin> set a \<Longrightarrow> find_char c (a @ c # b) = Some (length a)"
  by (induction a) auto

lemma around_iff:
  "(length o' \<ge> length a + length b \<and> take (length a) o' = a \<and> drop (length o' - length b) o' = b) \<longleftrightarrow> (\<exists>m. o' = a @ m @ b)"
proof
  assume *: "length o' \<ge> length a + length b \<and> take (length a) o' = a \<and> drop (length o' - length b) o' = b"
  define m where "m = take (length o' - length a - length b) (drop (length a) o')"
  have "drop (length o' - length a - length b) (drop (length a) o') = b"
    using * by (simp add: add.commute)
  then have "drop (length a) o' = m @ b" unfolding m_def by (metis append_take_drop_id)
  then have "o' = a @ m @ b" using * by (metis append_take_drop_id)
  then show "\<exists>m. o' = a @ m @ b" ..
qed auto

lemma origin_admitted_iff: "origin_admitted origin entry \<longleftrightarrow> entry_covers entry origin"
proof (cases "find_char CHR ''*'' entry")
  case None
  then have "CHR ''*'' \<notin> set entry" by simp
  moreover from this have "entry \<noteq> a @ ''*'' @ b" for a b by (metis append_Cons in_set_conv_decomp)
  moreover from this [of "[]" "[]"] have "entry \<noteq> ''*''" by simp
  ultimately show ?thesis unfolding origin_admitted_def None option.case entry_covers_def by (simp only: if_False simp_thms ex_simps)
next
  case (Some i)
  let ?a = "take i entry" and ?b = "drop (Suc i) entry"
  have e: "entry = ?a @ CHR ''*'' # ?b" and a: "CHR ''*'' \<notin> set ?a" using find_char_Some [OF Some] by auto
  have decomp: "(\<exists>a b m. entry = a @ ''*'' @ b \<and> CHR ''*'' \<notin> set a \<and> origin = a @ m @ b) \<longleftrightarrow> (\<exists>m. origin = ?a @ m @ ?b)"
  proof
    assume "\<exists>a b m. entry = a @ ''*'' @ b \<and> CHR ''*'' \<notin> set a \<and> origin = a @ m @ b"
    then obtain a b m where *: "entry = a @ CHR ''*'' # b" "CHR ''*'' \<notin> set a" "origin = a @ m @ b" by auto
    then have "i = length a" using Some find_char_append by simp
    then show "\<exists>m. origin = ?a @ m @ ?b" using * by auto
  next
    assume "\<exists>m. origin = ?a @ m @ ?b"
    then show "\<exists>a b m. entry = a @ ''*'' @ b \<and> CHR ''*'' \<notin> set a \<and> origin = a @ m @ b" using e a by auto
  qed
  have star: "CHR ''*'' \<in> set entry" using e by (metis in_set_conv_decomp)
  show ?thesis
  proof (cases "entry = ''*''")
    case True
    then show ?thesis by (simp add: origin_admitted_def entry_covers_def)
  next
    case False
    have "origin_admitted origin entry \<longleftrightarrow>
        length origin \<ge> length ?a + length ?b \<and> take (length ?a) origin = ?a \<and> drop (length origin - length ?b) origin = ?b"
      unfolding origin_admitted_def Some option.case Let_def by (simp only: False if_False Suc_eq_plus1 linorder_not_less if_bool_eq_conj) auto
    also have "\<dots> \<longleftrightarrow> (\<exists>m. origin = ?a @ m @ ?b)" by (rule around_iff)
    also have "\<dots> \<longleftrightarrow> entry_covers entry origin" unfolding entry_covers_def decomp using False star by simp
    finally show ?thesis .
  qed
qed

lemma allowed_origin_entry_None: "allowed_origin_entry entries origin = None \<longleftrightarrow> \<not> list_ex (\<lambda>e. entry_covers e origin) entries"
  by (auto simp: allowed_origin_entry_def find_None_iff origin_admitted_iff list_ex_iff)

lemma guards_pass:
  "(if a \<and> \<not> h then Some x else if w \<and> f \<and> g = None then Some y else if w \<and> b \<and> m \<noteq> n then Some z else if u then None else Some v) = None \<longleftrightarrow>
   (a \<longrightarrow> h) \<and> (w \<longrightarrow> \<not> (f \<and> g = None) \<and> (b \<longrightarrow> m = n)) \<and> u"
  by auto

text \<open>C32. Which requests pass the guard. A request reaches its handler exactly when the following hold. With authentication off and
  no insecure bind allowed, its \<open>Host\<close>, if it has one, names the loopback host or the address the server is bound to. A POST
  under \<^verbatim>\<open>/v0/\<close> that carries an \<open>Origin\<close> comes from an origin an entry of the allowlist covers, and one that declares a body
  declares it as JSON. With authentication on it comes from the loopback address while that is exempt, or it presents exactly
  the configured token, which is not empty.\<close>

theorem guard_exact:
  "pre_routing cfg req = None \<longleftrightarrow>
     (\<not> ht_auth_enabled cfg \<and> \<not> ht_allow_insecure_bind cfg \<longrightarrow>
        header_value req ''Host'' = [] \<or>
        host_name (header_value req ''Host'') \<in> {''localhost'', ''127.0.0.1'', ''::1'', host_name (ht_bind cfg)}) \<and>
     (hr_method req = ''POST'' \<and> (\<exists>rest. hr_path req = ''/v0/'' @ rest) \<longrightarrow>
        (\<forall>origin. hr_header req ''Origin'' = Some origin \<longrightarrow> list_ex (\<lambda>e. entry_covers e origin) (ht_cors_allowed_origins cfg)) \<and>
        (header_value req ''Content-Length'' \<notin> {[], ''0''} \<or> hr_header req ''Transfer-Encoding'' \<noteq> None \<longrightarrow>
           media_type (header_value req ''Content-Type'') = ''application/json'')) \<and>
     (ht_auth_enabled cfg \<longrightarrow>
        ht_auth_exempt_loopback cfg \<and> is_loopback (hr_remote_addr req) \<or>
        ht_auth_token cfg \<noteq> [] \<and> header_value req ''Authorization'' = ''Bearer '' @ ht_auth_token cfg)"
proof -
  let ?host = "host_allowed (header_value req ''Host'') (ht_bind cfg)"
  let ?api_post = "hr_method req = ''POST'' \<and> starts_with (hr_path req) ''/v0/''"
  let ?foreign = "has_header req ''Origin'' \<and> allowed_origin_entry (ht_cors_allowed_origins cfg) (header_value req ''Origin'') = None"
  let ?body = "header_value req ''Content-Length'' \<noteq> [] \<and> header_value req ''Content-Length'' \<noteq> ''0'' \<or> has_header req ''Transfer-Encoding''"
  have pass: "pre_routing cfg req = None \<longleftrightarrow>
      (\<not> ht_auth_enabled cfg \<and> \<not> ht_allow_insecure_bind cfg \<longrightarrow> ?host) \<and>
      (?api_post \<longrightarrow> \<not> (?foreign) \<and> (?body \<longrightarrow> media_type (header_value req ''Content-Type'') = ''application/json'')) \<and>
      authorize (ht_auth_enabled cfg) (ht_auth_exempt_loopback cfg) (ht_auth_token cfg) (hr_remote_addr req) (header_value req ''Authorization'')"
    unfolding pre_routing_def Let_def by (rule guards_pass)
  have host: "?host \<longleftrightarrow> header_value req ''Host'' = [] \<or>
      host_name (header_value req ''Host'') \<in> {''localhost'', ''127.0.0.1'', ''::1'', host_name (ht_bind cfg)}"
    unfolding host_allowed_def Let_def by simp
  have foreign: "\<not> (?foreign) \<longleftrightarrow>
      (\<forall>origin. hr_header req ''Origin'' = Some origin \<longrightarrow> list_ex (\<lambda>e. entry_covers e origin) (ht_cors_allowed_origins cfg))"
    by (cases "hr_header req ''Origin''") (simp_all add: has_header_def header_value_def allowed_origin_entry_None)
  have body: "(?body) \<longleftrightarrow> header_value req ''Content-Length'' \<notin> {[], ''0''} \<or> hr_header req ''Transfer-Encoding'' \<noteq> None"
    by (simp add: has_header_def)
  have auth: "authorize e x t r h \<longleftrightarrow> (e \<longrightarrow> x \<and> is_loopback r \<or> t \<noteq> [] \<and> h = ''Bearer '' @ t)" for e x t r h
    by (simp add: authorize_iff kPrefix_def)
  show ?thesis unfolding pass host foreign body auth starts_with_iff ..
qed

definition demo_http :: HttpConfig where
  "demo_http = \<lparr> ht_enabled = True, ht_bind = ''0.0.0.0'', ht_port = 8080, ht_cors_allowed_origins = [''https://*.lab''],
     ht_cors_allow_credentials = False, ht_thread_pool_size = 40, ht_auth_enabled = True, ht_auth_token = ''s3'',
     ht_auth_exempt_loopback = False, ht_allow_insecure_bind = False, ht_tls_cert_path = [], ht_tls_key_path = [] \<rparr>"

definition demo_post :: "string \<Rightarrow> string \<Rightarrow> HttpRequest" where
  "demo_post origin token = \<lparr> hr_method = ''POST'', hr_path = ''/v0/estop'', hr_remote_addr = ''10.0.0.9'',
     hr_header = map_of [(''Origin'', origin), (''Content-Length'', ''2''), (''Content-Type'', ''Application/JSON; charset=utf-8''),
       (''Authorization'', ''Bearer '' @ token)], hr_params = (\<lambda>_. []), hr_body = ''{}'' \<rparr>"

theorem guard_exact_witness:
  "pre_routing demo_http (demo_post ''https://ui.lab'' ''s3'') = None \<and> pre_routing demo_http (demo_post ''https://ui.lab'' ''s4'') \<noteq> None \<and>
   pre_routing demo_http (demo_post ''https://ui.lab.evil'' ''s3'') \<noteq> None"
proof -
  have fits: "entry_covers ''https://*.lab'' ''https://ui.lab''"
    unfolding entry_covers_def
    by (intro disjI2 exI [of _ "''https://''"] exI [of _ "''.lab''"] exI [of _ "''ui''"]) simp
  have foreign: "\<not> entry_covers ''https://*.lab'' ''https://ui.lab.evil''"
    unfolding origin_admitted_iff [symmetric] by code_simp
  have m: "media_type ''Application/JSON; charset=utf-8'' = ''application/json''" by code_simp
  have path: "\<exists>rest. ''/v0/estop'' = ''/v0/'' @ rest" by (intro exI [of _ "''estop''"]) simp
  have "pre_routing demo_http (demo_post ''https://ui.lab'' ''s3'') = None"
    unfolding guard_exact using fits m by (simp add: demo_http_def demo_post_def header_value_def)
  moreover have "pre_routing demo_http (demo_post ''https://ui.lab'' ''s4'') \<noteq> None"
    unfolding guard_exact by (simp add: demo_http_def demo_post_def header_value_def)
  moreover have "pre_routing demo_http (demo_post ''https://ui.lab.evil'' ''s3'') \<noteq> None"
    unfolding guard_exact using foreign path by (simp add: demo_http_def demo_post_def header_value_def)
  ultimately show ?thesis by simp
qed

end
