(* ===== verification/Http_Handlers.thy ===== *)
theory Http_Handlers
  imports Http_Guard Http_Codec Line_Protocol Run_Journal Runtime_Hooks
begin

text \<open>
  The handlers of the HTTP interface that operate on devices, modes, the stop, parameters and runs (\<^verbatim>\<open>http/handlers\<close>). A handler
  that only reads is a function to a response; one that acts also returns the parts it acted on. \<open>serve_post\<close> composes the
  guard, the routes and the acting handlers. A text the code takes from an error is a function of that error in
  \<open>HttpTexts\<close>. The branch for too few captures of a route is left out: the routes of \<open>find_route\<close> have them.
\<close>

section \<open>Texts\<close>

record HttpTexts =
  tx_parse :: "string \<Rightarrow> string"
  tx_convert :: "json \<Rightarrow> string"
  tx_decode :: "decode_error \<Rightarrow> string"
  tx_call :: "call_error option \<Rightarrow> string"
  tx_action :: "ladder_error \<Rightarrow> string"
  tx_param :: "param_error \<Rightarrow> string"
  tx_save :: string
  tx_open :: "OpenResult \<Rightarrow> string"
  tx_close :: "CloseResult \<Rightarrow> string"
  tx_event :: "AppendEventResult \<Rightarrow> string"

definition quote_char :: string where
  "quote_char = [CHR 0x27]"

definition ok_status :: "string \<times> json" where
  "ok_status = (''status'', make_status HS_OK [])"

definition invalid_json :: "HttpTexts \<Rightarrow> HttpRequest \<Rightarrow> HttpResponse" where
  "invalid_json tx req = send_error HS_INVALID_ARGUMENT (''Invalid JSON: '' @ tx_parse tx (hr_body req))"

definition parse_body :: "HttpJson \<Rightarrow> HttpRequest \<Rightarrow> json option" where
  "parse_body lib req = jl_parse (hj_lib lib) (hr_body req)"

section \<open>Calls\<close>

definition call_status :: "StatusCode \<Rightarrow> HttpStatus" where
  "call_status code =
     (case code of
        CODE_INVALID_ARGUMENT \<Rightarrow> HS_INVALID_ARGUMENT
      | CODE_OUT_OF_RANGE \<Rightarrow> HS_INVALID_ARGUMENT
      | CODE_NOT_FOUND \<Rightarrow> HS_NOT_FOUND
      | CODE_FAILED_PRECONDITION \<Rightarrow> HS_FAILED_PRECONDITION
      | CODE_UNAVAILABLE \<Rightarrow> HS_UNAVAILABLE
      | CODE_RESOURCE_EXHAUSTED \<Rightarrow> HS_UNAVAILABLE
      | CODE_DEADLINE_EXCEEDED \<Rightarrow> HS_DEADLINE_EXCEEDED
      | _ \<Rightarrow> HS_INTERNAL)"

definition http_call_request :: "call_body \<Rightarrow> CallRequest" where
  "http_call_request body = \<lparr> rq_device_handle = cb_provider_id body @ ''/'' @ cb_device_id body, rq_function_id = cb_function_id body,
     rq_function_name = [], rq_args = cb_args body, rq_is_automated = False, rq_is_behavior_tree = False, rq_safe_state = False,
     rq_fault_entry_hook = False \<rparr>"

definition handle_post_call :: "HttpTexts \<Rightarrow> HttpJson \<Rightarrow> (nat \<Rightarrow> RouterEnv) \<Rightarrow> HttpRequest \<Rightarrow> LadderState \<Rightarrow> HttpResponse \<times> LadderState" where
  "handle_post_call tx lib env req ls =
     (case parse_body lib req of
        None \<Rightarrow> (invalid_json tx req, ls)
      | Some request_json \<Rightarrow>
          (case decode_call_request lib request_json of
             Inl e \<Rightarrow> (send_error HS_INVALID_ARGUMENT (tx_decode tx e), ls)
           | Inr body \<Rightarrow>
               (let (result, ls) = route env (http_call_request body) ls in
                if \<not> cr_success result
                then (send_error (call_status (cr_status_code result)) (tx_call tx (cr_error result)), ls)
                else (send_json HS_OK (json_object
                       [ok_status, (''provider_id'', JString (cb_provider_id body)), (''device_id'', JString (cb_device_id body)),
                        (''function_id'', JInteger (uint (cb_function_id body))), (''post_call_poll_triggered'', JBool True)]), ls))))"

section \<open>Devices and state\<close>

definition handle_get_devices :: "DeviceRegistry \<Rightarrow> HttpResponse" where
  "handle_get_devices registry =
     send_json HS_OK (json_object [ok_status, (''devices'', JArray (map encode_device_info (get_all_devices registry)))])"

definition handle_get_device_capabilities :: "DeviceRegistry \<Rightarrow> string \<Rightarrow> string \<Rightarrow> HttpResponse" where
  "handle_get_device_capabilities registry provider_id device_id =
     (case get_device_copy registry provider_id device_id of
        None \<Rightarrow> send_error HS_NOT_FOUND (''Device not found: '' @ provider_id @ ''/'' @ device_id)
      | Some device \<Rightarrow> send_json HS_OK (json_object
          [ok_status, (''provider_id'', JString provider_id), (''device_id'', JString device_id),
           (''capabilities'', encode_capabilities (rd_capabilities device))]))"

text \<open>\<open>number\<close>: the numbers of the quality enumeration; \<open>clock\<close>: the clock at each device and signal encoded.\<close>

definition handle_get_state ::
  "(ProtoQuality \<Rightarrow> int) \<Rightarrow> time_ns \<Rightarrow> (string \<Rightarrow> string \<Rightarrow> time_ns) \<Rightarrow> DeviceRegistry \<Rightarrow> StateCache \<Rightarrow> HttpResponse" where
  "handle_get_state number now clock registry cache =
     send_json HS_OK (json_object
       [ok_status, (''generated_at_epoch_ms'', JInteger (ns_to_ms now)),
        (''devices'', JArray (List.map_filter (\<lambda>device.
           map_option (\<lambda>state. encode_device_state number (clock (get_handle device)) state (rd_provider_id device) (rd_device_id device))
             (get_device_state cache (get_handle device))) (get_all_devices registry)))])"

definition handle_get_device_state ::
  "(ProtoQuality \<Rightarrow> int) \<Rightarrow> time_ns \<Rightarrow> (string \<Rightarrow> time_ns) \<Rightarrow> DeviceRegistry \<Rightarrow> StateCache \<Rightarrow> string \<Rightarrow> string \<Rightarrow> HttpRequest \<Rightarrow> HttpResponse" where
  "handle_get_device_state number now clock registry cache provider_id device_id req =
     (case get_device_copy registry provider_id device_id of
        None \<Rightarrow> send_error HS_NOT_FOUND (''Device not found: '' @ provider_id @ ''/'' @ device_id)
      | Some device \<Rightarrow>
          (case get_device_state cache (get_handle device) of
             None \<Rightarrow> send_error HS_UNAVAILABLE ''Device state not available''
           | Some state \<Rightarrow>
               (let filter_signals = hr_params req ''signal_id'';
                    signals = filter (\<lambda>(signal_id, cached). filter_signals = [] \<or> signal_id \<in> set filter_signals) (ds_signals state) in
                send_json HS_OK (json_object
                  [ok_status, (''generated_at_epoch_ms'', JInteger (ns_to_ms now)), (''provider_id'', JString provider_id),
                   (''device_id'', JString device_id), (''quality'', JString (device_quality number state signals)),
                   (''values'', encode_signal_values clock signals)]))))"

section \<open>Mode\<close>

definition no_automation :: HttpResponse where
  "no_automation = send_error HS_UNAVAILABLE ''Automation layer not enabled''"

definition mode_response :: "ModeManager \<Rightarrow> HttpResponse" where
  "mode_response mm = send_json HS_OK (json_object [ok_status, (''mode'', JString (mode_to_string (current_mode mm)))])"

definition handle_get_mode :: "ModeManager option \<Rightarrow> HttpResponse" where
  "handle_get_mode mode_manager = (case mode_manager of None \<Rightarrow> no_automation | Some mm \<Rightarrow> mode_response mm)"

text \<open>\<open>enabled\<close>: there is a mode manager.\<close>

definition handle_post_mode ::
  "HttpTexts \<Rightarrow> HttpJson \<Rightarrow> TransitionEnv \<Rightarrow> ModeTransitionHooksConfig \<Rightarrow> bool \<Rightarrow> HttpRequest \<Rightarrow> LadderState \<times> ModeWorld \<Rightarrow>
   HttpResponse \<times> LadderState \<times> ModeWorld" where
  "handle_post_mode tx lib te hooks enabled req lw =
     (if \<not> enabled then (no_automation, lw)
      else case parse_body lib req of
        None \<Rightarrow> (invalid_json tx req, lw)
      | Some body \<Rightarrow>
          (case string_member (members body) ''mode'' of
             None \<Rightarrow> (send_error HS_INVALID_ARGUMENT
               (''Missing or invalid '' @ quote_char @ ''mode'' @ quote_char @ '' field (expected string: MANUAL, AUTO, IDLE, or FAULT)''), lw)
           | Some mode_str \<Rightarrow>
               (case string_to_mode mode_str of
                  None \<Rightarrow> (send_error HS_INVALID_ARGUMENT
                    (''Invalid mode: '' @ quote_char @ mode_str @ quote_char @ '' (must be MANUAL, AUTO, IDLE, or FAULT)''), lw)
                | Some new_mode \<Rightarrow>
                    (let (err, ls, w) = change_mode te hooks new_mode lw in
                     case err of
                       Some e \<Rightarrow> (send_error HS_FAILED_PRECONDITION e, ls, w)
                     | None \<Rightarrow> (mode_response (mw_mode w), ls, w)))))"

section \<open>The stop\<close>

definition no_controller :: HttpResponse where
  "no_controller = send_error HS_UNAVAILABLE ''Safe-state controller not available''"

definition action_json :: "HttpTexts \<Rightarrow> CallOutcome \<Rightarrow> json" where
  "action_json tx action = json_object
     ([(''device_handle'', JString (co_device_handle action)), (''function'', JString (co_function action)),
       (''success'', JBool (co_success action))] @
      (case co_error action of None \<Rightarrow> [] | Some e \<Rightarrow> if tx_action tx e = [] then [] else [(''error'', JString (tx_action tx e))]) @
      (if co_success action then [] else [(''cause'', JString (failure_cause_to_string (co_cause action)))]))"

definition estop_response :: "HttpTexts \<Rightarrow> EstopResult \<Rightarrow> HttpResponse" where
  "estop_response tx result = send_json HS_OK (json_object
     ([ok_status, (''latched'', JBool True), (''software_safe_state'', JString (safe_state_kind_to_string (es_kind result))),
       (''actions'', JArray (map (action_json tx) (es_actions result))),
       (''safe_state_achieved'', JBool (es_safe_state_achieved result))] @
      (if es_kind result = SK_None
       then [(''warning'', JString ''No software safe-state declared; the hardware e-stop is the only safe-state path'')] else []) @
      (if es_fault_requested result then [(''fault_engaged'', JBool (es_fault_ok result))] else [])))"

definition estop_reason :: "HttpJson \<Rightarrow> HttpRequest \<Rightarrow> string" where
  "estop_reason lib req =
     (if hr_body req = [] then ''operator''
      else case parse_body lib req of
        None \<Rightarrow> ''operator''
      | Some body \<Rightarrow> (case string_member (members body) ''reason'' of None \<Rightarrow> ''operator'' | Some reason \<Rightarrow> reason))"

text \<open>An exception of \<open>trigger\<close> is answered by the exception handler of the server. \<open>attached\<close>: there is a controller.\<close>

definition handle_post_estop ::
  "HttpTexts \<Rightarrow> HttpJson \<Rightarrow> EstopEnv \<Rightarrow> (nat \<Rightarrow> RouterEnv) \<Rightarrow> SafetyConfig \<Rightarrow> 'w fault_entry \<Rightarrow> bool \<Rightarrow> HttpRequest \<Rightarrow>
   SafeStateController \<times> files \<Rightarrow> LadderState \<times> 'w \<Rightarrow> HttpResponse \<times> (SafeStateController \<times> files) \<times> LadderState \<times> 'w" where
  "handle_post_estop tx lib env renv safety set_fault attached req cf lw =
     (if \<not> attached then (no_controller, cf, lw)
      else let (result, cf, lw) = trigger env renv safety set_fault (estop_reason lib req) cf lw in
        case result of
          None \<Rightarrow> (exception_handler (tx_save tx), cf, lw)
        | Some result \<Rightarrow> (estop_response tx result, cf, lw))"

definition handle_post_estop_clear ::
  "EstopEnv \<Rightarrow> string option \<Rightarrow> bool \<Rightarrow> SafeStateController \<times> files \<Rightarrow> HttpResponse \<times> SafeStateController \<times> files" where
  "handle_post_estop_clear env refusal attached cf =
     (if \<not> attached then (no_controller, cf)
      else let (refused, cf) = clear_latch env refusal cf in
        case refused of
          Some why \<Rightarrow> (send_error HS_FAILED_PRECONDITION why, cf)
        | None \<Rightarrow> (send_json HS_OK (json_object [ok_status, (''latched'', JBool False)]), cf))"

section \<open>Parameters\<close>

fun parameter_json :: "ParameterValue \<Rightarrow> json" where
  "parameter_json (PV_Double d) = JFloat d"
| "parameter_json (PV_Int64 i) = JInteger (sint i)"
| "parameter_json (PV_Bool b) = JBool b"
| "parameter_json (PV_String s) = JString s"

definition no_parameters :: HttpResponse where
  "no_parameters = send_error HS_UNAVAILABLE ''Parameter system not enabled''"

definition parameter_def_json :: "string \<times> ParameterDef \<Rightarrow> json" where
  "parameter_def_json entry =
     (let (name, d) = entry in json_object
      ([(''name'', JString name), (''type'', JString (parameter_type_to_string (pm_type d))), (''value'', parameter_json (pm_value d))] @
       bound_member JFloat ''min'' (pm_min d) @ bound_member JFloat ''max'' (pm_max d) @
       (case pm_allowed_values d of Some allowed \<Rightarrow> if allowed = [] then [] else [(''allowed_values'', string_array allowed)] | None \<Rightarrow> []) @
       [(''source'', JString (if pm_set_by_operator d then ''operator'' else ''default''))]))"

definition handle_get_parameters :: "ParameterManager option \<Rightarrow> HttpResponse" where
  "handle_get_parameters parameter_manager =
     (case parameter_manager of
        None \<Rightarrow> no_parameters
      | Some pm \<Rightarrow> send_json HS_OK (json_object [ok_status, (''parameters'', JArray (map parameter_def_json (get_all_definitions pm)))]))"

fun is_number :: "json \<Rightarrow> bool" where
  "is_number (JInteger i) = True"
| "is_number (JFloat f) = True"
| "is_number _ = False"

definition converted :: "HttpTexts \<Rightarrow> ('a \<Rightarrow> ParameterValue) \<Rightarrow> json \<Rightarrow> 'a option \<Rightarrow> string + ParameterValue" where
  "converted tx wrap v r = (case r of None \<Rightarrow> Inl (tx_convert tx v) | Some x \<Rightarrow> Inr (wrap x))"

definition parameter_from_json :: "HttpTexts \<Rightarrow> HttpJson \<Rightarrow> ParameterType \<Rightarrow> json \<Rightarrow> string + ParameterValue" where
  "parameter_from_json tx lib type v =
     (case type of
        PT_DOUBLE \<Rightarrow> if \<not> is_number v then Inl ''Expected number for double parameter'' else converted tx PV_Double v (hj_f64 lib v)
      | PT_INT64 \<Rightarrow> (case v of JInteger i \<Rightarrow> converted tx PV_Int64 v (hj_i64 lib v) | _ \<Rightarrow> Inl ''Expected integer for int64 parameter'')
      | PT_BOOL \<Rightarrow> (case v of JBool b \<Rightarrow> Inr (PV_Bool b) | _ \<Rightarrow> Inl ''Expected boolean for bool parameter'')
      | PT_STRING \<Rightarrow> (case v of JString s \<Rightarrow> Inr (PV_String s) | _ \<Rightarrow> Inl ''Expected string for string parameter''))"

type_synonym parameter_change = "string \<times> ParameterValue \<times> ParameterValue"

definition handle_post_parameters ::
  "HttpTexts \<Rightarrow> HttpJson \<Rightarrow> HttpRequest \<Rightarrow> ParameterManager option \<Rightarrow> HttpResponse \<times> parameter_change option \<times> ParameterManager option" where
  "handle_post_parameters tx lib req parameter_manager =
     (case parameter_manager of
        None \<Rightarrow> (no_parameters, None, None)
      | Some pm \<Rightarrow>
          (let stop = (\<lambda>res. (res, None, Some pm)) in
           case parse_body lib req of
             None \<Rightarrow> stop (invalid_json tx req)
           | Some body \<Rightarrow>
               (case string_member (members body) ''name'' of
                  None \<Rightarrow> stop (send_error HS_INVALID_ARGUMENT (''Missing or invalid '' @ quote_char @ ''name'' @ quote_char @ '' field (expected string)''))
                | Some param_name \<Rightarrow>
                    (case map_of (members body) ''value'' of
                       None \<Rightarrow> stop (send_error HS_INVALID_ARGUMENT (''Missing '' @ quote_char @ ''value'' @ quote_char @ '' field''))
                     | Some v \<Rightarrow>
                         (case get_definition pm param_name of
                            None \<Rightarrow> stop (send_error HS_NOT_FOUND (''Parameter '' @ quote_char @ param_name @ quote_char @ '' not found''))
                          | Some d \<Rightarrow>
                              (case parameter_from_json tx lib (pm_type d) v of
                                 Inl what \<Rightarrow> stop (send_error HS_INVALID_ARGUMENT (''Invalid value: '' @ what))
                               | Inr new_value \<Rightarrow>
                                   (case set_parameter param_name new_value pm of
                                      (Some e, _, pm') \<Rightarrow> (send_error HS_INVALID_ARGUMENT (tx_param tx e), None, Some pm')
                                    | (None, change, pm') \<Rightarrow>
                                        (send_json HS_OK (json_object [ok_status, (''parameter'', json_object
                                           [(''name'', JString param_name), (''value'', parameter_json (the (get_parameter pm' param_name)))])]),
                                         change, Some pm'))))))))"

section \<open>Runs\<close>

definition no_runs :: HttpResponse where
  "no_runs = send_error HS_UNAVAILABLE ''Run registry not enabled''"

definition run_envelope :: "Run \<Rightarrow> HttpResponse" where
  "run_envelope run = send_json HS_OK (json_object [ok_status, (''run'', run_to_json run)])"

text \<open>An empty body is an empty object.\<close>

definition optional_body :: "HttpJson \<Rightarrow> HttpRequest \<Rightarrow> json option" where
  "optional_body lib req = (if hr_body req = [] then Some (JObject []) else parse_body lib req)"

definition object_member_or :: "json \<Rightarrow> string \<Rightarrow> json" where
  "object_member_or body key = (case map_of (members body) key of Some (JObject ms) \<Rightarrow> JObject ms | _ \<Rightarrow> JObject [])"

text \<open>\<open>loaded\<close>: the version of the engine's definition, \<open>None\<close> without an engine.\<close>

definition handle_post_runs ::
  "HttpTexts \<Rightarrow> HttpJson \<Rightarrow> OpenEnv \<Rightarrow> AutomationVersionRecord option \<Rightarrow> HttpRequest \<Rightarrow> RunJournal option \<times> Disk \<Rightarrow>
   HttpResponse \<times> RunJournal option \<times> Disk" where
  "handle_post_runs tx lib env loaded req jd =
     (case fst jd of
        None \<Rightarrow> (no_runs, jd)
      | Some j \<Rightarrow>
          (case optional_body lib req of
             None \<Rightarrow> (invalid_json tx req, jd)
           | Some body \<Rightarrow>
               (case label_from_open_request body of
                  Inl e \<Rightarrow> (send_error HS_INVALID_ARGUMENT e, jd)
                | Inr label \<Rightarrow>
                    (let spec = \<lparr> op_label = label, op_params = object_member_or body ''params'', op_tag_scope = tag_scope_from_json (members body) \<rparr>;
                         version = (case loaded of None \<Rightarrow> None | Some v \<Rightarrow> if av_engine_kind v = [] then None else Some v);
                         (result, j', disk') = open_run (hj_lib lib) env spec version (j, snd jd) in
                     (case result of Open_Ok run \<Rightarrow> run_envelope run | _ \<Rightarrow> send_error HS_FAILED_PRECONDITION (tx_open tx result), Some j', disk')))))"

definition close_reason_of :: "HttpTexts \<Rightarrow> HttpJson \<Rightarrow> HttpRequest \<Rightarrow> HttpResponse + CloseReason" where
  "close_reason_of tx lib req =
     (if hr_body req = [] then Inr OperatorStop
      else case parse_body lib req of
        None \<Rightarrow> Inl (invalid_json tx req)
      | Some body \<Rightarrow>
          (case string_member (members body) ''close_reason'' of
             None \<Rightarrow> Inr OperatorStop
           | Some s \<Rightarrow>
               (case close_reason_from_string s of
                  None \<Rightarrow> Inl (send_error HS_INVALID_ARGUMENT ''Invalid close_reason (expected operator_stop|completed|failed|superseded)'')
                | Some reason \<Rightarrow> Inr reason)))"

definition handle_post_run_close ::
  "HttpTexts \<Rightarrow> HttpJson \<Rightarrow> CloseEnv \<Rightarrow> string \<Rightarrow> HttpRequest \<Rightarrow> RunJournal option \<times> Disk \<Rightarrow> HttpResponse \<times> RunJournal option \<times> Disk" where
  "handle_post_run_close tx lib env run_id req jd =
     (case fst jd of
        None \<Rightarrow> (no_runs, jd)
      | Some j \<Rightarrow>
          (case close_reason_of tx lib req of
             Inl res \<Rightarrow> (res, jd)
           | Inr reason \<Rightarrow>
               (let (result, j', disk') = close_run (hj_lib lib) env run_id reason (j, snd jd) in
                (case result of Close_Ok run \<Rightarrow> run_envelope run | _ \<Rightarrow> send_error HS_NOT_FOUND (tx_close tx result), Some j', disk'))))"

definition parse_size :: "string \<Rightarrow> nat \<Rightarrow> nat" where
  "parse_size s fallback = (if s \<noteq> [] \<and> list_all is_digit s \<and> digits_value s < 2 ^ 64 then digits_value s else fallback)"

definition page_param :: "HttpRequest \<Rightarrow> string \<Rightarrow> nat \<Rightarrow> nat" where
  "page_param req name fallback = (case hr_params req name of [] \<Rightarrow> fallback | s # _ \<Rightarrow> parse_size s fallback)"

definition handle_get_runs :: "HttpRequest \<Rightarrow> RunJournal option \<Rightarrow> HttpResponse" where
  "handle_get_runs req journal =
     (case journal of
        None \<Rightarrow> no_runs
      | Some j \<Rightarrow>
          (let page = list_runs (min (page_param req ''limit'' 50) 200) (page_param req ''offset'' 0) j in
           send_json HS_OK (json_object [ok_status, (''runs'', JArray (map run_to_json page)), (''count'', JInteger (int (length page)))])))"

definition handle_get_run :: "string \<Rightarrow> RunJournal option \<Rightarrow> HttpResponse" where
  "handle_get_run run_id journal =
     (case journal of
        None \<Rightarrow> no_runs
      | Some j \<Rightarrow> (case get_run run_id j of None \<Rightarrow> send_error HS_NOT_FOUND (''Unknown run: '' @ run_id) | Some run \<Rightarrow> run_envelope run))"

definition occurred_at_of :: "HttpJson \<Rightarrow> json \<Rightarrow> u64" where
  "occurred_at_of lib body = (case unsigned_member (hj_lib lib) (members body) ''occurred_at_epoch_ms'' of None \<Rightarrow> 0 | Some t \<Rightarrow> t)"

definition handle_post_run_events ::
  "HttpTexts \<Rightarrow> HttpJson \<Rightarrow> AppendEnv \<Rightarrow> string \<Rightarrow> HttpRequest \<Rightarrow> RunJournal option \<times> Disk \<Rightarrow> HttpResponse \<times> RunJournal option \<times> Disk" where
  "handle_post_run_events tx lib env run_id req jd =
     (case fst jd of
        None \<Rightarrow> (no_runs, jd)
      | Some j \<Rightarrow>
          (case optional_body lib req of
             None \<Rightarrow> (invalid_json tx req, jd)
           | Some body \<Rightarrow>
               (case string_member (members body) ''type'' of
                  None \<Rightarrow> (send_error HS_INVALID_ARGUMENT (''marker requires a non-empty string '' @ quote_char @ ''type'' @ quote_char), jd)
                | Some type \<Rightarrow>
                    if type = [] then (send_error HS_INVALID_ARGUMENT (''marker requires a non-empty string '' @ quote_char @ ''type'' @ quote_char), jd)
                    else
                      (let (result, j', disk') = append_event (hj_lib lib) env run_id Annotation type (object_member_or body ''payload'')
                             (occurred_at_of lib body) (j, snd jd) in
                       (case result of
                          Event_Ok event \<Rightarrow> send_json HS_OK (json_object [ok_status, (''event'', run_event_to_json event)])
                        | _ \<Rightarrow> send_error (if get_run run_id j' \<noteq> None then HS_FAILED_PRECONDITION else HS_NOT_FOUND) (tx_event tx result),
                        Some j', disk')))))"

definition handle_get_run_events :: "HttpJson \<Rightarrow> string \<Rightarrow> HttpRequest \<Rightarrow> RunJournal option \<times> Disk \<Rightarrow> HttpResponse" where
  "handle_get_run_events lib run_id req jd =
     (case fst jd of
        None \<Rightarrow> no_runs
      | Some j \<Rightarrow>
          if get_run run_id j = None then send_error HS_NOT_FOUND (''Unknown run: '' @ run_id)
          else let events = list_events (hj_lib lib) run_id (min (page_param req ''limit'' 200) 1000) (page_param req ''offset'' 0) (j, snd jd) in
            send_json HS_OK (json_object [ok_status, (''events'', JArray (map run_event_to_json events)), (''count'', JInteger (int (length events)))]))"

section \<open>Serving a POST\<close>

text \<open>The parts a POST can act on, and what it reads.\<close>

record HttpWorld =
  hw_ladder :: LadderState
  hw_modes :: ModeWorld
  hw_stop :: "SafeStateController \<times> files"
  hw_params :: "ParameterManager option"
  hw_changes :: "parameter_change list"
  hw_runs :: "RunJournal option \<times> Disk"

record HttpSetup =
  hx_http :: HttpConfig
  hx_safety :: SafetyConfig
  hx_hooks :: ModeTransitionHooksConfig
  hx_has_modes :: bool
  hx_has_stop :: bool

record HttpEnv =
  hv_texts :: HttpTexts
  hv_json :: HttpJson
  hv_router :: "nat \<Rightarrow> RouterEnv"
  hv_mode :: TransitionEnv
  hv_fault :: "bool \<Rightarrow> TransitionEnv"
  hv_estop :: EstopEnv
  hv_refusal :: "string option"
  hv_open :: OpenEnv
  hv_close :: CloseEnv
  hv_append :: AppendEnv
  hv_loaded :: "AutomationVersionRecord option"

fun handle_post :: "HttpSetup \<Rightarrow> HttpEnv \<Rightarrow> endpoint \<Rightarrow> HttpRequest \<Rightarrow> HttpWorld \<Rightarrow> HttpResponse \<times> HttpWorld" where
  "handle_post st env E_Call req w =
     (let (res, ls) = handle_post_call (hv_texts env) (hv_json env) (hv_router env) req (hw_ladder w) in (res, w\<lparr> hw_ladder := ls \<rparr>))"
| "handle_post st env E_Post_Mode req w =
     (let (res, ls, m) = handle_post_mode (hv_texts env) (hv_json env) (hv_mode env) (hx_hooks st) (hx_has_modes st) req (hw_ladder w, hw_modes w)
      in (res, w\<lparr> hw_ladder := ls, hw_modes := m \<rparr>))"
| "handle_post st env E_Estop req w =
     (let (res, cf, ls, m) = handle_post_estop (hv_texts env) (hv_json env) (hv_estop env) (hv_router env) (hx_safety st)
            (enter_fault (hv_fault env) (hx_hooks st)) (hx_has_stop st) req (hw_stop w) (hw_ladder w, hw_modes w)
      in (res, w\<lparr> hw_stop := cf, hw_ladder := ls, hw_modes := m \<rparr>))"
| "handle_post st env E_Estop_Clear req w =
     (let (res, cf) = handle_post_estop_clear (hv_estop env) (hv_refusal env) (hx_has_stop st) (hw_stop w) in (res, w\<lparr> hw_stop := cf \<rparr>))"
| "handle_post st env E_Post_Parameters req w =
     (let (res, change, pm) = handle_post_parameters (hv_texts env) (hv_json env) req (hw_params w)
      in (res, w\<lparr> hw_params := pm, hw_changes := hw_changes w @ (case change of None \<Rightarrow> [] | Some c \<Rightarrow> [c]) \<rparr>))"
| "handle_post st env E_Post_Runs req w =
     (let (res, jd) = handle_post_runs (hv_texts env) (hv_json env) (hv_open env) (hv_loaded env) req (hw_runs w) in (res, w\<lparr> hw_runs := jd \<rparr>))"
| "handle_post st env (E_Run_Close run_id) req w =
     (let (res, jd) = handle_post_run_close (hv_texts env) (hv_json env) (hv_close env) run_id req (hw_runs w) in (res, w\<lparr> hw_runs := jd \<rparr>))"
| "handle_post st env (E_Post_Run_Events run_id) req w =
     (let (res, jd) = handle_post_run_events (hv_texts env) (hv_json env) (hv_append env) run_id req (hw_runs w) in (res, w\<lparr> hw_runs := jd \<rparr>))"
| "handle_post st env _ req w = (error_handler req \<lparr> rs_status = 404, rs_headers = [], rs_content = No_Content \<rparr>, w)"

definition serve_post :: "HttpSetup \<Rightarrow> HttpEnv \<Rightarrow> HttpRequest \<Rightarrow> HttpWorld \<Rightarrow> HttpResponse \<times> HttpWorld" where
  "serve_post st env req w =
     (let (res, w) =
        (case pre_routing (hx_http st) req of
           Some res \<Rightarrow> (res, w)
         | None \<Rightarrow>
             (case post_route (segments (hr_path req)) of
                None \<Rightarrow> (error_handler req \<lparr> rs_status = 404, rs_headers = [], rs_content = No_Content \<rparr>, w)
              | Some e \<Rightarrow> handle_post st env e req w)) in
      (post_routing (hx_http st) req res, w))"

fun serve_all :: "HttpSetup \<Rightarrow> (HttpEnv \<times> HttpRequest) list \<Rightarrow> HttpWorld \<Rightarrow> HttpResponse list \<times> HttpWorld" where
  "serve_all st [] w = ([], w)"
| "serve_all st ((env, req) # rest) w =
     (let (res, w) = serve_post st env req w; (rs, w) = serve_all st rest w in (res # rs, w))"

section \<open>The stop holds against every client\<close>

lemma post_routing_status [simp]: "rs_status (post_routing cfg req res) = rs_status res"
  by (simp add: post_routing_def split: option.splits)

text \<open>A request of a client never carries one of the marks that pass the gates of the router.\<close>

lemma http_call_request_plain:
  "\<not> rq_safe_state (http_call_request body)" "\<not> rq_fault_entry_hook (http_call_request body)" "\<not> rq_is_automated (http_call_request body)"
  by (simp_all add: http_call_request_def)

lemma handle_post_call_passive:
  assumes "\<And>n. re_latch_locked (env n) = Some (True, False)" and "handle_post_call tx lib env req ls = (res, ls')"
  shows "only_passive ls ls'"
  using assms(2) route_passive [of env ls, OF assms(1)] http_call_request_plain(1)
  by (auto simp: handle_post_call_def Let_def split: option.splits sum.splits prod.splits if_splits) (metis snd_conv)+

lemma handle_post_mode_passive:
  assumes "\<And>n. re_latch_locked (te_env te n) = Some (True, False)" and "handle_post_mode tx lib te hooks enabled req (ls, m) = (res, ls', m')"
  shows "only_passive ls ls'"
  using assms(2) change_mode_passive [of te hooks _ ls m, OF assms(1)]
  by (auto simp: handle_post_mode_def Let_def split: option.splits prod.splits if_splits)

text \<open>Every reading of the latch, by a call or by the hooks of a mode change, gives the controller as a client's thread sees it.\<close>

definition reads_latch :: "SafeStateController \<Rightarrow> HttpEnv \<Rightarrow> bool" where
  "reads_latch ec env \<longleftrightarrow> (\<forall>n. re_latch_locked (hv_router env n) = latch_of ec False) \<and> (\<forall>n. re_latch_locked (te_env (hv_mode env) n) = latch_of ec False)"

definition leaves_stop :: "HttpRequest \<Rightarrow> bool" where
  "leaves_stop req \<longleftrightarrow> post_route (segments (hr_path req)) \<notin> {Some E_Estop, Some E_Estop_Clear}"

lemma handle_post_latched:
  assumes "ec_latched (fst (hw_stop w))" "reads_latch (fst (hw_stop w)) env" "e \<noteq> E_Estop" "e \<noteq> E_Estop_Clear" "handle_post st env e req w = (res, w')"
  shows "hw_stop w' = hw_stop w \<and> only_passive (hw_ladder w) (hw_ladder w')"
proof -
  have r: "re_latch_locked (hv_router env n) = Some (True, False)" "re_latch_locked (te_env (hv_mode env) n) = Some (True, False)" for n
    using assms(1,2) by (simp_all add: reads_latch_def latch_of_def is_engaged_def admits_fault_entry_hooks_def)
  show ?thesis using assms(3-5) handle_post_call_passive [OF r(1)] handle_post_mode_passive [OF r(2)]
    by (cases e) (auto simp: Let_def split: prod.splits)
qed

lemma serve_post_latched:
  assumes "ec_latched (fst (hw_stop w))" "reads_latch (fst (hw_stop w)) env" "leaves_stop req" "serve_post st env req w = (res, w')"
  shows "hw_stop w' = hw_stop w \<and> only_passive (hw_ladder w) (hw_ladder w')"
  using assms(3,4) handle_post_latched [OF assms(1,2)]
  by (auto simp: serve_post_def leaves_stop_def Let_def split: option.splits prod.splits)

lemma serve_all_latched:
  "ec_latched (fst (hw_stop w)) \<Longrightarrow> list_all (\<lambda>(env, req). reads_latch (fst (hw_stop w)) env \<and> leaves_stop req) reqs \<Longrightarrow>
   serve_all st reqs w = (rs, w') \<Longrightarrow> hw_stop w' = hw_stop w \<and> only_passive (hw_ladder w) (hw_ladder w')"
proof (induction reqs arbitrary: w rs)
  case (Cons x reqs)
  obtain env req where x: "x = (env, req)" by (cases x)
  obtain res w1 where s: "serve_post st env req w = (res, w1)" by (cases "serve_post st env req w")
  obtain rs1 where rest: "serve_all st reqs w1 = (rs1, w')" using Cons.prems(3) by (auto simp: x s split: prod.splits)
  have one: "hw_stop w1 = hw_stop w" "only_passive (hw_ladder w) (hw_ladder w1)"
    using serve_post_latched [OF Cons.prems(1) _ _ s] Cons.prems(2) by (simp_all add: x)
  have "hw_stop w' = hw_stop w1" "only_passive (hw_ladder w1) (hw_ladder w')"
    using Cons.IH [OF _ _ rest] Cons.prems(1,2) one(1) by (simp_all add: x)
  then show ?case using one only_passive_trans by auto
qed simp

lemma trigger_latches:
  assumes "trigger env renv safety (enter_fault te hooks) reason cf (ls, m) = (result, cf', ls', m')"
  shows "ec_latched (fst cf')" and "(result = None) = fst (engage env reason cf)"
    and "result \<noteq> None \<Longrightarrow> ec_has_mode_manager (fst cf) \<Longrightarrow> current_mode (mw_mode m') = FAULT"
proof -
  obtain throws ec fs where en: "engage env reason cf = (throws, ec, fs)" by (metis prod_cases3)
  have eng: "ec_latched ec" and has: "ec_has_mode_manager ec = ec_has_mode_manager (fst cf)"
    using en by (auto simp: engage_def Let_def split: prod.splits option.splits)
  show "ec_latched (fst cf')" using assms en eng by (auto simp: trigger_def Let_def split: prod.splits if_splits)
  show "(result = None) = fst (engage env reason cf)" using assms en by (auto simp: trigger_def Let_def split: prod.splits if_splits)
  show "current_mode (mw_mode m') = FAULT" if "result \<noteq> None" "ec_has_mode_manager (fst cf)"
    using assms en has that change_to_fault(2)
    by (auto simp: trigger_def enter_fault_def Let_def split: prod.splits if_splits)
qed

lemma estop_route: "post_route (segments ''/v0/estop'') = Some E_Estop"
  by code_simp

text \<open>C7. The stop holds against every client. A POST to \<^verbatim>\<open>/v0/estop\<close> that passes the guard engages the latch whatever its body
  is, readable or not. It is answered 200, with the mode FAULT where there are modes, unless writing the latch record throws,
  which is answered 500. From then on no sequence of POSTs that neither clears nor repeats the stop, whatever guard,
  route, body and answers of providers it meets, releases the latch or gets a call of an actuating function sent. The calls read the
  latch as it then stands; a repeated stop would run the safe-state calls again.\<close>

theorem http_stop_holds:
  assumes "hx_has_stop st" and "pre_routing (hx_http st) req = None" and "hr_path req = ''/v0/estop''"
    and "serve_post st env req w = (res, w1)" and "serve_all st reqs w1 = (rs, w2)"
    and "list_all (\<lambda>(env, req). reads_latch (fst (hw_stop w1)) env \<and> leaves_stop req) reqs"
  shows "rs_status res = (if fst (engage (hv_estop env) (estop_reason (hv_json env) req) (hw_stop w)) then 500 else 200) \<and>
    (rs_status res = 200 \<and> ec_has_mode_manager (fst (hw_stop w)) \<longrightarrow> current_mode (mw_mode (hw_modes w1)) = FAULT) \<and>
    is_engaged (fst (hw_stop w2)) \<and> only_passive (hw_ladder w1) (hw_ladder w2)"
proof -
  obtain result cf ls m where t: "trigger (hv_estop env) (hv_router env) (hx_safety st) (enter_fault (hv_fault env) (hx_hooks st))
      (estop_reason (hv_json env) req) (hw_stop w) (hw_ladder w, hw_modes w) = (result, cf, ls, m)" by (metis prod_cases4)
  have w1: "hw_stop w1 = cf" "hw_modes w1 = m" and res: "rs_status res = (if result = None then 500 else 200)"
  proof -
    have rt: "post_route (segments (hr_path req)) = Some E_Estop" by (simp only: assms(3) estop_route)
    from assms(1,4) show "hw_stop w1 = cf" "hw_modes w1 = m" "rs_status res = (if result = None then 500 else 200)"
      unfolding serve_post_def assms(2) rt option.case
      by (auto simp: handle_post_estop_def t Let_def exception_handler_def send_error_def send_json_def estop_response_def split: option.splits)
  qed
  have "ec_latched (fst (hw_stop w1))" using trigger_latches(1) [OF t] w1 by simp
  from serve_all_latched [OF this assms(6,5)] this have "is_engaged (fst (hw_stop w2))" "only_passive (hw_ladder w1) (hw_ladder w2)"
    by (simp_all add: is_engaged_def)
  then show ?thesis using res w1 trigger_latches(2,3) [OF t] by auto
qed

text \<open>A machine with modes is stopped by a request whose body does not parse; then a client tries to drive its output.\<close>

definition demo_call :: call_body where
  "demo_call = \<lparr> cb_provider_id = ''p'', cb_device_id = ''d'', cb_function_id = 7,
     cb_args = [(''level'', \<lparr> v_type = VALUE_TYPE_UINT64, v_kind = K_Uint64 40 \<rparr>)] \<rparr>"

definition demo_texts :: HttpTexts where
  "demo_texts = \<lparr> tx_parse = (\<lambda>_. ''parse error''), tx_convert = (\<lambda>_. []), tx_decode = (\<lambda>_. []), tx_call = (\<lambda>_. []), tx_action = (\<lambda>_. []),
     tx_param = (\<lambda>_. []), tx_save = [], tx_open = (\<lambda>_. []), tx_close = (\<lambda>_. []), tx_event = (\<lambda>_. []) \<rparr>"

definition demo_http_env :: HttpEnv where
  "demo_http_env = \<lparr> hv_texts = demo_texts, hv_json = table_http [call_document demo_call], hv_router = latched_env,
     hv_mode = level_te True False, hv_fault = level_te True, hv_estop = demo_estop_env, hv_refusal = None,
     hv_open = \<lparr> oe_run_id = ''1'', oe_now = 1, oe_version = ''1'', oe_record = calm, oe_event = calm \<rparr>,
     hv_close = \<lparr> cl_now = 2, cl_record = calm, cl_event = calm \<rparr>, hv_append = calm, hv_loaded = None \<rparr>"

definition demo_setup :: HttpSetup where
  "demo_setup = \<lparr> hx_http = demo_http, hx_safety = level_safety True, hx_hooks = level_hooks, hx_has_modes = True, hx_has_stop = True \<rparr>"

definition demo_http_world :: HttpWorld where
  "demo_http_world = \<lparr> hw_ladder = level_ladder, hw_modes = level_world, hw_stop = (new_controller\<lparr> ec_has_mode_manager := True \<rparr>, Map.empty),
     hw_params = None, hw_changes = [], hw_runs = (None, empty_disk) \<rparr>"

abbreviation demo_stop :: HttpRequest where
  "demo_stop \<equiv> demo_post ''https://ui.lab'' ''s3''"

abbreviation demo_drive :: HttpRequest where
  "demo_drive \<equiv> demo_stop\<lparr> hr_path := ''/v0/call'', hr_body := ''A'' \<rparr>"

abbreviation demo_stopped :: HttpWorld where
  "demo_stopped \<equiv> snd (serve_post demo_setup demo_http_env demo_stop demo_http_world)"

theorem http_stop_holds_witness:
  "rs_status (fst (serve_post demo_setup demo_http_env demo_stop demo_http_world)) = 200 \<and> current_mode (mw_mode (hw_modes demo_stopped)) = FAULT \<and>
   map rs_status (fst (serve_all demo_setup [(demo_http_env, demo_drive)] demo_stopped)) = [409] \<and>
   is_engaged (fst (hw_stop (snd (serve_all demo_setup [(demo_http_env, demo_drive)] demo_stopped))))"
proof -
  have guard: "pre_routing (hx_http demo_setup) demo_stop = None" by code_simp
  have path: "hr_path demo_stop = ''/v0/estop''" and stop: "hx_has_stop demo_setup" by (simp_all add: demo_post_def demo_setup_def)
  have latched: "is_engaged (fst (hw_stop demo_stopped))" by code_simp
  then have "reads_latch (fst (hw_stop demo_stopped)) demo_http_env"
    by (simp add: reads_latch_def latch_of_def admits_fault_entry_hooks_def demo_http_env_def latched_env_def open_env_def level_te_def)
  moreover have "leaves_stop demo_drive" by code_simp
  ultimately have "list_all (\<lambda>(env, req). reads_latch (fst (hw_stop demo_stopped)) env \<and> leaves_stop req) [(demo_http_env, demo_drive)]" by simp
  note holds = http_stop_holds [OF stop guard path prod.collapse [symmetric] prod.collapse [symmetric] this]
  have "\<not> fst (engage (hv_estop demo_http_env) (estop_reason (hv_json demo_http_env) demo_stop) (hw_stop demo_http_world))" by code_simp
  moreover have "ec_has_mode_manager (fst (hw_stop demo_http_world))" by (simp add: demo_http_world_def)
  moreover have "map rs_status (fst (serve_all demo_setup [(demo_http_env, demo_drive)] demo_stopped)) = [409]" by code_simp
  ultimately show ?thesis using holds by simp
qed

end
