(* ===== verification/Spec2Isabelle.thy ===== *)
theory Spec2Isabelle
  imports Anolis_Prelude Provider_Supervisor Supervision_Loop Framed_Stdio Protocol Device_Registry
    Provider_Handle Mode_Manager Parameter_Manager Event_Emitter State_Cache Device_Loss_Latch Call_Router
    Runtime_Config Latch_Store Safe_State Stop_Chain Actuation_Gate Ownership_Validation Runtime_Hooks Runtime_Lifecycle
    Run_Types Run_Log Run_Journal Run_Events Run_Id Bt_Nodes Bt_Runtime
    Line_Protocol Health_Snapshot Telemetry Http_Codec Http_Guard Http_Handlers
begin

text \<open>
  A verification development for the anolis runtime core, the C++ program under \<^verbatim>\<open>src/core\<close>.

  \<^bold>\<open>The program.\<close> The runtime starts device providers as child processes and talks to each over length-prefixed frames on
  its standard streams. It keeps an inventory of their devices, polls the devices into a cache, and lets callers (an
  operator over HTTP, a behaviour tree, the safe-state ladder, mode-transition hooks) call device functions through one
  router. A mode (MANUAL, AUTO, IDLE, FAULT) and two latches, the software stop and the loss of a device, decide which calls
  may pass. Providers that crash are restarted within a budget. A run registry keeps an append-only journal of what was
  done. Every theory below models one of these parts; its own opening text says which functions and how.

  \<^bold>\<open>Conventions.\<close> A class is a record, an enum a datatype, \<open>std::unordered_map\<close> an association list updated with
  \<open>AList.update\<close>, \<open>std::map\<close> a sorted one (\<open>omap_put\<close>); both satisfy the locale \<open>dictionary\<close> of the prelude. 64-bit integers are
  words; \<open>double\<close> is its IEEE bit pattern; texts are strings, and an error text is a constructor of a datatype with the
  values it prints where no code reads the text. A method that holds its mutex throughout is one function; where the
  code reads a shared value several times or releases a lock in between, each reading is an argument of its own, so other
  threads may act there. Answers from outside (the operating system, providers, clocks, random bits, the protobuf, JSON and
  behaviour-tree libraries) are arguments or fields of an environment record; what a theorem needs of a library is a
  hypothesis, shown satisfiable by the witness. Log lines are left out.

  \<^bold>\<open>Providers.\<close>
  \<^item> \<open>Framed_Stdio\<close> (\<^verbatim>\<open>provider/framed_stdio_client.cpp\<close>): \<open>write_frame\<close>, \<open>read_frame\<close> over any pattern of partial and
    interrupted system calls; frames survive the trip, sizes are bounded.
  \<^item> \<open>Protocol\<close>: the messages of the generated protocol code, and arithmetic on doubles.
  \<^item> \<open>Provider_Handle\<close> (\<^verbatim>\<open>provider/provider_handle.cpp\<close>): sessions and exchanges; a healthy session is in step, an exchange
    past its deadline can hang only in a write that blocks, \<open>start\<close> reports exactly whether there is a session.
  \<^item> \<open>Provider_Supervisor\<close>, \<open>Supervision_Loop\<close> (\<^verbatim>\<open>provider/provider_supervisor.cpp\<close>, \<^verbatim>\<open>Runtime::run\<close>): crash budget, backoff,
    circuit breaker, and the loop that drives them; restarts between two recoveries stay within the budget.
  \<^item> \<open>Device_Registry\<close> (\<^verbatim>\<open>registry/device_registry.cpp\<close>, \<^verbatim>\<open>provider/provider_registry.cpp\<close>): discovery and lookup.
  \<^item> \<open>Ownership_Validation\<close>, \<open>Runtime_Lifecycle\<close> (\<^verbatim>\<open>runtime/ownership_validation.cpp\<close>, parts of \<^verbatim>\<open>runtime/runtime.cpp\<close>): claims on
    devices stay unique over restarts, a failed restart stops the old provider and leaves devices, poll plan and registered handles
    as they were, and what the preflight passed the ladder sends while the providers are available.

  \<^bold>\<open>State and events.\<close>
  \<^item> \<open>State_Cache\<close> (\<^verbatim>\<open>state/state_cache.cpp\<close>): polling, with the device reads of concurrent polls in any order; availability events
    alternate and agree with the cache, and so do reachability edges ordered by their numbers, in whatever order they arrive.
  \<^item> \<open>Event_Emitter\<close> (\<^verbatim>\<open>events\<close>): fan-out into bounded queues, which keep the newest events in order and count the lost ones
    (locale \<open>lossy_queue\<close>).
  \<^item> \<open>Parameter_Manager\<close> (\<^verbatim>\<open>automation/parameter_manager.cpp\<close>): parameters always have their type, and their bounds as far as
    doubles are finite and integers exact as doubles.

  \<^bold>\<open>Actuation and stop.\<close>
  \<^item> \<open>Call_Router\<close> (\<^verbatim>\<open>control/call_router.cpp\<close>): a call that reaches a provider was admitted by mode and latches under the
    provider's lock, its arguments fit the specification (a double that is not finite only in its type), a refusal has no effect.
  \<^item> \<open>Device_Loss_Latch\<close> (\<^verbatim>\<open>control/device_loss_latch.cpp\<close>, \<^verbatim>\<open>control/reissue_worker.cpp\<close>): numbered edges in any order give the same
    latched set (locale \<open>device_loss_view\<close>); a returning device gets its safe state again.
  \<^item> \<open>Latch_Store\<close> (\<^verbatim>\<open>control/latch_store.cpp\<close>): the latch file is never torn.
  \<^item> \<open>Safe_State\<close> (\<^verbatim>\<open>control/safe_state.cpp\<close>): the ladder drives what it reports driven, the zero rung sends zeros, the latch
    survives a restart.
  \<^item> \<open>Stop_Chain\<close> (\<^verbatim>\<open>control/stop_chain.cpp\<close>): a stop signal that cannot be trusted counts as held.
  \<^item> \<open>Mode_Manager\<close>, \<open>Runtime_Hooks\<close>, \<open>Actuation_Gate\<close> (\<^verbatim>\<open>automation/mode_manager.cpp\<close>, \<^verbatim>\<open>Runtime::init_automation\<close>,
    \<^verbatim>\<open>runtime/actuation_gate.cpp\<close>): legal transitions under any interleaving, FAULT always reachable and running every hook,
    AUTO only behind an open gate. \<open>gate_step\<close> interleaves mode changes, the stop, the stop chain and restarts; a write of the
    latch record that throws out of a stop, which leaves AUTO on with the latch engaged, is a step of it too.

  \<^bold>\<open>Automation and runs.\<close>
  \<^item> \<open>Bt_Nodes\<close>, \<open>Bt_Runtime\<close> (\<^verbatim>\<open>automation/bt_nodes.cpp\<close>, \<^verbatim>\<open>automation/bt_runtime.cpp\<close>): the tick of every node, and one iteration of
    the tick loop composed with the router, the mode transition and the journal's queue. A throwing tick ends in FAULT,
    a call failing too often in a row throws, a terminal result ends the run for as long as AUTO lasts.
  \<^item> \<open>Run_Types\<close>, \<open>Run_Log\<close>, \<open>Run_Journal\<close>, \<open>Run_Events\<close>, \<open>Run_Id\<close> (\<^verbatim>\<open>runs\<close>): records and their JSON, the append-only log with
    power cuts, the journal's operations (locale \<open>journal_invariant\<close>: what every operation and restart keeps holds in
    every session), event numbering, run ids.
  \<^item> \<open>Runtime_Config\<close> (\<^verbatim>\<open>runtime/config.hpp\<close>, \<^verbatim>\<open>validate_config\<close> of \<^verbatim>\<open>runtime/config.cpp\<close>): what validation guarantees to the
    supervisor and the other parts.

  \<^bold>\<open>Health and telemetry.\<close>
  \<^item> \<open>Health_Snapshot\<close> (\<^verbatim>\<open>health/health_snapshot.cpp\<close>): one row per device from cache, registry and provider report; the rows are
    exact and complete, identity texts are cut only between UTF-8 sequences.
  \<^item> \<open>Line_Protocol\<close>, \<open>Telemetry\<close> (\<^verbatim>\<open>telemetry\<close>): rows of the InfluxDB line protocol, read back by the escaping rules that
    \<^verbatim>\<open>influx_sink.hpp\<close> documents, so no text can forge a row; the sink accounts for every row through retries, rejections and restarts.

  \<^bold>\<open>HTTP interface.\<close>
  \<^item> \<open>Http_Codec\<close> (\<^verbatim>\<open>http/json.cpp\<close>): base64 and the JSON of values, devices and calls; a call body survives the trip.
  \<^item> \<open>Http_Guard\<close> (\<^verbatim>\<open>http/auth.cpp\<close>, \<^verbatim>\<open>http/errors.hpp\<close>, parts of \<^verbatim>\<open>http/server.cpp\<close>): the guard in front of every handler, exactly which
    requests pass it, the CORS headers and the routes.
  \<^item> \<open>Http_Handlers\<close> (\<^verbatim>\<open>http/handlers\<close>): the handlers for calls, devices, state, mode, the stop, parameters and runs, and
    \<open>serve_post\<close>, which composes guard, routes and handlers; a stop over HTTP holds against every later POST that
    neither clears nor repeats it.

  \<^bold>\<open>Bounds and fuel.\<close> Loops over system calls take the list of answers they get, one per turn, a \<open>write\<close> that does not
  return among them; \<open>exchange_hangs_only_in_write\<close> says when an exchange has returned. Every other recursion is structural or ends by a measure. Theorems about counters state
  the width: the failure count needs fewer than \<open>2 ^ 64 - 1\<close> calls in a run, pulse requests read values within \<open>2 ^ 60\<close>.

  \<^bold>\<open>Not modelled.\<close>
  \<^item> The rest of \<^verbatim>\<open>http\<close>: starting and stopping the cpp-httplib server; the read-only status pages and the event stream, which
    print views modelled elsewhere.
  \<^item> \<^verbatim>\<open>load_config\<close>: it reads the configuration records out of a yaml-cpp document.
  \<^item> \<^verbatim>\<open>provider/provider_process.cpp\<close>: fork, exec, pipes and signals.
  \<^item> Storage and scheduling below the level of the models: the latch file has its new content as soon as it is written, and a failing
    \<open>fsync\<close> only shows in the result of \<open>save\<close> (the run log, in contrast, has power cuts); a rebuild of the poll plan and the
    callbacks after a mode change are not interleaved with other threads.
  \<^item> \<^verbatim>\<open>logging\<close>, \<^verbatim>\<open>runtime/signal_handler.cpp\<close>, \<^verbatim>\<open>src/main.cpp\<close>: output and process start; construction and wiring of the parts in
    \<^verbatim>\<open>Runtime::initialize\<close>.
\<close>

end
